(* ===== verification/Prelude.thy ===== *)
theory Prelude
  imports Main "HOL-Library.Word" "HOL-Library.Multiset"
begin

text \<open>
  Shared vocabulary of the development.

  Integers of the Rust source are kept at their width.  An unsigned \<open>u64\<close>/\<open>usize\<close> is a
  \<^typ>\<open>nat\<close> whose saturating, checked and wrapping operations are written out below; an
  \<open>i32\<close> is an \<^typ>\<open>int\<close> with \<open>wrap_i32\<close> (release arithmetic wraps, the profile of
  \<open>Cargo.toml\<close> does not turn overflow checks on) and \<open>u64_as_i32\<close> for the truncating
  \<open>as i32\<close> cast.  Addresses are genuine machine words.

  A fallible function returns \<open>'e + 'a\<close>, with \<open>Inl\<close> the error; \<open>rbind\<close> is the
  question-mark operator.  Strings are lists of bytes; \<open>to_lowercase\<close> is the ASCII part of
  Rust's \<open>str::to_lowercase\<close>, which is all the hexadecimal info hashes need.

  The locale \<open>invariant_system\<close> is the interface of every state machine below: a start
  predicate, a step relation and an invariant that both respect.
\<close>

named_theorems rust_arith \<open>unfolding of the fixed-width operations\<close>
named_theorems wf_intros \<open>introduction rules for well-formedness predicates\<close>

section \<open>Fixed-width arithmetic\<close>

type_synonym u64 = nat
type_synonym i32 = int

abbreviation u64_max :: nat where
  "u64_max \<equiv> 18446744073709551615"

abbreviation i32_max :: int where
  "i32_max \<equiv> 2147483647"

abbreviation i32_min :: int where
  "i32_min \<equiv> - 2147483648"

definition sat_add_u64 :: "u64 \<Rightarrow> u64 \<Rightarrow> u64" where
  "sat_add_u64 a b = min (a + b) u64_max"

definition sat_mul_u64 :: "u64 \<Rightarrow> u64 \<Rightarrow> u64" where
  "sat_mul_u64 a b = min (a * b) u64_max"

definition checked_add_u64 :: "u64 \<Rightarrow> u64 \<Rightarrow> u64 option" where
  "checked_add_u64 a b = (if a + b \<le> u64_max then Some (a + b) else None)"

definition checked_mul_u64 :: "u64 \<Rightarrow> u64 \<Rightarrow> u64 option" where
  "checked_mul_u64 a b = (if a * b \<le> u64_max then Some (a * b) else None)"

definition checked_sub_u64 :: "u64 \<Rightarrow> u64 \<Rightarrow> u64 option" where
  "checked_sub_u64 a b = (if b \<le> a then Some (a - b) else None)"

definition wrap_u64 :: "nat \<Rightarrow> u64" where
  "wrap_u64 n = n mod 18446744073709551616"

definition wrap_i32 :: "int \<Rightarrow> i32" where
  "wrap_i32 x = (x + 2147483648) mod 4294967296 - 2147483648"

definition u64_as_i32 :: "u64 \<Rightarrow> i32" where
  "u64_as_i32 n = wrap_i32 (int n)"

definition sat_sub_i32 :: "i32 \<Rightarrow> i32 \<Rightarrow> i32" where
  "sat_sub_i32 a b = max i32_min (min i32_max (a - b))"

definition clamp_i32 :: "i32 \<Rightarrow> i32 \<Rightarrow> i32 \<Rightarrow> i32" where
  "clamp_i32 x lo hi = max lo (min hi x)"

definition clamp_u64 :: "u64 \<Rightarrow> u64 \<Rightarrow> u64 \<Rightarrow> u64" where
  "clamp_u64 x lo hi = max lo (min hi x)"

definition div_ceil_u64 :: "u64 \<Rightarrow> u64 \<Rightarrow> u64" where
  "div_ceil_u64 a b = (if a mod b = 0 then a div b else a div b + 1)"

section \<open>Results\<close>

type_synonym ('e, 'a) result = "'e + 'a"

fun rbind :: "('e, 'a) result \<Rightarrow> ('a \<Rightarrow> ('e, 'b) result) \<Rightarrow> ('e, 'b) result" where
  "rbind (Inl e) f = Inl e"
| "rbind (Inr a) f = f a"

definition ok_or :: "'e \<Rightarrow> 'a option \<Rightarrow> ('e, 'a) result" where
  "ok_or e x = (case x of None \<Rightarrow> Inl e | Some a \<Rightarrow> Inr a)"

definition is_some_and :: "('a \<Rightarrow> bool) \<Rightarrow> 'a option \<Rightarrow> bool" where
  "is_some_and P x = (case x of None \<Rightarrow> False | Some a \<Rightarrow> P a)"

definition option_filter :: "('a \<Rightarrow> bool) \<Rightarrow> 'a option \<Rightarrow> 'a option" where
  "option_filter P x = (case x of None \<Rightarrow> None | Some a \<Rightarrow> if P a then Some a else None)"

section \<open>Strings\<close>

definition to_lower_char :: "char \<Rightarrow> char" where
  "to_lower_char c =
     (let n = (of_char c :: nat) in if 65 \<le> n \<and> n \<le> 90 then char_of (n + 32) else c)"

definition to_lowercase :: "string \<Rightarrow> string" where
  "to_lowercase s = map to_lower_char s"

abbreviation to_ascii_lowercase :: "string \<Rightarrow> string" where
  "to_ascii_lowercase \<equiv> to_lowercase"

text \<open>\<open>split\<close>: the pieces between the separators, at least one.\<close>

fun split_on :: "char \<Rightarrow> string \<Rightarrow> string list" where
  "split_on sep [] = [[]]"
| "split_on sep (b # bs) =
     (if b = sep then [] # split_on sep bs
      else case split_on sep bs of [] \<Rightarrow> [[b]] | p # ps \<Rightarrow> (b # p) # ps)"

section \<open>Reachability\<close>

inductive reach :: "('s \<Rightarrow> bool) \<Rightarrow> ('s \<Rightarrow> 's \<Rightarrow> bool) \<Rightarrow> 's \<Rightarrow> bool"
  for init :: "'s \<Rightarrow> bool" and step :: "'s \<Rightarrow> 's \<Rightarrow> bool" where
  reach_init: "init s \<Longrightarrow> reach init step s"
| reach_step: "reach init step s \<Longrightarrow> step s t \<Longrightarrow> reach init step t"

section \<open>Lemmas on the shared operations\<close>

lemma wrap_i32_id: "i32_min \<le> x \<Longrightarrow> x \<le> i32_max \<Longrightarrow> wrap_i32 x = x"
  by (simp add: wrap_i32_def)

lemma wrap_i32_range: "i32_min \<le> wrap_i32 x \<and> wrap_i32 x \<le> i32_max"
proof -
  have "0 \<le> (x + 2147483648) mod 4294967296" "(x + 2147483648) mod 4294967296 < 4294967296"
    by simp_all
  then show ?thesis unfolding wrap_i32_def by linarith
qed

lemma u64_as_i32_id: "n \<le> 2147483647 \<Longrightarrow> u64_as_i32 n = int n"
  by (simp add: u64_as_i32_def wrap_i32_id)

lemma sat_sub_i32_id: "i32_min \<le> a - b \<Longrightarrow> a - b \<le> i32_max \<Longrightarrow> sat_sub_i32 a b = a - b"
  by (simp add: sat_sub_i32_def)

lemma clamp_u64_bounds: "lo \<le> hi \<Longrightarrow> lo \<le> clamp_u64 x lo hi \<and> clamp_u64 x lo hi \<le> hi"
  by (auto simp: clamp_u64_def)

lemma clamp_i32_bounds: "lo \<le> hi \<Longrightarrow> lo \<le> clamp_i32 x lo hi \<and> clamp_i32 x lo hi \<le> hi"
  by (auto simp: clamp_i32_def)

lemma rbind_Inr_iff: "rbind r f = Inr b \<longleftrightarrow> (\<exists>a. r = Inr a \<and> f a = Inr b)"
  by (cases r) auto

lemma rbind_Inl_iff: "rbind r f = Inl e \<longleftrightarrow> r = Inl e \<or> (\<exists>a. r = Inr a \<and> f a = Inl e)"
  by (cases r) auto

lemma is_some_and_simps [simp]:
  "is_some_and P None = False" "is_some_and P (Some a) = P a"
  by (simp_all add: is_some_and_def)

lemma is_some_and_iff: "is_some_and P x \<longleftrightarrow> (\<exists>a. x = Some a \<and> P a)"
  by (cases x) auto

lemma option_filter_simps [simp]:
  "option_filter P None = None" "option_filter P (Some a) = (if P a then Some a else None)"
  by (simp_all add: option_filter_def)

lemma option_filter_Some_iff: "option_filter P x = Some a \<longleftrightarrow> x = Some a \<and> P a"
  by (cases x) auto

lemma ok_or_simps [simp]: "ok_or e None = Inl e" "ok_or e (Some a) = Inr a"
  by (simp_all add: ok_or_def)

lemma to_lower_char_idem [simp]: "to_lower_char (to_lower_char c) = to_lower_char c"
  by (auto simp: to_lower_char_def Let_def)

lemma to_lowercase_idem [simp]: "to_lowercase (to_lowercase s) = to_lowercase s"
  by (simp add: to_lowercase_def)

lemma split_on_nonempty: "split_on c bs \<noteq> []"
  by (induction bs) (auto split: list.splits)

lemma split_on_no_sep: "c \<notin> set p \<Longrightarrow> split_on c p = [p]"
  by (induction p) auto

lemma split_on_append_sep: "split_on c (xs @ c # ys) = split_on c xs @ split_on c ys"
  by (induction xs) (auto split: list.splits simp: split_on_nonempty)

text \<open>Sorting and then removing adjacent duplicates, the source's \<open>sort_unstable\<close>/\<open>dedup\<close>.\<close>

lemma distinct_remdups_adj_sorted: "sorted xs \<Longrightarrow> distinct (remdups_adj xs)"
  by (induction xs rule: remdups_adj.induct) (auto simp: less_le)

lemma sort_eq_Nil_iff [simp]: "sort xs = [] \<longleftrightarrow> xs = []"
  by (metis set_empty set_sort)

lemma sort_dedup_props:
  "sorted (remdups_adj (sort xs)) \<and> distinct (remdups_adj (sort xs)) \<and>
   set (remdups_adj (sort xs)) = set xs"
  by (simp add: sorted_remdups_adj distinct_remdups_adj_sorted)

lemma sort_dedup_cong: "set xs = set ys \<Longrightarrow> remdups_adj (sort xs) = remdups_adj (sort ys)"
  by (rule sorted_distinct_set_unique) (simp_all add: sort_dedup_props)

lemmas fixed_width_defs [rust_arith] =
  sat_add_u64_def sat_mul_u64_def checked_add_u64_def checked_mul_u64_def checked_sub_u64_def
  sat_sub_i32_def clamp_i32_def clamp_u64_def

section \<open>The interface of a state machine\<close>

locale invariant_system =
  fixes init :: "'s \<Rightarrow> bool"
    and step :: "'s \<Rightarrow> 's \<Rightarrow> bool"
    and inv :: "'s \<Rightarrow> bool"
  assumes inv_init: "init s \<Longrightarrow> inv s"
    and inv_step: "inv s \<Longrightarrow> step s t \<Longrightarrow> inv t"
begin

lemma reach_inv: "reach init step s \<Longrightarrow> inv s"
  by (induction rule: reach.induct) (auto intro: inv_init inv_step)

lemma reach_step_inv: "reach init step s \<Longrightarrow> step s t \<Longrightarrow> inv t"
  by (blast intro: inv_step reach_inv)

end

end
