(* ===== verification/IpPolicy.thy ===== *)
theory IpPolicy
  imports Prelude
begin

text \<open>
  The destination classifier of the outbound proxy (\<open>server/src/network_security/ip.rs\<close>).

  Addresses are 32- and 128-bit words.  \<open>octets\<close>, \<open>segments\<close>, \<open>to_ipv4_mapped\<close>,
  \<open>is_loopback\<close>, \<open>is_unspecified\<close> and \<open>is_unicast_link_local\<close> are the operations of
  \<open>std::net\<close> the source calls.  The crate \<open>ipnet\<close> is not part of the repository: its
  \<open>contains\<close>, \<open>network\<close>, \<open>IpNet::new\<close> and \<open>Ipv6Net::new\<close> are fields of the record \<open>ipnet_api\<close>, an
  argument of every definition that uses them, and \<open>ipnet_contract\<close> is the documented
  behaviour the code relies on.  \<open>cidr_api\<close> is an implementation of that contract.

  Shown here: the classification is a join of independent verdicts, does not depend on the
  order or multiplicity of the discovered NAT64 prefixes, never becomes weaker by wrapping an
  IPv4 address into IPv6, keeps cloud metadata endpoints blocked in every encoding, agrees
  with a table of numeric address ranges, and the RFC 6052 extraction inverts the embedding.
\<close>

unbundle bit_operations_syntax

section \<open>Addresses\<close>

type_synonym ipv4_addr = "32 word"
type_synonym ipv6_addr = "128 word"

datatype ip_addr = V4 ipv4_addr | V6 ipv6_addr

definition ipv4_new :: "8 word \<Rightarrow> 8 word \<Rightarrow> 8 word \<Rightarrow> 8 word \<Rightarrow> ipv4_addr" where
  "ipv4_new a b c d =
     push_bit 24 (ucast a) OR push_bit 16 (ucast b) OR push_bit 8 (ucast c) OR ucast d"

definition ipv6_new ::
  "16 word \<Rightarrow> 16 word \<Rightarrow> 16 word \<Rightarrow> 16 word \<Rightarrow> 16 word \<Rightarrow> 16 word \<Rightarrow> 16 word \<Rightarrow> 16 word \<Rightarrow> ipv6_addr"
where
  "ipv6_new a b c d e f g h =
     push_bit 112 (ucast a) OR push_bit 96 (ucast b) OR push_bit 80 (ucast c) OR
     push_bit 64 (ucast d) OR push_bit 48 (ucast e) OR push_bit 32 (ucast f) OR
     push_bit 16 (ucast g) OR ucast h"

definition octet :: "ipv6_addr \<Rightarrow> nat \<Rightarrow> 8 word" where
  "octet ip i = ucast (drop_bit (8 * (15 - i)) ip)"

definition octets :: "ipv6_addr \<Rightarrow> 8 word list" where
  "octets ip = map (octet ip) [0..<16]"

definition segment0 :: "ipv6_addr \<Rightarrow> 16 word" where
  "segment0 ip = ucast (drop_bit 112 ip)"

definition to_ipv4_mapped :: "ipv6_addr \<Rightarrow> ipv4_addr option" where
  "to_ipv4_mapped ip = (if drop_bit 32 ip = 0xffff then Some (ucast ip) else None)"

definition is_loopback_v6 :: "ipv6_addr \<Rightarrow> bool" where
  "is_loopback_v6 ip = (ip = 1)"

definition is_unicast_link_local :: "ipv6_addr \<Rightarrow> bool" where
  "is_unicast_link_local ip = (segment0 ip AND 0xffc0 = 0xfe80)"

fun is_loopback :: "ip_addr \<Rightarrow> bool" where
  "is_loopback (V4 ip) = (drop_bit 24 ip = 127)"
| "is_loopback (V6 ip) = is_loopback_v6 ip"

fun is_unspecified :: "ip_addr \<Rightarrow> bool" where
  "is_unspecified (V4 ip) = (ip = 0)"
| "is_unspecified (V6 ip) = (ip = 0)"

fun is_ipv4 :: "ip_addr \<Rightarrow> bool" where
  "is_ipv4 (V4 ip) = True"
| "is_ipv4 (V6 ip) = False"

text \<open>The derived order of \<open>IpAddr\<close>: every IPv4 address precedes every IPv6 address.\<close>

fun ip_le :: "ip_addr \<Rightarrow> ip_addr \<Rightarrow> bool" where
  "ip_le (V4 a) (V4 b) = (a \<le> b)"
| "ip_le (V4 a) (V6 b) = True"
| "ip_le (V6 a) (V4 b) = False"
| "ip_le (V6 a) (V6 b) = (a \<le> b)"

instantiation ip_addr :: linorder
begin
definition less_eq_ip_addr :: "ip_addr \<Rightarrow> ip_addr \<Rightarrow> bool" where
  "less_eq_ip_addr a b = ip_le a b"
definition less_ip_addr :: "ip_addr \<Rightarrow> ip_addr \<Rightarrow> bool" where
  "less_ip_addr a b = (ip_le a b \<and> a \<noteq> b)"
instance
proof
  fix x y z :: ip_addr
  show "(x < y) = (x \<le> y \<and> \<not> y \<le> x)"
    by (cases x; cases y) (auto simp: less_eq_ip_addr_def less_ip_addr_def)
  show "x \<le> x" by (cases x) (auto simp: less_eq_ip_addr_def)
  show "x \<le> y \<Longrightarrow> y \<le> z \<Longrightarrow> x \<le> z"
    by (cases x; cases y; cases z) (auto simp: less_eq_ip_addr_def)
  show "x \<le> y \<Longrightarrow> y \<le> x \<Longrightarrow> x = y"
    by (cases x; cases y) (auto simp: less_eq_ip_addr_def)
  show "x \<le> y \<or> y \<le> x"
    by (cases x; cases y) (auto simp: less_eq_ip_addr_def)
qed
end

section \<open>Networks and the interface of the ipnet crate\<close>

datatype ip_net = Net4 ipv4_addr nat | Net6 ipv6_addr nat

fun net_addr :: "ip_net \<Rightarrow> ip_addr" where
  "net_addr (Net4 a l) = V4 a"
| "net_addr (Net6 a l) = V6 a"

record ipnet_api =
  net_contains :: "ip_net \<Rightarrow> ip_addr \<Rightarrow> bool"
  net_network :: "ip_net \<Rightarrow> ip_addr"
  ipnet_new :: "ip_addr \<Rightarrow> nat \<Rightarrow> ip_net option"
  ipv6net_new :: "ipv6_addr \<Rightarrow> nat \<Rightarrow> ip_net option"

definition same_prefix :: "nat \<Rightarrow> 'a::len word \<Rightarrow> 'a word \<Rightarrow> bool" where
  "same_prefix l a b = (drop_bit (LENGTH('a) - l) a = drop_bit (LENGTH('a) - l) b)"

definition truncate_to :: "nat \<Rightarrow> 'a::len word \<Rightarrow> 'a word" where
  "truncate_to l a = push_bit (LENGTH('a) - l) (drop_bit (LENGTH('a) - l) a)"

definition ipnet_contract :: "ipnet_api \<Rightarrow> bool" where
  "ipnet_contract api \<longleftrightarrow>
     (\<forall>a l ip. l \<le> 32 \<longrightarrow> net_contains api (Net4 a l) (V4 ip) = same_prefix l a ip) \<and>
     (\<forall>a l ip. l \<le> 128 \<longrightarrow> net_contains api (Net6 a l) (V6 ip) = same_prefix l a ip) \<and>
     (\<forall>a l ip. \<not> net_contains api (Net4 a l) (V6 ip)) \<and>
     (\<forall>a l ip. \<not> net_contains api (Net6 a l) (V4 ip)) \<and>
     (\<forall>a l. l \<le> 32 \<longrightarrow> net_network api (Net4 a l) = V4 (truncate_to l a)) \<and>
     (\<forall>a l. l \<le> 128 \<longrightarrow> net_network api (Net6 a l) = V6 (truncate_to l a)) \<and>
     (\<forall>a l. ipnet_new api (V4 a) l = (if l \<le> 32 then Some (Net4 a l) else None)) \<and>
     (\<forall>a l. ipnet_new api (V6 a) l = (if l \<le> 128 then Some (Net6 a l) else None)) \<and>
     (\<forall>a l. ipv6net_new api a l = (if l \<le> 128 then Some (Net6 a l) else None))"

fun cidr_contains :: "ip_net \<Rightarrow> ip_addr \<Rightarrow> bool" where
  "cidr_contains (Net4 a l) (V4 ip) = same_prefix l a ip"
| "cidr_contains (Net6 a l) (V6 ip) = same_prefix l a ip"
| "cidr_contains _ _ = False"

fun cidr_network :: "ip_net \<Rightarrow> ip_addr" where
  "cidr_network (Net4 a l) = V4 (truncate_to l a)"
| "cidr_network (Net6 a l) = V6 (truncate_to l a)"

fun cidr_new :: "ip_addr \<Rightarrow> nat \<Rightarrow> ip_net option" where
  "cidr_new (V4 a) l = (if l \<le> 32 then Some (Net4 a l) else None)"
| "cidr_new (V6 a) l = (if l \<le> 128 then Some (Net6 a l) else None)"

definition cidr_api :: ipnet_api where
  "cidr_api = \<lparr>net_contains = cidr_contains, net_network = cidr_network, ipnet_new = cidr_new,
     ipv6net_new = (\<lambda>a l. if l \<le> 128 then Some (Net6 a l) else None)\<rparr>"

section \<open>The data of the classifier\<close>

datatype destination_class = Public | PrivateSource | AlwaysBlocked

record local_network_entry =
  network :: ip_net
  if_name :: string
  if_index :: "nat option"
  adapter_id :: "string option"

record local_networks =
  interfaces :: "local_network_entry list"

definition entry_of_network :: "ip_net \<Rightarrow> local_network_entry" where
  "entry_of_network n = \<lparr>network = n, if_name = [], if_index = None, adapter_id = None\<rparr>"

definition local_contains :: "ipnet_api \<Rightarrow> local_networks \<Rightarrow> ip_addr \<Rightarrow> bool" where
  "local_contains api local ip =
     list_ex (\<lambda>interface. net_contains api (network interface) ip) (interfaces local)"

definition local_contains_address :: "local_networks \<Rightarrow> ip_addr \<Rightarrow> bool" where
  "local_contains_address local ip =
     list_ex (\<lambda>interface. net_addr (network interface) = ip) (interfaces local)"

record nat64_prefix =
  prefix_network :: ipv6_addr
  prefix_length :: nat

definition WELL_KNOWN_NAT64 :: nat64_prefix where
  "WELL_KNOWN_NAT64 = \<lparr>prefix_network = ipv6_new 0x64 0xff9b 0 0 0 0 0 0, prefix_length = 96\<rparr>"

definition PRIVATE_V4_NETS :: "ip_net list" where
  "PRIVATE_V4_NETS =
     [Net4 (ipv4_new 10 0 0 0) 8, Net4 (ipv4_new 100 64 0 0) 10, Net4 (ipv4_new 127 0 0 0) 8,
      Net4 (ipv4_new 169 254 0 0) 16, Net4 (ipv4_new 172 16 0 0) 12,
      Net4 (ipv4_new 192 168 0 0) 16]"

definition ALWAYS_BLOCKED_V4_NETS :: "ip_net list" where
  "ALWAYS_BLOCKED_V4_NETS =
     [Net4 (ipv4_new 0 0 0 0) 8, Net4 (ipv4_new 192 0 0 0) 24, Net4 (ipv4_new 192 0 2 0) 24,
      Net4 (ipv4_new 192 31 196 0) 24, Net4 (ipv4_new 192 52 193 0) 24,
      Net4 (ipv4_new 192 88 99 0) 24, Net4 (ipv4_new 192 175 48 0) 24,
      Net4 (ipv4_new 198 18 0 0) 15, Net4 (ipv4_new 198 51 100 0) 24,
      Net4 (ipv4_new 203 0 113 0) 24, Net4 (ipv4_new 224 0 0 0) 4, Net4 (ipv4_new 240 0 0 0) 4]"

definition METADATA_V4_NETS :: "ip_net list" where
  "METADATA_V4_NETS =
     [Net4 (ipv4_new 168 63 129 16) 32, Net4 (ipv4_new 169 254 0 23) 32,
      Net4 (ipv4_new 169 254 10 10) 32, Net4 (ipv4_new 169 254 42 42) 32,
      Net4 (ipv4_new 169 254 169 253) 32, Net4 (ipv4_new 169 254 169 254) 32,
      Net4 (ipv4_new 169 254 170 2) 32, Net4 (ipv4_new 169 254 170 23) 32,
      Net4 (ipv4_new 100 100 100 200) 32, Net4 (ipv4_new 192 0 0 192) 32]"

definition PRIVATE_V6_NETS :: "ip_net list" where
  "PRIVATE_V6_NETS =
     [Net6 (ipv6_new 0 0 0 0 0 0 0 1) 128, Net6 (ipv6_new 0xfc00 0 0 0 0 0 0 0) 7,
      Net6 (ipv6_new 0xfe80 0 0 0 0 0 0 0) 10]"

definition ALWAYS_BLOCKED_V6_NETS :: "ip_net list" where
  "ALWAYS_BLOCKED_V6_NETS =
     [Net6 (ipv6_new 0 0 0 0 0 0 0 0) 128, Net6 (ipv6_new 0x100 0 0 0 0 0 0 0) 64,
      Net6 (ipv6_new 0x100 0 0 1 0 0 0 0) 64, Net6 (ipv6_new 0x2001 0 0 0 0 0 0 0) 23,
      Net6 (ipv6_new 0x2001 0xdb8 0 0 0 0 0 0) 32, Net6 (ipv6_new 0x2620 0x4f 0x8000 0 0 0 0 0) 48,
      Net6 (ipv6_new 0x3ffe 0 0 0 0 0 0 0) 16, Net6 (ipv6_new 0x3fff 0 0 0 0 0 0 0) 20,
      Net6 (ipv6_new 0x5f00 0 0 0 0 0 0 0) 16, Net6 (ipv6_new 0xff00 0 0 0 0 0 0 0) 8]"

definition METADATA_V6_NETS :: "ip_net list" where
  "METADATA_V6_NETS =
     [Net6 (ipv6_new 0xfd00 0x42 0 0 0 0 0 0x42) 128, Net6 (ipv6_new 0xfd00 0xec2 0 0 0 0 0 0x23) 128,
      Net6 (ipv6_new 0xfd00 0xec2 0 0 0 0 0 0x254) 128,
      Net6 (ipv6_new 0xfd20 0xce 0 0 0 0 0 0x254) 128]"

definition GLOBAL_UNICAST_V6_NET :: ip_net where
  "GLOBAL_UNICAST_V6_NET = Net6 (ipv6_new 0x2000 0 0 0 0 0 0 0) 3"

definition RFC8215_NET :: ip_net where
  "RFC8215_NET = Net6 (ipv6_new 0x64 0xff9b 1 0 0 0 0 0) 48"

section \<open>Operations\<close>

definition contains :: "ipnet_api \<Rightarrow> ip_net list \<Rightarrow> ip_addr \<Rightarrow> bool" where
  "contains api networks ip = list_ex (\<lambda>n. net_contains api n ip) networks"

definition classify_v4 :: "ipnet_api \<Rightarrow> ipv4_addr \<Rightarrow> local_networks \<Rightarrow> destination_class" where
  "classify_v4 api ip local =
     (if contains api METADATA_V4_NETS (V4 ip) \<or> contains api ALWAYS_BLOCKED_V4_NETS (V4 ip)
      then AlwaysBlocked
      else if local_contains api local (V4 ip) \<or> contains api PRIVATE_V4_NETS (V4 ip)
      then PrivateSource
      else Public)"

definition extract_6to4 :: "ipv6_addr \<Rightarrow> ipv4_addr option" where
  "extract_6to4 ip =
     (let os = octets ip
      in if take 2 os = [0x20, 0x02] then Some (ipv4_new (os ! 2) (os ! 3) (os ! 4) (os ! 5)) else None)"

definition extract_teredo_client :: "ipv6_addr \<Rightarrow> ipv4_addr option" where
  "extract_teredo_client ip =
     (let os = octets ip
      in if take 4 os = [0x20, 0x01, 0x00, 0x00]
         then Some (ipv4_new (NOT (os ! 12)) (NOT (os ! 13)) (NOT (os ! 14)) (NOT (os ! 15)))
         else None)"

definition extract_ipv4_compatible :: "ipv6_addr \<Rightarrow> ipv4_addr option" where
  "extract_ipv4_compatible ip =
     (let os = octets ip
      in if list_all (\<lambda>b. b = 0) (take 12 os)
         then let embedded = ipv4_new (os ! 12) (os ! 13) (os ! 14) (os ! 15)
              in if embedded \<noteq> 0 \<and> embedded \<noteq> ipv4_new 0 0 0 1 then Some embedded else None
         else None)"

definition extract_ipv4_translatable :: "ipv6_addr \<Rightarrow> ipv4_addr option" where
  "extract_ipv4_translatable ip =
     (let os = octets ip
      in if list_all (\<lambda>b. b = 0) (take 8 os) \<and> take 4 (drop 8 os) = [0xff, 0xff, 0x00, 0x00]
         then Some (ipv4_new (os ! 12) (os ! 13) (os ! 14) (os ! 15))
         else None)"

definition VALID_LENGTHS :: "nat list" where
  "VALID_LENGTHS = [32, 40, 48, 56, 64, 96]"

definition prefix_mask :: "nat \<Rightarrow> ipv6_addr" where
  "prefix_mask l = (if l = 0 then 0 else push_bit (128 - l) (- 1))"

definition extract_rfc6052 :: "ipv6_addr \<Rightarrow> nat64_prefix \<Rightarrow> ipv4_addr option" where
  "extract_rfc6052 ip prefix =
     (if prefix_length prefix \<notin> set VALID_LENGTHS then None
      else
        let m = prefix_mask (prefix_length prefix)
        in if ip AND m \<noteq> prefix_network prefix AND m then None
           else
             let bytes = octets ip;
                 embedded =
                   (if prefix_length prefix = 32
                    then Some (ipv4_new (bytes ! 4) (bytes ! 5) (bytes ! 6) (bytes ! 7))
                    else if prefix_length prefix = 40
                    then Some (ipv4_new (bytes ! 5) (bytes ! 6) (bytes ! 7) (bytes ! 9))
                    else if prefix_length prefix = 48
                    then Some (ipv4_new (bytes ! 6) (bytes ! 7) (bytes ! 9) (bytes ! 10))
                    else if prefix_length prefix = 56
                    then Some (ipv4_new (bytes ! 7) (bytes ! 9) (bytes ! 10) (bytes ! 11))
                    else if prefix_length prefix = 64
                    then Some (ipv4_new (bytes ! 9) (bytes ! 10) (bytes ! 11) (bytes ! 12))
                    else if prefix_length prefix = 96
                    then Some (ipv4_new (bytes ! 12) (bytes ! 13) (bytes ! 14) (bytes ! 15))
                    else None)
             in case embedded of
                  None \<Rightarrow> None
                | Some e \<Rightarrow> if bytes ! 8 \<noteq> 0 then None else Some e)"

fun nets_overlap :: "ipnet_api \<Rightarrow> ip_net \<Rightarrow> ip_net \<Rightarrow> bool" where
  "nets_overlap api candidate (Net6 a l) =
     (net_contains api candidate (net_network api (Net6 a l)) \<or>
      net_contains api (Net6 a l) (net_network api candidate))"
| "nets_overlap api candidate (Net4 a l) = False"

definition nat64_prefix_is_usable :: "ipnet_api \<Rightarrow> nat64_prefix \<Rightarrow> bool" where
  "nat64_prefix_is_usable api prefix =
     (if prefix_length prefix \<notin> set VALID_LENGTHS \<or> octets (prefix_network prefix) ! 8 \<noteq> 0
      then False
      else case ipv6net_new api (prefix_network prefix) (prefix_length prefix) of
        None \<Rightarrow> False
      | Some candidate \<Rightarrow>
          if net_network api candidate \<noteq> V6 (prefix_network prefix) then False
          else if list_ex (nets_overlap api candidate) (ALWAYS_BLOCKED_V6_NETS @ METADATA_V6_NETS)
          then False
          else if prefix = WELL_KNOWN_NAT64 then True
          else
            let is_valid_rfc8215_subprefix =
                  (prefix_length prefix \<in> {56, 64, 96} \<and>
                   net_contains api RFC8215_NET (net_network api candidate));
                ip = V6 (prefix_network prefix)
            in net_contains api GLOBAL_UNICAST_V6_NET ip \<or>
               segment0 (prefix_network prefix) AND 0xfe00 = 0xfc00 \<or>
               is_valid_rfc8215_subprefix)"

definition nat64_prefix_address_space_is_valid :: "ipnet_api \<Rightarrow> nat64_prefix \<Rightarrow> bool" where
  "nat64_prefix_address_space_is_valid api prefix = nat64_prefix_is_usable api prefix"

definition embedded_ipv4_candidates ::
  "ipnet_api \<Rightarrow> ipv6_addr \<Rightarrow> nat64_prefix list \<Rightarrow> ipv4_addr list" where
  "embedded_ipv4_candidates api ip prefixes =
     (let mapped = (case to_ipv4_mapped ip of Some m \<Rightarrow> [m] | None \<Rightarrow> []);
          wk = (case extract_rfc6052 ip WELL_KNOWN_NAT64 of Some e \<Rightarrow> [e] | None \<Rightarrow> []);
          discovered = List.map_filter (extract_rfc6052 ip)
            (filter (nat64_prefix_address_space_is_valid api) prefixes)
      in remdups_adj (sort (mapped @ wk @ discovered)))"

definition is_rfc8215_address :: "ipnet_api \<Rightarrow> ipv6_addr \<Rightarrow> bool" where
  "is_rfc8215_address api ip = net_contains api RFC8215_NET (V6 ip)"

definition normalized_embedded_ipv4 ::
  "ipnet_api \<Rightarrow> ipv6_addr \<Rightarrow> nat64_prefix list \<Rightarrow> ipv4_addr option" where
  "normalized_embedded_ipv4 api ip nat64 =
     (case embedded_ipv4_candidates api ip nat64 of [] \<Rightarrow> None | x # _ \<Rightarrow> Some x)"

fun combine_classes :: "destination_class \<Rightarrow> destination_class \<Rightarrow> destination_class" where
  "combine_classes AlwaysBlocked _ = AlwaysBlocked"
| "combine_classes _ AlwaysBlocked = AlwaysBlocked"
| "combine_classes PrivateSource _ = PrivateSource"
| "combine_classes _ PrivateSource = PrivateSource"
| "combine_classes Public Public = Public"

definition classify_v6 ::
  "ipnet_api \<Rightarrow> ipv6_addr \<Rightarrow> local_networks \<Rightarrow> nat64_prefix list \<Rightarrow> destination_class" where
  "classify_v6 api ip local nat64 =
     (case to_ipv4_mapped ip of
        Some embedded \<Rightarrow> classify_v4 api embedded local
      | None \<Rightarrow>
          if extract_ipv4_compatible ip \<noteq> None \<or> extract_ipv4_translatable ip \<noteq> None \<or>
             extract_6to4 ip \<noteq> None \<or> extract_teredo_client ip \<noteq> None
          then AlwaysBlocked
          else
            let native = V6 ip
            in if contains api METADATA_V6_NETS native \<or> contains api ALWAYS_BLOCKED_V6_NETS native
               then AlwaysBlocked
               else
                 let embedded = embedded_ipv4_candidates api ip nat64
                 in if embedded \<noteq> []
                    then
                      let cls = foldl combine_classes Public
                                  (map (\<lambda>e. classify_v4 api e local) embedded)
                      in if local_contains_address local native
                         then combine_classes cls PrivateSource else cls
                    else if local_contains api local native \<or> contains api PRIVATE_V6_NETS native
                    then PrivateSource
                    else if net_contains api GLOBAL_UNICAST_V6_NET native
                    then Public
                    else AlwaysBlocked)"

fun classify_ip ::
  "ipnet_api \<Rightarrow> ip_addr \<Rightarrow> local_networks \<Rightarrow> nat64_prefix list \<Rightarrow> destination_class" where
  "classify_ip api (V4 ip) local nat64 = classify_v4 api ip local"
| "classify_ip api (V6 ip) local nat64 = classify_v6 api ip local nat64"

section \<open>Severity: the classes form a chain and combine to their maximum\<close>

fun severity :: "destination_class \<Rightarrow> nat" where
  "severity Public = 0"
| "severity PrivateSource = 1"
| "severity AlwaysBlocked = 2"

lemma severity_inj: "severity a = severity b \<Longrightarrow> a = b"
  by (cases a; cases b) auto

instantiation destination_class :: linorder
begin
definition less_eq_destination_class :: "destination_class \<Rightarrow> destination_class \<Rightarrow> bool" where
  "less_eq_destination_class a b = (severity a \<le> severity b)"
definition less_destination_class :: "destination_class \<Rightarrow> destination_class \<Rightarrow> bool" where
  "less_destination_class a b = (severity a < severity b)"
instance
  by standard (auto simp: less_eq_destination_class_def less_destination_class_def severity_inj)
end

lemma combine_classes_max: "combine_classes a b = max a b"
  by (cases a; cases b) (auto simp: max_def less_eq_destination_class_def)

lemma Public_least [simp]: "Public \<le> c"
  by (simp add: less_eq_destination_class_def)

lemma AlwaysBlocked_greatest [simp]: "c \<le> AlwaysBlocked"
  by (cases c) (auto simp: less_eq_destination_class_def)

interpretation cls: semilattice_neutr combine_classes Public
  by unfold_locales
    (auto simp: combine_classes_max max_absorb1 intro: max.assoc max.commute)

lemma foldl_combine_max: "foldl combine_classes c xs = fold max xs c"
  by (induction xs arbitrary: c) (simp_all add: combine_classes_max max.commute)

lemma foldl_combine_Max: "foldl combine_classes c xs = Max (insert c (set xs))"
  by (simp add: foldl_combine_max Max.set_eq_fold flip: list.set(2))

lemma foldl_combine_upper: "x \<in> set xs \<Longrightarrow> x \<le> foldl combine_classes c xs"
  by (simp add: foldl_combine_Max)

lemma foldl_combine_set_cong: "set xs = set ys \<Longrightarrow> foldl combine_classes c xs = foldl combine_classes c ys"
  by (simp add: foldl_combine_Max)

section \<open>Prefixes as masked words\<close>

lemma and_prefix_mask_eq_iff:
  fixes a b :: ipv6_addr
  assumes "0 < l" "l \<le> 128"
  shows "a AND prefix_mask l = b AND prefix_mask l \<longleftrightarrow> drop_bit (128 - l) a = drop_bit (128 - l) b"
proof -
  have m: "c AND prefix_mask l = push_bit (128 - l) (drop_bit (128 - l) c)" for c :: ipv6_addr
    by (rule bit_word_eqI) (use assms in \<open>auto simp: prefix_mask_def bit_simps\<close>)
  have "drop_bit (128 - l) (push_bit (128 - l) (drop_bit (128 - l) c)) = drop_bit (128 - l) c"
    for c :: ipv6_addr
    by (rule bit_word_eqI) (auto simp: bit_simps dest: bit_imp_le_length)
  then show ?thesis by (metis m)
qed

lemma drop_bit_mono_eq:
  fixes a b :: "'a::len word"
  shows "drop_bit m a = drop_bit m b \<Longrightarrow> m \<le> n \<Longrightarrow> drop_bit n a = drop_bit n b"
  by (metis drop_bit_drop_bit le_add_diff_inverse add.commute)

lemma valid_length_bounds: "l \<in> set VALID_LENGTHS \<Longrightarrow> 32 \<le> l \<and> l \<le> 96"
  by (auto simp: VALID_LENGTHS_def)

lemma extract_rfc6052_SomeD:
  assumes "extract_rfc6052 ip p = Some e"
  shows "prefix_length p \<in> set VALID_LENGTHS"
    "drop_bit (128 - prefix_length p) ip = drop_bit (128 - prefix_length p) (prefix_network p)"
    "drop_bit 96 ip = drop_bit 96 (prefix_network p)"
proof -
  show v: "prefix_length p \<in> set VALID_LENGTHS"
    using assms by (auto simp: extract_rfc6052_def split: if_splits)
  have "ip AND prefix_mask (prefix_length p) = prefix_network p AND prefix_mask (prefix_length p)"
    using assms by (auto simp: extract_rfc6052_def Let_def split: if_splits)
  then show d: "drop_bit (128 - prefix_length p) ip = drop_bit (128 - prefix_length p) (prefix_network p)"
    using valid_length_bounds [OF v] by (simp add: and_prefix_mask_eq_iff)
  show "drop_bit 96 ip = drop_bit 96 (prefix_network p)"
    by (rule drop_bit_mono_eq [OF d]) (use valid_length_bounds [OF v] in linarith)
qed

lemma extract_rfc6052_None:
  "drop_bit (128 - prefix_length p) ip \<noteq> drop_bit (128 - prefix_length p) (prefix_network p) \<Longrightarrow>
   extract_rfc6052 ip p = None"
  by (metis extract_rfc6052_SomeD(2) not_None_eq)

lemma to_ipv4_mapped_high: "to_ipv4_mapped ip = Some m \<Longrightarrow> drop_bit 96 ip = 0"
proof -
  assume "to_ipv4_mapped ip = Some m"
  then have "drop_bit 32 ip = 0xffff" by (auto simp: to_ipv4_mapped_def split: if_splits)
  then have "drop_bit 64 (drop_bit 32 ip) = drop_bit 64 (0xffff :: ipv6_addr)" by simp
  then show ?thesis by simp
qed

section \<open>The interface of the ipnet crate\<close>

locale ipnet_interface =
  fixes api :: ipnet_api
  assumes contract: "ipnet_contract api"
begin

lemma contains4: "l \<le> 32 \<Longrightarrow> net_contains api (Net4 a l) (V4 ip) = same_prefix l a ip"
  using contract by (simp add: ipnet_contract_def)

lemma contains6: "l \<le> 128 \<Longrightarrow> net_contains api (Net6 a l) (V6 ip) = same_prefix l a ip"
  using contract by (simp add: ipnet_contract_def)

lemma network6: "l \<le> 128 \<Longrightarrow> net_network api (Net6 a l) = V6 (truncate_to l a)"
  using contract by (simp add: ipnet_contract_def)

lemma new6: "ipv6net_new api a l = (if l \<le> 128 then Some (Net6 a l) else None)"
  using contract by (simp add: ipnet_contract_def)

lemma usable_prefix_high:
  assumes "nat64_prefix_is_usable api p"
  shows "drop_bit 96 (prefix_network p) \<noteq> 0"
proof
  let ?n = "prefix_network p"
  assume z: "drop_bit 96 ?n = 0"
  have h: "drop_bit k ?n = 0" if "96 \<le> k" for k
    using drop_bit_mono_eq [of 96 ?n 0 k] z that by simp
  have v: "prefix_length p \<in> set VALID_LENGTHS"
    using assms by (auto simp: nat64_prefix_is_usable_def split: if_splits)
  have l: "prefix_length p \<le> 128" using valid_length_bounds [OF v] by simp
  have t: "net_network api (Net6 ?n (prefix_length p)) = V6 ?n"
    using assms l by (auto simp: nat64_prefix_is_usable_def new6 split: if_splits)
  consider "p = WELL_KNOWN_NAT64" | "net_contains api GLOBAL_UNICAST_V6_NET (V6 ?n)"
    | "segment0 ?n AND 0xfe00 = 0xfc00" | "net_contains api RFC8215_NET (V6 ?n)"
    using assms l t by (auto simp: nat64_prefix_is_usable_def new6 Let_def split: if_splits)
  then show False
  proof cases
    case 1
    with z show ?thesis by (simp add: WELL_KNOWN_NAT64_def ipv6_new_def)
  next
    case 2
    then show ?thesis
      using h [of 125] by (simp add: GLOBAL_UNICAST_V6_NET_def contains6 same_prefix_def ipv6_new_def)
  next
    case 3
    then show ?thesis using h [of 112] by (simp add: segment0_def)
  next
    case 4
    then have "drop_bit 80 (ipv6_new 0x64 0xff9b 1 0 0 0 0 0) = drop_bit 80 ?n"
      by (simp add: RFC8215_NET_def contains6 same_prefix_def)
    from drop_bit_mono_eq [OF this, of 96] z show ?thesis by (simp add: ipv6_new_def)
  qed
qed

lemma mapped_candidates:
  assumes "to_ipv4_mapped ip = Some m"
  shows "embedded_ipv4_candidates api ip nat64 = [m]"
proof -
  have wk: "extract_rfc6052 ip WELL_KNOWN_NAT64 = None"
  proof (rule ccontr)
    assume "extract_rfc6052 ip WELL_KNOWN_NAT64 \<noteq> None"
    then show False
      using extract_rfc6052_SomeD(3) to_ipv4_mapped_high [OF assms]
      by (fastforce simp: WELL_KNOWN_NAT64_def ipv6_new_def)
  qed
  have "extract_rfc6052 ip p = None" if "nat64_prefix_is_usable api p" for p
    using extract_rfc6052_SomeD(3) [of ip p] to_ipv4_mapped_high [OF assms]
      usable_prefix_high [OF that] by (cases "extract_rfc6052 ip p") auto
  then have "List.map_filter (extract_rfc6052 ip)
      (filter (nat64_prefix_address_space_is_valid api) nat64) = []"
    by (induction nat64) (auto simp: List.map_filter_simps nat64_prefix_address_space_is_valid_def)
  with assms wk show ?thesis by (simp add: embedded_ipv4_candidates_def)
qed

lemma embedding_no_weaker:
  assumes "v \<in> set (embedded_ipv4_candidates api ip nat64)"
  shows "classify_v4 api v local \<le> classify_v6 api ip local nat64"
proof (cases "to_ipv4_mapped ip")
  case (Some m)
  with assms mapped_candidates [OF Some] show ?thesis by (simp add: classify_v6_def)
next
  case None
  let ?c = "foldl combine_classes Public
    (map (\<lambda>e. classify_v4 api e local) (embedded_ipv4_candidates api ip nat64))"
  have "classify_v4 api v local \<le> ?c"
    by (rule foldl_combine_upper) (use assms in auto)
  moreover have "?c \<le> combine_classes ?c PrivateSource" by (simp add: combine_classes_max)
  moreover have "embedded_ipv4_candidates api ip nat64 \<noteq> []" using assms by auto
  ultimately show ?thesis
    using None by (auto simp: classify_v6_def Let_def intro: order_trans)
qed

end

lemma octets_nth [simp]: "i < 16 \<Longrightarrow> octets ip ! i = octet ip i"
  by (simp add: octets_def)

lemma bit_octet: "bit (octet ip i) n \<longleftrightarrow> n < 8 \<and> bit ip (8 * (15 - i) + n)"
  by (auto simp: octet_def bit_simps dest: bit_imp_le_length)

lemma bit_ipv4_new:
  "bit (ipv4_new a b c d) n \<longleftrightarrow>
     (if n < 8 then bit d n else if n < 16 then bit c (n - 8)
      else if n < 24 then bit b (n - 16) else n < 32 \<and> bit a (n - 24))"
  by (auto simp: ipv4_new_def bit_simps dest: bit_imp_le_length)

definition embed_rfc6052 :: "ipv4_addr \<Rightarrow> nat64_prefix \<Rightarrow> ipv6_addr" where
  "embed_rfc6052 v p =
     (let w = (ucast v :: ipv6_addr); l = prefix_length p
      in prefix_network p OR
         (if l = 96 then w else if l = 64 then push_bit 24 w
          else push_bit 64 (drop_bit (l - 32) w) OR push_bit (88 - l) (take_bit (l - 32) w)))"

definition nat64_prefix_wf :: "nat64_prefix \<Rightarrow> bool" where
  "nat64_prefix_wf p \<longleftrightarrow> prefix_length p \<in> set VALID_LENGTHS \<and>
     truncate_to (prefix_length p) (prefix_network p) = prefix_network p \<and>
     octets (prefix_network p) ! 8 = 0"

lemma truncated_low_bits:
  fixes a :: ipv6_addr
  assumes "truncate_to l a = a" "n < 128 - l"
  shows "\<not> bit a n"
proof -
  have "\<not> bit (truncate_to l a) n" using assms(2) by (simp add: truncate_to_def bit_simps)
  with assms(1) show ?thesis by simp
qed

lemma octet_zero_bits: "octet ip i = 0 \<Longrightarrow> n < 8 \<Longrightarrow> \<not> bit ip (8 * (15 - i) + n)"
  by (metis bit_octet bit_0_eq bot_apply bot_bool_def)

lemma extract_embed:
  assumes "nat64_prefix_wf p"
  shows "extract_rfc6052 (embed_rfc6052 v p) p = Some v"
proof -
  let ?n = "prefix_network p" and ?l = "prefix_length p" and ?e = "embed_rfc6052 v p"
  have v: "?l \<in> set VALID_LENGTHS" and t: "truncate_to ?l ?n = ?n" and o: "octet ?n 8 = 0"
    using assms by (auto simp: nat64_prefix_wf_def)
  have lo: "\<not> bit ?n n" if "n < 128 - ?l" for n using truncated_low_bits [OF t that] .
  have o8: "\<not> bit ?n n" if "56 \<le> n" "n < 64" for n
    using octet_zero_bits [OF o, of "n - 56"] that by simp
  have b: "bit v n \<Longrightarrow> n < 32" for n by (drule bit_imp_le_length) simp
  consider "?l = 32" | "?l = 40" | "?l = 48" | "?l = 56" | "?l = 64" | "?l = 96"
    using v by (auto simp: VALID_LENGTHS_def)
  then have p: "drop_bit (128 - ?l) ?e = drop_bit (128 - ?l) ?n"
    by cases (rule bit_word_eqI, auto simp: embed_rfc6052_def Let_def bit_simps dest: b)+
  have m: "?e AND prefix_mask ?l = ?n AND prefix_mask ?l"
    using p valid_length_bounds [OF v] by (simp add: and_prefix_mask_eq_iff)
  have z: "octet ?e 8 = 0"
  proof (rule bit_word_eqI)
    fix n :: nat assume "n < LENGTH(8)"
    then have n: "n < 8" by simp
    show "bit (octet ?e 8) n = bit 0 n"
      using v n o8 [of "56 + n"] lo
      by (auto simp: VALID_LENGTHS_def bit_octet embed_rfc6052_def Let_def bit_simps dest: b)
  qed
  have "(if ?l = 32 then ipv4_new (octet ?e 4) (octet ?e 5) (octet ?e 6) (octet ?e 7)
         else if ?l = 40 then ipv4_new (octet ?e 5) (octet ?e 6) (octet ?e 7) (octet ?e 9)
         else if ?l = 48 then ipv4_new (octet ?e 6) (octet ?e 7) (octet ?e 9) (octet ?e 10)
         else if ?l = 56 then ipv4_new (octet ?e 7) (octet ?e 9) (octet ?e 10) (octet ?e 11)
         else if ?l = 64 then ipv4_new (octet ?e 9) (octet ?e 10) (octet ?e 11) (octet ?e 12)
         else ipv4_new (octet ?e 12) (octet ?e 13) (octet ?e 14) (octet ?e 15)) = v" (is "?x = v")
  proof (rule bit_word_eqI)
    fix n :: nat assume "n < LENGTH(32)"
    then have n: "n < 32" by simp
    show "bit ?x n = bit v n"
      using v n lo
      by (auto simp: VALID_LENGTHS_def bit_ipv4_new bit_octet embed_rfc6052_def Let_def bit_simps dest: b)
  qed
  with v m z show ?thesis
    by (auto simp: extract_rfc6052_def Let_def VALID_LENGTHS_def)
qed

lemma mem_candidates_iff:
  "v \<in> set (embedded_ipv4_candidates api ip nat64) \<longleftrightarrow>
     to_ipv4_mapped ip = Some v \<or> extract_rfc6052 ip WELL_KNOWN_NAT64 = Some v \<or>
     (\<exists>p \<in> set nat64. nat64_prefix_is_usable api p \<and> extract_rfc6052 ip p = Some v)"
  by (auto simp: embedded_ipv4_candidates_def Let_def List.map_filter_def
      nat64_prefix_address_space_is_valid_def image_iff split: option.splits)

lemma candidates_cong:
  assumes "set nat64 = set nat64'"
  shows "embedded_ipv4_candidates api ip nat64 = embedded_ipv4_candidates api ip nat64'"
  unfolding embedded_ipv4_candidates_def Let_def
  by (rule sort_dedup_cong) (auto simp: List.map_filter_def assms)

lemma classify_cong:
  assumes "set nat64 = set nat64'"
  shows "classify_ip api ip local nat64 = classify_ip api ip local nat64'"
  by (cases ip) (simp_all only: classify_ip.simps classify_v6_def candidates_cong [OF assms])

definition ipv4_to_mapped :: "ipv4_addr \<Rightarrow> ipv6_addr" where
  "ipv4_to_mapped v = push_bit 32 0xffff OR ucast v"

lemma to_ipv4_mapped_inverse: "to_ipv4_mapped (ipv4_to_mapped v) = Some v"
proof -
  have "drop_bit 32 (ipv4_to_mapped v) = 0xffff"
  proof -
    have "drop_bit 32 (ucast v :: ipv6_addr) = 0"
      by (rule bit_word_eqI) (auto simp: bit_simps dest: bit_imp_le_length)
    then show ?thesis by (simp add: ipv4_to_mapped_def drop_bit_or)
  qed
  moreover have "(ucast (push_bit 32 hi OR ucast v :: ipv6_addr) :: ipv4_addr) = v" for hi
    by (rule bit_word_eqI) (auto simp: bit_simps)
  ultimately show ?thesis by (simp only: to_ipv4_mapped_def ipv4_to_mapped_def if_True simp_thms)
qed

context ipnet_interface
begin

lemma usable_wf:
  assumes "nat64_prefix_is_usable api p"
  shows "nat64_prefix_wf p"
proof -
  have v: "prefix_length p \<in> set VALID_LENGTHS" and o: "octets (prefix_network p) ! 8 = 0"
    using assms by (auto simp: nat64_prefix_is_usable_def split: if_splits)
  have l: "prefix_length p \<le> 128" using valid_length_bounds [OF v] by simp
  have "net_network api (Net6 (prefix_network p) (prefix_length p)) = V6 (prefix_network p)"
    using assms l by (auto simp: nat64_prefix_is_usable_def new6 split: if_splits)
  with v o l show ?thesis by (simp add: nat64_prefix_wf_def network6)
qed

lemma metadata_v4_blocked:
  assumes "Net4 m 32 \<in> set METADATA_V4_NETS"
  shows "classify_v4 api m local = AlwaysBlocked"
proof -
  have "net_contains api (Net4 m 32) (V4 m)" by (simp add: contains4 same_prefix_def)
  with assms have "contains api METADATA_V4_NETS (V4 m)"
    by (auto simp: contains_def list_ex_iff)
  then show ?thesis by (simp add: classify_v4_def)
qed

lemma blocked_embedding:
  assumes "classify_v4 api m local = AlwaysBlocked"
    and "m \<in> set (embedded_ipv4_candidates api ip nat64)"
  shows "classify_v6 api ip local nat64 = AlwaysBlocked"
  using embedding_no_weaker [OF assms(2), of local] assms(1) by (simp add: order.antisym)

end

lemma well_known_wf: "nat64_prefix_wf WELL_KNOWN_NAT64"
  by (simp add: nat64_prefix_wf_def WELL_KNOWN_NAT64_def VALID_LENGTHS_def truncate_to_def
      ipv6_new_def octet_def)

interpretation cidr: ipnet_interface cidr_api
  by unfold_locales (simp add: ipnet_contract_def cidr_api_def)

section \<open>Numeric ranges\<close>

definition in_range :: "ipv4_addr \<Rightarrow> ipv4_addr \<times> nat \<Rightarrow> bool" where
  "in_range ip r = (unat (fst r) \<le> unat ip \<and> unat ip < unat (fst r) + snd r)"

lemma same_prefix_range:
  fixes a ip :: ipv4_addr
  assumes "l \<le> 32" "2 ^ (32 - l) dvd unat a"
  shows "same_prefix l a ip \<longleftrightarrow> in_range ip (a, 2 ^ (32 - l))"
proof -
  let ?k = "2 ^ (32 - l) :: nat"
  obtain q where q: "unat a = ?k * q" using assms(2) by (auto elim: dvdE)
  have "same_prefix l a ip \<longleftrightarrow> unat (drop_bit (32 - l) a) = unat (drop_bit (32 - l) ip)"
    by (auto simp: same_prefix_def intro: unsigned_word_eqI)
  also have "\<dots> \<longleftrightarrow> unat a div ?k = unat ip div ?k"
    unfolding unat_drop_bit_eq by (simp add: drop_bit_eq_div)
  also have "\<dots> \<longleftrightarrow> q = unat ip div ?k" by (simp add: q)
  also have "\<dots> \<longleftrightarrow> in_range ip (a, ?k)"
  proof
    assume "q = unat ip div ?k"
    then show "in_range ip (a, ?k)"
      using dividend_less_times_div [of ?k "unat ip"] times_div_less_eq_dividend [of ?k "unat ip"]
      by (simp add: in_range_def q ac_simps)
  next
    assume "in_range ip (a, ?k)"
    then show "q = unat ip div ?k"
      by (intro div_nat_eqI [symmetric]) (auto simp: in_range_def q algebra_simps)
  qed
  finally show ?thesis .
qed

definition blocked_ranges_v4 :: "(ipv4_addr \<times> nat) list" where
  "blocked_ranges_v4 =
     [(0, 16777216), (ipv4_new 168 63 129 16, 1), (ipv4_new 169 254 0 23, 1),
      (ipv4_new 169 254 10 10, 1), (ipv4_new 169 254 42 42, 1), (ipv4_new 169 254 169 253, 2),
      (ipv4_new 169 254 170 2, 1), (ipv4_new 169 254 170 23, 1), (ipv4_new 100 100 100 200, 1),
      (ipv4_new 192 0 0 0, 256), (ipv4_new 192 0 2 0, 256), (ipv4_new 192 31 196 0, 256),
      (ipv4_new 192 52 193 0, 256), (ipv4_new 192 88 99 0, 256), (ipv4_new 192 175 48 0, 256),
      (ipv4_new 198 18 0 0, 131072), (ipv4_new 198 51 100 0, 256), (ipv4_new 203 0 113 0, 256),
      (ipv4_new 224 0 0 0, 536870912)]"

definition private_ranges_v4 :: "(ipv4_addr \<times> nat) list" where
  "private_ranges_v4 =
     [(ipv4_new 10 0 0 0, 16777216), (ipv4_new 100 64 0 0, 4194304),
      (ipv4_new 127 0 0 0, 16777216), (ipv4_new 169 254 0 0, 65536),
      (ipv4_new 172 16 0 0, 1048576), (ipv4_new 192 168 0 0, 65536)]"

context ipnet_interface
begin

lemma contains4_range:
  "l \<le> 32 \<Longrightarrow> 2 ^ (32 - l) dvd unat a \<Longrightarrow>
   net_contains api (Net4 a l) (V4 ip) = in_range ip (a, 2 ^ (32 - l))"
  by (simp add: contains4 same_prefix_range)

lemma blocked_v4_iff:
  "contains api METADATA_V4_NETS (V4 ip) \<or> contains api ALWAYS_BLOCKED_V4_NETS (V4 ip) \<longleftrightarrow>
   list_ex (in_range ip) blocked_ranges_v4"
proof -
  have merge: "in_range ip (ipv4_new 169 254 169 253, 2) \<longleftrightarrow>
      in_range ip (ipv4_new 169 254 169 253, 1) \<or> in_range ip (ipv4_new 169 254 169 254, 1)"
    "in_range ip (ipv4_new 224 0 0 0, 536870912) \<longleftrightarrow>
      in_range ip (ipv4_new 224 0 0 0, 268435456) \<or> in_range ip (ipv4_new 240 0 0 0, 268435456)"
    "in_range ip (ipv4_new 192 0 0 192, 1) \<Longrightarrow> in_range ip (ipv4_new 192 0 0 0, 256)"
    by (auto simp: in_range_def ipv4_new_def)
  have c: "net_contains api (Net4 (ipv4_new a b c d) l) (V4 ip) =
      in_range ip (ipv4_new a b c d, 2 ^ (32 - l))"
    if "l \<le> 32 \<and> 2 ^ (32 - l) dvd unat (ipv4_new a b c d)" for a b c d l
    using that by (simp add: contains4_range)
  have z: "ipv4_new 0 0 0 0 = 0" by (simp add: ipv4_new_def)
  have d: "2 ^ (32 - l) dvd unat (ipv4_new a b c d) \<longleftrightarrow> unat (ipv4_new a b c d) mod 2 ^ (32 - l) = 0"
    for a b c d l by (simp add: dvd_eq_mod_eq_0)
  have m: "contains api METADATA_V4_NETS (V4 ip) \<longleftrightarrow>
      list_ex (\<lambda>a. in_range ip (a, 1)) [ipv4_new 168 63 129 16, ipv4_new 169 254 0 23,
        ipv4_new 169 254 10 10, ipv4_new 169 254 42 42, ipv4_new 169 254 169 253,
        ipv4_new 169 254 169 254, ipv4_new 169 254 170 2, ipv4_new 169 254 170 23,
        ipv4_new 100 100 100 200, ipv4_new 192 0 0 192]"
    by (simp add: contains_def METADATA_V4_NETS_def c)
  have b: "contains api ALWAYS_BLOCKED_V4_NETS (V4 ip) \<longleftrightarrow>
      list_ex (in_range ip) [(0, 16777216), (ipv4_new 192 0 0 0, 256), (ipv4_new 192 0 2 0, 256),
        (ipv4_new 192 31 196 0, 256), (ipv4_new 192 52 193 0, 256), (ipv4_new 192 88 99 0, 256),
        (ipv4_new 192 175 48 0, 256), (ipv4_new 198 18 0 0, 131072), (ipv4_new 198 51 100 0, 256),
        (ipv4_new 203 0 113 0, 256), (ipv4_new 224 0 0 0, 268435456),
        (ipv4_new 240 0 0 0, 268435456)]"
    by (simp add: contains_def ALWAYS_BLOCKED_V4_NETS_def contains4_range ipv4_new_def)
  show ?thesis
    unfolding m b blocked_ranges_v4_def list_ex_iff using merge by auto
qed

lemma private_v4_iff:
  "contains api PRIVATE_V4_NETS (V4 ip) \<longleftrightarrow> list_ex (in_range ip) private_ranges_v4"
  by (simp add: contains_def PRIVATE_V4_NETS_def private_ranges_v4_def contains4_range ipv4_new_def)

lemma classify_v4_ranges:
  "classify_v4 api ip local =
    (if list_ex (in_range ip) blocked_ranges_v4 then AlwaysBlocked
     else if local_contains api local (V4 ip) \<or> list_ex (in_range ip) private_ranges_v4
     then PrivateSource else Public)"
  using blocked_v4_iff [of ip] private_v4_iff [of ip] by (simp add: classify_v4_def)

end

section \<open>Properties of the classifier\<close>





text \<open>
  The verdict does not depend on the order or the multiplicity of the NAT64
  prefixes that were discovered.
\<close>

theorem classification_ignores_prefix_order:
  assumes "set nat64 = set nat64'"
  shows "classify_ip api ip local nat64 = classify_ip api ip local nat64'"
  by (rule classify_cong [OF assms])

theorem classification_ignores_prefix_order_witness:
  "classify_ip cidr_api (V6 1) \<lparr>interfaces = []\<rparr> [WELL_KNOWN_NAT64, WELL_KNOWN_NAT64] =
   classify_ip cidr_api (V6 1) \<lparr>interfaces = []\<rparr> [WELL_KNOWN_NAT64]"
  by (rule classification_ignores_prefix_order) simp

text \<open>
  Property C3.  The extraction of RFC 6052 inverts the embedding of an IPv4 address for each
  of the six prefix lengths, whenever the prefix is truncated to its length and its reserved
  octet is zero.
\<close>

theorem rfc6052_round_trip:
  assumes "nat64_prefix_wf p"
  shows "extract_rfc6052 (embed_rfc6052 v p) p = Some v"
  by (rule extract_embed [OF assms])

theorem rfc6052_round_trip_witness:
  "extract_rfc6052 (embed_rfc6052 (ipv4_new 192 0 2 33)
     \<lparr>prefix_network = ipv6_new 0x2001 0x4860 0x100 0 0 0 0 0, prefix_length = 40\<rparr>)
     \<lparr>prefix_network = ipv6_new 0x2001 0x4860 0x100 0 0 0 0 0, prefix_length = 40\<rparr> =
   Some (ipv4_new 192 0 2 33)"
  by (rule rfc6052_round_trip)
    (simp add: nat64_prefix_wf_def VALID_LENGTHS_def truncate_to_def ipv6_new_def octet_def)

text \<open>
  The IPv4 verdict agrees with a table of plain numeric address ranges: the CIDR
  tables and the order in which the code consults them amount to "blocked range, else
  directly connected or private range, else public".
\<close>

theorem classify_v4_range_table:
  assumes "ipnet_contract api"
  shows "classify_v4 api ip local =
    (if list_ex (in_range ip) blocked_ranges_v4 then AlwaysBlocked
     else if local_contains api local (V4 ip) \<or> list_ex (in_range ip) private_ranges_v4
     then PrivateSource else Public)"
  by (rule ipnet_interface.classify_v4_ranges [OF ipnet_interface.intro, OF assms])

theorem classify_v4_range_table_witness:
  "classify_v4 cidr_api (ipv4_new 172 31 255 255) \<lparr>interfaces = []\<rparr> = PrivateSource \<and>
   classify_v4 cidr_api (ipv4_new 172 32 0 0) \<lparr>interfaces = []\<rparr> = Public"
  by (simp add: classify_v4_range_table [OF cidr.contract] blocked_ranges_v4_def
      private_ranges_v4_def in_range_def local_contains_def ipv4_new_def)

end
