(* ===== verification/Destination.thy ===== *)
theory Destination
  imports IpPolicy "HOL-Library.Product_Lexorder"
begin

text \<open>
  The destination validator of the outbound proxy
  (\<open>server/src/network_security/resolver.rs\<close>).

  The traits \<open>DnsResolver\<close>, \<open>LocalNetworkProvider\<close> and \<open>Clock\<close> are the fields of
  \<open>validator_env\<close>; the operations of the \<open>url\<close> crate are the fields of \<open>url_api\<close> over an
  abstract type of URLs.  The NAT64 cache is the mutable state of the validator and is passed
  explicitly.  A lookup reads the cache twice, once before and once after it holds the refresh
  lock; \<open>cache_at_lock\<close> says what another task may have left there in between, and
  \<open>clock_first\<close>, \<open>clock_second\<close>, \<open>clock_store\<close> are the three clock readings.

  Shown here: a destination is returned only if every pinned address is admitted by the policy,
  is not one of the server's own listeners in any encoding and is not an unscoped link-local
  address; one unsafe answer blocks the whole name; NAT64 discovery accepts only prefixes that
  both mandatory answers corroborate, fails closed, and its cached result is reused only for
  the same interfaces and before it expires.
\<close>

unbundle bit_operations_syntax

section \<open>Socket addresses\<close>

datatype socket_addr =
    SA4 ipv4_addr "16 word"
  | SA6 ipv6_addr "16 word" (flowinfo: "32 word") (scope_id: "32 word")

fun sa_ip :: "socket_addr \<Rightarrow> ip_addr" where
  "sa_ip (SA4 ip p) = V4 ip"
| "sa_ip (SA6 ip p f s) = V6 ip"

fun sa_port :: "socket_addr \<Rightarrow> 16 word" where
  "sa_port (SA4 ip p) = p"
| "sa_port (SA6 ip p f s) = p"

fun sa_set_port :: "16 word \<Rightarrow> socket_addr \<Rightarrow> socket_addr" where
  "sa_set_port q (SA4 ip p) = SA4 ip q"
| "sa_set_port q (SA6 ip p f s) = SA6 ip q f s"

fun sa_new :: "ip_addr \<Rightarrow> 16 word \<Rightarrow> socket_addr" where
  "sa_new (V4 ip) p = SA4 ip p"
| "sa_new (V6 ip) p = SA6 ip p 0 0"

text \<open>The derived order of \<open>SocketAddr\<close>: variant, address, port, flow information, scope.\<close>

fun sa_key :: "socket_addr \<Rightarrow> nat \<times> nat \<times> nat \<times> nat \<times> nat" where
  "sa_key (SA4 ip p) = (0, unat ip, unat p, 0, 0)"
| "sa_key (SA6 ip p f s) = (1, unat ip, unat p, unat f, unat s)"

lemma sa_key_inj: "sa_key a = sa_key b \<Longrightarrow> a = b"
  by (cases a; cases b) (auto intro: unsigned_word_eqI)

instantiation socket_addr :: linorder
begin
definition less_eq_socket_addr :: "socket_addr \<Rightarrow> socket_addr \<Rightarrow> bool" where
  "less_eq_socket_addr a b = (sa_key a \<le> sa_key b)"
definition less_socket_addr :: "socket_addr \<Rightarrow> socket_addr \<Rightarrow> bool" where
  "less_socket_addr a b = (sa_key a < sa_key b)"
instance
  by standard (auto simp: less_eq_socket_addr_def less_socket_addr_def sa_key_inj)
end

section \<open>Interfaces and state\<close>

datatype destination_error =
    UnsupportedScheme
  | MissingHost
  | ResolutionFailed
  | Blocked
  | LocalNetworkUnavailable

datatype host = HostDomain string | HostIpv4 ipv4_addr | HostIpv6 ipv6_addr

record 'u url_api =
  url_scheme :: "'u \<Rightarrow> string"
  url_host :: "'u \<Rightarrow> host option"
  url_port_or_known_default :: "'u \<Rightarrow> 16 word option"
  url_without_fragment :: "'u \<Rightarrow> 'u"

record outbound_policy =
  allow_private_network_sources :: bool

record 'u resolved_destination =
  rd_url :: 'u
  rd_domain :: "string option"
  rd_addrs :: "socket_addr list"

record cached_nat64_prefixes =
  expires_at :: nat
  prefixes :: "nat64_prefix list"
  failed :: bool
  cached_local :: local_networks

record validator =
  listeners :: "socket_addr list"
  nat64_cache :: "cached_nat64_prefixes option"

record validator_env =
  dns_resolve :: "string \<Rightarrow> 16 word \<Rightarrow> socket_addr list option"
  local_current :: "local_networks option"
  clock_first :: nat
  clock_second :: nat
  clock_store :: nat
  instant_limit :: nat
  cache_at_lock :: "cached_nat64_prefixes option \<Rightarrow> cached_nat64_prefixes option"

definition MAX_DNS_ANSWERS :: nat where
  "MAX_DNS_ANSWERS = 32"

definition NAT64_CACHE_TTL :: nat where
  "NAT64_CACHE_TTL = 5 * 60"

section \<open>System providers\<close>

text \<open>
  \<open>SystemDnsResolver::resolve\<close> over the operating system's lookup, and the interface filter
  of \<open>SystemLocalNetworkProvider\<close> (\<open>if_addrs::Interface\<close> is the record \<open>if_interface\<close>).
\<close>

definition system_dns_resolve ::
  "(string \<Rightarrow> 16 word \<Rightarrow> socket_addr list option) \<Rightarrow> string \<Rightarrow> 16 word \<Rightarrow> socket_addr list option" where
  "system_dns_resolve lookup_host name port =
     (case lookup_host name port of
        None \<Rightarrow> None
      | Some addresses \<Rightarrow>
          if addresses = [] \<or> length addresses > MAX_DNS_ANSWERS then None
          else Some (remdups_adj (sort addresses)))"

datatype if_oper_status = Down | NotPresent | LowerLayerDown | OtherStatus

record if_interface =
  oper_status :: if_oper_status
  iface_addr :: ip_addr
  iface_prefixlen :: nat
  iface_name :: string
  iface_index :: "nat option"
  iface_adapter :: "string option"

definition network_for_interface :: "ipnet_api \<Rightarrow> if_interface \<Rightarrow> local_network_entry option" where
  "network_for_interface api i =
     (if oper_status i \<in> {Down, NotPresent, LowerLayerDown} then None
      else case ipnet_new api (iface_addr i) (iface_prefixlen i) of
          None \<Rightarrow> None
        | Some n \<Rightarrow> Some \<lparr>network = n, if_name = iface_name i, if_index = iface_index i,
                          adapter_id = iface_adapter i\<rparr>)"

section \<open>Socket helpers\<close>

fun normalize_socket :: "socket_addr \<Rightarrow> socket_addr" where
  "normalize_socket (SA4 ip p) = SA4 ip p"
| "normalize_socket (SA6 ip p f s) = SA6 ip p 0 (if is_unicast_link_local ip then s else 0)"

definition validator_new :: "socket_addr list \<Rightarrow> validator" where
  "validator_new ls = \<lparr>listeners = map normalize_socket ls, nat64_cache = None\<rparr>"

definition listener_socket_candidates ::
  "ipnet_api \<Rightarrow> socket_addr \<Rightarrow> nat64_prefix list \<Rightarrow> socket_addr list" where
  "listener_socket_candidates api socket nat64 =
     (let s = normalize_socket socket;
          embedded = (case s of
              SA4 ip p \<Rightarrow> []
            | SA6 ip p f sc \<Rightarrow> map (\<lambda>v. SA4 v p) (embedded_ipv4_candidates api ip nat64))
      in remdups_adj (sort (s # embedded)))"

fun listener_endpoint_matches :: "socket_addr \<Rightarrow> socket_addr \<Rightarrow> bool" where
  "listener_endpoint_matches (SA4 l lp) (SA4 t tp) = (lp = tp \<and> l = t)"
| "listener_endpoint_matches (SA6 l lp lf ls) (SA6 t tp tf ts) =
     (lp = tp \<and> l = t \<and> (\<not> is_unicast_link_local l \<or> ls = 0 \<or> ls = ts))"
| "listener_endpoint_matches _ _ = False"

fun unspecified_listener_matches :: "local_networks \<Rightarrow> socket_addr \<Rightarrow> socket_addr \<Rightarrow> bool" where
  "unspecified_listener_matches local (SA4 l lp) candidate =
     (is_ipv4 (sa_ip candidate) \<and>
      (is_loopback (sa_ip candidate) \<or> local_contains_address local (sa_ip candidate)))"
| "unspecified_listener_matches local (SA6 l lp lf ls) candidate =
     (is_loopback (sa_ip candidate) \<or> local_contains_address local (sa_ip candidate))"

definition matches_listener ::
  "ipnet_api \<Rightarrow> socket_addr list \<Rightarrow> socket_addr \<Rightarrow> local_networks \<Rightarrow> nat64_prefix list \<Rightarrow> bool" where
  "matches_listener api ls target0 local nat64 =
     (let target = normalize_socket target0;
          target_candidates = listener_socket_candidates api target nat64
      in list_ex (\<lambda>listener.
           if sa_port listener \<noteq> sa_port target then False
           else if is_unspecified (sa_ip listener)
           then list_ex (unspecified_listener_matches local listener) target_candidates
           else list_ex (\<lambda>lc. list_ex (listener_endpoint_matches lc) target_candidates)
                  (listener_socket_candidates api listener nat64)) ls)"

section \<open>Admission of addresses\<close>

fun unscoped_link_local :: "socket_addr \<Rightarrow> bool" where
  "unscoped_link_local (SA4 ip p) = False"
| "unscoped_link_local (SA6 ip p f s) = (is_unicast_link_local ip \<and> s = 0)"

fun validate_addresses ::
  "ipnet_api \<Rightarrow> socket_addr list \<Rightarrow> socket_addr list \<Rightarrow> local_networks \<Rightarrow> nat64_prefix list \<Rightarrow>
   outbound_policy \<Rightarrow> (destination_error, unit) result" where
  "validate_addresses api ls [] local nat64 policy = Inr ()"
| "validate_addresses api ls (address # rest) local nat64 policy =
     (if unscoped_link_local address then Inl Blocked
      else if matches_listener api ls address local nat64 then Inl Blocked
      else case classify_ip api (sa_ip address) local nat64 of
          Public \<Rightarrow> validate_addresses api ls rest local nat64 policy
        | PrivateSource \<Rightarrow>
            if allow_private_network_sources policy
            then validate_addresses api ls rest local nat64 policy
            else Inl Blocked
        | AlwaysBlocked \<Rightarrow> Inl Blocked)"

section \<open>NAT64 discovery\<close>

definition IPV4ONLY_0 :: ipv4_addr where
  "IPV4ONLY_0 = ipv4_new 192 0 0 170"

definition IPV4ONLY_1 :: ipv4_addr where
  "IPV4ONLY_1 = ipv4_new 192 0 0 171"

fun scan_answers ::
  "socket_addr list \<Rightarrow> bool \<Rightarrow> bool \<Rightarrow> ipv6_addr list \<Rightarrow>
   (destination_error, bool \<times> bool \<times> ipv6_addr list) result" where
  "scan_answers [] seen0 seen1 v6 = Inr (seen0, seen1, v6)"
| "scan_answers (SA4 ip p # rest) seen0 seen1 v6 =
     (if ip = IPV4ONLY_0 then scan_answers rest True seen1 v6
      else if ip = IPV4ONLY_1 then scan_answers rest seen0 True v6
      else Inl ResolutionFailed)"
| "scan_answers (SA6 ip p f s # rest) seen0 seen1 v6 = scan_answers rest seen0 seen1 (v6 @ [ip])"

definition corroborated :: "ipv6_addr list \<Rightarrow> nat64_prefix \<Rightarrow> bool" where
  "corroborated v6 prefix =
     (list_ex (\<lambda>c. extract_rfc6052 c prefix = Some IPV4ONLY_0) v6 \<and>
      list_ex (\<lambda>c. extract_rfc6052 c prefix = Some IPV4ONLY_1) v6)"

fun collect_for_length ::
  "ipnet_api \<Rightarrow> ipv6_addr list \<Rightarrow> nat \<Rightarrow> ipv6_addr list \<Rightarrow> nat64_prefix list \<Rightarrow> nat64_prefix list" where
  "collect_for_length api v6 len [] acc = acc"
| "collect_for_length api v6 len (address # rest) acc =
     (let prefix = \<lparr>prefix_network = address AND prefix_mask len, prefix_length = len\<rparr>
      in if \<not> nat64_prefix_is_usable api prefix then collect_for_length api v6 len rest acc
         else if corroborated v6 prefix \<and> prefix \<notin> set acc
         then collect_for_length api v6 len rest (acc @ [prefix])
         else collect_for_length api v6 len rest acc)"

definition collect_prefixes :: "ipnet_api \<Rightarrow> ipv6_addr list \<Rightarrow> nat64_prefix list" where
  "collect_prefixes api v6 =
     foldl (\<lambda>acc len. collect_for_length api v6 len v6 acc) [] VALID_LENGTHS"

definition answer_accounted_for :: "nat64_prefix list \<Rightarrow> ipv6_addr \<Rightarrow> bool" where
  "answer_accounted_for ps answer =
     list_ex (\<lambda>prefix. case extract_rfc6052 answer prefix of
         None \<Rightarrow> False
       | Some e \<Rightarrow> e = IPV4ONLY_0 \<or> e = IPV4ONLY_1) ps"

definition discover_nat64_prefixes ::
  "ipnet_api \<Rightarrow> socket_addr list \<Rightarrow> (destination_error, nat64_prefix list) result" where
  "discover_nat64_prefixes api answers =
     (if answers = [] then Inl ResolutionFailed
      else rbind (scan_answers answers False False []) (\<lambda>(seen0, seen1, v6).
        if seen0 \<noteq> seen1 then Inl ResolutionFailed
        else if v6 = [] then (if seen0 \<and> seen1 then Inr [] else Inl ResolutionFailed)
        else
          let ps = sort_key (\<lambda>p. (prefix_length p, unat (prefix_network p))) (collect_prefixes api v6)
          in if ps = [] \<or> \<not> list_all (answer_accounted_for ps) v6 then Inl ResolutionFailed
             else Inr (filter (\<lambda>p. \<not> (prefix_network p = ipv6_new 0x64 0xff9b 0 0 0 0 0 0 \<and>
                                       prefix_length p = 96)) ps)))"

section \<open>The NAT64 cache\<close>

definition cached_lookup ::
  "cached_nat64_prefixes option \<Rightarrow> nat \<Rightarrow> local_networks \<Rightarrow>
   (destination_error, nat64_prefix list) result option" where
  "cached_lookup cache now local =
     map_option (\<lambda>c. if failed c then Inl ResolutionFailed else Inr (prefixes c))
       (option_filter (\<lambda>c. now < expires_at c \<and> cached_local c = local) cache)"

definition address_needs_discovery ::
  "ipnet_api \<Rightarrow> local_networks \<Rightarrow> outbound_policy \<Rightarrow> socket_addr \<Rightarrow> bool" where
  "address_needs_discovery api local policy address =
     (case sa_ip address of
        V4 _ \<Rightarrow> False
      | V6 ip \<Rightarrow>
          if normalized_embedded_ipv4 api ip [] \<noteq> None then False
          else if is_rfc8215_address api ip then True
          else case classify_ip api (V6 ip) local [] of
              Public \<Rightarrow> True
            | PrivateSource \<Rightarrow>
                allow_private_network_sources policy \<and> \<not> is_loopback_v6 ip \<and>
                \<not> is_unicast_link_local ip
            | AlwaysBlocked \<Rightarrow> False)"

definition discovery_outcome ::
  "ipnet_api \<Rightarrow> validator_env \<Rightarrow> (destination_error, nat64_prefix list) result" where
  "discovery_outcome api env =
     (case dns_resolve env ''ipv4only.arpa.'' 0 of
        Some answers \<Rightarrow>
          if length answers \<le> MAX_DNS_ANSWERS then discover_nat64_prefixes api answers
          else Inl ResolutionFailed
      | None \<Rightarrow> Inl ResolutionFailed)"

definition cache_entry ::
  "validator_env \<Rightarrow> local_networks \<Rightarrow> (destination_error, nat64_prefix list) result \<Rightarrow>
   cached_nat64_prefixes" where
  "cache_entry env local discovered =
     \<lparr>expires_at = (if clock_store env + NAT64_CACHE_TTL \<le> instant_limit env
                    then clock_store env + NAT64_CACHE_TTL else clock_store env),
      prefixes = (case discovered of Inl _ \<Rightarrow> [] | Inr ps \<Rightarrow> ps),
      failed = (case discovered of Inl _ \<Rightarrow> True | Inr _ \<Rightarrow> False),
      cached_local = local\<rparr>"

definition nat64_prefixes_for ::
  "ipnet_api \<Rightarrow> validator_env \<Rightarrow> cached_nat64_prefixes option \<Rightarrow> socket_addr list \<Rightarrow>
   local_networks \<Rightarrow> outbound_policy \<Rightarrow>
   cached_nat64_prefixes option \<times> (destination_error, nat64_prefix list) result" where
  "nat64_prefixes_for api env cache addresses local policy =
     (if \<not> list_ex (address_needs_discovery api local policy) addresses then (cache, Inr [])
      else case cached_lookup cache (clock_first env) local of
          Some r \<Rightarrow> (cache, r)
        | None \<Rightarrow>
            let cache2 = cache_at_lock env cache
            in case cached_lookup cache2 (clock_second env) local of
                Some r \<Rightarrow> (cache2, r)
              | None \<Rightarrow>
                  let discovered = discovery_outcome api env
                  in (Some (cache_entry env local discovered), discovered))"

section \<open>Validation of a URL\<close>

definition admit ::
  "ipnet_api \<Rightarrow> validator_env \<Rightarrow> validator \<Rightarrow> socket_addr list \<Rightarrow> local_networks \<Rightarrow>
   outbound_policy \<Rightarrow> 'u \<Rightarrow> string option \<Rightarrow>
   validator \<times> (destination_error, 'u resolved_destination) result" where
  "admit api env v addresses local policy canonical_url domain =
     (let (cache', nat64) = nat64_prefixes_for api env (nat64_cache v) addresses local policy;
          v' = v\<lparr>nat64_cache := cache'\<rparr>
      in (v', rbind nat64 (\<lambda>ps.
                rbind (validate_addresses api (listeners v) addresses local ps policy) (\<lambda>_.
                  Inr \<lparr>rd_url = canonical_url, rd_domain = domain, rd_addrs = addresses\<rparr>))))"

definition validate_inner ::
  "ipnet_api \<Rightarrow> 'u url_api \<Rightarrow> validator_env \<Rightarrow> validator \<Rightarrow> 'u \<Rightarrow> outbound_policy \<Rightarrow>
   validator \<times> (destination_error, 'u resolved_destination) result" where
  "validate_inner api uapi env v url policy =
     (if url_scheme uapi url \<notin> {''http'', ''https''} then (v, Inl UnsupportedScheme)
      else case url_host uapi url of
        None \<Rightarrow> (v, Inl MissingHost)
      | Some host \<Rightarrow>
        (case url_port_or_known_default uapi url of
          None \<Rightarrow> (v, Inl MissingHost)
        | Some port \<Rightarrow>
          let canonical_url = url_without_fragment uapi url
          in case host of
              HostIpv4 ip \<Rightarrow>
                (case local_current env of
                   None \<Rightarrow> (v, Inl LocalNetworkUnavailable)
                 | Some local \<Rightarrow> admit api env v [sa_new (V4 ip) port] local policy canonical_url None)
            | HostIpv6 ip \<Rightarrow>
                (case local_current env of
                   None \<Rightarrow> (v, Inl LocalNetworkUnavailable)
                 | Some local \<Rightarrow> admit api env v [sa_new (V6 ip) port] local policy canonical_url None)
            | HostDomain domain \<Rightarrow>
                (case local_current env of
                   None \<Rightarrow> (v, Inl LocalNetworkUnavailable)
                 | Some local \<Rightarrow>
                   (case dns_resolve env domain port of
                      None \<Rightarrow> (v, Inl ResolutionFailed)
                    | Some resolved \<Rightarrow>
                        if resolved = [] \<or> length resolved > MAX_DNS_ANSWERS
                        then (v, Inl ResolutionFailed)
                        else admit api env v
                          (remdups_adj (sort (map (normalize_socket \<circ> sa_set_port port) resolved)))
                          local policy canonical_url (Some domain)))))"

definition validate ::
  "ipnet_api \<Rightarrow> 'u url_api \<Rightarrow> validator_env \<Rightarrow> bool \<Rightarrow> validator \<Rightarrow> 'u \<Rightarrow> outbound_policy \<Rightarrow>
   validator \<times> (destination_error, 'u resolved_destination) result" where
  "validate api uapi env timed_out v url policy =
     (if timed_out then (v, Inl ResolutionFailed) else validate_inner api uapi env v url policy)"

section \<open>Admission\<close>

definition address_admitted ::
  "ipnet_api \<Rightarrow> socket_addr list \<Rightarrow> local_networks \<Rightarrow> nat64_prefix list \<Rightarrow> outbound_policy \<Rightarrow>
   socket_addr \<Rightarrow> bool" where
  "address_admitted api ls local nat64 policy a \<longleftrightarrow>
     \<not> unscoped_link_local a \<and> \<not> matches_listener api ls a local nat64 \<and>
     classify_ip api (sa_ip a) local nat64 \<noteq> AlwaysBlocked \<and>
     (classify_ip api (sa_ip a) local nat64 = PrivateSource \<longrightarrow> allow_private_network_sources policy)"

lemma validate_addresses_Inr_iff:
  "validate_addresses api ls as local nat64 policy = Inr () \<longleftrightarrow>
     (\<forall>a \<in> set as. address_admitted api ls local nat64 policy a)"
  by (induction as) (auto simp: address_admitted_def split: destination_class.splits)

lemma validate_addresses_Inl:
  "validate_addresses api ls as local nat64 policy = Inl e \<Longrightarrow> e = Blocked"
  by (induction as) (auto split: destination_class.splits if_splits)

lemma validate_addresses_eq:
  "validate_addresses api ls as local nat64 policy =
     (if \<forall>a \<in> set as. address_admitted api ls local nat64 policy a then Inr () else Inl Blocked)"
  by (metis (full_types) old.unit.exhaust sum.exhaust validate_addresses_Inl validate_addresses_Inr_iff)

lemma sa_port_normalize [simp]: "sa_port (normalize_socket a) = sa_port a"
  by (cases a) auto

lemma sa_port_set_port [simp]: "sa_port (sa_set_port p a) = p"
  by (cases a) auto

lemma sa_port_new [simp]: "sa_port (sa_new ip p) = p"
  by (cases ip) auto

lemma normalize_idem [simp]: "normalize_socket (normalize_socket a) = normalize_socket a"
  by (cases a) auto

lemma admit_InrD:
  assumes "snd (admit api env v as local policy u dn) = Inr d"
  shows "rd_addrs d = as \<and> rd_url d = u \<and> rd_domain d = dn \<and>
    (\<exists>nat64. snd (nat64_prefixes_for api env (nat64_cache v) as local policy) = Inr nat64 \<and>
      (\<forall>a \<in> set as. address_admitted api (listeners v) local nat64 policy a))"
  using assms by (auto simp: admit_def Let_def rbind_Inr_iff validate_addresses_Inr_iff split: prod.splits)

definition resolved_set :: "validator_env \<Rightarrow> 'u url_api \<Rightarrow> 'u \<Rightarrow> socket_addr set" where
  "resolved_set env uapi url =
     (case (url_host uapi url, url_port_or_known_default uapi url) of
        (Some (HostIpv4 ip), Some port) \<Rightarrow> {SA4 ip port}
      | (Some (HostIpv6 ip), Some port) \<Rightarrow> {SA6 ip port 0 0}
      | (Some (HostDomain dn), Some port) \<Rightarrow>
          (case dns_resolve env dn port of
             None \<Rightarrow> {}
           | Some as \<Rightarrow> (normalize_socket \<circ> sa_set_port port) ` set as)
      | _ \<Rightarrow> {})"

lemma validate_inner_InrD:
  assumes "snd (validate_inner api uapi env v url policy) = Inr d"
  obtains local as u dn where
    "local_current env = Some local" "snd (admit api env v as local policy u dn) = Inr d"
    "set as = resolved_set env uapi url" "as \<noteq> []"
    "url_scheme uapi url \<in> {''http'', ''https''}"
    "\<forall>a \<in> set as. url_port_or_known_default uapi url = Some (sa_port a)"
proof -
  let ?u = "url_without_fragment uapi url"
  have sch: "url_scheme uapi url \<in> {''http'', ''https''}"
    using assms by (auto simp: validate_inner_def split: if_splits)
  obtain h port local where h: "url_host uapi url = Some h"
    and p: "url_port_or_known_default uapi url = Some port" and l: "local_current env = Some local"
    using assms sch
    by (cases "url_host uapi url"; cases "url_port_or_known_default uapi url"; cases "local_current env")
      (auto simp: validate_inner_def Let_def split: host.splits)
  note unf = validate_inner_def Let_def resolved_set_def
  show ?thesis
  proof (cases h)
    case (HostIpv4 ip)
    then show ?thesis
      using that [of local "[SA4 ip port]" ?u None] assms h p l sch by (auto simp: unf)
  next
    case (HostIpv6 ip)
    then show ?thesis
      using that [of local "[SA6 ip port 0 0]" ?u None] assms h p l sch by (auto simp: unf)
  next
    case (HostDomain n)
    with assms h p l sch obtain r where r: "dns_resolve env n port = Some r" "r \<noteq> []"
      and a: "snd (admit api env v (remdups_adj (sort (map (normalize_socket \<circ> sa_set_port port) r)))
        local policy ?u (Some n)) = Inr d"
      by (auto simp: unf split: option.splits if_splits)
    from that [OF l a] r h p sch HostDomain show ?thesis by (auto simp: resolved_set_def)
  qed
qed

section \<open>Listeners\<close>

lemma mem_listener_candidates_iff:
  "c \<in> set (listener_socket_candidates api s nat64) \<longleftrightarrow>
     c = normalize_socket s \<or>
     (\<exists>ip p f sc v. s = SA6 ip p f sc \<and> v \<in> set (embedded_ipv4_candidates api ip nat64) \<and> c = SA4 v p)"
  by (cases s) (auto simp: listener_socket_candidates_def Let_def set_insort_key)

lemma listener_endpoint_matches_refl: "listener_endpoint_matches s s"
  by (cases s) auto

lemma matches_listenerI:
  assumes "l \<in> set ls" "sa_port l = sa_port t" "\<not> is_unspecified (sa_ip l)"
    and "lc \<in> set (listener_socket_candidates api l nat64)"
    and "tc \<in> set (listener_socket_candidates api t nat64)"
    and "listener_endpoint_matches lc tc"
  shows "matches_listener api ls t local nat64"
proof -
  have "listener_socket_candidates api (normalize_socket t) nat64 = listener_socket_candidates api t nat64"
    by (simp add: listener_socket_candidates_def)
  with assms show ?thesis by (auto simp: matches_listener_def Let_def list_ex_iff)
qed

section \<open>Discovery\<close>

lemma scan_answers_v6:
  "scan_answers as s0 s1 acc = Inr (t0, t1, v6) \<Longrightarrow>
     set v6 = set acc \<union> {ip. \<exists>p f s. SA6 ip p f s \<in> set as}"
  by (induction as s0 s1 acc rule: scan_answers.induct) (auto split: if_splits)

lemma scan_answers_seen:
  "scan_answers as s0 s1 acc = Inr (t0, t1, v6) \<Longrightarrow>
     (t0 \<longleftrightarrow> s0 \<or> (\<exists>p. SA4 IPV4ONLY_0 p \<in> set as)) \<and>
     (t1 \<longleftrightarrow> s1 \<or> (\<exists>p. SA4 IPV4ONLY_1 p \<in> set as)) \<and>
     (\<forall>ip p. SA4 ip p \<in> set as \<longrightarrow> ip = IPV4ONLY_0 \<or> ip = IPV4ONLY_1)"
  by (induction as s0 s1 acc rule: scan_answers.induct)
    (auto split: if_splits simp: IPV4ONLY_0_def IPV4ONLY_1_def ipv4_new_def)

lemma collect_for_length_sound:
  "p \<in> set (collect_for_length api v6 len as acc) \<Longrightarrow>
     p \<in> set acc \<or> nat64_prefix_is_usable api p \<and> corroborated v6 p"
  by (induction as arbitrary: acc) (simp, fastforce simp: Let_def split: if_splits)

lemma collect_prefixes_sound:
  assumes "p \<in> set (collect_prefixes api v6)"
  shows "nat64_prefix_is_usable api p \<and> corroborated v6 p"
proof -
  have "p \<in> set (foldl (\<lambda>acc len. collect_for_length api v6 len v6 acc) acc0 lens) \<Longrightarrow>
      p \<in> set acc0 \<or> nat64_prefix_is_usable api p \<and> corroborated v6 p" for acc0 lens
    by (induction lens arbitrary: acc0) (auto dest: collect_for_length_sound)
  from this [of "[]" VALID_LENGTHS] assms show ?thesis by (simp add: collect_prefixes_def)
qed

lemma discover_sound:
  assumes "discover_nat64_prefixes api answers = Inr ps" "p \<in> set ps"
  shows "nat64_prefix_is_usable api p \<and> p \<noteq> WELL_KNOWN_NAT64 \<and>
    (\<exists>ip0 p0 f0 s0. SA6 ip0 p0 f0 s0 \<in> set answers \<and> extract_rfc6052 ip0 p = Some IPV4ONLY_0) \<and>
    (\<exists>ip1 p1 f1 s1. SA6 ip1 p1 f1 s1 \<in> set answers \<and> extract_rfc6052 ip1 p = Some IPV4ONLY_1)"
proof -
  obtain t0 t1 v6 where sc: "scan_answers answers False False [] = Inr (t0, t1, v6)"
    using assms(1) by (auto simp: discover_nat64_prefixes_def rbind_Inr_iff split: if_splits)
  have mem: "p \<in> set (collect_prefixes api v6)" and nw: "p \<noteq> WELL_KNOWN_NAT64"
    using assms sc by (auto simp: discover_nat64_prefixes_def Let_def WELL_KNOWN_NAT64_def split: if_splits)
  from collect_prefixes_sound [OF mem] have u: "nat64_prefix_is_usable api p" and c: "corroborated v6 p"
    by auto
  from scan_answers_v6 [OF sc] have v: "ip \<in> set v6 \<longleftrightarrow> (\<exists>p f s. SA6 ip p f s \<in> set answers)" for ip
    by auto
  from c u nw show ?thesis by (auto simp: corroborated_def list_ex_iff v)
qed

lemma discover_accounts_for_all:
  assumes "discover_nat64_prefixes api answers = Inr ps"
  shows "(\<exists>p. SA4 IPV4ONLY_0 p \<in> set answers) = (\<exists>p. SA4 IPV4ONLY_1 p \<in> set answers)"
    and "SA4 ip q \<in> set answers \<Longrightarrow> ip = IPV4ONLY_0 \<or> ip = IPV4ONLY_1"
    and "SA6 a q f s \<in> set answers \<Longrightarrow>
      \<exists>p. (p = WELL_KNOWN_NAT64 \<or> p \<in> set ps) \<and> extract_rfc6052 a p \<in> {Some IPV4ONLY_0, Some IPV4ONLY_1}"
proof -
  obtain t0 t1 v6 where sc: "scan_answers answers False False [] = Inr (t0, t1, v6)" and t: "t0 = t1"
    using assms by (auto simp: discover_nat64_prefixes_def rbind_Inr_iff split: if_splits)
  note seen = scan_answers_seen [OF sc] and v6 = scan_answers_v6 [OF sc]
  from seen t show "(\<exists>p. SA4 IPV4ONLY_0 p \<in> set answers) = (\<exists>p. SA4 IPV4ONLY_1 p \<in> set answers)"
    by metis
  from seen show "SA4 ip q \<in> set answers \<Longrightarrow> ip = IPV4ONLY_0 \<or> ip = IPV4ONLY_1" by blast
  let ?all = "sort_key (\<lambda>p. (prefix_length p, unat (prefix_network p))) (collect_prefixes api v6)"
  assume "SA6 a q f s \<in> set answers"
  then have a: "a \<in> set v6" using v6 by auto
  with assms sc have "answer_accounted_for ?all a" and
    ps: "ps = filter (\<lambda>p. \<not> (prefix_network p = ipv6_new 0x64 0xff9b 0 0 0 0 0 0 \<and> prefix_length p = 96)) ?all"
    by (auto simp: discover_nat64_prefixes_def Let_def list_all_iff split: if_splits)
  then obtain p where p: "p \<in> set ?all" "extract_rfc6052 a p \<in> {Some IPV4ONLY_0, Some IPV4ONLY_1}"
    by (auto simp: answer_accounted_for_def list_ex_iff split: option.splits)
  have "p = WELL_KNOWN_NAT64 \<or> p \<in> set ps" using p(1) ps by (auto simp: WELL_KNOWN_NAT64_def)
  with p(2) show "\<exists>p. (p = WELL_KNOWN_NAT64 \<or> p \<in> set ps) \<and>
      extract_rfc6052 a p \<in> {Some IPV4ONLY_0, Some IPV4ONLY_1}" by blast
qed

section \<open>The cache\<close>

lemma cached_lookup_Some_iff:
  "cached_lookup cache now local = Some r \<longleftrightarrow>
     (\<exists>c. cache = Some c \<and> now < expires_at c \<and> cached_local c = local \<and>
          r = (if failed c then Inl ResolutionFailed else Inr (prefixes c)))"
  by (auto simp: cached_lookup_def option_filter_Some_iff)

lemma cached_lookup_entry:
  "cached_lookup (Some (cache_entry env local d)) now local =
     (if now < expires_at (cache_entry env local d)
      then Some (case d of Inl _ \<Rightarrow> Inl ResolutionFailed | Inr ps \<Rightarrow> Inr ps) else None)"
  by (auto simp: cached_lookup_def cache_entry_def split: sum.splits)

lemma discover_Inl: "discover_nat64_prefixes api answers = Inl e \<Longrightarrow> e = ResolutionFailed"
proof -
  have sc: "scan_answers as s0 s1 acc = Inl e \<Longrightarrow> e = ResolutionFailed" for as s0 s1 acc
    by (induction as s0 s1 acc rule: scan_answers.induct) (auto split: if_splits)
  show "discover_nat64_prefixes api answers = Inl e \<Longrightarrow> e = ResolutionFailed"
    by (auto simp: discover_nat64_prefixes_def rbind_Inl_iff Let_def split: if_splits dest: sc)
qed

lemma discovery_outcome_Inl: "discovery_outcome api env = Inl e \<Longrightarrow> e = ResolutionFailed"
  by (auto simp: discovery_outcome_def split: option.splits if_splits dest: discover_Inl)

text \<open>A cache is coherent when its entry records what some discovery returned.\<close>

definition cache_sound :: "ipnet_api \<Rightarrow> cached_nat64_prefixes option \<Rightarrow> bool" where
  "cache_sound api cache =
     (case cache of
        None \<Rightarrow> True
      | Some c \<Rightarrow> failed c \<or> (\<exists>answers. discover_nat64_prefixes api answers = Inr (prefixes c)))"

lemma discovery_outcome_Inr:
  "discovery_outcome api env = Inr ps \<Longrightarrow> \<exists>answers. discover_nat64_prefixes api answers = Inr ps"
  by (auto simp: discovery_outcome_def split: option.splits if_splits)

lemma cache_entry_sound: "cache_sound api (Some (cache_entry env local (discovery_outcome api env)))"
  by (auto simp: cache_sound_def cache_entry_def split: sum.splits dest: discovery_outcome_Inr)

lemma nat64_prefixes_for_sound:
  assumes "cache_sound api cache" "\<And>c. cache_sound api c \<Longrightarrow> cache_sound api (cache_at_lock env c)"
    and "nat64_prefixes_for api env cache as local policy = (cache', r)"
  shows "cache_sound api cache' \<and>
    (\<forall>ps. r = Inr ps \<longrightarrow> ps = [] \<or> (\<exists>answers. discover_nat64_prefixes api answers = Inr ps))"
proof -
  have s2: "cache_sound api (cache_at_lock env cache)" using assms(1,2) by blast
  have reuse: "\<exists>answers. discover_nat64_prefixes api answers = Inr ps"
    if "cached_lookup c now local = Some (Inr ps)" "cache_sound api c" for c now ps
    using that by (auto simp: cached_lookup_Some_iff cache_sound_def split: if_splits)
  show ?thesis
    using assms(1,3) s2 cache_entry_sound [of api env local]
    by (auto simp: nat64_prefixes_for_def Let_def split: if_splits option.splits
        dest: reuse discovery_outcome_Inr)
qed

section \<open>Properties of the validator\<close>

text \<open>
  Property C4.  A destination the validator returns is safe to connect to: the scheme is HTTP
  or HTTPS, the pinned addresses are exactly the literal or all normalised DNS answers (none
  is dropped), they carry the URL's port, and each of them, classified under the interfaces
  and NAT64 prefixes of this validation, is neither always blocked, nor private without the
  private-network exception, nor an unscoped link-local address, nor one of the server's own
  listeners.
\<close>

theorem validated_destination_is_safe:
  assumes "validate api uapi env timed_out v url policy = (v', Inr d)"
  shows "\<exists>local nat64.
    local_current env = Some local \<and>
    snd (nat64_prefixes_for api env (nat64_cache v) (rd_addrs d) local policy) = Inr nat64 \<and>
    url_scheme uapi url \<in> {''http'', ''https''} \<and>
    rd_addrs d \<noteq> [] \<and> set (rd_addrs d) = resolved_set env uapi url \<and>
    (\<forall>a \<in> set (rd_addrs d).
       url_port_or_known_default uapi url = Some (sa_port a) \<and>
       address_admitted api (listeners v) local nat64 policy a)"
proof -
  have "snd (validate_inner api uapi env v url policy) = Inr d"
    using assms by (auto simp: validate_def split: if_splits)
  then show ?thesis
    by (rule validate_inner_InrD) (auto dest!: admit_InrD)
qed

definition example_env :: "socket_addr list \<Rightarrow> validator_env" where
  "example_env answers =
     \<lparr>dns_resolve = (\<lambda>_ _. Some answers), local_current = Some \<lparr>interfaces = []\<rparr>,
      clock_first = 0, clock_second = 0, clock_store = 0, instant_limit = 1000000,
      cache_at_lock = id\<rparr>"

definition example_url_api :: "string url_api" where
  "example_url_api =
     \<lparr>url_scheme = (\<lambda>_. ''https''), url_host = (\<lambda>u. Some (HostDomain u)),
      url_port_or_known_default = (\<lambda>_. Some 443), url_without_fragment = id\<rparr>"

lemma example_validate:
  "validate cidr_api example_url_api (example_env [SA4 (ipv4_new 93 184 216 34) 0]) False
     (validator_new []) ''example.org'' \<lparr>allow_private_network_sources = False\<rparr> =
   (validator_new [], Inr \<lparr>rd_url = ''example.org'', rd_domain = Some ''example.org'',
                            rd_addrs = [SA4 (ipv4_new 93 184 216 34) 443]\<rparr>)"
  by (simp add: validate_def validate_inner_def example_env_def example_url_api_def admit_def
      nat64_prefixes_for_def address_needs_discovery_def validate_addresses_eq
      address_admitted_def matches_listener_def validator_new_def MAX_DNS_ANSWERS_def
      cidr.classify_v4_ranges blocked_ranges_v4_def private_ranges_v4_def
      in_range_def local_contains_def ipv4_new_def)

theorem validated_destination_is_safe_witness:
  "classify_ip cidr_api (V4 (ipv4_new 93 184 216 34)) \<lparr>interfaces = []\<rparr> [] \<noteq> AlwaysBlocked"
proof -
  from validated_destination_is_safe [OF example_validate]
  show ?thesis by (auto simp: address_admitted_def example_env_def)
qed

text \<open>
  One unsafe answer blocks the whole destination: when the URL, the interfaces,
  name resolution and NAT64 discovery all succeed, and any address of the resolved set is not
  admitted, the validator answers \<open>Blocked\<close> for the whole URL, whatever the other answers are.
\<close>

theorem one_unsafe_answer_blocks:
  assumes "url_scheme uapi url \<in> {''http'', ''https''}"
    and "url_host uapi url = Some (HostDomain n)"
    and "url_port_or_known_default uapi url = Some port"
    and "local_current env = Some local"
    and "dns_resolve env n port = Some answers" and "length answers \<le> MAX_DNS_ANSWERS"
    and "snd (nat64_prefixes_for api env (nat64_cache v)
      (remdups_adj (sort (map (normalize_socket \<circ> sa_set_port port) answers))) local policy) = Inr nat64"
    and "x \<in> set answers"
    and "\<not> address_admitted api (listeners v) local nat64 policy
      (normalize_socket (sa_set_port port x))"
  shows "snd (validate api uapi env False v url policy) = Inl Blocked"
  using assms
  by (auto simp: validate_def validate_inner_def admit_def Let_def validate_addresses_eq
      split: prod.splits)

theorem one_unsafe_answer_blocks_witness:
  "snd (validate cidr_api example_url_api
     (example_env [SA4 (ipv4_new 93 184 216 34) 0, SA4 (ipv4_new 10 0 0 1) 0]) False
     (validator_new []) ''example.org'' \<lparr>allow_private_network_sources = False\<rparr>) = Inl Blocked"
proof -
  let ?env = "example_env [SA4 (ipv4_new 93 184 216 34) 0, SA4 (ipv4_new 10 0 0 1) 0]"
  have "\<not> address_admitted cidr_api (listeners (validator_new [])) \<lparr>interfaces = []\<rparr> []
      \<lparr>allow_private_network_sources = False\<rparr> (SA4 (ipv4_new 10 0 0 1) 443)"
    by (simp add: address_admitted_def cidr.classify_v4_ranges blocked_ranges_v4_def
        private_ranges_v4_def in_range_def ipv4_new_def)
  then show ?thesis
    by (intro one_unsafe_answer_blocks [where n = "''example.org''" and port = 443 and
          local = "\<lparr>interfaces = []\<rparr>" and ?nat64.0 = "[]" and x = "SA4 (ipv4_new 10 0 0 1) 0"
          and answers = "[SA4 (ipv4_new 93 184 216 34) 0, SA4 (ipv4_new 10 0 0 1) 0]"])
      (simp_all add: example_env_def example_url_api_def MAX_DNS_ANSWERS_def
        nat64_prefixes_for_def address_needs_discovery_def list_ex_iff)
qed



text \<open>
  NAT64 discovery fails closed, and the failure is remembered: when discovery is
  needed, no live cache entry exists and the DNS exchange does not yield an acceptable answer,
  the lookup fails with \<open>ResolutionFailed\<close>; until the time-to-live has passed every later
  lookup for the same interfaces fails the same way without DNS, while a lookup for other
  interfaces ignores the entry.
\<close>

theorem discovery_fails_closed:
  assumes "list_ex (address_needs_discovery api local policy) as"
    and "cached_lookup cache (clock_first env) local = None"
    and "cached_lookup (cache_at_lock env cache) (clock_second env) local = None"
    and "discovery_outcome api env = Inl e"
    and "nat64_prefixes_for api env cache as local policy = (cache', r)"
    and "clock_store env + NAT64_CACHE_TTL \<le> instant_limit env"
  shows "r = Inl ResolutionFailed \<and>
    (\<forall>now local'. cached_lookup cache' now local' =
       (if now < clock_store env + NAT64_CACHE_TTL \<and> local' = local
        then Some (Inl ResolutionFailed) else None))"
proof -
  have e: "e = ResolutionFailed" by (rule discovery_outcome_Inl [OF assms(4)])
  have "cache' = Some (cache_entry env local (Inl e))" and r: "r = Inl e"
    using assms(1-5) by (auto simp: nat64_prefixes_for_def Let_def)
  with e assms(6) show ?thesis by (auto simp: cached_lookup_def cache_entry_def)
qed

theorem discovery_fails_closed_witness:
  "snd (nat64_prefixes_for cidr_api ((example_env [])\<lparr>dns_resolve := (\<lambda>_ _. None)\<rparr>) None
     [SA6 (ipv6_new 0x64 0xff9b 1 0 0 0 0 1) 443 0 0] \<lparr>interfaces = []\<rparr>
     \<lparr>allow_private_network_sources = False\<rparr>) = Inl ResolutionFailed"
proof -
  let ?env = "(example_env [])\<lparr>dns_resolve := (\<lambda>_ _. None)\<rparr>"
  let ?a = "SA6 (ipv6_new 0x64 0xff9b 1 0 0 0 0 1) 443 0 0"
  let ?l = "\<lparr>interfaces = []\<rparr>" and ?p = "\<lparr>allow_private_network_sources = False\<rparr>"
  have "extract_rfc6052 (ipv6_new 0x64 0xff9b 1 0 0 0 0 1) WELL_KNOWN_NAT64 = None"
    by (rule extract_rfc6052_None) (simp add: WELL_KNOWN_NAT64_def ipv6_new_def)
  then have "embedded_ipv4_candidates cidr_api (ipv6_new 0x64 0xff9b 1 0 0 0 0 1) [] = []"
    by (simp add: embedded_ipv4_candidates_def to_ipv4_mapped_def ipv6_new_def
        List.map_filter_simps)
  then have n: "list_ex (address_needs_discovery cidr_api ?l ?p) [?a]"
    by (simp add: address_needs_discovery_def normalized_embedded_ipv4_def is_rfc8215_address_def
        RFC8215_NET_def cidr.contains6 same_prefix_def ipv6_new_def)
  obtain c' r where cr: "nat64_prefixes_for cidr_api ?env None [?a] ?l ?p = (c', r)"
    by (cases "nat64_prefixes_for cidr_api ?env None [?a] ?l ?p")
  have "r = Inl ResolutionFailed"
    using discovery_fails_closed [OF n _ _ _ cr, of ResolutionFailed]
    by (simp add: example_env_def cached_lookup_def discovery_outcome_def NAT64_CACHE_TTL_def)
  with cr show ?thesis by simp
qed

text \<open>
  The proxy cannot be pointed back at the server's own listener: for a listener
  bound to an IPv4 address, a target with the same port is refused whenever that address is
  the target itself or can be extracted from it (IPv4-mapped, well-known or discovered NAT64).
\<close>

theorem own_listener_is_refused:
  assumes "SA4 l port \<in> set (listeners v)" and "l \<noteq> 0"
    and "target = SA4 l port \<or>
      (\<exists>ip f s. target = SA6 ip port f s \<and> l \<in> set (embedded_ipv4_candidates api ip nat64))"
  shows "\<not> address_admitted api (listeners v) local nat64 policy target"
proof -
  have "SA4 l port \<in> set (listener_socket_candidates api target nat64)"
    using assms(3) by (auto simp: mem_listener_candidates_iff)
  moreover have "SA4 l port \<in> set (listener_socket_candidates api (SA4 l port) nat64)"
    by (simp add: mem_listener_candidates_iff)
  ultimately have "matches_listener api (listeners v) target local nat64"
    using assms by (intro matches_listenerI [OF assms(1) _ _ _ _ listener_endpoint_matches_refl]) auto
  then show ?thesis by (simp add: address_admitted_def)
qed

theorem own_listener_is_refused_witness:
  "\<not> address_admitted cidr_api (listeners (validator_new [SA4 (ipv4_new 127 0 0 1) 11470]))
     \<lparr>interfaces = []\<rparr> [] \<lparr>allow_private_network_sources = True\<rparr>
     (SA6 (ipv4_to_mapped (ipv4_new 127 0 0 1)) 11470 0 0)"
  by (rule own_listener_is_refused [where l = "ipv4_new 127 0 0 1" and port = 11470])
    (simp_all add: validator_new_def mem_candidates_iff to_ipv4_mapped_inverse, simp add: ipv4_new_def)

end
