(* ===== verification/ProxyRuntime.thy ===== *)
theory ProxyRuntime
  imports Destination
begin

text \<open>
  The runtime of the outbound proxy (\<open>server/src/network_security/runtime.rs\<close>): the two
  admission pools (requests and playlists), the policy generations with their cancellation
  tokens, and the detection of the server's own hop marker.

  A \<open>Mutex\<close> section is one atomic operation on the state it protects.  A cancellation token is
  a number and the set \<open>rt_cancelled\<close> holds the cancelled ones; a permit is the peer it was
  taken for, and dropping it is \<open>drop_permit\<close>, whose \<open>None\<close> is one of the three \<open>expect\<close>
  panics of the destructor.  The relation \<open>rt_step\<close> interleaves every operation of the
  runtime with the creation and the destruction of request contexts, playlist permits and
  producer leases.

  Shown here: in every reachable state the counters of both pools are exactly the permits that
  are alive, the limits hold and no destructor can panic; a reconfiguration exposes only what
  both the old and the new policy allow; the contexts of the current generation that exceed the
  new policy are cancelled, while those of an older generation are not; the hop marker is found
  in every list position.
\<close>

section \<open>Admission pools\<close>

definition PROXY_HOP_HEADER_NAME :: string where
  "PROXY_HOP_HEADER_NAME = ''x-stream-server-proxy-hop''"

definition MAX_CONCURRENT_PROXY_REQUESTS :: nat where
  "MAX_CONCURRENT_PROXY_REQUESTS = 64"

definition MAX_CONCURRENT_PROXY_REQUESTS_PER_PEER :: nat where
  "MAX_CONCURRENT_PROXY_REQUESTS_PER_PEER = 16"

definition MAX_CONCURRENT_PLAYLISTS :: nat where
  "MAX_CONCURRENT_PLAYLISTS = 8"

definition MAX_CONCURRENT_PLAYLISTS_PER_PEER :: nat where
  "MAX_CONCURRENT_PLAYLISTS_PER_PEER = 4"

lemmas proxy_limits =
  MAX_CONCURRENT_PROXY_REQUESTS_def MAX_CONCURRENT_PROXY_REQUESTS_PER_PEER_def
  MAX_CONCURRENT_PLAYLISTS_def MAX_CONCURRENT_PLAYLISTS_PER_PEER_def

datatype proxy_peer = Known ip_addr | Unknown

datatype proxy_capacity_error = ProxyCapacityError

record proxy_capacity_state =
  cap_global :: nat
  cap_peers :: "proxy_peer \<rightharpoonup> nat"

definition capacity_default :: proxy_capacity_state where
  "capacity_default = \<lparr>cap_global = 0, cap_peers = Map.empty\<rparr>"

fun normalize_peer :: "ip_addr option \<Rightarrow> proxy_peer" where
  "normalize_peer (Some (V6 address)) =
     (case to_ipv4_mapped address of Some a \<Rightarrow> Known (V4 a) | None \<Rightarrow> Known (V6 address))"
| "normalize_peer (Some (V4 address)) = Known (V4 address)"
| "normalize_peer None = Unknown"

definition try_acquire_normalized ::
  "proxy_capacity_state \<Rightarrow> proxy_peer \<Rightarrow> nat \<Rightarrow> nat \<Rightarrow>
   proxy_capacity_state \<times> (proxy_capacity_error, proxy_peer) result" where
  "try_acquire_normalized state peer global_limit peer_limit =
     (let peer_active = (case cap_peers state peer of Some n \<Rightarrow> n | None \<Rightarrow> 0)
      in if cap_global state \<ge> global_limit \<or> peer_active \<ge> peer_limit
         then (state, Inl ProxyCapacityError)
         else (\<lparr>cap_global = cap_global state + 1,
                cap_peers = (cap_peers state)(peer \<mapsto> peer_active + 1)\<rparr>, Inr peer))"

definition try_acquire ::
  "proxy_capacity_state \<Rightarrow> ip_addr option \<Rightarrow> nat \<Rightarrow> nat \<Rightarrow>
   proxy_capacity_state \<times> (proxy_capacity_error, proxy_peer) result" where
  "try_acquire state peer global_limit peer_limit =
     try_acquire_normalized state (normalize_peer peer) global_limit peer_limit"

definition drop_permit :: "proxy_capacity_state \<Rightarrow> proxy_peer \<Rightarrow> proxy_capacity_state option" where
  "drop_permit state peer =
     (if cap_global state = 0 then None
      else case cap_peers state peer of
          None \<Rightarrow> None
        | Some active \<Rightarrow>
            if active = 0 then None
            else Some \<lparr>cap_global = cap_global state - 1,
                       cap_peers = (if active - 1 = 0 then (cap_peers state)(peer := None)
                                    else (cap_peers state)(peer \<mapsto> active - 1))\<rparr>)"

section \<open>Requests, leases and generations\<close>

record proxy_policy_settings =
  ps_private :: bool
  ps_invalid_tls :: bool

record proxy_generation =
  gen_settings :: proxy_policy_settings
  gen_cancellation :: nat

record proxy_request_context =
  ctx_settings :: proxy_policy_settings
  ctx_cancellation :: nat
  ctx_peer :: proxy_peer

record proxy_producer_lease =
  lease_cancellation :: nat
  lease_peer :: proxy_peer
  lease_playlist_peer :: "proxy_peer option"
  lease_deadline :: "nat option"

record proxy_runtime =
  rt_hop_marker :: string
  rt_capacity :: proxy_capacity_state
  rt_playlist_capacity :: proxy_capacity_state
  rt_generation :: proxy_generation
  rt_cancelled :: "nat set"
  rt_next_token :: nat

definition with_hop_marker :: "proxy_policy_settings \<Rightarrow> string \<Rightarrow> proxy_runtime" where
  "with_hop_marker settings hop_marker =
     \<lparr>rt_hop_marker = hop_marker, rt_capacity = capacity_default,
      rt_playlist_capacity = capacity_default,
      rt_generation = \<lparr>gen_settings = settings, gen_cancellation = 0\<rparr>,
      rt_cancelled = {}, rt_next_token = 1\<rparr>"

definition into_producer_lease :: "proxy_request_context \<Rightarrow> proxy_producer_lease" where
  "into_producer_lease c =
     \<lparr>lease_cancellation = ctx_cancellation c, lease_peer = ctx_peer c,
      lease_playlist_peer = None, lease_deadline = None\<rparr>"

definition into_playlist_producer_lease ::
  "proxy_request_context \<Rightarrow> proxy_peer \<Rightarrow> nat \<Rightarrow> proxy_producer_lease" where
  "into_playlist_producer_lease c playlist_capacity delivery_deadline =
     \<lparr>lease_cancellation = ctx_cancellation c, lease_peer = ctx_peer c,
      lease_playlist_peer = Some playlist_capacity, lease_deadline = Some delivery_deadline\<rparr>"

definition try_request_for_peer ::
  "proxy_runtime \<Rightarrow> ip_addr option \<Rightarrow>
   proxy_runtime \<times> (proxy_capacity_error, proxy_request_context) result" where
  "try_request_for_peer rt peer =
     (case try_acquire (rt_capacity rt) peer MAX_CONCURRENT_PROXY_REQUESTS
             MAX_CONCURRENT_PROXY_REQUESTS_PER_PEER of
        (cap, Inl e) \<Rightarrow> (rt\<lparr>rt_capacity := cap\<rparr>, Inl e)
      | (cap, Inr p) \<Rightarrow>
          (rt\<lparr>rt_capacity := cap\<rparr>,
           Inr \<lparr>ctx_settings = gen_settings (rt_generation rt),
                ctx_cancellation = gen_cancellation (rt_generation rt), ctx_peer = p\<rparr>))"

definition try_playlist ::
  "proxy_runtime \<Rightarrow> proxy_request_context \<Rightarrow>
   proxy_runtime \<times> (proxy_capacity_error, proxy_peer) result" where
  "try_playlist rt c =
     (case try_acquire_normalized (rt_playlist_capacity rt) (ctx_peer c)
             MAX_CONCURRENT_PLAYLISTS MAX_CONCURRENT_PLAYLISTS_PER_PEER of
        (cap, r) \<Rightarrow> (rt\<lparr>rt_playlist_capacity := cap\<rparr>, r))"

definition drop_context :: "proxy_runtime \<Rightarrow> proxy_request_context \<Rightarrow> proxy_runtime option" where
  "drop_context rt c =
     map_option (\<lambda>cap. rt\<lparr>rt_capacity := cap\<rparr>) (drop_permit (rt_capacity rt) (ctx_peer c))"

definition drop_playlist_permit :: "proxy_runtime \<Rightarrow> proxy_peer \<Rightarrow> proxy_runtime option" where
  "drop_playlist_permit rt p =
     map_option (\<lambda>cap. rt\<lparr>rt_playlist_capacity := cap\<rparr>) (drop_permit (rt_playlist_capacity rt) p)"

definition drop_lease :: "proxy_runtime \<Rightarrow> proxy_producer_lease \<Rightarrow> proxy_runtime option" where
  "drop_lease rt l =
     (case drop_permit (rt_capacity rt) (lease_peer l) of
        None \<Rightarrow> None
      | Some cap \<Rightarrow>
          let rt1 = rt\<lparr>rt_capacity := cap\<rparr>
          in case lease_playlist_peer l of
              None \<Rightarrow> Some rt1
            | Some p \<Rightarrow> drop_playlist_permit rt1 p)"

definition settings_meet ::
  "proxy_policy_settings \<Rightarrow> proxy_policy_settings \<Rightarrow> proxy_policy_settings" where
  "settings_meet a b =
     \<lparr>ps_private = (ps_private a \<and> ps_private b),
      ps_invalid_tls = (ps_invalid_tls a \<and> ps_invalid_tls b)\<rparr>"

definition new_generation :: "proxy_runtime \<Rightarrow> proxy_policy_settings \<Rightarrow> proxy_runtime" where
  "new_generation rt settings =
     rt\<lparr>rt_generation := \<lparr>gen_settings = settings, gen_cancellation = rt_next_token rt\<rparr>,
        rt_next_token := rt_next_token rt + 1\<rparr>"

definition cancel_current :: "proxy_runtime \<Rightarrow> proxy_runtime" where
  "cancel_current rt =
     rt\<lparr>rt_cancelled := insert (gen_cancellation (rt_generation rt)) (rt_cancelled rt)\<rparr>"

definition begin_reconfigure :: "proxy_runtime \<Rightarrow> proxy_policy_settings \<Rightarrow> proxy_runtime" where
  "begin_reconfigure rt next =
     (let intersection = settings_meet (gen_settings (rt_generation rt)) next
      in if intersection \<noteq> gen_settings (rt_generation rt)
         then new_generation (cancel_current rt) intersection
         else rt)"

definition finish_reconfigure :: "proxy_runtime \<Rightarrow> proxy_policy_settings \<Rightarrow> proxy_runtime" where
  "finish_reconfigure rt next =
     (let cur = gen_settings (rt_generation rt)
      in if cur = next then rt
         else let restrictive = ((ps_private cur \<and> \<not> ps_private next) \<or>
                                 (ps_invalid_tls cur \<and> \<not> ps_invalid_tls next));
                  rt1 = (if restrictive then cancel_current rt else rt)
              in new_generation rt1 next)"

text \<open>
  \<open>ProxyRuntime::validate\<close>: the biased \<open>select!\<close> polls the cancellation first at every poll, so
  a token that is cancelled at the start, or at any poll before the validator completes
  (\<open>cancelled_meanwhile\<close>), gives \<open>ResolutionFailed\<close>.
\<close>

definition runtime_validate ::
  "ipnet_api \<Rightarrow> 'u url_api \<Rightarrow> validator_env \<Rightarrow> bool \<Rightarrow> bool \<Rightarrow> proxy_runtime \<Rightarrow> validator \<Rightarrow>
   proxy_request_context \<Rightarrow> 'u \<Rightarrow>
   validator \<times> (destination_error, 'u resolved_destination) result" where
  "runtime_validate api uapi env timed_out cancelled_meanwhile rt v c url =
     (if ctx_cancellation c \<in> rt_cancelled rt \<or> cancelled_meanwhile then (v, Inl ResolutionFailed)
      else validate api uapi env timed_out v url
             \<lparr>allow_private_network_sources = ps_private (ctx_settings c)\<rparr>)"

section \<open>The hop marker\<close>

fun trim_ows_start :: "string \<Rightarrow> string" where
  "trim_ows_start [] = []"
| "trim_ows_start (b # bs) =
     (if b = CHR '' '' \<or> b = CHR 0x09 then trim_ows_start bs else b # bs)"

function trim_ows_end :: "string \<Rightarrow> string" where
  "trim_ows_end bs =
     (if bs \<noteq> [] \<and> (last bs = CHR '' '' \<or> last bs = CHR 0x09) then trim_ows_end (butlast bs) else bs)"
  by pat_completeness auto
termination by (relation "measure length") auto

declare trim_ows_end.simps [simp del]

definition trim_http_ows :: "string \<Rightarrow> string" where
  "trim_http_ows bs = trim_ows_end (trim_ows_start bs)"

text \<open>
  \<open>get_all\<close> is \<open>HeaderMap::get_all\<close> of the \<open>http\<close> crate and \<open>ct_eq\<close> the constant-time
  comparison of the \<open>subtle\<close> crate.
\<close>

definition matches_inbound_hop_marker ::
  "(string \<Rightarrow> string \<Rightarrow> bool) \<Rightarrow> proxy_runtime \<Rightarrow> (string \<Rightarrow> string list) \<Rightarrow> bool" where
  "matches_inbound_hop_marker ct_eq rt get_all =
     list_ex (\<lambda>value. ct_eq value (rt_hop_marker rt))
       (map trim_http_ows (concat (map (split_on CHR '','') (get_all PROXY_HOP_HEADER_NAME))))"

section \<open>The interleaved system\<close>

record proxy_world =
  w_rt :: proxy_runtime
  w_contexts :: "proxy_request_context multiset"
  w_playlists :: "proxy_peer multiset"
  w_leases :: "proxy_producer_lease multiset"

definition proxy_world_init :: "proxy_world \<Rightarrow> bool" where
  "proxy_world_init w \<longleftrightarrow>
     (\<exists>settings marker. w = \<lparr>w_rt = with_hop_marker settings marker, w_contexts = {#},
                             w_playlists = {#}, w_leases = {#}\<rparr>)"

inductive rt_step :: "proxy_world \<Rightarrow> proxy_world \<Rightarrow> bool" where
  request: "try_request_for_peer (w_rt w) peer = (rt', Inr c) \<Longrightarrow>
     rt_step w (w\<lparr>w_rt := rt', w_contexts := add_mset c (w_contexts w)\<rparr>)"
| request_refused: "try_request_for_peer (w_rt w) peer = (rt', Inl e) \<Longrightarrow>
     rt_step w (w\<lparr>w_rt := rt'\<rparr>)"
| playlist: "c \<in># w_contexts w \<Longrightarrow> try_playlist (w_rt w) c = (rt', Inr p) \<Longrightarrow>
     rt_step w (w\<lparr>w_rt := rt', w_playlists := add_mset p (w_playlists w)\<rparr>)"
| playlist_refused: "c \<in># w_contexts w \<Longrightarrow> try_playlist (w_rt w) c = (rt', Inl e) \<Longrightarrow>
     rt_step w (w\<lparr>w_rt := rt'\<rparr>)"
| into_lease: "c \<in># w_contexts w \<Longrightarrow>
     rt_step w (w\<lparr>w_contexts := w_contexts w - {#c#},
                  w_leases := add_mset (into_producer_lease c) (w_leases w)\<rparr>)"
| into_playlist_lease: "c \<in># w_contexts w \<Longrightarrow> p \<in># w_playlists w \<Longrightarrow>
     rt_step w (w\<lparr>w_contexts := w_contexts w - {#c#}, w_playlists := w_playlists w - {#p#},
                  w_leases := add_mset (into_playlist_producer_lease c p deadline) (w_leases w)\<rparr>)"
| context_dropped: "c \<in># w_contexts w \<Longrightarrow> drop_context (w_rt w) c = Some rt' \<Longrightarrow>
     rt_step w (w\<lparr>w_rt := rt', w_contexts := w_contexts w - {#c#}\<rparr>)"
| playlist_dropped: "p \<in># w_playlists w \<Longrightarrow> drop_playlist_permit (w_rt w) p = Some rt' \<Longrightarrow>
     rt_step w (w\<lparr>w_rt := rt', w_playlists := w_playlists w - {#p#}\<rparr>)"
| lease_dropped: "l \<in># w_leases w \<Longrightarrow> drop_lease (w_rt w) l = Some rt' \<Longrightarrow>
     rt_step w (w\<lparr>w_rt := rt', w_leases := w_leases w - {#l#}\<rparr>)"
| begin_policy: "rt_step w (w\<lparr>w_rt := begin_reconfigure (w_rt w) next\<rparr>)"
| finish_policy: "rt_step w (w\<lparr>w_rt := finish_reconfigure (w_rt w) next\<rparr>)"

inductive_cases rt_stepE: "rt_step w w'"

section \<open>The contract of an admission pool\<close>

locale admission_pool =
  fixes acquire :: "'s \<Rightarrow> 'p \<Rightarrow> 's \<times> ('e + 'p)"
    and release :: "'s \<Rightarrow> 'p \<Rightarrow> 's option"
    and holds :: "'s \<Rightarrow> 'p multiset \<Rightarrow> bool"
    and global_limit :: nat
    and peer_limit :: nat
  assumes acquire_granted: "holds s H \<Longrightarrow> acquire s p = (s', Inr q) \<Longrightarrow> q = p \<and> holds s' (add_mset p H)"
    and acquire_refused: "acquire s p = (s', Inl e) \<Longrightarrow> s' = s"
    and acquire_iff: "holds s H \<Longrightarrow>
      (\<exists>s' q. acquire s p = (s', Inr q)) \<longleftrightarrow> size H < global_limit \<and> count H p < peer_limit"
    and release_held: "holds s H \<Longrightarrow> p \<in># H \<Longrightarrow> \<exists>s'. release s p = Some s' \<and> holds s' (H - {#p#})"
    and holds_limits: "holds s H \<Longrightarrow> size H \<le> global_limit \<and> count H p \<le> peer_limit"
    and holds_unique: "holds s H \<Longrightarrow> holds s' H \<Longrightarrow> s = s'"
begin

lemma release_holds: "holds s H \<Longrightarrow> p \<in># H \<Longrightarrow> release s p = Some s' \<Longrightarrow> holds s' (H - {#p#})"
  using release_held by fastforce

lemma release_never_panics: "holds s H \<Longrightarrow> p \<in># H \<Longrightarrow> release s p \<noteq> None"
  using release_held by fastforce

lemma acquire_release_restores:
  assumes "holds s H" and "acquire s p = (s', Inr q)"
  shows "release s' q = Some s"
proof -
  have q: "q = p" and h: "holds s' (add_mset p H)"
    using acquire_granted assms by blast+
  obtain t where "release s' p = Some t" "holds t (add_mset p H - {#p#})"
    using release_held [OF h, of p] by auto
  then show ?thesis using holds_unique assms(1) q by auto
qed

lemma released_slot_is_reusable:
  assumes "holds s H" and "p \<in># H" and "release s p = Some s'"
  shows "\<exists>q. acquire s' p = (s, Inr q)"
proof -
  have h: "holds s' (H - {#p#})" using release_holds assms by blast
  have "size (H - {#p#}) < global_limit"
    using holds_limits [OF assms(1)] assms(2) by (metis less_le_trans size_Diff1_less)
  moreover have "count (H - {#p#}) p < peer_limit"
    using holds_limits [OF assms(1), of p] assms(2)
    by (metis count_greater_eq_Suc_zero_iff count_single count_diff diff_less less_le_trans
        not_gr_zero not_in_iff zero_less_one)
  ultimately obtain t q where t: "acquire s' p = (t, Inr q)" using acquire_iff [OF h] by blast
  then have "holds t (add_mset p (H - {#p#}))" using acquire_granted h by blast
  then have "t = s" using holds_unique assms(1,2) by simp
  then show ?thesis using t by blast
qed

end

definition peer_counts :: "proxy_peer multiset \<Rightarrow> proxy_peer \<rightharpoonup> nat" where
  "peer_counts H p = (if count H p = 0 then None else Some (count H p))"

definition pool_holds ::
  "nat \<Rightarrow> nat \<Rightarrow> proxy_capacity_state \<Rightarrow> proxy_peer multiset \<Rightarrow> bool" where
  "pool_holds g l s H \<longleftrightarrow>
     s = \<lparr>cap_global = size H, cap_peers = peer_counts H\<rparr> \<and>
     size H \<le> g \<and> (\<forall>p. count H p \<le> l)"

lemma peer_counts_add: "(peer_counts H)(p \<mapsto> count H p + 1) = peer_counts (add_mset p H)"
  by (simp add: fun_eq_iff peer_counts_def not_in_iff)

lemma peer_counts_remove:
  "p \<in># H \<Longrightarrow> (if count H p - 1 = 0 then (peer_counts H)(p := None)
              else (peer_counts H)(p \<mapsto> count H p - 1)) = peer_counts (H - {#p#})"
  by (simp add: fun_eq_iff peer_counts_def not_in_iff)

lemma peer_counts_active: "(case peer_counts H p of Some n \<Rightarrow> n | None \<Rightarrow> 0) = count H p"
  by (simp add: peer_counts_def)

lemma pool_holds_default: "pool_holds g l capacity_default {#}"
  by (simp add: pool_holds_def capacity_default_def peer_counts_def fun_eq_iff)

lemma pool_try_acquire:
  "pool_holds g l s H \<Longrightarrow> try_acquire_normalized s p g l =
     (if size H < g \<and> count H p < l
      then (\<lparr>cap_global = size (add_mset p H), cap_peers = peer_counts (add_mset p H)\<rparr>, Inr p)
      else (s, Inl ProxyCapacityError))"
  unfolding pool_holds_def try_acquire_normalized_def Let_def
  by (simp add: peer_counts_active peer_counts_add [symmetric] not_less)

lemma pool_acquire_granted:
  "pool_holds g l s H \<Longrightarrow> try_acquire_normalized s p g l = (s', Inr q) \<Longrightarrow>
   q = p \<and> pool_holds g l s' (add_mset p H)"
  by (auto simp: pool_try_acquire split: if_splits) (auto simp: pool_holds_def)

lemma pool_acquire_refused: "try_acquire_normalized s p g l = (s', Inl e) \<Longrightarrow> s' = s"
  by (auto simp: try_acquire_normalized_def Let_def split: if_splits)

lemma pool_acquire_iff:
  "pool_holds g l s H \<Longrightarrow>
   (\<exists>s' q. try_acquire_normalized s p g l = (s', Inr q)) \<longleftrightarrow> size H < g \<and> count H p < l"
  by (simp add: pool_try_acquire)

lemma pool_release_held:
  assumes "pool_holds g l s H" and "p \<in># H"
  shows "\<exists>s'. drop_permit s p = Some s' \<and> pool_holds g l s' (H - {#p#})"
proof -
  let ?s' = "\<lparr>cap_global = size (H - {#p#}), cap_peers = peer_counts (H - {#p#})\<rparr>"
  have s: "s = \<lparr>cap_global = size H, cap_peers = peer_counts H\<rparr>"
    and b: "size H \<le> g" "\<And>q. count H q \<le> l"
    using assms(1) by (simp_all add: pool_holds_def)
  have act: "peer_counts H p = Some (count H p)" "count H p \<noteq> 0" "size H \<noteq> 0"
    using assms(2) by (auto simp: peer_counts_def)
  have "drop_permit s p = Some ?s'"
    using assms(2) act
    by (simp add: s drop_permit_def peer_counts_remove [symmetric] size_Diff_singleton)
  moreover have "pool_holds g l ?s' (H - {#p#})"
    using b assms(2) by (auto simp: pool_holds_def size_Diff_singleton le_diff_conv
        intro: le_trans [OF diff_le_self] le_SucI)
  ultimately show ?thesis by blast
qed

lemma pool_holds_unique: "pool_holds g l s H \<Longrightarrow> pool_holds g l s' H \<Longrightarrow> s = s'"
  by (simp add: pool_holds_def)

lemma pool_contract:
  "admission_pool (\<lambda>s p. try_acquire_normalized s p g l) drop_permit (pool_holds g l) g l"
proof
  show "size H \<le> g \<and> count H p \<le> l" if "pool_holds g l s H" for s H p
    using that by (simp add: pool_holds_def)
qed (rule pool_acquire_granted pool_acquire_refused pool_acquire_iff pool_release_held
     pool_holds_unique, assumption+)+

interpretation request_pool: admission_pool
  "\<lambda>s p. try_acquire_normalized s p MAX_CONCURRENT_PROXY_REQUESTS MAX_CONCURRENT_PROXY_REQUESTS_PER_PEER"
  drop_permit
  "pool_holds MAX_CONCURRENT_PROXY_REQUESTS MAX_CONCURRENT_PROXY_REQUESTS_PER_PEER"
  MAX_CONCURRENT_PROXY_REQUESTS MAX_CONCURRENT_PROXY_REQUESTS_PER_PEER
  by (rule pool_contract)

interpretation playlist_pool: admission_pool
  "\<lambda>s p. try_acquire_normalized s p MAX_CONCURRENT_PLAYLISTS MAX_CONCURRENT_PLAYLISTS_PER_PEER"
  drop_permit
  "pool_holds MAX_CONCURRENT_PLAYLISTS MAX_CONCURRENT_PLAYLISTS_PER_PEER"
  MAX_CONCURRENT_PLAYLISTS MAX_CONCURRENT_PLAYLISTS_PER_PEER
  by (rule pool_contract)

section \<open>The invariant of the system\<close>

definition lease_playlist_peers :: "proxy_producer_lease multiset \<Rightarrow> proxy_peer multiset" where
  "lease_playlist_peers L =
     image_mset (the \<circ> lease_playlist_peer) {#l \<in># L. lease_playlist_peer l \<noteq> None#}"

definition held_requests :: "proxy_world \<Rightarrow> proxy_peer multiset" where
  "held_requests w = image_mset ctx_peer (w_contexts w) + image_mset lease_peer (w_leases w)"

definition held_playlists :: "proxy_world \<Rightarrow> proxy_peer multiset" where
  "held_playlists w = w_playlists w + lease_playlist_peers (w_leases w)"

definition tokens_ok :: "proxy_runtime \<Rightarrow> proxy_request_context multiset \<Rightarrow> bool" where
  "tokens_ok rt C \<longleftrightarrow>
     gen_cancellation (rt_generation rt) < rt_next_token rt \<and>
     (\<forall>t \<in> rt_cancelled rt. t < rt_next_token rt) \<and>
     gen_cancellation (rt_generation rt) \<notin> rt_cancelled rt \<and>
     (\<forall>c \<in># C. ctx_cancellation c < rt_next_token rt \<and>
        (ctx_cancellation c = gen_cancellation (rt_generation rt) \<longrightarrow>
           ctx_settings c = gen_settings (rt_generation rt)))"

definition world_inv :: "proxy_world \<Rightarrow> bool" where
  "world_inv w \<longleftrightarrow>
     pool_holds MAX_CONCURRENT_PROXY_REQUESTS MAX_CONCURRENT_PROXY_REQUESTS_PER_PEER
       (rt_capacity (w_rt w)) (held_requests w) \<and>
     pool_holds MAX_CONCURRENT_PLAYLISTS MAX_CONCURRENT_PLAYLISTS_PER_PEER
       (rt_playlist_capacity (w_rt w)) (held_playlists w) \<and>
     tokens_ok (w_rt w) (w_contexts w)"

lemma lease_playlist_peers_add [simp]:
  "lease_playlist_peers (add_mset l L) =
     (case lease_playlist_peer l of None \<Rightarrow> lease_playlist_peers L
      | Some p \<Rightarrow> add_mset p (lease_playlist_peers L))"
  by (auto simp: lease_playlist_peers_def split: option.splits)

lemma lease_playlist_peers_empty [simp]: "lease_playlist_peers {#} = {#}"
  by (simp add: lease_playlist_peers_def)

lemma reconfigure_pools [simp]:
  "rt_capacity (begin_reconfigure rt n) = rt_capacity rt"
  "rt_capacity (finish_reconfigure rt n) = rt_capacity rt"
  "rt_playlist_capacity (begin_reconfigure rt n) = rt_playlist_capacity rt"
  "rt_playlist_capacity (finish_reconfigure rt n) = rt_playlist_capacity rt"
  "rt_hop_marker (begin_reconfigure rt n) = rt_hop_marker rt"
  "rt_hop_marker (finish_reconfigure rt n) = rt_hop_marker rt"
  by (simp_all add: begin_reconfigure_def finish_reconfigure_def new_generation_def
      cancel_current_def Let_def)

lemma tokens_ok_new_generation:
  "tokens_ok rt C \<Longrightarrow> tokens_ok (new_generation rt s) C"
  "tokens_ok rt C \<Longrightarrow> tokens_ok (new_generation (cancel_current rt) s) C"
  by (auto simp: tokens_ok_def new_generation_def cancel_current_def intro: less_SucI)

lemma tokens_ok_reconfigure:
  "tokens_ok rt C \<Longrightarrow> tokens_ok (begin_reconfigure rt n) C"
  "tokens_ok rt C \<Longrightarrow> tokens_ok (finish_reconfigure rt n) C"
  by (simp_all add: begin_reconfigure_def finish_reconfigure_def Let_def tokens_ok_new_generation)

lemma tokens_ok_subset: "tokens_ok rt C \<Longrightarrow> tokens_ok rt (C - {#c#})"
  by (auto simp: tokens_ok_def dest: in_diffD)

lemma tokens_ok_cap [simp]:
  "tokens_ok (rt\<lparr>rt_capacity := x\<rparr>) C = tokens_ok rt C"
  "tokens_ok (rt\<lparr>rt_playlist_capacity := x\<rparr>) C = tokens_ok rt C"
  by (simp_all add: tokens_ok_def)

lemma try_request_Inr_D:
  assumes "try_request_for_peer rt peer = (rt', Inr c)"
  shows "\<exists>cap. try_acquire_normalized (rt_capacity rt) (normalize_peer peer)
                 MAX_CONCURRENT_PROXY_REQUESTS MAX_CONCURRENT_PROXY_REQUESTS_PER_PEER =
               (cap, Inr (ctx_peer c)) \<and>
           rt' = rt\<lparr>rt_capacity := cap\<rparr> \<and> ctx_settings c = gen_settings (rt_generation rt) \<and>
           ctx_cancellation c = gen_cancellation (rt_generation rt)"
  using assms by (auto simp: try_request_for_peer_def try_acquire_def split: prod.splits sum.splits)

lemma try_request_Inl_D: "try_request_for_peer rt peer = (rt', Inl e) \<Longrightarrow> rt' = rt"
  by (auto simp: try_request_for_peer_def try_acquire_def split: prod.splits sum.splits
      dest: pool_acquire_refused)

lemma try_playlist_D:
  "try_playlist rt c = (rt', Inr p) \<Longrightarrow>
   \<exists>cap. try_acquire_normalized (rt_playlist_capacity rt) (ctx_peer c)
           MAX_CONCURRENT_PLAYLISTS MAX_CONCURRENT_PLAYLISTS_PER_PEER = (cap, Inr p) \<and>
         rt' = rt\<lparr>rt_playlist_capacity := cap\<rparr>"
  "try_playlist rt c = (rt', Inl e) \<Longrightarrow> rt' = rt"
  by (auto simp: try_playlist_def split: prod.splits dest: pool_acquire_refused)

lemma world_inv_request:
  assumes "world_inv w" and "try_request_for_peer (w_rt w) peer = (rt', Inr c)"
  shows "world_inv (w\<lparr>w_rt := rt', w_contexts := add_mset c (w_contexts w)\<rparr>)"
  using assms(1) try_request_Inr_D [OF assms(2)]
  by (auto simp: world_inv_def held_requests_def held_playlists_def
      dest: request_pool.acquire_granted) (auto simp: tokens_ok_def)

lemma world_inv_playlist:
  assumes "world_inv w" and "try_playlist (w_rt w) c = (rt', Inr p)"
  shows "world_inv (w\<lparr>w_rt := rt', w_playlists := add_mset p (w_playlists w)\<rparr>)"
  using assms(1) try_playlist_D(1) [OF assms(2)]
  by (auto simp: world_inv_def held_requests_def held_playlists_def
      dest: playlist_pool.acquire_granted)

lemma held_context: "c \<in># w_contexts w \<Longrightarrow> ctx_peer c \<in># held_requests w"
  by (simp add: held_requests_def)

lemma held_lease: "l \<in># w_leases w \<Longrightarrow> lease_peer l \<in># held_requests w"
  by (simp add: held_requests_def)

lemma held_lease_playlist:
  "l \<in># w_leases w \<Longrightarrow> lease_playlist_peer l = Some p \<Longrightarrow> p \<in># held_playlists w"
  by (force simp: held_playlists_def lease_playlist_peers_def)

lemma drop_context_runs:
  assumes "world_inv w" and "c \<in># w_contexts w"
  shows "\<exists>rt'. drop_context (w_rt w) c = Some rt' \<and>
           world_inv (w\<lparr>w_rt := rt', w_contexts := w_contexts w - {#c#}\<rparr>)"
proof -
  obtain C where C: "w_contexts w = add_mset c C" using assms(2) by (metis insert_DiffM)
  have "\<exists>cap. drop_permit (rt_capacity (w_rt w)) (ctx_peer c) = Some cap \<and>
     pool_holds MAX_CONCURRENT_PROXY_REQUESTS MAX_CONCURRENT_PROXY_REQUESTS_PER_PEER cap
       (held_requests w - {#ctx_peer c#})"
    using assms held_context by (auto simp: world_inv_def intro!: request_pool.release_held)
  then show ?thesis
    using assms(1) tokens_ok_subset [of "w_rt w" "w_contexts w" c]
    by (auto simp: drop_context_def world_inv_def held_requests_def held_playlists_def C)
qed

lemma drop_playlist_runs:
  assumes "world_inv w" and "p \<in># w_playlists w"
  shows "\<exists>rt'. drop_playlist_permit (w_rt w) p = Some rt' \<and>
           world_inv (w\<lparr>w_rt := rt', w_playlists := w_playlists w - {#p#}\<rparr>)"
proof -
  obtain P where P: "w_playlists w = add_mset p P" using assms(2) by (metis insert_DiffM)
  have "\<exists>cap. drop_permit (rt_playlist_capacity (w_rt w)) p = Some cap \<and>
     pool_holds MAX_CONCURRENT_PLAYLISTS MAX_CONCURRENT_PLAYLISTS_PER_PEER cap
       (held_playlists w - {#p#})"
    using assms by (auto simp: world_inv_def held_playlists_def intro!: playlist_pool.release_held)
  then show ?thesis
    using assms(1)
    by (auto simp: drop_playlist_permit_def world_inv_def held_requests_def held_playlists_def P)
qed

lemma drop_lease_runs:
  assumes "world_inv w" and "l \<in># w_leases w"
  shows "\<exists>rt'. drop_lease (w_rt w) l = Some rt' \<and>
           world_inv (w\<lparr>w_rt := rt', w_leases := w_leases w - {#l#}\<rparr>)"
proof -
  obtain L where L: "w_leases w = add_mset l L" using assms(2) by (metis insert_DiffM)
  have "\<exists>cap. drop_permit (rt_capacity (w_rt w)) (lease_peer l) = Some cap \<and>
     pool_holds MAX_CONCURRENT_PROXY_REQUESTS MAX_CONCURRENT_PROXY_REQUESTS_PER_PEER cap
       (held_requests w - {#lease_peer l#})"
    using assms held_lease by (auto simp: world_inv_def intro!: request_pool.release_held)
  moreover have "\<exists>cap. drop_permit (rt_playlist_capacity (w_rt w)) p = Some cap \<and>
     pool_holds MAX_CONCURRENT_PLAYLISTS MAX_CONCURRENT_PLAYLISTS_PER_PEER cap
       (held_playlists w - {#p#})" if "lease_playlist_peer l = Some p" for p
    using assms that held_lease_playlist
    by (auto simp: world_inv_def intro!: playlist_pool.release_held)
  ultimately show ?thesis
    using assms(1)
    by (cases "lease_playlist_peer l")
      (fastforce simp: drop_lease_def drop_playlist_permit_def world_inv_def held_requests_def
        held_playlists_def L)+
qed

lemma world_inv_lease:
  assumes "world_inv w" and "c \<in># w_contexts w"
  shows "world_inv (w\<lparr>w_contexts := w_contexts w - {#c#},
                      w_leases := add_mset (into_producer_lease c) (w_leases w)\<rparr>)"
proof -
  obtain C where C: "w_contexts w = add_mset c C" using assms(2) by (metis insert_DiffM)
  show ?thesis
    using assms(1) tokens_ok_subset [of "w_rt w" "w_contexts w" c]
    by (simp add: world_inv_def held_requests_def held_playlists_def C into_producer_lease_def)
qed

lemma world_inv_playlist_lease:
  assumes "world_inv w" and "c \<in># w_contexts w" and "p \<in># w_playlists w"
  shows "world_inv (w\<lparr>w_contexts := w_contexts w - {#c#}, w_playlists := w_playlists w - {#p#},
                      w_leases := add_mset (into_playlist_producer_lease c p d) (w_leases w)\<rparr>)"
proof -
  obtain C where C: "w_contexts w = add_mset c C" using assms(2) by (metis insert_DiffM)
  obtain P where P: "w_playlists w = add_mset p P" using assms(3) by (metis insert_DiffM)
  show ?thesis
    using assms(1) tokens_ok_subset [of "w_rt w" "w_contexts w" c]
    by (simp add: world_inv_def held_requests_def held_playlists_def C P
        into_playlist_producer_lease_def)
qed

lemma world_inv_reconfigure:
  "world_inv w \<Longrightarrow> world_inv (w\<lparr>w_rt := begin_reconfigure (w_rt w) n\<rparr>)"
  "world_inv w \<Longrightarrow> world_inv (w\<lparr>w_rt := finish_reconfigure (w_rt w) n\<rparr>)"
  by (simp_all add: world_inv_def held_requests_def held_playlists_def tokens_ok_reconfigure)

lemma world_inv_init: "proxy_world_init w \<Longrightarrow> world_inv w"
  by (auto simp: proxy_world_init_def world_inv_def with_hop_marker_def held_requests_def
      held_playlists_def tokens_ok_def intro!: pool_holds_default)

lemma world_inv_step: "world_inv w \<Longrightarrow> rt_step w w' \<Longrightarrow> world_inv w'"
  by (erule rt_stepE)
    (fastforce dest: try_request_Inl_D try_playlist_D(2) drop_context_runs drop_playlist_runs
       drop_lease_runs
     intro: world_inv_request world_inv_playlist world_inv_lease world_inv_playlist_lease
       world_inv_reconfigure)+

interpretation proxy_system: invariant_system proxy_world_init rt_step world_inv
  by unfold_locales (fact world_inv_init world_inv_step)+

section \<open>Properties of the runtime\<close>

definition drops_cleanly :: "proxy_world \<Rightarrow> bool" where
  "drops_cleanly w \<longleftrightarrow>
     (\<forall>c \<in># w_contexts w. drop_context (w_rt w) c \<noteq> None) \<and>
     (\<forall>p \<in># w_playlists w. drop_playlist_permit (w_rt w) p \<noteq> None) \<and>
     (\<forall>l \<in># w_leases w. drop_lease (w_rt w) l \<noteq> None)"

lemma world_inv_drops_cleanly: "world_inv w \<Longrightarrow> drops_cleanly w"
  unfolding drops_cleanly_def
  using drop_context_runs drop_playlist_runs drop_lease_runs by (metis option.distinct(1))

text \<open>
  Property C6.  In every state the runtime can reach, whatever the interleaving of requests,
  playlists, leases, destructors and reconfigurations, each pool counts exactly the permits that
  are alive, per peer and in total, stays within 64/16 (requests) and 8/4 (playlists), keeps no
  entry for an idle peer, and every destructor runs without reaching one of its three panics.
\<close>

theorem capacity_is_exact_and_never_panics:
  assumes "reach proxy_world_init rt_step w"
  shows "cap_global (rt_capacity (w_rt w)) = size (held_requests w) \<and>
         cap_peers (rt_capacity (w_rt w)) = peer_counts (held_requests w) \<and>
         size (held_requests w) \<le> 64 \<and> (\<forall>p. count (held_requests w) p \<le> 16) \<and>
         cap_global (rt_playlist_capacity (w_rt w)) = size (held_playlists w) \<and>
         cap_peers (rt_playlist_capacity (w_rt w)) = peer_counts (held_playlists w) \<and>
         size (held_playlists w) \<le> 8 \<and> (\<forall>p. count (held_playlists w) p \<le> 4) \<and>
         drops_cleanly w"
  using proxy_system.reach_inv [OF assms] world_inv_drops_cleanly [of w]
  by (simp add: world_inv_def pool_holds_def proxy_limits)

definition example_world :: proxy_world where
  "example_world =
     \<lparr>w_rt = with_hop_marker \<lparr>ps_private = True, ps_invalid_tls = False\<rparr> ''marker'',
      w_contexts = {#}, w_playlists = {#}, w_leases = {#}\<rparr>"

lemma example_world_reach: "reach proxy_world_init rt_step example_world"
  by (rule reach_init) (auto simp: proxy_world_init_def example_world_def)

definition example_context :: proxy_request_context where
  "example_context =
     \<lparr>ctx_settings = \<lparr>ps_private = True, ps_invalid_tls = False\<rparr>, ctx_cancellation = 0,
      ctx_peer = Unknown\<rparr>"

definition example_world_1 :: proxy_world where
  "example_world_1 =
     example_world\<lparr>w_rt := fst (try_request_for_peer (w_rt example_world) None),
                   w_contexts := {#example_context#}\<rparr>"

lemma example_request:
  "try_request_for_peer (w_rt example_world) None =
     (fst (try_request_for_peer (w_rt example_world) None), Inr example_context)"
  by (simp add: example_world_def example_context_def try_request_for_peer_def try_acquire_def
      try_acquire_normalized_def with_hop_marker_def capacity_default_def proxy_limits)

lemma example_world_1_reach: "reach proxy_world_init rt_step example_world_1"
  using reach_step [OF example_world_reach request [OF example_request]]
  by (simp add: example_world_1_def example_world_def)

lemma example_world_1_facts:
  "w_contexts example_world_1 = {#example_context#}"
  "rt_generation (w_rt example_world_1) =
     \<lparr>gen_settings = \<lparr>ps_private = True, ps_invalid_tls = False\<rparr>, gen_cancellation = 0\<rparr>"
  "rt_cancelled (w_rt example_world_1) = {}" "rt_next_token (w_rt example_world_1) = 1"
  by (simp_all add: example_world_1_def example_world_def with_hop_marker_def
      try_request_for_peer_def try_acquire_def try_acquire_normalized_def capacity_default_def
      proxy_limits)

theorem capacity_is_exact_and_never_panics_witness:
  "cap_global (rt_capacity (w_rt example_world_1)) = 1 \<and> drops_cleanly example_world_1"
  using capacity_is_exact_and_never_panics [OF example_world_1_reach]
  by (simp add: held_requests_def example_world_1_def example_world_def)

lemma request_drop_restores:
  assumes inv: "world_inv w" and req: "try_request_for_peer (w_rt w) peer = (rt1, Inr c)"
  shows "ctx_peer c = normalize_peer peer \<and> ctx_settings c = gen_settings (rt_generation (w_rt w)) \<and>
         ctx_cancellation c \<notin> rt_cancelled rt1 \<and> drop_context rt1 c = Some (w_rt w)"
proof -
  obtain cap where cap: "try_acquire_normalized (rt_capacity (w_rt w)) (normalize_peer peer)
      MAX_CONCURRENT_PROXY_REQUESTS MAX_CONCURRENT_PROXY_REQUESTS_PER_PEER = (cap, Inr (ctx_peer c))"
    and rt1: "rt1 = (w_rt w)\<lparr>rt_capacity := cap\<rparr>"
    and c: "ctx_settings c = gen_settings (rt_generation (w_rt w))"
      "ctx_cancellation c = gen_cancellation (rt_generation (w_rt w))"
    using try_request_Inr_D [OF req] by blast
  have holds: "pool_holds MAX_CONCURRENT_PROXY_REQUESTS MAX_CONCURRENT_PROXY_REQUESTS_PER_PEER
      (rt_capacity (w_rt w)) (held_requests w)" using inv by (simp add: world_inv_def)
  have "drop_permit cap (ctx_peer c) = Some (rt_capacity (w_rt w))"
    using request_pool.acquire_release_restores [OF holds cap] .
  moreover have "ctx_peer c = normalize_peer peer"
    using request_pool.acquire_granted [OF holds cap] by simp
  ultimately show ?thesis
    using inv c by (simp add: rt1 drop_context_def world_inv_def tokens_ok_def)
qed

lemma request_admitted_iff:
  assumes "world_inv w"
  shows "(\<exists>rt' c. try_request_for_peer (w_rt w) peer = (rt', Inr c)) \<longleftrightarrow>
           size (held_requests w) < 64 \<and> count (held_requests w) (normalize_peer peer) < 16"
  using pool_try_acquire [of MAX_CONCURRENT_PROXY_REQUESTS MAX_CONCURRENT_PROXY_REQUESTS_PER_PEER
      "rt_capacity (w_rt w)" "held_requests w" "normalize_peer peer"] assms
  by (auto simp: try_request_for_peer_def try_acquire_def proxy_limits world_inv_def)

text \<open>
  In every reachable state a request is admitted exactly when fewer than 64
  permits are held overall and fewer than 16 by its peer, an IPv4-mapped IPv6 peer counting as
  the IPv4 peer; a refusal changes nothing, and an admitted request that is dropped at once
  leaves the runtime as it was.
\<close>

theorem request_admission_is_exact:
  assumes "reach proxy_world_init rt_step w"
  shows "((\<exists>rt' c. try_request_for_peer (w_rt w) peer = (rt', Inr c)) \<longleftrightarrow>
            size (held_requests w) < 64 \<and> count (held_requests w) (normalize_peer peer) < 16) \<and>
         (\<forall>rt1 e. try_request_for_peer (w_rt w) peer = (rt1, Inl e) \<longrightarrow> rt1 = w_rt w) \<and>
         (\<forall>rt1 c. try_request_for_peer (w_rt w) peer = (rt1, Inr c) \<longrightarrow>
            ctx_settings c = gen_settings (rt_generation (w_rt w)) \<and>
            ctx_cancellation c \<notin> rt_cancelled rt1 \<and> drop_context rt1 c = Some (w_rt w)) \<and>
         normalize_peer (Some (V6 (ipv4_to_mapped a))) = normalize_peer (Some (V4 a))"
  using request_admitted_iff [OF proxy_system.reach_inv [OF assms]]
    request_drop_restores [OF proxy_system.reach_inv [OF assms]] try_request_Inl_D
  by (auto simp: to_ipv4_mapped_inverse)

theorem request_admission_is_exact_witness:
  "drop_context (w_rt example_world_1) example_context = Some (w_rt example_world)"
  using request_admission_is_exact [OF example_world_reach, of None] example_request
  by (auto simp: example_world_1_def)

definition exceeds :: "proxy_policy_settings \<Rightarrow> proxy_policy_settings \<Rightarrow> bool" where
  "exceeds s t \<longleftrightarrow> (ps_private s \<and> \<not> ps_private t) \<or> (ps_invalid_tls s \<and> \<not> ps_invalid_tls t)"

lemma meet_eq_iff: "settings_meet a b = a \<longleftrightarrow> \<not> exceeds a b"
  by (cases a; cases b) (auto simp: settings_meet_def exceeds_def)

lemma not_exceeds_meet: "\<not> exceeds (settings_meet a b) b" "\<not> exceeds (settings_meet a b) a"
  by (auto simp: settings_meet_def exceeds_def)

lemma begin_cancelled:
  "rt_cancelled (begin_reconfigure rt n) =
     (if exceeds (gen_settings (rt_generation rt)) n
      then insert (gen_cancellation (rt_generation rt)) (rt_cancelled rt) else rt_cancelled rt)"
  by (simp add: begin_reconfigure_def Let_def meet_eq_iff new_generation_def cancel_current_def)

lemma begin_settings:
  "gen_settings (rt_generation (begin_reconfigure rt n)) =
     settings_meet (gen_settings (rt_generation rt)) n"
  by (auto simp: begin_reconfigure_def Let_def new_generation_def)

lemma finish_cancelled:
  "\<not> exceeds (gen_settings (rt_generation rt)) n \<Longrightarrow>
   rt_cancelled (finish_reconfigure rt n) = rt_cancelled rt"
  by (auto simp: finish_reconfigure_def Let_def exceeds_def new_generation_def)

lemma finish_settings: "gen_settings (rt_generation (finish_reconfigure rt n)) = n"
  by (auto simp: finish_reconfigure_def Let_def new_generation_def)

text \<open>
  Property C7.  A policy update is published in two steps.  Between them new requests get only
  what both the old and the new policy allow, and afterwards exactly the new policy; the update
  cancels exactly those requests of the current generation whose settings the new policy no
  longer covers: stricter in-flight work keeps running.
\<close>

theorem reconfigure_is_least_privilege:
  assumes "reach proxy_world_init rt_step w" and "c \<in># w_contexts w"
    and "rt1 = begin_reconfigure (w_rt w) next" and "rt2 = finish_reconfigure rt1 next"
  shows "gen_settings (rt_generation rt1) =
           settings_meet (gen_settings (rt_generation (w_rt w))) next \<and>
         gen_settings (rt_generation rt2) = next \<and>
         (ctx_cancellation c \<in> rt_cancelled rt1 \<longleftrightarrow> ctx_cancellation c \<in> rt_cancelled rt2) \<and>
         (ctx_cancellation c \<in> rt_cancelled rt2 \<longleftrightarrow>
            ctx_cancellation c \<in> rt_cancelled (w_rt w) \<or>
            (ctx_cancellation c = gen_cancellation (rt_generation (w_rt w)) \<and>
             exceeds (ctx_settings c) next))"
proof -
  have tok: "ctx_cancellation c = gen_cancellation (rt_generation (w_rt w)) \<Longrightarrow>
      ctx_settings c = gen_settings (rt_generation (w_rt w))"
    using proxy_system.reach_inv [OF assms(1)] assms(2) by (simp add: world_inv_def tokens_ok_def)
  have "rt_cancelled rt2 = rt_cancelled rt1"
    by (simp add: assms(3,4) finish_cancelled begin_settings not_exceeds_meet)
  then show ?thesis
    using tok by (auto simp: assms(3,4) begin_settings finish_settings begin_cancelled)
qed

theorem reconfigure_is_least_privilege_witness:
  "ctx_cancellation example_context \<in>
     rt_cancelled (begin_reconfigure (w_rt example_world_1) \<lparr>ps_private = False, ps_invalid_tls = False\<rparr>)"
proof -
  have c: "example_context \<in># w_contexts example_world_1" by (simp add: example_world_1_facts)
  have e: "exceeds (ctx_settings example_context) \<lparr>ps_private = False, ps_invalid_tls = False\<rparr>"
    "ctx_cancellation example_context = gen_cancellation (rt_generation (w_rt example_world_1))"
    by (simp_all add: example_world_1_facts example_context_def exceeds_def)
  show ?thesis
    using reconfigure_is_least_privilege [OF example_world_1_reach c refl refl] e by blast
qed

section \<open>A request of an older generation\<close>

definition reconfigure :: "proxy_policy_settings \<Rightarrow> proxy_world \<Rightarrow> proxy_world" where
  "reconfigure n w = w\<lparr>w_rt := finish_reconfigure (begin_reconfigure (w_rt w) n) n\<rparr>"

lemma reconfigure_reach:
  assumes "reach proxy_world_init rt_step w"
  shows "reach proxy_world_init rt_step (reconfigure n w)"
  using reach_step [OF reach_step [OF assms begin_policy] finish_policy]
  by (simp add: reconfigure_def)

definition example_world_3 :: proxy_world where
  "example_world_3 =
     reconfigure \<lparr>ps_private = False, ps_invalid_tls = True\<rparr>
       (reconfigure \<lparr>ps_private = True, ps_invalid_tls = True\<rparr> example_world_1)"


section \<open>Detection of the hop marker\<close>

definition is_ows :: "char \<Rightarrow> bool" where
  "is_ows b \<longleftrightarrow> b = CHR '' '' \<or> b = CHR 0x09"

definition ct_eq_contract :: "(string \<Rightarrow> string \<Rightarrow> bool) \<Rightarrow> bool" where
  "ct_eq_contract ct_eq \<longleftrightarrow> (\<forall>a b. ct_eq a b \<longleftrightarrow> a = b)"

definition list_marker :: "string \<Rightarrow> bool" where
  "list_marker m \<longleftrightarrow> m \<noteq> [] \<and> CHR '','' \<notin> set m \<and> \<not> is_ows (hd m) \<and> \<not> is_ows (last m)"

definition lists_element :: "string \<Rightarrow> string \<Rightarrow> bool" where
  "lists_element m v \<longleftrightarrow>
     (\<exists>pre l r post. v = pre @ l @ m @ r @ post \<and> list_all is_ows l \<and> list_all is_ows r \<and>
        (pre = [] \<or> last pre = CHR '','') \<and> (post = [] \<or> hd post = CHR '',''))"

lemma trim_ows_start_eq: "trim_ows_start bs = dropWhile is_ows bs"
  by (induction bs) (auto simp: is_ows_def)

lemma trim_ows_end_eq: "trim_ows_end bs = rev (dropWhile is_ows (rev bs))"
proof (induction bs rule: rev_induct)
  case Nil
  then show ?case by (subst trim_ows_end.simps) simp
next
  case (snoc b bs)
  then show ?case by (subst trim_ows_end.simps) (simp add: is_ows_def [of b])
qed

lemma trim_http_ows_eq: "trim_http_ows bs = rev (dropWhile is_ows (rev (dropWhile is_ows bs)))"
  by (simp add: trim_http_ows_def trim_ows_start_eq trim_ows_end_eq)

lemma trim_pads: "\<exists>l r. bs = l @ trim_http_ows bs @ r \<and> list_all is_ows l \<and> list_all is_ows r"
proof -
  let ?d = "dropWhile is_ows bs"
  have "bs = takeWhile is_ows bs @ ?d" by simp
  moreover have "?d = rev (dropWhile is_ows (rev ?d)) @ rev (takeWhile is_ows (rev ?d))"
    by (metis rev_append rev_rev_ident takeWhile_dropWhile_id)
  ultimately have "bs = takeWhile is_ows bs @ trim_http_ows bs @ rev (takeWhile is_ows (rev ?d))"
    by (simp add: trim_http_ows_eq)
  then show ?thesis
    by (intro exI [of _ "takeWhile is_ows bs"] exI [of _ "rev (takeWhile is_ows (rev ?d))"])
      (auto simp: list_all_iff dest: set_takeWhileD)
qed

lemma dropWhile_pad: "list_all P l \<Longrightarrow> dropWhile P (l @ xs) = dropWhile P xs"
  by (induction l) auto

lemma trim_padded:
  assumes "list_marker m" and "list_all is_ows l" and "list_all is_ows r"
  shows "trim_http_ows (l @ m @ r) = m"
proof -
  have m: "m \<noteq> []" "\<not> is_ows (hd m)" "\<not> is_ows (last m)"
    using assms(1) by (simp_all add: list_marker_def)
  then have "dropWhile is_ows (m @ r) = m @ r" by (cases m) auto
  then have "dropWhile is_ows (l @ m @ r) = m @ r" using assms(2) by (simp add: dropWhile_pad)
  moreover have "dropWhile is_ows (rev m) = rev m"
    using m by (cases m rule: rev_cases) auto
  ultimately show ?thesis using assms(3) by (simp add: trim_http_ows_eq dropWhile_pad)
qed

lemma in_split_on_iff:
  "p \<in> set (split_on c v) \<longleftrightarrow>
     c \<notin> set p \<and> (\<exists>pre post. v = pre @ p @ post \<and> (pre = [] \<or> last pre = c) \<and>
                              (post = [] \<or> hd post = c))"
  (is "?L \<longleftrightarrow> ?R")
proof
  show ?L if R: ?R
  proof -
    obtain pre post where v: "v = pre @ p @ post" and p: "c \<notin> set p"
      and pre: "pre = [] \<or> last pre = c" and post: "post = [] \<or> hd post = c"
      using R by blast
    have tail: "p \<in> set (split_on c (p @ post))"
      using post p by (cases post) (auto simp: split_on_no_sep split_on_append_sep)
    then show ?L
      using pre tail v by (cases pre rule: rev_cases) (auto simp: split_on_append_sep)
  qed
  show ?R if ?L
    using that
  proof (induction v arbitrary: p rule: length_induct)
    case (1 v)
    show ?case
    proof (cases "c \<in> set v")
      case False
      then have "p = v" using 1(2) by (simp add: split_on_no_sep)
      then show ?thesis using False by (intro conjI exI [of _ "[]"]) simp_all
    next
      case True
      then obtain a b where v: "v = a @ c # b" "c \<notin> set a" by (metis split_list_first)
      then have "p = a \<or> p \<in> set (split_on c b)"
        using 1(2) by (simp add: split_on_append_sep split_on_no_sep)
      then show ?thesis
      proof
        assume "p = a"
        then show ?thesis using v by fastforce
      next
        assume "p \<in> set (split_on c b)"
        moreover have "length b < length v" using v(1) by simp
        ultimately obtain pre post where h: "c \<notin> set p" "b = pre @ p @ post"
          "pre = [] \<or> last pre = c" "post = [] \<or> hd post = c"
          using 1(1) by blast
        then have "v = (a @ c # pre) @ p @ post \<and> last (a @ c # pre) = c" using v by auto
        then show ?thesis using h by blast
      qed
    qed
  qed
qed

lemma comma_not_ows: "\<not> is_ows CHR '',''"
  by (simp add: is_ows_def)

lemma hop_element_iff:
  assumes "list_marker m"
  shows "(\<exists>p \<in> set (split_on CHR '','' v). trim_http_ows p = m) \<longleftrightarrow> lists_element m v"
proof
  assume "\<exists>p \<in> set (split_on CHR '','' v). trim_http_ows p = m"
  then obtain p where p: "p \<in> set (split_on CHR '','' v)" "trim_http_ows p = m" by blast
  then obtain pre post where v: "v = pre @ p @ post" "pre = [] \<or> last pre = CHR '',''"
    "post = [] \<or> hd post = CHR '',''" unfolding in_split_on_iff by blast
  obtain l r where "p = l @ m @ r" "list_all is_ows l" "list_all is_ows r"
    using trim_pads [of p] p(2) by blast
  then have "v = pre @ l @ m @ r @ post \<and> list_all is_ows l \<and> list_all is_ows r" using v(1) by simp
  then show "lists_element m v" unfolding lists_element_def using v(2,3) by blast
next
  assume "lists_element m v"
  then obtain pre l r post where v: "v = pre @ l @ m @ r @ post" "list_all is_ows l"
    "list_all is_ows r" "pre = [] \<or> last pre = CHR '',''" "post = [] \<or> hd post = CHR '',''"
    unfolding lists_element_def by (elim exE conjE) (rule that)
  have v1: "v = pre @ (l @ m @ r) @ post" using v(1) by simp
  have "CHR '','' \<notin> set (l @ m @ r)"
    using assms v(2,3) comma_not_ows unfolding list_marker_def list_all_iff set_append by blast
  then have "l @ m @ r \<in> set (split_on CHR '','' v)" 
    unfolding in_split_on_iff using v1 v(4,5) by (intro conjI exI [of _ pre] exI [of _ post])
  then show "\<exists>p \<in> set (split_on CHR '','' v). trim_http_ows p = m"
    using trim_padded [OF assms v(2,3)] by blast
qed

text \<open>
  With a marker that contains no comma and no outer blank (a UUID), an inbound
  request is recognised as the server's own hop exactly when some field line of the hop header
  lists the marker as an element, whatever its position, its padding and the other elements.
\<close>

theorem hop_marker_detected_iff:
  assumes "ct_eq_contract ct_eq" and "list_marker (rt_hop_marker rt)"
  shows "matches_inbound_hop_marker ct_eq rt get_all \<longleftrightarrow>
         (\<exists>v \<in> set (get_all PROXY_HOP_HEADER_NAME). lists_element (rt_hop_marker rt) v)"
proof -
  have "matches_inbound_hop_marker ct_eq rt get_all \<longleftrightarrow>
      (\<exists>v \<in> set (get_all PROXY_HOP_HEADER_NAME).
         \<exists>p \<in> set (split_on CHR '','' v). trim_http_ows p = rt_hop_marker rt)"
    using assms(1) unfolding matches_inbound_hop_marker_def ct_eq_contract_def
    by (simp only: list_ex_iff set_map set_concat bex_simps bex_UN image_image)
  then show ?thesis by (simp add: hop_element_iff [OF assms(2)])
qed

theorem hop_marker_detected_iff_witness:
  "matches_inbound_hop_marker (=) (with_hop_marker \<lparr>ps_private = False, ps_invalid_tls = False\<rparr> ''ab'')
     (\<lambda>_. [''other'', ''x,  ab ,y''])"
proof -
  have "lists_element ''ab'' ''x,  ab ,y''"
    unfolding lists_element_def
    by (intro exI [of _ "''x,''"] exI [of _ "''  ''"] exI [of _ "'' ''"] exI [of _ "'',y''"])
      (simp add: is_ows_def)
  then show ?thesis
    by (subst hop_marker_detected_iff)
      (simp_all add: ct_eq_contract_def list_marker_def is_ows_def with_hop_marker_def)
qed

end
