(* ===== verification/RustStr.thy ===== *)
theory RustStr
  imports Prelude
begin

text \<open>
  The part of Rust's \<open>str\<close> the modelled code uses, on strings as lists of bytes: the check of
  \<open>from_utf8\<close>, \<open>lines\<close>, \<open>trim\<close> with Unicode's white space in its UTF-8 spelling, splitting at
  ASCII white space, prefixes and suffixes, and \<open>join\<close>.
\<close>

section \<open>UTF-8\<close>

definition cont :: "nat \<Rightarrow> bool" where
  "cont b \<longleftrightarrow> 128 \<le> b \<and> b \<le> 191"

fun utf8_ok :: "nat list \<Rightarrow> bool" where
  "utf8_ok [] = True"
| "utf8_ok (a # s) =
     (if a < 128 then utf8_ok s
      else if 194 \<le> a \<and> a \<le> 223
      then (case s of b # s' \<Rightarrow> cont b \<and> utf8_ok s' | [] \<Rightarrow> False)
      else if 224 \<le> a \<and> a \<le> 239
      then (case s of
              b # c # s' \<Rightarrow> (if a = 224 then 160 \<le> b \<and> b \<le> 191
                            else if a = 237 then 128 \<le> b \<and> b \<le> 159 else cont b) \<and> cont c \<and> utf8_ok s'
            | _ \<Rightarrow> False)
      else if 240 \<le> a \<and> a \<le> 244
      then (case s of
              b # c # d # s' \<Rightarrow> (if a = 240 then 144 \<le> b \<and> b \<le> 191
                                else if a = 244 then 128 \<le> b \<and> b \<le> 143 else cont b) \<and>
                               cont c \<and> cont d \<and> utf8_ok s'
            | _ \<Rightarrow> False)
      else False)"

definition from_utf8_ok :: "string \<Rightarrow> bool" where
  "from_utf8_ok s = utf8_ok (map of_char s)"

lemma utf8_ok_ascii: "\<forall>b \<in> set bs. b < 128 \<Longrightarrow> utf8_ok bs"
  by (induction bs) auto

section \<open>Lines\<close>

definition strip_cr :: "string \<Rightarrow> string" where
  "strip_cr l = (if l \<noteq> [] \<and> last l = CHR 0x0D then butlast l else l)"

definition lines :: "string \<Rightarrow> string list" where
  "lines s =
     (let ps = split_on CHR 0x0A s
      in map strip_cr (butlast ps) @ (if last ps = [] then [] else [last ps]))"

lemma lines_Nil [simp]: "lines [] = []"
  by (simp add: lines_def)

lemma split_on_Cons_ne: "c \<noteq> sep \<Longrightarrow> split_on sep (c # s) = (c # hd (split_on sep s)) # tl (split_on sep s)"
  using split_on_nonempty [of sep s] by (auto split: list.splits)

lemma length_split_on: "length (split_on sep s) = Suc (count_list s sep)"
proof (induction s)
  case (Cons c s)
  then show ?case
    using split_on_nonempty [of sep s] by (cases "c = sep") (auto split: list.splits)
qed simp

section \<open>White space\<close>

definition unicode_ws :: "string list" where
  "unicode_ws =
     [[CHR 0x09], [CHR 0x0A], [CHR 0x0B], [CHR 0x0C], [CHR 0x0D], [CHR 0x20],
      [CHR 0xC2, CHR 0x85], [CHR 0xC2, CHR 0xA0], [CHR 0xE1, CHR 0x9A, CHR 0x80],
      [CHR 0xE2, CHR 0x80, CHR 0x80], [CHR 0xE2, CHR 0x80, CHR 0x81], [CHR 0xE2, CHR 0x80, CHR 0x82],
      [CHR 0xE2, CHR 0x80, CHR 0x83], [CHR 0xE2, CHR 0x80, CHR 0x84], [CHR 0xE2, CHR 0x80, CHR 0x85],
      [CHR 0xE2, CHR 0x80, CHR 0x86], [CHR 0xE2, CHR 0x80, CHR 0x87], [CHR 0xE2, CHR 0x80, CHR 0x88],
      [CHR 0xE2, CHR 0x80, CHR 0x89], [CHR 0xE2, CHR 0x80, CHR 0x8A], [CHR 0xE2, CHR 0x80, CHR 0xA8],
      [CHR 0xE2, CHR 0x80, CHR 0xA9], [CHR 0xE2, CHR 0x80, CHR 0xAF], [CHR 0xE2, CHR 0x81, CHR 0x9F],
      [CHR 0xE3, CHR 0x80, CHR 0x80]]"

definition starts_with :: "string \<Rightarrow> string \<Rightarrow> bool" where
  "starts_with pre s \<longleftrightarrow> take (length pre) s = pre"

definition strip_prefix :: "string \<Rightarrow> string \<Rightarrow> string option" where
  "strip_prefix pre s = (if starts_with pre s then Some (drop (length pre) s) else None)"

definition ends_with :: "string \<Rightarrow> string \<Rightarrow> bool" where
  "ends_with suf s \<longleftrightarrow> starts_with (rev suf) (rev s)"

definition strip_suffix :: "string \<Rightarrow> string \<Rightarrow> string option" where
  "strip_suffix suf s = (if ends_with suf s then Some (take (length s - length suf) s) else None)"

text \<open>Removing members of a table of nonempty words from the front, as long as one is there.\<close>

function trim_words :: "string list \<Rightarrow> string \<Rightarrow> string" where
  "trim_words ws s =
     (case find (\<lambda>w. w \<noteq> [] \<and> starts_with w s) ws of
        None \<Rightarrow> s
      | Some w \<Rightarrow> trim_words ws (drop (length w) s))"
  by pat_completeness auto
termination
proof (relation "measure (\<lambda>(ws, s). length s)", goal_cases)
  case (2 ws s w)
  then have "w \<noteq> []" "starts_with w s" by (auto simp: find_Some_iff)
  then have "s \<noteq> []" "0 < length w" by (auto simp: starts_with_def)
  then show ?case by simp
qed simp

declare trim_words.simps [simp del]

definition trim_start :: "string \<Rightarrow> string" where
  "trim_start s = trim_words unicode_ws s"

definition trim_end :: "string \<Rightarrow> string" where
  "trim_end s = rev (trim_words (map rev unicode_ws) (rev s))"

definition trim :: "string \<Rightarrow> string" where
  "trim s = trim_end (trim_start s)"

definition is_ascii_alphanumeric :: "char \<Rightarrow> bool" where
  "is_ascii_alphanumeric c \<longleftrightarrow>
     (let n = (of_char c :: nat) in (48 \<le> n \<and> n \<le> 57) \<or> (65 \<le> n \<and> n \<le> 90) \<or> (97 \<le> n \<and> n \<le> 122))"

definition is_ascii_ws :: "char \<Rightarrow> bool" where
  "is_ascii_ws c \<longleftrightarrow> c \<in> {CHR 0x20, CHR 0x09, CHR 0x0A, CHR 0x0C, CHR 0x0D}"

text \<open>\<open>split_ascii_whitespace().next()\<close>\<close>

definition first_word :: "string \<Rightarrow> string option" where
  "first_word s =
     (let w = takeWhile (\<lambda>c. \<not> is_ascii_ws c) (dropWhile is_ascii_ws s) in if w = [] then None else Some w)"

fun join :: "string \<Rightarrow> string list \<Rightarrow> string" where
  "join sep [] = []"
| "join sep [p] = p"
| "join sep (p # ps) = p @ sep @ join sep ps"

text \<open>\<open>split_once\<close>: what is before and after the first occurrence of a word.\<close>

fun split_once :: "string \<Rightarrow> string \<Rightarrow> (string \<times> string) option" where
  "split_once w [] = (if w = [] then Some ([], []) else None)"
| "split_once w (c # s) =
     (if starts_with w (c # s) then Some ([], drop (length w) (c # s))
      else map_option (\<lambda>(a, b). (c # a, b)) (split_once w s))"

lemma strip_prefix_append [simp]: "strip_prefix p (p @ s) = Some s"
  by (simp add: strip_prefix_def starts_with_def)

lemma strip_prefix_Some: "strip_prefix p s = Some r \<longleftrightarrow> s = p @ r"
  by (auto simp: strip_prefix_def starts_with_def) (metis append_take_drop_id)

lemma strip_suffix_Some: "strip_suffix p s = Some r \<longleftrightarrow> s = r @ p"
proof
  assume "strip_suffix p s = Some r"
  then have e: "take (length p) (rev s) = rev p" "r = take (length s - length p) s"
    by (auto simp: strip_suffix_def ends_with_def starts_with_def split: if_splits)
  have "drop (length s - length p) s = p" using e(1) by (metis rev_rev_ident rev_take take_rev)
  then show "s = r @ p" using e(2) by (metis append_take_drop_id)
next
  assume "s = r @ p"
  then show "strip_suffix p s = Some r" by (simp add: strip_suffix_def ends_with_def starts_with_def)
qed

lemma split_once_Some: "split_once w s = Some (a, b) \<Longrightarrow> s = a @ w @ b"
proof (induction w s arbitrary: a rule: split_once.induct)
  case (1 w)
  then show ?case by (auto split: if_splits)
next
  case (2 w c s)
  then show ?case
    by (auto simp: starts_with_def split: if_splits) (metis append_Cons append_take_drop_id)
qed

lemma join_no_sep: "ps \<noteq> [] \<Longrightarrow> list_all (\<lambda>p. c \<notin> set p) ps \<Longrightarrow> split_on c (join [c] ps) = ps"
proof (induction "[c]" ps rule: join.induct)
  case (2 p)
  then show ?case by (simp add: split_on_no_sep)
next
  case (3 p q ps)
  then show ?case using split_on_append_sep [of c p "join [c] (q # ps)"] by (simp add: split_on_no_sep)
qed simp

end
