(* ===== verification/ProxyRequest.thy ===== *)
theory ProxyRequest
  imports ProxyRuntime RustStr "HOL-Library.AList"
begin

text \<open>
  Requests and responses of the proxy route (\<open>server/src/routes/proxy.rs\<close>): parsing the part of the
  request target after \<open>/proxy\<close>, the checks on custom headers, the inspection of upstream headers
  that decides whether a body may be rewritten, and the headers of the answer.

  Text is a list of bytes.  The \<open>url\<close> crate is the record \<open>proxy_url_api\<close>, an extension of the
  interface the destination validator uses, and the two validating constructors of the \<open>http\<close> crate
  are the record \<open>header_api\<close>.  A \<open>HeaderMap\<close> is a list of names with their values; the code never
  depends on the order in which it iterates over one.

  Shown here: percent-decoding inverts the encoding of the emitted links for every text, what a
  parsed request satisfies whatever bytes were sent, and which headers an answer can carry.
\<close>

section \<open>Interfaces\<close>

record 'u proxy_url_api = "'u url_api" +
  pu_parse :: "string \<Rightarrow> 'u option"
  pu_as_str :: "'u \<Rightarrow> string"
  pu_from_path :: "'u \<Rightarrow> string"
  pu_path_query :: "'u \<Rightarrow> string"
  pu_path :: "'u \<Rightarrow> string"
  pu_query :: "'u \<Rightarrow> string option"
  pu_username :: "'u \<Rightarrow> string"
  pu_password :: "'u \<Rightarrow> string option"
  pu_set_path :: "string \<Rightarrow> 'u \<Rightarrow> 'u"
  pu_set_query :: "string option \<Rightarrow> 'u \<Rightarrow> 'u"
  pu_set_username :: "string \<Rightarrow> 'u \<Rightarrow> 'u"
  pu_set_password :: "string option \<Rightarrow> 'u \<Rightarrow> 'u"
  pu_join :: "'u \<Rightarrow> string \<Rightarrow> 'u option"

record header_api =
  header_name_from_bytes :: "string \<Rightarrow> string option"
  header_value_from_str :: "string \<Rightarrow> string option"

type_synonym header_map = "(string \<times> string list) list"

definition hm_get_all :: "header_map \<Rightarrow> string \<Rightarrow> string list" where
  "hm_get_all m name = (case map_of m name of None \<Rightarrow> [] | Some vs \<Rightarrow> vs)"

definition hm_get :: "header_map \<Rightarrow> string \<Rightarrow> string option" where
  "hm_get m name = (case hm_get_all m name of [] \<Rightarrow> None | v # _ \<Rightarrow> Some v)"

definition hm_insert :: "string \<Rightarrow> string \<Rightarrow> header_map \<Rightarrow> header_map" where
  "hm_insert name v m = AList.update name [v] m"

definition hm_append :: "string \<Rightarrow> string \<Rightarrow> header_map \<Rightarrow> header_map" where
  "hm_append name v m = AList.update name (hm_get_all m name @ [v]) m"

definition hm_remove :: "string \<Rightarrow> header_map \<Rightarrow> header_map" where
  "hm_remove name m = AList.delete name m"

definition hm_iter :: "header_map \<Rightarrow> (string \<times> string) list" where
  "hm_iter m = concat (map (\<lambda>(name, vs). map (Pair name) vs) m)"

section \<open>Limits and errors\<close>

definition MAX_PROXY_INPUT :: nat where "MAX_PROXY_INPUT = 64 * 1024"
definition MAX_TARGET_URL :: nat where "MAX_TARGET_URL = 16 * 1024"
definition MAX_CUSTOM_OPTIONS :: nat where "MAX_CUSTOM_OPTIONS = 64"
definition MAX_HEADER_PAIR :: nat where "MAX_HEADER_PAIR = 8 * 1024"
definition RAW_CANONICAL_PATH_KEY :: string where "RAW_CANONICAL_PATH_KEY = ''x-stream-path''"
definition RAW_CANONICAL_PATH_OPTION :: string where "RAW_CANONICAL_PATH_OPTION = ''&x-stream-path=raw''"

datatype proxy_error = PeInvalidRequest | PeBlocked | PeCapacity | PeUpstream | PeCancelled

fun from_destination_error :: "destination_error \<Rightarrow> proxy_error" where
  "from_destination_error UnsupportedScheme = PeInvalidRequest"
| "from_destination_error MissingHost = PeInvalidRequest"
| "from_destination_error Blocked = PeBlocked"
| "from_destination_error ResolutionFailed = PeUpstream"
| "from_destination_error LocalNetworkUnavailable = PeUpstream"

section \<open>Percent encoding\<close>

fun percent_hex_value :: "char \<Rightarrow> nat option" where
  "percent_hex_value c =
     (let b = of_char c
      in if 48 \<le> b \<and> b \<le> 57 then Some (b - 48)
         else if 97 \<le> b \<and> b \<le> 102 then Some (b - 97 + 10)
         else if 65 \<le> b \<and> b \<le> 70 then Some (b - 65 + 10)
         else None)"

definition is_ascii_hexdigit :: "char \<Rightarrow> bool" where
  "is_ascii_hexdigit c \<longleftrightarrow>
     (let b = (of_char c :: nat) in (48 \<le> b \<and> b \<le> 57) \<or> (65 \<le> b \<and> b \<le> 70) \<or> (97 \<le> b \<and> b \<le> 102))"

fun percent_encoding_ok :: "string \<Rightarrow> bool" where
  "percent_encoding_ok [] = True"
| "percent_encoding_ok (c # s) =
     (if c = CHR ''%''
      then (case s of
              h # l # rest \<Rightarrow> is_ascii_hexdigit h \<and> is_ascii_hexdigit l \<and> percent_encoding_ok rest
            | _ \<Rightarrow> False)
      else percent_encoding_ok s)"

definition validate_percent_encoding :: "string \<Rightarrow> (proxy_error, unit) result" where
  "validate_percent_encoding value = (if percent_encoding_ok value then Inr () else Inl PeInvalidRequest)"

fun percent_decode :: "bool \<Rightarrow> string \<Rightarrow> string option" where
  "percent_decode plus_as_space [] = Some []"
| "percent_decode plus_as_space (c # s) =
     (if c = CHR ''%''
      then (case s of
              h # l # rest \<Rightarrow>
                (case (percent_hex_value h, percent_hex_value l) of
                   (Some high, Some low) \<Rightarrow>
                     map_option ((#) (char_of (high * 16 + low))) (percent_decode plus_as_space rest)
                 | _ \<Rightarrow> None)
            | _ \<Rightarrow> None)
      else map_option ((#) (if c = CHR ''+'' \<and> plus_as_space then CHR '' '' else c))
             (percent_decode plus_as_space s))"

definition strict_percent_decode :: "string \<Rightarrow> bool \<Rightarrow> (proxy_error, string) result" where
  "strict_percent_decode value plus_as_space =
     (case percent_decode plus_as_space value of
        None \<Rightarrow> Inl PeInvalidRequest
      | Some decoded \<Rightarrow> if from_utf8_ok decoded then Inr decoded else Inl PeInvalidRequest)"

section \<open>Targets and custom headers\<close>

definition validate_proxy_target :: "'u proxy_url_api \<Rightarrow> 'u \<Rightarrow> (proxy_error, 'u) result" where
  "validate_proxy_target uapi target =
     (if url_scheme uapi target \<notin> {''http'', ''https''} \<or> url_host uapi target = None then Inl PeInvalidRequest
      else
        let target' = url_without_fragment uapi target
        in if length (pu_as_str uapi target') > MAX_TARGET_URL then Inl PeInvalidRequest else Inr target')"

definition trim_ascii_ows :: "string \<Rightarrow> string" where
  "trim_ascii_ows value = trim_ows_end (trim_ows_start value)"

definition parse_custom_header :: "header_api \<Rightarrow> string \<Rightarrow> (proxy_error, string \<times> string) result" where
  "parse_custom_header hapi option =
     (case split_once '':'' option of
        None \<Rightarrow> Inl PeInvalidRequest
      | Some (name0, value0) \<Rightarrow>
          let name = trim_ascii_ows name0; value = trim_ascii_ows value0
          in if name = [] \<or> \<not> list_all (\<lambda>b. is_ascii_alphanumeric b \<or> b = CHR ''-'') name
             then Inl PeInvalidRequest
             else if pred_option (\<lambda>n. n > MAX_HEADER_PAIR)
                       (Option.bind (checked_add_u64 (length name) (length value)) (\<lambda>n. checked_add_u64 n 1))
             then Inl PeInvalidRequest
             else rbind (ok_or PeInvalidRequest (header_name_from_bytes hapi name)) (\<lambda>n.
                    rbind (ok_or PeInvalidRequest (header_value_from_str hapi value)) (\<lambda>v. Inr (n, v))))"

definition FORBIDDEN_REQUEST_HEADERS :: "string list" where
  "FORBIDDEN_REQUEST_HEADERS =
     [''host'', ''connection'', ''keep-alive'', ''expect'', ''proxy-authenticate'', ''proxy-authorization'',
      ''te'', ''trailer'', ''transfer-encoding'', ''upgrade'', ''content-length'', ''forwarded'', ''via'',
      ''proxy-connection'', ''http2-settings'', ''x-real-ip'', ''x-host'', PROXY_HOP_HEADER_NAME]"

definition request_header_forbidden :: "string \<Rightarrow> bool" where
  "request_header_forbidden name \<longleftrightarrow>
     name \<in> set FORBIDDEN_REQUEST_HEADERS \<or> starts_with ''x-forwarded-'' name \<or>
     starts_with ''x-original-'' name \<or> starts_with ''x-rewrite-'' name"

definition response_header_forbidden :: "string \<Rightarrow> bool" where
  "response_header_forbidden name \<longleftrightarrow> name \<noteq> ''content-type''"

section \<open>Parsing a request\<close>

record 'u parsed_proxy_request =
  pr_target :: 'u
  pr_request_headers :: header_map
  pr_response_headers :: header_map

definition suffix_parts ::
  "string \<Rightarrow> (proxy_error, string \<times> string option \<times> string option) result" where
  "suffix_parts raw_suffix =
     (if raw_suffix = [] then Inr ([], None, None)
      else case strip_prefix ''?'' raw_suffix of
        Some query \<Rightarrow> Inr (query, None, None)
      | None \<Rightarrow>
          if raw_suffix = ''/'' then Inr ([], None, None)
          else case strip_prefix ''/?'' raw_suffix of
            Some query \<Rightarrow> Inr (query, None, None)
          | None \<Rightarrow>
              (case strip_prefix ''/'' raw_suffix of
                 None \<Rightarrow> Inl PeInvalidRequest
               | Some path_and_query \<Rightarrow>
                   let (raw_path, upstream_query) =
                         (case split_once ''?'' path_and_query of
                            Some (path, query) \<Rightarrow> (path, Some query)
                          | None \<Rightarrow> (path_and_query, None));
                       (options, tail) =
                         (case split_once ''/'' raw_path of
                            Some (options, tail) \<Rightarrow> (options, tail)
                          | None \<Rightarrow> (raw_path, []))
                   in Inr (options, Some tail, upstream_query)))"

record parse_state =
  ps_target :: "string option"
  ps_request_headers :: header_map
  ps_response_headers :: header_map
  ps_option_count :: nat
  ps_raw_canonical_path :: bool

definition parse_start :: parse_state where
  "parse_start = \<lparr>ps_target = None, ps_request_headers = [], ps_response_headers = [], ps_option_count = 0,
     ps_raw_canonical_path = False\<rparr>"

definition parse_header_option ::
  "header_api \<Rightarrow> bool \<Rightarrow> string \<Rightarrow> parse_state \<Rightarrow> (proxy_error, parse_state) result" where
  "parse_header_option hapi request value st =
     rbind (ok_or PeInvalidRequest (checked_add_u64 (ps_option_count st) 1)) (\<lambda>option_count.
       if option_count > MAX_CUSTOM_OPTIONS \<or> length value > MAX_HEADER_PAIR then Inl PeInvalidRequest
       else rbind (parse_custom_header hapi value) (\<lambda>(name, v).
         let st' = st\<lparr>ps_option_count := option_count\<rparr>
         in if request
            then (if request_header_forbidden name then Inl PeInvalidRequest
                  else Inr (st'\<lparr>ps_request_headers := hm_insert name v (ps_request_headers st')\<rparr>))
            else (if response_header_forbidden name then Inl PeInvalidRequest
                  else Inr (st'\<lparr>ps_response_headers := hm_insert name v (ps_response_headers st')\<rparr>))))"

definition parse_option ::
  "header_api \<Rightarrow> string \<Rightarrow> parse_state \<Rightarrow> (proxy_error, parse_state) result" where
  "parse_option hapi option st =
     (let (raw_key, raw_value) = (case split_once ''='' option of Some kv \<Rightarrow> kv | None \<Rightarrow> (option, []))
      in rbind (strict_percent_decode raw_key True) (\<lambda>key.
           rbind (strict_percent_decode raw_value True) (\<lambda>value.
             if key = ''d''
             then (if ps_target st \<noteq> None then Inl PeInvalidRequest else Inr (st\<lparr>ps_target := Some value\<rparr>))
             else if key = ''h'' \<or> key = ''r'' then parse_header_option hapi (key = ''h'') value st
             else if key = RAW_CANONICAL_PATH_KEY
             then (if value \<noteq> ''raw'' \<or> ps_raw_canonical_path st then Inl PeInvalidRequest
                   else Inr (st\<lparr>ps_raw_canonical_path := True\<rparr>))
             else Inr st)))"

fun parse_options :: "header_api \<Rightarrow> string list \<Rightarrow> parse_state \<Rightarrow> (proxy_error, parse_state) result" where
  "parse_options hapi [] st = Inr st"
| "parse_options hapi (option # options) st =
     rbind (parse_option hapi option st) (parse_options hapi options)"

definition apply_path_tail ::
  "'u proxy_url_api \<Rightarrow> bool \<Rightarrow> string option \<Rightarrow> string option \<Rightarrow> 'u \<Rightarrow> (proxy_error, 'u) result" where
  "apply_path_tail uapi raw_canonical_path path_tail upstream_query target =
     (case path_tail of
        None \<Rightarrow> Inr target
      | Some tail \<Rightarrow>
          rbind (if raw_canonical_path
                 then rbind (validate_percent_encoding tail) (\<lambda>_.
                        rbind (case upstream_query of None \<Rightarrow> Inr () | Some q \<Rightarrow> validate_percent_encoding q) (\<lambda>_.
                          Inr tail))
                 else strict_percent_decode tail False) (\<lambda>path.
            Inr (pu_set_query uapi upstream_query (pu_set_path uapi (if path = [] then ''/'' else path) target))))"

definition parse_proxy_suffix ::
  "'u proxy_url_api \<Rightarrow> header_api \<Rightarrow> string \<Rightarrow> (proxy_error, 'u parsed_proxy_request) result" where
  "parse_proxy_suffix uapi hapi raw_suffix =
     (if length raw_suffix > MAX_PROXY_INPUT then Inl PeInvalidRequest
      else
        rbind (suffix_parts raw_suffix) (\<lambda>(encoded_options, path_tail, upstream_query).
          rbind (parse_options hapi (split_on CHR ''&'' encoded_options) parse_start) (\<lambda>st.
            if ps_raw_canonical_path st \<and> pred_option (\<lambda>tail. tail = []) path_tail then Inl PeInvalidRequest
            else
              rbind (ok_or PeInvalidRequest (ps_target st)) (\<lambda>text.
                rbind (ok_or PeInvalidRequest (pu_parse uapi text)) (\<lambda>url.
                  rbind (apply_path_tail uapi (ps_raw_canonical_path st) path_tail upstream_query url) (\<lambda>url.
                    rbind (validate_proxy_target uapi url) (\<lambda>target.
                      Inr \<lparr>pr_target = target, pr_request_headers = ps_request_headers st,
                           pr_response_headers = ps_response_headers st\<rparr>)))))))"

section \<open>Inspecting upstream headers\<close>

definition is_quoted_header_byte :: "char \<Rightarrow> bool" where
  "is_quoted_header_byte c \<longleftrightarrow> (let b = (of_char c :: nat) in b = 9 \<or> (32 \<le> b \<and> b \<le> 126) \<or> 128 \<le> b)"

definition is_http_token :: "char \<Rightarrow> bool" where
  "is_http_token c \<longleftrightarrow> is_ascii_alphanumeric c \<or> c \<in> set ''!#$%&*+-.^_|~'' \<or> c = CHR 0x27 \<or> c = CHR 0x60"

fun valid_quoted_tail :: "bool \<Rightarrow> string \<Rightarrow> bool" where
  "valid_quoted_tail escaped [] = False"
| "valid_quoted_tail escaped (b # rest) =
     (if escaped then is_quoted_header_byte b \<and> valid_quoted_tail False rest
      else if b = CHR 0x5C then valid_quoted_tail True rest
      else if b = CHR 0x22 then trim_ascii_ows rest = []
      else is_quoted_header_byte b \<and> valid_quoted_tail False rest)"

definition valid_quoted_header_value :: "string \<Rightarrow> bool" where
  "valid_quoted_header_value value \<longleftrightarrow>
     2 \<le> length value \<and> hd value = CHR 0x22 \<and> valid_quoted_tail False (tl value)"

definition cache_control_directive :: "string \<Rightarrow> bool option" where
  "cache_control_directive value0 =
     (let value = trim_ascii_ows value0;
          name = takeWhile is_http_token value;
          remainder = trim_ascii_ows (dropWhile is_http_token value)
      in if name = [] then None
         else if remainder = [] then Some (to_ascii_lowercase name = ''no-transform'')
         else case strip_prefix ''='' remainder of
             None \<Rightarrow> None
           | Some p \<Rightarrow>
               let parameter = trim_ascii_ows p
               in if parameter = [] then None
                  else if (if hd parameter = CHR 0x22 then valid_quoted_header_value parameter
                           else list_all is_http_token parameter)
                  then Some (to_ascii_lowercase name = ''no-transform'') else None)"

text \<open>
  The loop over the bytes of a field: \<open>segment\<close> is what it has seen since the last comma outside
  quotes (\<open>value[start..index]\<close>).
\<close>

fun cache_control_loop :: "string \<Rightarrow> bool \<Rightarrow> bool \<Rightarrow> bool \<Rightarrow> string \<Rightarrow> bool option" where
  "cache_control_loop segment quoted escaped no_transform [] =
     (if quoted \<or> escaped then None
      else map_option (\<lambda>d. no_transform \<or> d) (cache_control_directive segment))"
| "cache_control_loop segment quoted escaped no_transform (b # rest) =
     (if quoted
      then if escaped
           then (if \<not> is_quoted_header_byte b then None
                 else cache_control_loop (segment @ [b]) True False no_transform rest)
           else if b = CHR 0x5C then cache_control_loop (segment @ [b]) True True no_transform rest
           else if b = CHR 0x22 then cache_control_loop (segment @ [b]) False False no_transform rest
           else if \<not> is_quoted_header_byte b then None
           else cache_control_loop (segment @ [b]) True False no_transform rest
      else if b = CHR 0x22 then cache_control_loop (segment @ [b]) True escaped no_transform rest
      else if b = CHR '',''
      then (case cache_control_directive segment of
              None \<Rightarrow> None
            | Some d \<Rightarrow> cache_control_loop [] False escaped (no_transform \<or> d) rest)
      else let n = (of_char b :: nat)
           in if 128 \<le> n \<or> (n < 32 \<and> b \<noteq> CHR '' '' \<and> b \<noteq> CHR 0x09) \<or> n = 127 then None
              else cache_control_loop (segment @ [b]) False escaped no_transform rest)"

definition cache_control_has_no_transform :: "string \<Rightarrow> bool option" where
  "cache_control_has_no_transform value = cache_control_loop [] False False False value"

definition cache_control_forbids_transform :: "header_map \<Rightarrow> bool" where
  "cache_control_forbids_transform headers \<longleftrightarrow>
     list_ex (\<lambda>value. case cache_control_has_no_transform value of None \<Rightarrow> True | Some b \<Rightarrow> b)
       (hm_get_all headers ''cache-control'')"

definition content_encoding_is_identity_only :: "header_map \<Rightarrow> bool" where
  "content_encoding_is_identity_only headers \<longleftrightarrow>
     list_all (\<lambda>value.
         list_all (\<lambda>coding. trim_ascii_ows coding \<noteq> [] \<and> to_ascii_lowercase (trim_ascii_ows coding) = ''identity'')
           (split_on CHR '','' value))
       (hm_get_all headers ''content-encoding'')"

definition mentions_mpegurl :: "string \<Rightarrow> bool" where
  "mentions_mpegurl subtype \<longleftrightarrow>
     list_ex (\<lambda>i. to_ascii_lowercase (take 7 (drop i subtype)) = ''mpegurl'') [0..<length subtype - 6]"

definition content_type_is_playlist :: "string \<Rightarrow> bool" where
  "content_type_is_playlist value \<longleftrightarrow>
     (case split_on CHR ''/'' (trim_ascii_ows (hd (split_on CHR '';'' value))) of
        [kind, subtype] \<Rightarrow>
          kind \<noteq> [] \<and> subtype \<noteq> [] \<and> list_all is_http_token (kind @ subtype) \<and> mentions_mpegurl subtype
      | _ \<Rightarrow> False)"

section \<open>Responses\<close>

record 'b proxy_response =
  rs_status :: nat
  rs_headers :: header_map
  rs_body :: 'b

definition SAFE_RESPONSE_HEADERS :: "string list" where
  "SAFE_RESPONSE_HEADERS =
     [''accept-ranges'', ''content-type'', ''content-length'', ''content-range'', ''last-modified'', ''etag'',
      ''server'', ''date'', ''content-encoding'', ''cache-control'', ''expires'', ''pragma'', ''vary'']"

definition REWRITTEN_REMOVED_HEADERS :: "string list" where
  "REWRITTEN_REMOVED_HEADERS =
     [''content-length'', ''content-range'', ''content-encoding'', ''etag'', ''last-modified'']"

definition ROUTE_OWNED_HEADERS :: "(string \<times> string) list" where
  "ROUTE_OWNED_HEADERS =
     [(''content-security-policy'',
         ''default-src '' @ [CHR 0x27] @ ''none'' @ [CHR 0x27] @ ''; base-uri '' @ [CHR 0x27] @ ''none'' @ [CHR 0x27] @
         ''; form-action '' @ [CHR 0x27] @ ''none'' @ [CHR 0x27] @ ''; frame-ancestors '' @ [CHR 0x27] @ ''none'' @
         [CHR 0x27] @ ''; sandbox''),
      (''x-content-type-options'', ''nosniff''),
      (''referrer-policy'', ''no-referrer''),
      (''x-frame-options'', ''DENY'')]"

definition hm_insert_all :: "(string \<times> string) list \<Rightarrow> header_map \<Rightarrow> header_map" where
  "hm_insert_all kvs m = foldl (\<lambda>m (name, v). hm_insert name v m) m kvs"

definition hm_remove_all :: "string list \<Rightarrow> header_map \<Rightarrow> header_map" where
  "hm_remove_all names m = foldl (\<lambda>m name. hm_remove name m) m names"

definition copy_headers :: "string list \<Rightarrow> header_map \<Rightarrow> header_map \<Rightarrow> header_map" where
  "copy_headers names upstream m =
     foldl (\<lambda>m name. foldl (\<lambda>m v. hm_append name v m) m (hm_get_all upstream name)) m names"

definition apply_route_owned_headers :: "header_map \<Rightarrow> header_map" where
  "apply_route_owned_headers m = hm_insert_all ROUTE_OWNED_HEADERS m"

definition build_proxy_response ::
  "nat \<Rightarrow> header_map \<Rightarrow> header_map \<Rightarrow> 'b \<Rightarrow> bool \<Rightarrow> bool \<Rightarrow> 'b proxy_response" where
  "build_proxy_response status upstream custom body rewritten credential_bearing =
     (let m0 = copy_headers SAFE_RESPONSE_HEADERS upstream [];
          m1 = hm_insert_all (hm_iter custom) m0;
          m2 = (if rewritten
                then hm_insert ''cache-control'' ''private, no-store''
                       (hm_insert ''accept-ranges'' ''none'' (hm_remove_all REWRITTEN_REMOVED_HEADERS m1))
                else if credential_bearing then hm_insert ''cache-control'' ''private, no-store'' m1
                else m1);
          m3 = hm_insert ''access-control-allow-headers'' ''*''
                 (hm_insert ''access-control-allow-methods'' ''GET, POST, OPTIONS''
                   (hm_insert ''access-control-allow-origin'' ''*'' m2))
      in \<lparr>rs_status = status, rs_headers = apply_route_owned_headers m3, rs_body = body\<rparr>)"

fun error_status :: "proxy_error \<Rightarrow> nat \<times> string" where
  "error_status PeInvalidRequest = (400, ''Invalid proxy request'')"
| "error_status PeBlocked = (403, ''Proxy destination is blocked'')"
| "error_status PeCapacity = (503, ''Proxy capacity is exhausted'')"
| "error_status PeUpstream = (502, ''Proxy upstream request failed'')"
| "error_status PeCancelled = (502, ''Proxy upstream request failed'')"

text \<open>\<open>into_response\<close> of a text gives it the plain text content type.\<close>

definition proxy_error_response :: "proxy_error \<Rightarrow> string proxy_response" where
  "proxy_error_response error =
     (let m0 = [(''content-type'', [''text/plain; charset=utf-8''])];
          m1 = (if error = PeCapacity then hm_insert ''retry-after'' ''1'' m0 else m0);
          m2 = hm_insert ''cache-control'' ''private, no-store'' m1
      in \<lparr>rs_status = fst (error_status error), rs_headers = apply_route_owned_headers m2,
          rs_body = snd (error_status error)\<rparr>)"

section \<open>Header maps\<close>

lemma hm_get_all_simps [simp]:
  "hm_get_all [] name = []"
  "hm_get_all (hm_insert n v m) name = (if name = n then [v] else hm_get_all m name)"
  "hm_get_all (hm_append n v m) name = (if name = n then hm_get_all m n @ [v] else hm_get_all m name)"
  "hm_get_all (hm_remove n m) name = (if name = n then [] else hm_get_all m name)"
  by (simp_all add: hm_get_all_def hm_insert_def hm_append_def hm_remove_def update_conv' delete_conv')

lemma hm_insert_all_Nil [simp]: "hm_insert_all [] m = m"
  by (simp add: hm_insert_all_def)

lemma hm_insert_all_Cons [simp]: "hm_insert_all ((n, v) # kvs) m = hm_insert_all kvs (hm_insert n v m)"
  by (simp add: hm_insert_all_def)

lemma hm_get_all_insert_all:
  "hm_get_all (hm_insert_all kvs m) name =
     (case map_of (rev kvs) name of None \<Rightarrow> hm_get_all m name | Some v \<Rightarrow> [v])"
proof (induction kvs arbitrary: m)
  case (Cons kv kvs)
  then show ?case by (cases kv) (auto simp: map_add_def split: option.splits)
qed simp

lemma hm_get_all_remove_all:
  "hm_get_all (hm_remove_all names m) name = (if name \<in> set names then [] else hm_get_all m name)"
  by (induction names arbitrary: m) (simp_all add: hm_remove_all_def)

lemma hm_get_all_append_all:
  "hm_get_all (foldl (\<lambda>m v. hm_append n v m) m vs) name =
     (if name = n then hm_get_all m n @ vs else hm_get_all m name)"
  by (induction vs arbitrary: m) auto

lemma hm_get_all_copy:
  "distinct names \<Longrightarrow> hm_get_all (copy_headers names upstream m) name =
     (if name \<in> set names then hm_get_all m name @ hm_get_all upstream name else hm_get_all m name)"
  by (induction names arbitrary: m) (auto simp: copy_headers_def hm_get_all_append_all)

text \<open>Maps that are built by inserting: distinct names with one value each.\<close>

definition one_value_each :: "header_map \<Rightarrow> bool" where
  "one_value_each m \<longleftrightarrow> distinct (map fst m) \<and> (\<forall>(n, vs) \<in> set m. length vs = 1)"

lemma one_value_each_Nil [simp]: "one_value_each []"
  by (simp add: one_value_each_def)

lemma one_value_each_insert: "one_value_each m \<Longrightarrow> one_value_each (hm_insert n v m)"
proof -
  have "x = (n, [v]) \<or> x \<in> set m" if "x \<in> set (AList.update n [v] m)" for x
    using that by (induction m) (auto split: if_splits)
  then show "one_value_each m \<Longrightarrow> one_value_each (hm_insert n v m)"
    by (force simp: one_value_each_def hm_insert_def distinct_update)
qed

lemma one_value_each_iter: "one_value_each m \<Longrightarrow> hm_iter m = map (\<lambda>(n, vs). (n, hd vs)) m"
proof (induction m)
  case (Cons e m)
  obtain n v where "e = (n, [v])"
    using Cons.prems by (cases e) (auto simp: one_value_each_def length_Suc_conv)
  moreover have "one_value_each m" using Cons.prems by (simp add: one_value_each_def)
  ultimately show ?case using Cons.IH by (simp add: hm_iter_def)
qed (simp add: hm_iter_def)

lemma one_value_each_get_all:
  assumes "one_value_each m"
  shows "hm_get_all m name = (case map_of (hm_iter m) name of None \<Rightarrow> [] | Some v \<Rightarrow> [v])"
proof (cases "map_of m name")
  case None
  then have "map_of (map (\<lambda>(n, vs). (n, hd vs)) m) name = None" by (simp add: map_of_map)
  then show ?thesis using None assms by (simp add: one_value_each_iter hm_get_all_def)
next
  case (Some vs)
  then have "length vs = 1" using assms by (auto simp: one_value_each_def dest: map_of_SomeD)
  then obtain v where "vs = [v]" by (auto simp: length_Suc_conv)
  moreover have "map_of (map (\<lambda>(n, vs). (n, hd vs)) m) name = Some (hd vs)" using Some by (simp add: map_of_map)
  ultimately show ?thesis using Some assms by (simp add: one_value_each_iter hm_get_all_def)
qed

lemma one_value_each_distinct: "one_value_each m \<Longrightarrow> distinct (map fst (hm_iter m))"
  by (simp add: one_value_each_iter) (simp add: one_value_each_def comp_def split_def)

section \<open>What a parsed request satisfies\<close>

lemma trim_ascii_ows_eq: "trim_ascii_ows = trim_http_ows"
  by (simp add: fun_eq_iff trim_ascii_ows_def trim_http_ows_def)

definition custom_headers_ok :: "(string \<Rightarrow> bool) \<Rightarrow> header_map \<Rightarrow> bool" where
  "custom_headers_ok forbidden m \<longleftrightarrow> one_value_each m \<and> (\<forall>n \<in> fst ` set m. \<not> forbidden n)"

lemma custom_headers_insert:
  "custom_headers_ok forbidden m \<Longrightarrow> \<not> forbidden n \<Longrightarrow> custom_headers_ok forbidden (hm_insert n v m)"
  using one_value_each_insert [of m n v] by (auto simp: custom_headers_ok_def hm_insert_def dom_update)

definition parse_state_ok :: "parse_state \<Rightarrow> bool" where
  "parse_state_ok st \<longleftrightarrow>
     custom_headers_ok request_header_forbidden (ps_request_headers st) \<and>
     custom_headers_ok response_header_forbidden (ps_response_headers st) \<and>
     ps_option_count st \<le> MAX_CUSTOM_OPTIONS \<and>
     length (ps_request_headers st) + length (ps_response_headers st) \<le> ps_option_count st"

lemma hm_insert_length: "length (hm_insert n v m) \<le> Suc (length m)"
  unfolding hm_insert_def by (induction m) auto

lemma parse_header_option_ok:
  assumes "parse_header_option hapi request value st = Inr st'" "parse_state_ok st"
  shows "parse_state_ok st'"
proof -
  obtain n v where st': "Suc (ps_option_count st) \<le> MAX_CUSTOM_OPTIONS"
      "st' = st\<lparr>ps_option_count := Suc (ps_option_count st),
                ps_request_headers := hm_insert n v (ps_request_headers st)\<rparr> \<and> \<not> request_header_forbidden n \<or>
       st' = st\<lparr>ps_option_count := Suc (ps_option_count st),
                ps_response_headers := hm_insert n v (ps_response_headers st)\<rparr> \<and> \<not> response_header_forbidden n"
    using assms(1)
    by (auto simp: parse_header_option_def rbind_Inr_iff ok_or_def checked_add_u64_def Let_def
        split: if_splits)
  then show ?thesis
    using assms(2) hm_insert_length [of n v "ps_request_headers st"]
      hm_insert_length [of n v "ps_response_headers st"]
    by (auto simp: parse_state_ok_def custom_headers_insert)
qed

lemma parse_option_ok:
  "parse_option hapi option st = Inr st' \<Longrightarrow> parse_state_ok st \<Longrightarrow> parse_state_ok st'"
  by (auto simp: parse_option_def rbind_Inr_iff parse_state_ok_def
      split: if_splits option.splits prod.splits dest: parse_header_option_ok [unfolded parse_state_ok_def])

lemma parse_options_ok:
  "parse_options hapi options st = Inr st' \<Longrightarrow> parse_state_ok st \<Longrightarrow> parse_state_ok st'"
  by (induction options arbitrary: st) (auto simp: rbind_Inr_iff dest: parse_option_ok)

lemma parse_start_ok: "parse_state_ok parse_start"
  by (simp add: parse_state_ok_def parse_start_def custom_headers_ok_def)

lemma parsed_headers_ok:
  assumes "parse_proxy_suffix uapi hapi suffix = Inr req"
  shows "custom_headers_ok request_header_forbidden (pr_request_headers req)"
    "custom_headers_ok response_header_forbidden (pr_response_headers req)"
    "length (pr_request_headers req) + length (pr_response_headers req) \<le> MAX_CUSTOM_OPTIONS"
proof -
  obtain options st where "parse_options hapi options parse_start = Inr st"
      "pr_request_headers req = ps_request_headers st" "pr_response_headers req = ps_response_headers st"
    using assms by (auto simp: parse_proxy_suffix_def rbind_Inr_iff split: if_splits prod.splits)
  then show "custom_headers_ok request_header_forbidden (pr_request_headers req)"
    "custom_headers_ok response_header_forbidden (pr_response_headers req)"
    "length (pr_request_headers req) + length (pr_response_headers req) \<le> MAX_CUSTOM_OPTIONS"
    using parse_options_ok [OF _ parse_start_ok, of hapi options st] by (simp_all add: parse_state_ok_def)
qed

section \<open>The headers of an answer\<close>

definition CORS_HEADERS :: "(string \<times> string) list" where
  "CORS_HEADERS = [(''access-control-allow-origin'', ''*''), (''access-control-allow-methods'', ''GET, POST, OPTIONS''),
     (''access-control-allow-headers'', ''*'')]"

lemma map_of_rev: "distinct (map fst xs) \<Longrightarrow> map_of (rev xs) = map_of xs"
proof (induction xs)
  case (Cons x xs)
  moreover have "fst x \<notin> dom (map_of xs)" using Cons.prems by (simp add: dom_map_of_conv_image_fst)
  ultimately show ?case by (cases x) (auto simp: map_add_def fun_eq_iff split: option.splits)
qed simp

lemma name_tables_distinct:
  "distinct SAFE_RESPONSE_HEADERS" "distinct (map fst ROUTE_OWNED_HEADERS)" "distinct (map fst CORS_HEADERS)"
  by (simp_all add: SAFE_RESPONSE_HEADERS_def ROUTE_OWNED_HEADERS_def CORS_HEADERS_def)

definition content_headers :: "header_map \<Rightarrow> header_map \<Rightarrow> bool \<Rightarrow> bool \<Rightarrow> string \<Rightarrow> string list" where
  "content_headers upstream custom rewritten credential_bearing name =
     (if rewritten \<and> name \<in> set REWRITTEN_REMOVED_HEADERS then []
      else if rewritten \<and> name = ''accept-ranges'' then [''none'']
      else if (rewritten \<or> credential_bearing) \<and> name = ''cache-control'' then [''private, no-store'']
      else if hm_get_all custom name \<noteq> [] then hm_get_all custom name
      else if name \<in> set SAFE_RESPONSE_HEADERS then hm_get_all upstream name else [])"

lemma content_headers_map:
  assumes "one_value_each custom"
    and m: "m = hm_insert_all (hm_iter custom) (copy_headers SAFE_RESPONSE_HEADERS upstream [])"
  shows "hm_get_all (if rewritten
        then hm_insert ''cache-control'' ''private, no-store''
               (hm_insert ''accept-ranges'' ''none'' (hm_remove_all REWRITTEN_REMOVED_HEADERS m))
        else if credential_bearing then hm_insert ''cache-control'' ''private, no-store'' m else m) name =
    content_headers upstream custom rewritten credential_bearing name"
proof -
  have "map_of (rev (hm_iter custom)) = map_of (hm_iter custom)"
    by (rule map_of_rev) (rule one_value_each_distinct [OF assms(1)])
  then have get: "hm_get_all m name = (if hm_get_all custom name \<noteq> [] then hm_get_all custom name
      else if name \<in> set SAFE_RESPONSE_HEADERS then hm_get_all upstream name else [])"
    by (cases "map_of (hm_iter custom) name")
      (simp_all add: m hm_get_all_insert_all hm_get_all_copy [OF name_tables_distinct(1)]
        one_value_each_get_all [OF assms(1)])
  have "''accept-ranges'' \<notin> set REWRITTEN_REMOVED_HEADERS" "''cache-control'' \<notin> set REWRITTEN_REMOVED_HEADERS"
    by (simp_all add: REWRITTEN_REMOVED_HEADERS_def)
  then show ?thesis by (simp add: content_headers_def hm_get_all_remove_all get)
qed

lemma build_headers:
  assumes "one_value_each custom"
  shows "hm_get_all (rs_headers (build_proxy_response status upstream custom body rewritten credential_bearing)) name =
    (case map_of (ROUTE_OWNED_HEADERS @ CORS_HEADERS) name of
       Some v \<Rightarrow> [v]
     | None \<Rightarrow> content_headers upstream custom rewritten credential_bearing name)"
proof -
  let ?m = "hm_insert_all (hm_iter custom) (copy_headers SAFE_RESPONSE_HEADERS upstream [])"
  let ?c = "if rewritten
        then hm_insert ''cache-control'' ''private, no-store''
               (hm_insert ''accept-ranges'' ''none'' (hm_remove_all REWRITTEN_REMOVED_HEADERS ?m))
        else if credential_bearing then hm_insert ''cache-control'' ''private, no-store'' ?m else ?m"
  have "rs_headers (build_proxy_response status upstream custom body rewritten credential_bearing) =
      hm_insert_all ROUTE_OWNED_HEADERS (hm_insert_all CORS_HEADERS ?c)"
    by (simp only: build_proxy_response_def Let_def apply_route_owned_headers_def CORS_HEADERS_def
        hm_insert_all_Cons hm_insert_all_Nil proxy_response.simps)
  then show ?thesis
    using content_headers_map [OF assms refl, of rewritten upstream credential_bearing name]
    by (simp only: hm_get_all_insert_all map_of_rev [OF name_tables_distinct(2)]
        map_of_rev [OF name_tables_distinct(3)] map_of_append map_add_def split: option.split)
      (simp split: option.split)
qed

lemma error_headers:
  "hm_get_all (rs_headers (proxy_error_response e)) name =
    (case map_of ROUTE_OWNED_HEADERS name of
       Some v \<Rightarrow> [v]
     | None \<Rightarrow>
         if name = ''cache-control'' then [''private, no-store'']
         else if name = ''retry-after'' \<and> e = PeCapacity then [''1'']
         else if name = ''content-type'' then [''text/plain; charset=utf-8''] else [])"
proof -
  have "map_of (rev ROUTE_OWNED_HEADERS) = map_of ROUTE_OWNED_HEADERS"
    by (rule map_of_rev) (rule name_tables_distinct)
  then show ?thesis
    by (simp add: proxy_error_response_def Let_def apply_route_owned_headers_def hm_get_all_insert_all
        hm_get_all_def [of "[(_, _)]"] split: option.split)
qed

lemma parsed_response_headers:
  assumes "parse_proxy_suffix uapi hapi suffix = Inr req"
  shows "one_value_each (pr_response_headers req)"
    and "name \<noteq> ''content-type'' \<Longrightarrow> hm_get_all (pr_response_headers req) name = []"
proof -
  have ok: "custom_headers_ok response_header_forbidden (pr_response_headers req)"
    using assms by (rule parsed_headers_ok)
  then show "one_value_each (pr_response_headers req)" by (simp add: custom_headers_ok_def)
  have "n = ''content-type''" if "(n, vs) \<in> set (pr_response_headers req)" for n vs
    using ok that unfolding custom_headers_ok_def response_header_forbidden_def by force
  then show "hm_get_all (pr_response_headers req) name = []" if "name \<noteq> ''content-type''"
    using that map_of_SomeD [of "pr_response_headers req" name] unfolding hm_get_all_def by (metis not_None_eq option.case(1))
qed

lemma safe_names_are_plain:
  "name \<in> set SAFE_RESPONSE_HEADERS \<Longrightarrow> map_of (ROUTE_OWNED_HEADERS @ CORS_HEADERS) name = None"
proof -
  have "list_all (\<lambda>n. map_of (ROUTE_OWNED_HEADERS @ CORS_HEADERS) n = None) SAFE_RESPONSE_HEADERS"
    by (simp add: SAFE_RESPONSE_HEADERS_def ROUTE_OWNED_HEADERS_def CORS_HEADERS_def)
  then show "name \<in> set SAFE_RESPONSE_HEADERS \<Longrightarrow> map_of (ROUTE_OWNED_HEADERS @ CORS_HEADERS) name = None"
    unfolding list_all_iff by blast
qed

lemma content_headers_names:
  assumes "content_headers upstream custom rewritten credential_bearing name \<noteq> []"
    and "name \<noteq> ''content-type'' \<Longrightarrow> hm_get_all custom name = []"
  shows "name \<in> set SAFE_RESPONSE_HEADERS"
proof (rule ccontr)
  assume n: "name \<notin> set SAFE_RESPONSE_HEADERS"
  then have "name \<noteq> ''content-type''" "name \<noteq> ''accept-ranges''" "name \<noteq> ''cache-control''"
    by (auto simp: SAFE_RESPONSE_HEADERS_def)
  then show False using assms n unfolding content_headers_def by argo
qed

text \<open>
  Property C9.  Whatever the upstream server and the client send, an answer of the proxy is
  isolated: the four route-owned headers are there once, with the server's own values; a response
  that was rewritten, or that was fetched with credentials, is marked private and not storable;
  apart from the CORS headers only the thirteen listed headers are passed on, unchanged, and the
  client can replace only the content type.  The same holds of every error answer.
\<close>

theorem proxy_responses_are_isolated:
  assumes "parse_proxy_suffix uapi hapi suffix = Inr req"
    and h: "h = rs_headers (build_proxy_response status upstream (pr_response_headers req) body rewritten credential_bearing)"
  shows "(\<forall>(name, value) \<in> set ROUTE_OWNED_HEADERS.
       hm_get_all h name = [value] \<and> hm_get_all (rs_headers (proxy_error_response e)) name = [value]) \<and>
    (rewritten \<or> credential_bearing \<longrightarrow> hm_get_all h ''cache-control'' = [''private, no-store'']) \<and>
    hm_get_all (rs_headers (proxy_error_response e)) ''cache-control'' = [''private, no-store''] \<and>
    (\<forall>name. hm_get_all h name \<noteq> [] \<longrightarrow>
       name \<in> set SAFE_RESPONSE_HEADERS \<union> fst ` set ROUTE_OWNED_HEADERS \<union> fst ` set CORS_HEADERS) \<and>
    (\<not> rewritten \<longrightarrow>
       (\<forall>name \<in> set SAFE_RESPONSE_HEADERS - {''content-type''}.
          name = ''cache-control'' \<and> credential_bearing \<or> hm_get_all h name = hm_get_all upstream name))"
proof -
  note ok = parsed_response_headers(1) [OF assms(1)] and custom = parsed_response_headers(2) [OF assms(1)]
  note all = build_headers [OF ok, of status upstream body rewritten credential_bearing, folded h]
  have owned: "map_of ROUTE_OWNED_HEADERS name = Some v" if "(name, v) \<in> set ROUTE_OWNED_HEADERS" for name v
    using that name_tables_distinct(2) by (simp add: map_of_is_SomeI)
  note plain = safe_names_are_plain
  have safe: "''cache-control'' \<in> set SAFE_RESPONSE_HEADERS" by (simp add: SAFE_RESPONSE_HEADERS_def)
  have nostore: "''cache-control'' \<notin> set REWRITTEN_REMOVED_HEADERS" "map_of ROUTE_OWNED_HEADERS ''cache-control'' = None"
    by (simp_all add: REWRITTEN_REMOVED_HEADERS_def ROUTE_OWNED_HEADERS_def)
  have names: "name \<in> set SAFE_RESPONSE_HEADERS \<union> fst ` set ROUTE_OWNED_HEADERS \<union> fst ` set CORS_HEADERS"
    if "hm_get_all h name \<noteq> []" for name
  proof (cases "map_of (ROUTE_OWNED_HEADERS @ CORS_HEADERS) name")
    case None
    then have "content_headers upstream (pr_response_headers req) rewritten credential_bearing name \<noteq> []"
      using that by (simp only: all option.case simp_thms)
    then show ?thesis using content_headers_names custom by blast
  next
    case (Some v)
    then have "(name, v) \<in> set (ROUTE_OWNED_HEADERS @ CORS_HEADERS)" by (rule map_of_SomeD)
    then show ?thesis by (force simp: image_iff)
  qed
  have kept: "name = ''cache-control'' \<and> credential_bearing \<or> hm_get_all h name = hm_get_all upstream name"
    if "\<not> rewritten" "name \<in> set SAFE_RESPONSE_HEADERS" "name \<noteq> ''content-type''" for name
  proof -
    have "hm_get_all h name = content_headers upstream (pr_response_headers req) False credential_bearing name"
      using that(1) by (simp only: all plain [OF that(2)] option.case simp_thms)
    then show ?thesis using that(2) custom [OF that(3)] unfolding content_headers_def by argo
  qed
  have marked: "hm_get_all h ''cache-control'' = [''private, no-store'']" if "rewritten \<or> credential_bearing"
    unfolding all plain [OF safe] option.case content_headers_def using that nostore(1) by simp
  have marked_error: "hm_get_all (rs_headers (proxy_error_response e)) ''cache-control'' = [''private, no-store'']"
    unfolding error_headers nostore(2) by simp
  have owned_headers: "hm_get_all h name = [v] \<and> hm_get_all (rs_headers (proxy_error_response e)) name = [v]"
    if "(name, v) \<in> set ROUTE_OWNED_HEADERS" for name v
    unfolding all error_headers using owned [OF that] by (simp only: map_of_append map_add_def option.case simp_thms)
  show ?thesis using names kept marked marked_error owned_headers by fast
qed

section \<open>A concrete interface\<close>

text \<open>
  URLs that are their own text \<open>scheme://host/path?query#fragment\<close>, and header constructors that
  keep printable bytes: an instance of the interfaces to evaluate the definitions on.
\<close>

definition after_scheme :: "string \<Rightarrow> string" where
  "after_scheme u = (case split_once ''://'' u of Some (_, r) \<Rightarrow> r | None \<Rightarrow> [])"

definition text_scheme :: "string \<Rightarrow> string" where
  "text_scheme u = (case split_once ''://'' u of Some (s, _) \<Rightarrow> s | None \<Rightarrow> [])"

definition text_host :: "string \<Rightarrow> string" where
  "text_host u = takeWhile (\<lambda>c. c \<notin> set ''/?#'') (after_scheme u)"

definition text_from_path :: "string \<Rightarrow> string" where
  "text_from_path u = dropWhile (\<lambda>c. c \<notin> set ''/?#'') (after_scheme u)"

definition text_origin :: "string \<Rightarrow> string" where
  "text_origin u = text_scheme u @ ''://'' @ text_host u"

definition text_path_query :: "string \<Rightarrow> string" where
  "text_path_query u = takeWhile (\<lambda>c. c \<noteq> CHR ''#'') (text_from_path u)"

definition text_url_api :: "string proxy_url_api" where
  "text_url_api = \<lparr>url_scheme = text_scheme, url_host = (\<lambda>u. Some (HostDomain (text_host u))),
     url_port_or_known_default = (\<lambda>u. Some 443), url_without_fragment = takeWhile (\<lambda>c. c \<noteq> CHR ''#''),
     pu_parse = (\<lambda>s. if text_scheme s = [] then None else Some s), pu_as_str = id,
     pu_from_path = text_from_path, pu_path_query = text_path_query,
     pu_path = (\<lambda>u. takeWhile (\<lambda>c. c \<noteq> CHR ''?'') (text_path_query u)),
     pu_query = (\<lambda>u. case dropWhile (\<lambda>c. c \<noteq> CHR ''?'') (text_path_query u) of [] \<Rightarrow> None | _ # q \<Rightarrow> Some q),
     pu_username = (\<lambda>u. []), pu_password = (\<lambda>u. None),
     pu_set_path = (\<lambda>p u. text_origin u @ (if starts_with ''/'' p then p else CHR ''/'' # p)),
     pu_set_query = (\<lambda>q u. takeWhile (\<lambda>c. c \<noteq> CHR ''?'') u @ (case q of None \<Rightarrow> [] | Some q \<Rightarrow> CHR ''?'' # q)),
     pu_set_username = (\<lambda>n u. u), pu_set_password = (\<lambda>p u. u),
     pu_join = (\<lambda>base r. if text_scheme r \<noteq> [] then Some r else Some (text_origin base @ ''/'' @ r))\<rparr>"

definition text_header_api :: header_api where
  "text_header_api = \<lparr>header_name_from_bytes = (\<lambda>n. Some (to_ascii_lowercase n)),
     header_value_from_str = (\<lambda>v. if list_all (\<lambda>b. is_quoted_header_byte b) v then Some v else None)\<rparr>"

lemma sample_proxy_parse:
  "parse_proxy_suffix text_url_api text_header_api ''/?d=http://a/b%23c&h=X-Key:%20v'' =
     Inr \<lparr>pr_target = ''http://a/b'', pr_request_headers = [(''x-key'', [''v''])], pr_response_headers = []\<rparr>"
proof -
  have chars: "char_of (120 :: nat) = CHR ''x''" "char_of (107 :: nat) = CHR ''k''"
    "char_of (32 :: nat) = CHR '' ''" "char_of (35 :: nat) = CHR ''#''"
    by code_simp+
  have utf8: "from_utf8_ok ''d''" "from_utf8_ok ''h''" "from_utf8_ok ''http://a/b#c''" "from_utf8_ok ''X-Key: v''"
    by (simp_all add: from_utf8_ok_def)
  have header: "parse_custom_header text_header_api ''X-Key: v'' = Inr (''x-key'', ''v'')"
    by (simp add: parse_custom_header_def starts_with_def trim_ascii_ows_eq trim_http_ows_eq is_ows_def
        is_ascii_alphanumeric_def checked_add_u64_def MAX_HEADER_PAIR_def text_header_api_def to_lowercase_def
        to_lower_char_def is_quoted_header_byte_def chars)
  have forbidden: "\<not> request_header_forbidden ''x-key''"
    by (simp add: request_header_forbidden_def FORBIDDEN_REQUEST_HEADERS_def starts_with_def PROXY_HOP_HEADER_NAME_def)
  have options: "parse_options text_header_api [''d=http://a/b%23c'', ''h=X-Key:%20v''] parse_start =
      Inr \<lparr>ps_target = Some ''http://a/b#c'', ps_request_headers = [(''x-key'', [''v''])], ps_response_headers = [],
        ps_option_count = 1, ps_raw_canonical_path = False\<rparr>"
    using utf8 header forbidden
    by (simp add: parse_option_def starts_with_def strict_percent_decode_def parse_start_def parse_header_option_def
        checked_add_u64_def MAX_CUSTOM_OPTIONS_def MAX_HEADER_PAIR_def hm_insert_def chars)
  have target: "validate_proxy_target text_url_api ''http://a/b#c'' = Inr ''http://a/b''"
    by (simp add: validate_proxy_target_def text_url_api_def text_scheme_def starts_with_def MAX_TARGET_URL_def)
  show ?thesis
    using options target
    by (simp add: parse_proxy_suffix_def suffix_parts_def strip_prefix_def starts_with_def MAX_PROXY_INPUT_def
        apply_path_tail_def text_url_api_def text_scheme_def)
qed

theorem proxy_responses_are_isolated_witness:
  "hm_get_all (rs_headers (build_proxy_response 200 [(''cache-control'', [''public''])] [] () False True))
     ''cache-control'' = [''private, no-store'']"
  using proxy_responses_are_isolated [OF sample_proxy_parse refl, of 200 "[(''cache-control'', [''public''])]" "()" False True]
  by simp

end
