(* ===== verification/Playlist.thy ===== *)
theory Playlist
  imports ProxyRequest "HOL-Library.Char_ord" "HOL-Library.List_Lexorder"
begin

text \<open>
  Rewriting HLS playlists so that every reference goes through the proxy again
  (\<open>server/src/routes/proxy.rs\<close>): the line and attribute scanner, the resolution of references with
  HLS variables, and the links that are emitted.

  A text is a list of bytes and a growing output is passed along; a \<open>String\<close> is represented by its
  contents, since \<open>reserve_bounded\<close> keeps the capacity within the limit and an allocation that fails
  is the error \<open>PeUpstream\<close>, which is not modelled.  Cancellation is polled before every line and
  every reference: \<open>cancelled n\<close> is what the poll reads when \<open>n\<close> bytes of output are written.

  Shown here: an emitted link, given back to the proxy, is parsed to the target and the options it
  was made from; the output never exceeds its limit; and the rewriter changes nothing but the
  references.
\<close>

section \<open>Bounded output\<close>

definition MAX_PLAYLIST_INPUT :: nat where "MAX_PLAYLIST_INPUT = 8 * 1024 * 1024"
definition MAX_PLAYLIST_OUTPUT :: nat where "MAX_PLAYLIST_OUTPUT = 16 * 1024 * 1024"

definition reserve_bounded :: "string \<Rightarrow> nat \<Rightarrow> nat \<Rightarrow> (proxy_error, unit) result" where
  "reserve_bounded out additional maximum =
     rbind (ok_or PeUpstream (checked_add_u64 (length out) additional)) (\<lambda>next_length.
       if next_length > maximum then Inl PeUpstream else Inr ())"

definition push_playlist :: "string \<Rightarrow> string \<Rightarrow> (proxy_error, string) result" where
  "push_playlist out value =
     rbind (reserve_bounded out (length value) MAX_PLAYLIST_OUTPUT) (\<lambda>_. Inr (out @ value))"

definition reserve_playlist :: "string \<Rightarrow> nat \<Rightarrow> (proxy_error, unit) result" where
  "reserve_playlist out additional = reserve_bounded out additional MAX_PLAYLIST_OUTPUT"

definition push_target :: "string \<Rightarrow> string \<Rightarrow> (proxy_error, string) result" where
  "push_target out value =
     rbind (reserve_bounded out (length value) MAX_TARGET_URL) (\<lambda>_. Inr (out @ value))"

section \<open>Emitting a link\<close>

definition percent_encoding_safe :: "char \<Rightarrow> bool" where
  "percent_encoding_safe b \<longleftrightarrow> is_ascii_alphanumeric b \<or> b \<in> {CHR ''-'', CHR ''.'', CHR ''_'', CHR ''~''}"

definition upper_hex :: "nat \<Rightarrow> char" where
  "upper_hex n = ''0123456789ABCDEF'' ! n"

definition percent_encode :: "string \<Rightarrow> string" where
  "percent_encode value =
     concat (map (\<lambda>b. if percent_encoding_safe b then [b]
                      else [CHR ''%'', upper_hex (of_char b div 16), upper_hex (of_char b mod 16)]) value)"

fun percent_encoded_length :: "nat \<Rightarrow> string \<Rightarrow> (proxy_error, nat) result" where
  "percent_encoded_length len [] = Inr len"
| "percent_encoded_length len (b # value) =
     rbind (ok_or PeUpstream (checked_add_u64 len (if percent_encoding_safe b then 1 else 3))) (\<lambda>len.
       percent_encoded_length len value)"

record hls_variable_path =
  vp_base_target :: string
  vp_path :: string
  vp_query :: "string option"

record resolved_hls_reference =
  rf_target :: string
  rf_same_origin :: bool
  rf_variable_path :: "hls_variable_path option"

definition checked_sum :: "nat list \<Rightarrow> (proxy_error, nat) result" where
  "checked_sum ns = ok_or PeUpstream (foldl (\<lambda>a n. Option.bind a (\<lambda>m. checked_add_u64 m n)) (Some 0) ns)"

text \<open>One header as an option; the two loops add the lengths of the encoded options up.\<close>

definition link_option ::
  "char \<Rightarrow> string \<times> string \<Rightarrow> nat \<Rightarrow> (proxy_error, nat \<times> (char \<times> string \<times> string)) result" where
  "link_option kind nv suffix_length =
     (let (name, value) = nv
      in if \<not> from_utf8_ok value then Inl PeUpstream
         else rbind (checked_sum [length name, length value, 1]) (\<lambda>pair_length.
           if pair_length > MAX_HEADER_PAIR then Inl PeUpstream
           else rbind (percent_encoded_length 0 name) (\<lambda>name_length.
             rbind (percent_encoded_length 0 value) (\<lambda>value_length.
               rbind (checked_sum [suffix_length, 3, name_length, 3, value_length]) (\<lambda>suffix_length.
                 Inr (suffix_length, (kind, name, value)))))))"

fun link_options ::
  "char \<Rightarrow> (string \<Rightarrow> bool) \<Rightarrow> (string \<times> string) list \<Rightarrow> nat \<Rightarrow> (char \<times> string \<times> string) list \<Rightarrow>
   (proxy_error, nat \<times> (char \<times> string \<times> string) list) result" where
  "link_options kind forbidden [] suffix_length options = Inr (suffix_length, options)"
| "link_options kind forbidden ((name, value) # headers) suffix_length options =
     (if forbidden name then link_options kind forbidden headers suffix_length options
      else rbind (link_option kind (name, value) suffix_length) (\<lambda>(suffix_length, option).
        link_options kind forbidden headers suffix_length (options @ [option])))"

definition option_text :: "char \<times> string \<times> string \<Rightarrow> string" where
  "option_text = (\<lambda>(kind, name, value).
     CHR ''&'' # kind # CHR ''='' # percent_encode name @ ''%3A'' @ percent_encode value)"

definition variable_suffix :: "hls_variable_path \<Rightarrow> string" where
  "variable_suffix vp =
     RAW_CANONICAL_PATH_OPTION @ ''/'' @ vp_path vp @ (case vp_query vp of None \<Rightarrow> [] | Some q \<Rightarrow> CHR ''?'' # q)"

definition map_err :: "'e \<Rightarrow> ('f, 'a) result \<Rightarrow> ('e, 'a) result" where
  "map_err e r = (case r of Inl _ \<Rightarrow> Inl e | Inr a \<Rightarrow> Inr a)"

definition link_header_options ::
  "bool \<Rightarrow> header_map \<Rightarrow> header_map \<Rightarrow> nat \<Rightarrow> (proxy_error, nat \<times> (char \<times> string \<times> string) list) result" where
  "link_header_options same_origin request_headers response_headers suffix_length =
     (if \<not> same_origin then Inr (suffix_length, [])
      else
        rbind (link_options CHR ''h'' request_header_forbidden (hm_iter request_headers) suffix_length []) (\<lambda>(n, options).
          rbind (link_options CHR ''r'' response_header_forbidden (hm_iter response_headers) n options) (\<lambda>(n, options).
            if length options > MAX_CUSTOM_OPTIONS then Inl PeUpstream else Inr (n, sort options))))"

definition link_path_length :: "hls_variable_path option \<Rightarrow> nat \<Rightarrow> (proxy_error, nat) result" where
  "link_path_length path suffix_length =
     (case path of
        None \<Rightarrow> Inr suffix_length
      | Some vp \<Rightarrow>
          rbind (map_err PeUpstream (validate_percent_encoding (vp_path vp))) (\<lambda>_.
            rbind (case vp_query vp of
                     None \<Rightarrow> Inr () | Some q \<Rightarrow> map_err PeUpstream (validate_percent_encoding q)) (\<lambda>_.
              checked_sum ([suffix_length, length RAW_CANONICAL_PATH_OPTION, 1, length (vp_path vp)] @
                           (case vp_query vp of None \<Rightarrow> [] | Some q \<Rightarrow> [1, length q])))))"

definition push_proxy_uri ::
  "string \<Rightarrow> resolved_hls_reference \<Rightarrow> header_map \<Rightarrow> header_map \<Rightarrow> (proxy_error, string) result" where
  "push_proxy_uri out resolved request_headers response_headers =
     (let path = rf_variable_path resolved;
          (suffix_prefix, target) = (case path of
              Some vp \<Rightarrow> (''/d='', vp_base_target vp) | None \<Rightarrow> (''/?d='', rf_target resolved))
      in rbind (percent_encoded_length 0 target) (\<lambda>target_length.
         rbind (checked_sum [length suffix_prefix, target_length]) (\<lambda>n.
         rbind (link_header_options (rf_same_origin resolved) request_headers response_headers n) (\<lambda>(n, options).
         rbind (link_path_length path n) (\<lambda>suffix_length.
           if suffix_length > MAX_PROXY_INPUT then Inl PeUpstream
           else
             rbind (checked_sum [length ''/proxy'', suffix_length]) (\<lambda>required.
             rbind (reserve_playlist out required) (\<lambda>_.
               Inr (out @ ''/proxy'' @ suffix_prefix @ percent_encode target @ concat (map option_text options) @
                    (case path of None \<Rightarrow> [] | Some vp \<Rightarrow> variable_suffix vp)))))))))"

section \<open>Variables and their placeholders\<close>

definition byte_range :: "string \<Rightarrow> nat \<Rightarrow> nat \<Rightarrow> string" where
  "byte_range s a b = take (b - a) (drop a s)"

definition position :: "(char \<Rightarrow> bool) \<Rightarrow> string \<Rightarrow> nat option" where
  "position P s = (let n = length (takeWhile (\<lambda>c. \<not> P c) s) in if n < length s then Some n else None)"

definition valid_url_scheme :: "string \<Rightarrow> bool" where
  "valid_url_scheme s \<longleftrightarrow>
     (case s of
        [] \<Rightarrow> False
      | c # cs \<Rightarrow> is_ascii_alphanumeric c \<and> \<not> (48 \<le> (of_char c :: nat) \<and> (of_char c :: nat) \<le> 57) \<and>
                  list_all (\<lambda>c. is_ascii_alphanumeric c \<or> c \<in> {CHR ''+'', CHR ''-'', CHR ''.''}) cs)"

definition authority_range :: "string \<Rightarrow> nat option \<Rightarrow> (nat \<times> nat) option" where
  "authority_range reference scheme_colon =
     (let from_start = (\<lambda>start. (start, case position (\<lambda>b. b \<in> set ''/?#'') (drop start reference) of
                                          None \<Rightarrow> length reference | Some i \<Rightarrow> start + i))
      in if starts_with ''//'' reference then Some (from_start 2)
         else case scheme_colon of
             None \<Rightarrow> None
           | Some colon \<Rightarrow>
               if starts_with ''//'' (drop (colon + 1) reference) then Some (from_start (colon + 3)) else None)"

definition is_variable_byte :: "char \<Rightarrow> bool" where
  "is_variable_byte b \<longleftrightarrow> is_ascii_alphanumeric b \<or> b = CHR ''_'' \<or> b = CHR ''-''"

text \<open>\<open>None\<close> if no variable starts here, otherwise the length of the variable.\<close>

definition variable_length :: "string \<Rightarrow> nat option" where
  "variable_length s =
     (let name = takeWhile is_variable_byte (drop 2 s)
      in if starts_with ''{$'' s \<and> name \<noteq> [] \<and> starts_with ''}'' (drop (2 + length name) s)
         then Some (length name + 3) else None)"

function hls_variable_ranges_from :: "nat \<Rightarrow> string \<Rightarrow> (nat \<times> nat) list" where
  "hls_variable_ranges_from index s =
     (if \<not> 3 < length s then []
      else case variable_length s of
          None \<Rightarrow> hls_variable_ranges_from (index + 1) (drop 1 s)
        | Some n \<Rightarrow> (index, index + n) # hls_variable_ranges_from (index + n) (drop n s))"
  by pat_completeness auto
termination
  by (relation "measure (length \<circ> snd)") (auto simp: variable_length_def Let_def split: if_splits)

declare hls_variable_ranges_from.simps [simp del]

definition hls_variable_ranges :: "string \<Rightarrow> (nat \<times> nat) list" where
  "hls_variable_ranges value = hls_variable_ranges_from 0 value"

record placeholder_generator =
  pg_occupied :: "string set"
  pg_next :: nat

definition occupy :: "string \<Rightarrow> placeholder_generator \<Rightarrow> placeholder_generator" where
  "occupy value g =
     g\<lparr>pg_occupied := pg_occupied g \<union>
        (to_ascii_lowercase ` {w \<in> set (map (\<lambda>i. byte_range value i (i + 4)) [0..<length value - 3]).
                               to_lower_char (hd w) = CHR ''x''})\<rparr>"

definition generator_new :: "string \<Rightarrow> string \<Rightarrow> placeholder_generator" where
  "generator_new reference base = occupy base (occupy reference \<lparr>pg_occupied = {}, pg_next = 0\<rparr>)"

definition placeholder_digit :: "nat \<Rightarrow> char" where
  "placeholder_digit n = ''0123456789abcdefghijklmnopqrstuvwxyz'' ! n"

definition placeholder_text :: "nat \<Rightarrow> string" where
  "placeholder_text n =
     [CHR ''x'', placeholder_digit (n div (36 * 36) mod 36), placeholder_digit (n div 36 mod 36),
      placeholder_digit (n mod 36)]"

function generator_next :: "placeholder_generator \<Rightarrow> (string \<times> placeholder_generator) option" where
  "generator_next g =
     (if pg_next g < 36 ^ 3
      then let candidate = placeholder_text (pg_next g)
           in if candidate \<in> pg_occupied g then generator_next (g\<lparr>pg_next := pg_next g + 1\<rparr>)
              else Some (candidate, g\<lparr>pg_next := pg_next g + 1, pg_occupied := insert candidate (pg_occupied g)\<rparr>)
      else None)"
  by pat_completeness auto
termination
  by (relation "measure (\<lambda>g. 36 ^ 3 - pg_next g)") auto

declare generator_next.simps [simp del]

record hls_variable_replacement =
  hr_token :: string
  hr_placeholder :: string
  hr_removed_with_fragment :: bool

fun substitute_loop ::
  "string \<Rightarrow> nat option \<Rightarrow> (nat \<times> nat) list \<Rightarrow> nat \<Rightarrow> string \<Rightarrow> hls_variable_replacement list \<Rightarrow>
   placeholder_generator \<Rightarrow>
   (proxy_error, string \<times> hls_variable_replacement list \<times> placeholder_generator) result" where
  "substitute_loop reference fragment [] copied substituted replacements g =
     rbind (push_target substituted (drop copied reference)) (\<lambda>substituted. Inr (substituted, replacements, g))"
| "substitute_loop reference fragment ((start, stop) # variables) copied substituted replacements g =
     rbind (push_target substituted (byte_range reference copied start)) (\<lambda>substituted.
       rbind (ok_or PeUpstream (generator_next g)) (\<lambda>(placeholder, g).
         rbind (push_target substituted placeholder) (\<lambda>substituted.
           substitute_loop reference fragment variables stop substituted
             (replacements @ [\<lparr>hr_token = byte_range reference start stop, hr_placeholder = placeholder,
                               hr_removed_with_fragment = is_some_and (\<lambda>f. start > f) fragment\<rparr>]) g)))"

definition substitute_hls_variables ::
  "string \<Rightarrow> (nat \<times> nat) list \<Rightarrow> placeholder_generator \<Rightarrow>
   (proxy_error, string \<times> hls_variable_replacement list \<times> placeholder_generator) result" where
  "substitute_hls_variables reference variables g =
     substitute_loop reference (position (\<lambda>b. b = CHR ''#'') reference) variables 0 [] [] g"

definition window_starts :: "string \<Rightarrow> string \<Rightarrow> nat list" where
  "window_starts placeholder s = filter (\<lambda>i. byte_range s i (i + 4) = placeholder) [0..<length s - 3]"

definition hls_placeholders_are_safe :: "'u proxy_url_api \<Rightarrow> 'u \<Rightarrow> hls_variable_replacement list \<Rightarrow> bool" where
  "hls_placeholders_are_safe uapi canonical replacements \<longleftrightarrow>
     list_all (\<lambda>r. length (hr_placeholder r) = 4) replacements \<and> distinct (map hr_placeholder replacements) \<and>
     (let serialized = pu_as_str uapi canonical;
          path_query_start = length serialized - length (pu_from_path uapi canonical);
          path_query_end = path_query_start + length (pu_path_query uapi canonical)
      in list_all (\<lambda>r.
           let starts = window_starts (hr_placeholder r) serialized;
               in_path_query = filter (\<lambda>i. path_query_start \<le> i \<and> i + 4 \<le> path_query_end) starts
           in if hr_removed_with_fragment r then length starts = 0
              else length starts = 1 \<and> length in_path_query = 1) replacements)"

definition char_len :: "char \<Rightarrow> nat" where
  "char_len c = (let b = (of_char c :: nat) in if b < 128 then 1 else if b < 224 then 2 else if b < 240 then 3 else 4)"

lemma char_len_pos: "0 < char_len c"
  by (simp add: char_len_def Let_def)

function restore_loop :: "(string \<times> string) list \<Rightarrow> string \<Rightarrow> string \<Rightarrow> (proxy_error, string) result" where
  "restore_loop table restored [] = Inr restored"
| "restore_loop table restored (c # s) =
     (case (if 4 \<le> length (c # s) then map_of table (take 4 (c # s)) else None) of
        Some token \<Rightarrow> rbind (push_target restored token) (\<lambda>restored. restore_loop table restored (drop 4 (c # s)))
      | None \<Rightarrow>
          rbind (push_target restored (take (char_len c) (c # s))) (\<lambda>restored.
            restore_loop table restored (drop (char_len c) (c # s))))"
  by pat_completeness auto
termination
  by (relation "measure (\<lambda>(table, restored, s). length s)") (auto simp: char_len_pos)

declare restore_loop.simps(2) [simp del]

definition restore_hls_variables :: "string \<Rightarrow> hls_variable_replacement list \<Rightarrow> (proxy_error, string) result" where
  "restore_hls_variables canonical replacements =
     restore_loop (rev (map (\<lambda>r. (hr_placeholder r, hr_token r)) replacements)) [] canonical"

section \<open>Resolving a reference\<close>

definition same_origin :: "'u proxy_url_api \<Rightarrow> 'u \<Rightarrow> 'u \<Rightarrow> bool" where
  "same_origin uapi left right \<longleftrightarrow>
     url_scheme uapi left = url_scheme uapi right \<and> url_host uapi left = url_host uapi right \<and>
     url_port_or_known_default uapi left = url_port_or_known_default uapi right"

definition resolve_substituted_hls_reference ::
  "'u proxy_url_api \<Rightarrow> 'u \<Rightarrow> string \<Rightarrow> (proxy_error, 'u option) result" where
  "resolve_substituted_hls_reference uapi base_url substituted =
     (case pu_join uapi base_url substituted of
        None \<Rightarrow> Inr None
      | Some absolute \<Rightarrow>
          if url_scheme uapi absolute \<notin> {''http'', ''https''} \<or> url_host uapi absolute = None then Inr None
          else map_err PeUpstream (rbind (validate_proxy_target uapi absolute) (\<lambda>u. Inr (Some u))))"

text \<open>The end of \<open>resolve_hls_reference\<close>: from the canonical URL to the result.\<close>

definition resolved_reference ::
  "'u proxy_url_api \<Rightarrow> 'u \<Rightarrow> 'u \<Rightarrow> hls_variable_replacement list \<Rightarrow>
   (proxy_error, resolved_hls_reference option) result" where
  "resolved_reference uapi base_url absolute replacements =
     rbind (restore_hls_variables (pu_as_str uapi absolute) replacements) (\<lambda>target.
       if \<not> list_ex (\<lambda>r. \<not> hr_removed_with_fragment r) replacements
       then Inr (Some \<lparr>rf_target = target, rf_same_origin = same_origin uapi base_url absolute, rf_variable_path = None\<rparr>)
       else
         rbind (restore_hls_variables (pu_path uapi absolute) replacements) (\<lambda>path.
         rbind (case pu_query uapi absolute of
                  None \<Rightarrow> Inr None
                | Some query \<Rightarrow> rbind (restore_hls_variables query replacements) (\<lambda>q. Inr (Some q))) (\<lambda>query.
           if \<not> percent_encoding_ok path \<or> is_some_and (\<lambda>q. \<not> percent_encoding_ok q) query then Inr None
           else
             Inr (Some \<lparr>rf_target = target, rf_same_origin = same_origin uapi base_url absolute,
               rf_variable_path = Some
                 \<lparr>vp_base_target = pu_as_str uapi (pu_set_query uapi None (pu_set_path uapi ''/'' absolute)),
                  vp_path = path, vp_query = query\<rparr>\<rparr>))))"

text \<open>Substituting, resolving and checking the placeholders, with one retry.\<close>

definition resolve_with_placeholders ::
  "'u proxy_url_api \<Rightarrow> string \<Rightarrow> 'u \<Rightarrow> (nat \<times> nat) list \<Rightarrow>
   (proxy_error, ('u \<times> hls_variable_replacement list) option) result" where
  "resolve_with_placeholders uapi reference base_url variables =
     rbind (substitute_hls_variables reference variables (generator_new reference (pu_as_str uapi base_url)))
       (\<lambda>(substituted, replacements, g).
     rbind (resolve_substituted_hls_reference uapi base_url substituted) (\<lambda>absolute.
       case absolute of
         None \<Rightarrow> Inr None
       | Some absolute \<Rightarrow>
           if hls_placeholders_are_safe uapi absolute replacements then Inr (Some (absolute, replacements))
           else
             rbind (substitute_hls_variables reference variables (occupy (pu_as_str uapi absolute) g))
               (\<lambda>(retry, retry_replacements, g).
             rbind (resolve_substituted_hls_reference uapi base_url retry) (\<lambda>retry_absolute.
               case retry_absolute of
                 None \<Rightarrow> Inr None
               | Some retry_absolute \<Rightarrow>
                   if hls_placeholders_are_safe uapi retry_absolute retry_replacements
                   then Inr (Some (retry_absolute, retry_replacements)) else Inr None))))"

definition scheme_colon_of :: "string \<Rightarrow> nat option" where
  "scheme_colon_of reference =
     option_filter (\<lambda>i. reference ! i = CHR '':'')
       (position (\<lambda>b. b \<in> set '':/?#'') (take (MAX_TARGET_URL + 1) reference))"

definition resolve_hls_reference ::
  "'u proxy_url_api \<Rightarrow> string \<Rightarrow> 'u \<Rightarrow> (proxy_error, resolved_hls_reference option) result" where
  "resolve_hls_reference uapi reference base_url =
     (let scheme_colon = scheme_colon_of reference
      in if is_some_and (\<lambda>colon.
              let scheme = take colon reference
              in valid_url_scheme scheme \<and> to_ascii_lowercase scheme \<notin> {''http'', ''https''}) scheme_colon
         then Inr None
         else if length reference > MAX_TARGET_URL then Inl PeUpstream
         else
           let variables = hls_variable_ranges reference
           in if is_some_and (\<lambda>colon. list_ex (\<lambda>(start, _). start < colon) variables) scheme_colon then Inr None
              else if is_some_and (\<lambda>(authority_start, authority_end).
                        list_ex (\<lambda>(start, stop). start < authority_end \<and> stop > authority_start) variables)
                     (authority_range reference scheme_colon)
              then Inr None
              else rbind (resolve_with_placeholders uapi reference base_url variables) (\<lambda>found.
                     case found of
                       None \<Rightarrow> Inr None
                     | Some (absolute, replacements) \<Rightarrow> resolved_reference uapi base_url absolute replacements))"

section \<open>The rewriter\<close>

definition check_cancellation :: "(nat \<Rightarrow> bool) \<Rightarrow> string \<Rightarrow> (proxy_error, unit) result" where
  "check_cancellation cancelled out = (if cancelled (length out) then Inl PeCancelled else Inr ())"

record 'u rewrite_context =
  rw_base_url :: 'u
  rw_request_headers :: header_map
  rw_response_headers :: header_map
  rw_cancelled :: "nat \<Rightarrow> bool"

definition rewrite_playlist_reference ::
  "'u proxy_url_api \<Rightarrow> 'u rewrite_context \<Rightarrow> string \<Rightarrow> string \<Rightarrow> (proxy_error, string) result" where
  "rewrite_playlist_reference uapi cx reference out =
     rbind (check_cancellation (rw_cancelled cx) out) (\<lambda>_.
       rbind (resolve_hls_reference uapi reference (rw_base_url cx)) (\<lambda>resolved.
         case resolved of
           None \<Rightarrow> push_playlist out reference
         | Some r \<Rightarrow> push_proxy_uri out r (rw_request_headers cx) (rw_response_headers cx)))"

text \<open>The offset of the first comma outside quotes.\<close>

fun scan_attribute :: "bool \<Rightarrow> nat \<Rightarrow> string \<Rightarrow> nat option" where
  "scan_attribute quoted offset [] = None"
| "scan_attribute quoted offset (b # s) =
     (if b = CHR 0x22 then scan_attribute (\<not> quoted) (offset + 1) s
      else if b = CHR '','' \<and> \<not> quoted then Some offset
      else scan_attribute quoted (offset + 1) s)"

definition URI_ATTRIBUTE :: string where
  "URI_ATTRIBUTE = ''URI='' @ [CHR 0x22]"

text \<open>
  One attribute of a tag: where the search for its end starts, what is copied and written by then;
  \<open>None\<close> if its quote is not closed.
\<close>

definition tag_attribute ::
  "'u proxy_url_api \<Rightarrow> 'u rewrite_context \<Rightarrow> string \<Rightarrow> nat \<Rightarrow> nat \<Rightarrow> string \<Rightarrow>
   (proxy_error, (nat \<times> nat \<times> string) option) result" where
  "tag_attribute uapi cx line attribute_start copied out =
     (let key_start = attribute_start + length (takeWhile is_ows (drop attribute_start line));
          value_start = key_start + 5
      in if starts_with URI_ATTRIBUTE (drop key_start line)
         then (case position (\<lambda>b. b = CHR 0x22) (drop value_start line) of
                 None \<Rightarrow> Inr None
               | Some n \<Rightarrow>
                   rbind (push_playlist out (byte_range line copied value_start)) (\<lambda>out.
                     rbind (rewrite_playlist_reference uapi cx (byte_range line value_start (value_start + n)) out) (\<lambda>out.
                       Inr (Some (value_start + n + 1, value_start + n, out)))))
         else Inr (Some (attribute_start, copied, out)))"

lemma tag_attribute_advances:
  "tag_attribute uapi cx line a copied out = Inr (Some (scan, copied', out')) \<Longrightarrow> a \<le> scan"
  by (auto simp: tag_attribute_def Let_def rbind_Inr_iff split: if_splits option.splits)

function tag_loop ::
  "'u proxy_url_api \<Rightarrow> 'u rewrite_context \<Rightarrow> string \<Rightarrow> nat \<Rightarrow> nat \<Rightarrow> string \<Rightarrow> (proxy_error, string) result" where
  "tag_loop uapi cx line attribute_start copied out =
     (if attribute_start < length line
      then (case tag_attribute uapi cx line attribute_start copied out of
              Inl e \<Rightarrow> Inl e
            | Inr None \<Rightarrow> push_playlist out (drop copied line)
            | Inr (Some (scan_start, copied, out)) \<Rightarrow>
                (case scan_attribute False 0 (drop scan_start line) of
                   None \<Rightarrow> push_playlist out (drop copied line)
                 | Some offset \<Rightarrow> tag_loop uapi cx line (scan_start + offset + 1) copied out))
      else push_playlist out (drop copied line))"
  by pat_completeness auto
termination
  by (relation "measure (\<lambda>(uapi, cx, line, attribute_start, copied, out). length line - attribute_start)")
    (auto dest!: tag_attribute_advances)

declare tag_loop.simps [simp del]

definition rewrite_playlist_tag ::
  "'u proxy_url_api \<Rightarrow> 'u rewrite_context \<Rightarrow> string \<Rightarrow> string \<Rightarrow> (proxy_error, string) result" where
  "rewrite_playlist_tag uapi cx line out =
     (case position (\<lambda>b. b = CHR '':'') line of
        None \<Rightarrow> push_playlist out line
      | Some colon \<Rightarrow> tag_loop uapi cx line (colon + 1) 0 out)"

definition is_line_break :: "char \<Rightarrow> bool" where
  "is_line_break b \<longleftrightarrow> b = CHR 0x0D \<or> b = CHR 0x0A"

text \<open>The next line, its ending (one break, or two different ones) and what follows.\<close>

definition next_line :: "string \<Rightarrow> string \<times> string \<times> string" where
  "next_line body =
     (let line = takeWhile (\<lambda>b. \<not> is_line_break b) body; rest = drop (length line) body
      in case rest of
           [] \<Rightarrow> (line, [], [])
         | b # rest' \<Rightarrow>
             (case rest' of
                [] \<Rightarrow> (line, [b], [])
              | c # rest'' \<Rightarrow> if c \<noteq> b \<and> is_line_break c then (line, [b, c], rest'') else (line, [b], rest')))"

definition rewrite_line ::
  "'u proxy_url_api \<Rightarrow> 'u rewrite_context \<Rightarrow> string \<Rightarrow> string \<Rightarrow> (proxy_error, string) result" where
  "rewrite_line uapi cx line out =
     (if starts_with ''#EXT'' line then rewrite_playlist_tag uapi cx line out
      else if starts_with ''#'' line \<or> list_all is_ows line then push_playlist out line
      else rewrite_playlist_reference uapi cx line out)"

lemma next_line_shrinks: "body \<noteq> [] \<Longrightarrow> length (snd (snd (next_line body))) < length body"
proof -
  assume "body \<noteq> []"
  then show ?thesis
    using length_takeWhile_le [of "\<lambda>b. \<not> is_line_break b" body]
    by (cases "takeWhile (\<lambda>b. \<not> is_line_break b) body")
      (auto simp: next_line_def Let_def split: list.splits dest!: arg_cong [where f = length])
qed

function rewrite_loop ::
  "'u proxy_url_api \<Rightarrow> 'u rewrite_context \<Rightarrow> string \<Rightarrow> string \<Rightarrow> (proxy_error, string) result" where
  "rewrite_loop uapi cx body out =
     (if body = [] then Inr out
      else case next_line body of
        (line, ending, rest) \<Rightarrow>
          (case check_cancellation (rw_cancelled cx) out of
             Inl e \<Rightarrow> Inl e
           | Inr _ \<Rightarrow>
               (case rbind (rewrite_line uapi cx line out) (\<lambda>out. push_playlist out ending) of
                  Inl e \<Rightarrow> Inl e
                | Inr out \<Rightarrow> rewrite_loop uapi cx rest out)))"
  by pat_completeness auto
termination
  by (relation "measure (\<lambda>(uapi, cx, body, out). length body)") (auto, metis next_line_shrinks snd_conv)

declare rewrite_loop.simps [simp del]

definition rewrite_playlist_with_options_cancellable ::
  "'u proxy_url_api \<Rightarrow> 'u rewrite_context \<Rightarrow> string \<Rightarrow> (proxy_error, string) result" where
  "rewrite_playlist_with_options_cancellable uapi cx body = rewrite_loop uapi cx body []"

definition run_playlist_rewrite_job ::
  "'u proxy_url_api \<Rightarrow> 'u rewrite_context \<Rightarrow> string \<Rightarrow> (proxy_error, string) result" where
  "run_playlist_rewrite_job uapi cx input =
     rbind (check_cancellation (rw_cancelled cx) []) (\<lambda>_.
       if \<not> from_utf8_ok input then Inl PeUpstream
       else rbind (rewrite_playlist_with_options_cancellable uapi cx input) (\<lambda>body.
         rbind (check_cancellation (rw_cancelled cx) body) (\<lambda>_. Inr body)))"

section \<open>Encoding and decoding\<close>

lemma upper_hex_value: "n < 16 \<Longrightarrow> percent_hex_value (upper_hex n) = Some n"
proof -
  have "list_all (\<lambda>n. percent_hex_value (upper_hex n) = Some n) [0..<16]"
    by (simp add: upper_hex_def upt_conv_Cons)
  then show "n < 16 \<Longrightarrow> percent_hex_value (upper_hex n) = Some n" by (simp add: list_all_iff)
qed

lemma upper_hex_alphanumeric: "n < 16 \<Longrightarrow> is_ascii_alphanumeric (upper_hex n)"
proof -
  have "list_all (\<lambda>n. is_ascii_alphanumeric (upper_hex n)) [0..<16]"
    by (simp add: upper_hex_def upt_conv_Cons is_ascii_alphanumeric_def)
  then show "n < 16 \<Longrightarrow> is_ascii_alphanumeric (upper_hex n)" by (simp add: list_all_iff)
qed

definition link_byte :: "char \<Rightarrow> bool" where
  "link_byte b \<longleftrightarrow> percent_encoding_safe b \<or> b = CHR ''%''"

lemma link_byte_excludes:
  "\<not> link_byte CHR ''&''" "\<not> link_byte CHR ''=''" "\<not> link_byte CHR ''/''" "\<not> link_byte CHR ''?''"
  by (simp_all add: link_byte_def percent_encoding_safe_def is_ascii_alphanumeric_def)

lemma char_nibbles: "of_char c div 16 < (16 :: nat)" "of_char c mod 16 < (16 :: nat)"
proof -
  have "(of_char c :: nat) < 256" by (rule nat_of_char_less_256)
  then show "of_char c div 16 < (16 :: nat)" by linarith
qed simp

lemma percent_encode_bytes: "b \<in> set (percent_encode s) \<Longrightarrow> link_byte b"
  using upper_hex_alphanumeric [OF char_nibbles(1)] upper_hex_alphanumeric [OF char_nibbles(2)]
  by (auto simp: percent_encode_def link_byte_def percent_encoding_safe_def split: if_splits)

lemma safe_not_special: "percent_encoding_safe b \<Longrightarrow> b \<noteq> CHR ''%'' \<and> b \<noteq> CHR ''+''"
  by (auto simp: percent_encoding_safe_def is_ascii_alphanumeric_def)

lemma percent_decode_encode:
  "percent_decode sp (percent_encode s @ t) = map_option ((@) s) (percent_decode sp t)"
proof (induction s)
  case Nil
  then show ?case by (simp add: percent_encode_def option.map_ident_strong)
next
  case (Cons b s)
  have byte: "char_of ((of_char b div 16) * 16 + of_char b mod 16 :: nat) = b"
    by (simp add: div_mult_mod_eq)
  note small = char_nibbles [of b]
  show ?case
    using Cons upper_hex_value [OF small(1)] upper_hex_value [OF small(2)] byte safe_not_special [of b]
    by (cases "percent_encoding_safe b")
      (simp_all add: percent_encode_def option.map_comp comp_def del: percent_hex_value.simps)
qed

lemma percent_encoded_length_ok:
  assumes "percent_encoded_length n s = Inr m"
  shows "m = n + length (percent_encode s)"
  using assms
proof (induction s arbitrary: n)
  case (Cons b s)
  then have "percent_encoded_length (n + (if percent_encoding_safe b then 1 else 3)) s = Inr m"
    by (auto simp: rbind_Inr_iff checked_add_u64_def ok_or_def split: if_splits)
  from Cons.IH [OF this] show ?case by (simp add: percent_encode_def)
qed (simp add: percent_encode_def)

lemma checked_sum_ok:
  assumes "checked_sum ns = Inr m"
  shows "m = sum_list ns"
proof -
  have "foldl (\<lambda>a n. Option.bind a (\<lambda>m. checked_add_u64 m n)) None ns = None" for ns
    by (induction ns) auto
  then have "foldl (\<lambda>a n. Option.bind a (\<lambda>m. checked_add_u64 m n)) (Some k) ns = Some m \<Longrightarrow> m = k + sum_list ns" for k
    by (induction ns arbitrary: k) (fastforce simp: checked_add_u64_def split: if_splits)+
  from this [of 0] show ?thesis using assms by (auto simp: checked_sum_def ok_or_def split: option.splits)
qed

lemma utf8_ok_ascii_append: "\<forall>b \<in> set a. b < 128 \<Longrightarrow> utf8_ok (a @ s) = utf8_ok s"
  by (induction a) auto

lemma from_utf8_ascii_append:
  "\<forall>c \<in> set a. (of_char c :: nat) < 128 \<Longrightarrow> from_utf8_ok (a @ s) = from_utf8_ok s"
  unfolding from_utf8_ok_def map_append by (rule utf8_ok_ascii_append) simp

section \<open>The options of a link\<close>

definition option_ok :: "char \<times> string \<times> string \<Rightarrow> bool" where
  "option_ok = (\<lambda>(kind, name, value). from_utf8_ok value \<and> length name + length value + 1 \<le> MAX_HEADER_PAIR)"

lemma link_options_ok:
  assumes "link_options kind forbidden headers n acc = Inr (m, options)"
  shows "options = acc @ map (Pair kind) (filter (\<lambda>(name, _). \<not> forbidden name) headers) \<and>
    m = n + length (concat (map option_text (map (Pair kind) (filter (\<lambda>(name, _). \<not> forbidden name) headers)))) \<and>
    list_all option_ok (map (Pair kind) (filter (\<lambda>(name, _). \<not> forbidden name) headers))"
  using assms
proof (induction headers arbitrary: n acc)
  case (Cons h headers)
  obtain name v where h: "h = (name, v)" by fastforce
  show ?case
  proof (cases "forbidden name")
    case True
    then show ?thesis using Cons h by simp
  next
    case False
    obtain k where step: "link_option kind (name, v) n = Inr (k, (kind, name, v))"
      "link_options kind forbidden headers k (acc @ [(kind, name, v)]) = Inr (m, options)"
      using Cons.prems False by (auto simp: h rbind_Inr_iff link_option_def split: if_splits)
    have "k = n + length (option_text (kind, name, v)) \<and> option_ok (kind, name, v)"
      using step(1)
      by (auto simp: link_option_def option_ok_def option_text_def rbind_Inr_iff split: if_splits
          dest!: checked_sum_ok percent_encoded_length_ok)
    then show ?thesis using Cons.IH [OF step(2)] False by (simp add: h)
  qed
qed simp

text \<open>
  What the links rely on: a header name is stored in lower case and is accepted again as it is
  stored, a header value is stored unchanged; a URL is read back from its text, which is UTF-8, and
  dropping a fragment changes neither scheme nor host nor port nor user information.
\<close>

definition header_contract :: "header_api \<Rightarrow> bool" where
  "header_contract hapi \<longleftrightarrow>
     (\<forall>n m. header_name_from_bytes hapi n = Some m \<longrightarrow>
        m = to_ascii_lowercase n \<and> header_name_from_bytes hapi m = Some m) \<and>
     (\<forall>v w. header_value_from_str hapi v = Some w \<longrightarrow> w = v)"

definition url_contract :: "'u proxy_url_api \<Rightarrow> bool" where
  "url_contract uapi \<longleftrightarrow>
     (\<forall>u. from_utf8_ok (pu_as_str uapi u) \<and> pu_parse uapi (pu_as_str uapi u) = Some u) \<and>
     (\<forall>u. url_without_fragment uapi (url_without_fragment uapi u) = url_without_fragment uapi u \<and>
        url_scheme uapi (url_without_fragment uapi u) = url_scheme uapi u \<and>
        url_host uapi (url_without_fragment uapi u) = url_host uapi u \<and>
        url_port_or_known_default uapi (url_without_fragment uapi u) = url_port_or_known_default uapi u \<and>
        pu_username uapi (url_without_fragment uapi u) = pu_username uapi u \<and>
        pu_password uapi (url_without_fragment uapi u) = pu_password uapi u)"

lemma split_once_char: "c \<notin> set a \<Longrightarrow> split_once [c] (a @ c # b) = Some (a, b)"
  by (induction a) (auto simp: starts_with_def)

definition name_byte :: "char \<Rightarrow> bool" where
  "name_byte b \<longleftrightarrow> is_ascii_alphanumeric b \<or> b = CHR ''-''"

lemma name_byte_facts:
  assumes "name_byte b"
  shows "(of_char b :: nat) < 128" "b \<noteq> CHR '':''" "\<not> is_ows b" "name_byte (to_lower_char b)"
proof -
  have r: "48 \<le> n \<and> n \<le> 57 \<or> 65 \<le> n \<and> n \<le> 90 \<or> 97 \<le> n \<and> n \<le> 122 \<or> n = 45" if "n = (of_char b :: nat)" for n
    using assms that by (auto simp: name_byte_def is_ascii_alphanumeric_def Let_def)
  from r [OF refl] show "(of_char b :: nat) < 128" by linarith
  show "b \<noteq> CHR '':''" "\<not> is_ows b" using r by (auto simp: is_ows_def)
  show "name_byte (to_lower_char b)"
    using r [OF refl] assms by (auto simp: to_lower_char_def Let_def name_byte_def is_ascii_alphanumeric_def)
qed

lemma trim_no_ows: "\<not> is_ows (hd s) \<Longrightarrow> \<not> is_ows (last s) \<Longrightarrow> trim_ascii_ows s = s"
proof (cases s rule: rev_cases)
  case (snoc ys y)
  assume "\<not> is_ows (hd s)" "\<not> is_ows (last s)"
  moreover from this(1) have "dropWhile is_ows s = s" by (cases s) auto
  ultimately show "trim_ascii_ows s = s" using snoc by (simp add: trim_ascii_ows_eq trim_http_ows_eq)
qed (simp add: trim_ascii_ows_eq trim_http_ows_eq)

lemma trim_ascii_ows_ends:
  assumes "trim_ascii_ows s \<noteq> []"
  shows "\<not> is_ows (hd (trim_ascii_ows s))" "\<not> is_ows (last (trim_ascii_ows s))"
proof -
  let ?d = "dropWhile is_ows s" and ?t = "rev (dropWhile is_ows (rev (dropWhile is_ows s)))"
  have ne: "?t \<noteq> []" using assms by (simp add: trim_ascii_ows_eq trim_http_ows_eq)
  obtain r where r: "?d = ?t @ r"
    by (metis rev_append rev_rev_ident takeWhile_dropWhile_id)
  have "?d \<noteq> []" using ne r by (metis append_is_Nil_conv)
  then have "\<not> is_ows (hd ?d)" by (rule hd_dropWhile)
  moreover have "hd ?d = hd ?t" using ne r by (metis hd_append2)
  moreover have "\<not> is_ows (last ?t)" using ne by (simp add: last_rev hd_dropWhile)
  ultimately show "\<not> is_ows (hd (trim_ascii_ows s))" "\<not> is_ows (last (trim_ascii_ows s))"
    by (simp_all add: trim_ascii_ows_eq trim_http_ows_eq)
qed

lemma trim_ascii_ows_idem: "trim_ascii_ows (trim_ascii_ows s) = trim_ascii_ows s"
proof (cases "trim_ascii_ows s = []")
  case True
  then show ?thesis unfolding True by (simp add: trim_ascii_ows_eq trim_http_ows_eq)
next
  case False
  then show ?thesis using trim_ascii_ows_ends trim_no_ows by blast
qed

definition header_pair_ok :: "header_api \<Rightarrow> string \<times> string \<Rightarrow> bool" where
  "header_pair_ok hapi = (\<lambda>(name, v).
     list_all name_byte name \<and> parse_custom_header hapi (name @ CHR '':'' # v) = Inr (name, v))"

lemma parse_custom_header_again:
  assumes c: "header_contract hapi" and p: "parse_custom_header hapi opt = Inr (n, v)"
  shows "header_pair_ok hapi (n, v)"
proof -
  obtain name0 v0 where s: "split_once '':'' opt = Some (name0, v0)"
    and name: "trim_ascii_ows name0 \<noteq> []" "list_all name_byte (trim_ascii_ows name0)"
    and len: "\<not> pred_option (\<lambda>n. n > MAX_HEADER_PAIR)
       (Option.bind (checked_add_u64 (length (trim_ascii_ows name0)) (length (trim_ascii_ows v0))) (\<lambda>n. checked_add_u64 n 1))"
    and n: "header_name_from_bytes hapi (trim_ascii_ows name0) = Some n"
    and v: "header_value_from_str hapi (trim_ascii_ows v0) = Some v"
    using p by (auto simp: parse_custom_header_def Let_def rbind_Inr_iff ok_or_def name_byte_def [abs_def]
        split: option.splits if_splits)
  have n': "n = to_ascii_lowercase (trim_ascii_ows name0)" "header_name_from_bytes hapi n = Some n"
    and v': "v = trim_ascii_ows v0" "header_value_from_str hapi v = Some v"
    using c n v by (auto simp: header_contract_def)
  have nb: "list_all name_byte n" using name(2) name_byte_facts(4) by (auto simp: n'(1) to_lowercase_def list_all_iff)
  have ne: "n \<noteq> []" using name(1) by (simp add: n'(1) to_lowercase_def)
  have "\<not> is_ows (hd n)" "\<not> is_ows (last n)" "CHR '':'' \<notin> set n"
    using nb ne name_byte_facts by (auto simp: list_all_iff)
  then have "trim_ascii_ows n = n" "split_once '':'' (n @ CHR '':'' # v) = Some (n, v)"
    by (simp_all add: trim_no_ows split_once_char)
  moreover have "trim_ascii_ows v = v" by (simp add: v'(1) trim_ascii_ows_idem)
  moreover have "length n = length (trim_ascii_ows name0)" by (simp add: n'(1) to_lowercase_def)
  ultimately have "parse_custom_header hapi (n @ CHR '':'' # v) = Inr (n, v)"
    using n'(2) v' nb ne len by (simp add: parse_custom_header_def name_byte_def [abs_def])
  then show ?thesis using nb by (simp add: header_pair_ok_def)
qed

definition pairs_ok :: "header_api \<Rightarrow> header_map \<Rightarrow> bool" where
  "pairs_ok hapi m \<longleftrightarrow> list_all (header_pair_ok hapi) (hm_iter m)"

lemma pairs_ok_insert:
  assumes "pairs_ok hapi m" "header_pair_ok hapi (n, v)"
  shows "pairs_ok hapi (hm_insert n v m)"
proof -
  have "x = (n, [v]) \<or> x \<in> set m" if "x \<in> set (AList.update n [v] m)" for x
    using that by (induction m) (auto split: if_splits)
  then show ?thesis using assms by (fastforce simp: pairs_ok_def hm_iter_def hm_insert_def list_all_iff)
qed

lemma parse_options_pairs:
  assumes c: "header_contract hapi"
  shows "parse_options hapi options st = Inr st' \<Longrightarrow>
    pairs_ok hapi (ps_request_headers st) \<and> pairs_ok hapi (ps_response_headers st) \<Longrightarrow>
    pairs_ok hapi (ps_request_headers st') \<and> pairs_ok hapi (ps_response_headers st')"
proof (induction options arbitrary: st)
  case (Cons opt options)
  obtain s1 where s1: "parse_option hapi opt st = Inr s1" "parse_options hapi options s1 = Inr st'"
    using Cons.prems(1) by (auto simp: rbind_Inr_iff)
  have header: "pairs_ok hapi (ps_request_headers s1) \<and> pairs_ok hapi (ps_response_headers s1)"
    if "parse_header_option hapi request value st = Inr s1" for request "value"
    using that Cons.prems(2) pairs_ok_insert parse_custom_header_again [OF c]
    by (auto simp: parse_header_option_def rbind_Inr_iff Let_def split: if_splits)
  have "pairs_ok hapi (ps_request_headers s1) \<and> pairs_ok hapi (ps_response_headers s1)"
    using s1(1) header Cons.prems(2)
    by (auto simp: parse_option_def rbind_Inr_iff split: if_splits option.splits prod.splits)
  then show ?case using Cons.IH [OF s1(2)] by blast
qed simp

lemma parsed_pairs:
  assumes "header_contract hapi" "parse_proxy_suffix uapi hapi suffix = Inr req"
  shows "pairs_ok hapi (pr_request_headers req)" "pairs_ok hapi (pr_response_headers req)"
proof -
  obtain options st where "parse_options hapi options parse_start = Inr st"
      "pr_request_headers req = ps_request_headers st" "pr_response_headers req = ps_response_headers st"
    using assms(2) by (auto simp: parse_proxy_suffix_def rbind_Inr_iff split: if_splits prod.splits)
  moreover have "pairs_ok hapi []" by (simp add: pairs_ok_def hm_iter_def)
  ultimately show "pairs_ok hapi (pr_request_headers req)" "pairs_ok hapi (pr_response_headers req)"
    using parse_options_pairs [OF assms(1), of options parse_start st] by (simp_all add: parse_start_def)
qed

section \<open>Parsing an emitted link\<close>

definition header_options :: "char \<Rightarrow> (char \<times> string \<times> string) list \<Rightarrow> (string \<times> string) list" where
  "header_options kind options = map snd (filter (\<lambda>(k, _). k = kind) options)"

definition option_emitted :: "header_api \<Rightarrow> char \<times> string \<times> string \<Rightarrow> bool" where
  "option_emitted hapi = (\<lambda>(kind, name, v).
     option_ok (kind, name, v) \<and> header_pair_ok hapi (name, v) \<and>
     (kind = CHR ''h'' \<and> \<not> request_header_forbidden name \<or> kind = CHR ''r'' \<and> \<not> response_header_forbidden name))"

lemma decode_letter: "c \<in> {CHR ''d'', CHR ''h'', CHR ''r''} \<Longrightarrow> strict_percent_decode [c] True = Inr [c]"
  by (auto simp: strict_percent_decode_def from_utf8_ok_def)

lemma parse_emitted_option:
  assumes ok: "option_emitted hapi (kind, name, v)" and room: "Suc (ps_option_count st) \<le> MAX_CUSTOM_OPTIONS"
  shows "parse_option hapi (tl (option_text (kind, name, v))) st =
    Inr (if kind = CHR ''h''
         then st\<lparr>ps_option_count := Suc (ps_option_count st),
                 ps_request_headers := hm_insert name v (ps_request_headers st)\<rparr>
         else st\<lparr>ps_option_count := Suc (ps_option_count st),
                 ps_response_headers := hm_insert name v (ps_response_headers st)\<rparr>)"
proof -
  have k: "kind = CHR ''h'' \<or> kind = CHR ''r''" using ok by (auto simp: option_emitted_def)
  have pair: "parse_custom_header hapi (name @ CHR '':'' # v) = Inr (name, v)" "list_all name_byte name"
    using ok by (simp_all add: option_emitted_def header_pair_ok_def)
  have colon: "percent_decode True (CHR ''%'' # CHR ''3'' # CHR ''A'' # t) = map_option ((#) CHR '':'') (percent_decode True t)" for t
  proof -
    have "char_of (58 :: nat) = CHR '':''" by code_simp
    then show ?thesis by simp
  qed
  have decoded: "percent_decode True (percent_encode name @ ''%3A'' @ percent_encode v) = Some (name @ CHR '':'' # v)"
    using percent_decode_encode [of True v "[]"] by (simp add: percent_decode_encode colon del: percent_decode.simps(2))
  have "from_utf8_ok (name @ CHR '':'' # v)"
  proof -
    have "from_utf8_ok ((name @ [CHR '':'']) @ v) = from_utf8_ok v"
      by (rule from_utf8_ascii_append) (use pair(2) name_byte_facts(1) in \<open>auto simp: list_all_iff\<close>)
    then show ?thesis using ok by (simp add: option_emitted_def option_ok_def)
  qed
  then have "strict_percent_decode (percent_encode name @ ''%3A'' @ percent_encode v) True = Inr (name @ CHR '':'' # v)"
    unfolding strict_percent_decode_def decoded by simp
  moreover have "split_once ''='' (kind # CHR ''='' # r) = Some ([kind], r)" for r
    using k by (auto simp: starts_with_def)
  moreover have "strict_percent_decode [kind] True = Inr [kind]" using k by (intro decode_letter) auto
  moreover have "length (name @ CHR '':'' # v) \<le> MAX_HEADER_PAIR"
    using ok by (simp add: option_emitted_def option_ok_def)
  moreover have "Suc (ps_option_count st) \<le> u64_max" using room by (simp add: MAX_CUSTOM_OPTIONS_def)
  ultimately show ?thesis
    using k pair(1) ok room
    by (auto simp: parse_option_def option_text_def parse_header_option_def checked_add_u64_def
        option_emitted_def RAW_CANONICAL_PATH_KEY_def)
qed

lemma parse_emitted_options:
  assumes "list_all (option_emitted hapi) options" "ps_option_count st + length options \<le> MAX_CUSTOM_OPTIONS"
  shows "\<exists>st'. parse_options hapi (map (tl \<circ> option_text) options) st = Inr st' \<and>
    ps_target st' = ps_target st \<and> ps_raw_canonical_path st' = ps_raw_canonical_path st \<and>
    ps_request_headers st' = hm_insert_all (header_options CHR ''h'' options) (ps_request_headers st) \<and>
    ps_response_headers st' = hm_insert_all (header_options CHR ''r'' options) (ps_response_headers st)"
  using assms
proof (induction options arbitrary: st)
  case Nil
  then show ?case by (simp add: header_options_def)
next
  case (Cons opt options)
  obtain kind name v where o: "opt = (kind, name, v)" by (cases opt)
  have e: "option_emitted hapi (kind, name, v)" using Cons.prems(1) by (simp add: o)
  then have k: "kind = CHR ''h'' \<or> kind = CHR ''r''" by (auto simp: option_emitted_def)
  let ?st = "if kind = CHR ''h''
         then st\<lparr>ps_option_count := Suc (ps_option_count st),
                 ps_request_headers := hm_insert name v (ps_request_headers st)\<rparr>
         else st\<lparr>ps_option_count := Suc (ps_option_count st),
                 ps_response_headers := hm_insert name v (ps_response_headers st)\<rparr>"
  have "parse_option hapi (tl (option_text (kind, name, v))) st = Inr ?st"
    using e Cons.prems(2) by (intro parse_emitted_option) simp_all
  moreover have "ps_option_count ?st + length options \<le> MAX_CUSTOM_OPTIONS" using Cons.prems(2) by simp
  ultimately show ?case
    using Cons.IH [of ?st] Cons.prems(1) k by (auto simp: o header_options_def)
qed

lemma option_text_bytes: "b \<in> set (tl (option_text opt)) \<Longrightarrow> option_emitted hapi opt \<Longrightarrow> b \<noteq> CHR ''&''"
  using percent_encode_bytes link_byte_excludes by (cases opt) (auto simp: option_text_def option_emitted_def)

lemma split_options:
  assumes "list_all (option_emitted hapi) options" "CHR ''&'' \<notin> set s"
  shows "split_on CHR ''&'' (s @ concat (map option_text options)) = s # map (tl \<circ> option_text) options"
  using assms
proof (induction options arbitrary: s)
  case (Cons opt options)
  obtain kind name v where o: "opt = (kind, name, v)" by (cases opt)
  have "CHR ''&'' \<notin> set (tl (option_text opt))" using option_text_bytes [of _ opt hapi] Cons.prems(1) by (metis list.pred_inject(2))
  then have "split_on CHR ''&'' (tl (option_text opt) @ concat (map option_text options)) =
      tl (option_text opt) # map (tl \<circ> option_text) options"
    using Cons.IH Cons.prems(1) by simp
  moreover have "s @ concat (map option_text (opt # options)) =
      s @ CHR ''&'' # (tl (option_text opt) @ concat (map option_text options))"
    by (simp add: o option_text_def)
  ultimately show ?case
    using Cons.prems(2) by (simp only: split_on_append_sep) (simp add: split_on_no_sep comp_def)
qed (simp add: split_on_no_sep)

lemma sum_list_sort: "sum_list (map g (sort xs)) = (sum_list (map g xs) :: nat)"
proof -
  have "mset (map g (sort xs)) = mset (map g xs)" by simp
  then show ?thesis by (metis sum_mset_sum_list)
qed

definition tagged :: "header_map \<Rightarrow> header_map \<Rightarrow> (char \<times> string \<times> string) list" where
  "tagged rh ph = map (Pair CHR ''h'') (hm_iter rh) @ map (Pair CHR ''r'') (hm_iter ph)"

lemma allowed_headers:
  assumes "custom_headers_ok forbidden m"
  shows "filter (\<lambda>(name, _). \<not> forbidden name) (hm_iter m) = hm_iter m"
    and "(name, v) \<in> set (hm_iter m) \<Longrightarrow> \<not> forbidden name"
proof -
  have "\<not> forbidden n" if "(n, v) \<in> set (hm_iter m)" for n v
    using assms that by (auto simp: custom_headers_ok_def hm_iter_def)
  then show "filter (\<lambda>(name, _). \<not> forbidden name) (hm_iter m) = hm_iter m"
    "(name, v) \<in> set (hm_iter m) \<Longrightarrow> \<not> forbidden name"
    by (auto simp: filter_id_conv)
qed

lemma link_header_options_shape:
  assumes l: "link_header_options same rh ph n = Inr (m, options)"
    and "custom_headers_ok request_header_forbidden rh" "custom_headers_ok response_header_forbidden ph"
  shows "options = (if same then sort (tagged rh ph) else [])"
    "m = n + length (concat (map option_text options))" "length options \<le> MAX_CUSTOM_OPTIONS"
    "list_all option_ok options"
proof -
  have "options = (if same then sort (tagged rh ph) else []) \<and>
    m = n + length (concat (map option_text options)) \<and> length options \<le> MAX_CUSTOM_OPTIONS \<and>
    list_all option_ok options"
  proof (cases same)
    case True
    then obtain k o1 k' o2 where l1: "link_options CHR ''h'' request_header_forbidden (hm_iter rh) n [] = Inr (k, o1)"
      and l2: "link_options CHR ''r'' response_header_forbidden (hm_iter ph) k o1 = Inr (k', o2)"
      and r: "length o2 \<le> MAX_CUSTOM_OPTIONS" "options = sort o2" "m = k'"
      using l by (auto simp: link_header_options_def rbind_Inr_iff split: if_splits)
    note o1 = link_options_ok [OF l1, unfolded allowed_headers(1) [OF assms(2)]]
      and o2 = link_options_ok [OF l2, unfolded allowed_headers(1) [OF assms(3)]]
    have "o2 = tagged rh ph" using o1 o2 by (simp add: tagged_def)
    moreover have "m = n + length (concat (map option_text o2))" using o1 o2 r(3) by simp
    moreover have "list_all option_ok o2" using o1 o2 by simp
    ultimately show ?thesis
      using r True by (simp add: length_concat sum_list_sort [where g = "length \<circ> option_text"] list_all_iff)
  next
    case False
    then show ?thesis using l by (simp add: link_header_options_def)
  qed
  then show "options = (if same then sort (tagged rh ph) else [])"
    "m = n + length (concat (map option_text options))" "length options \<le> MAX_CUSTOM_OPTIONS"
    "list_all option_ok options" by blast+
qed

lemma tagged_options:
  "mset (header_options CHR ''h'' (sort (tagged rh ph))) = mset (hm_iter rh)"
  "mset (header_options CHR ''r'' (sort (tagged rh ph))) = mset (hm_iter ph)"
proof -
  have f: "mset (header_options k (sort xs)) = mset (header_options k xs)" for k xs
    by (simp add: header_options_def)
  have "filter (\<lambda>(k, _). k = CHR ''h'') (tagged rh ph) = map (Pair CHR ''h'') (hm_iter rh)"
    "filter (\<lambda>(k, _). k = CHR ''r'') (tagged rh ph) = map (Pair CHR ''r'') (hm_iter ph)"
    by (simp_all add: tagged_def filter_empty_conv)
  then have "header_options CHR ''h'' (tagged rh ph) = hm_iter rh" "header_options CHR ''r'' (tagged rh ph) = hm_iter ph"
    by (simp_all add: header_options_def comp_def)
  then show "mset (header_options CHR ''h'' (sort (tagged rh ph))) = mset (hm_iter rh)"
    "mset (header_options CHR ''r'' (sort (tagged rh ph))) = mset (hm_iter ph)"
    by (simp_all only: f)
qed

lemma inserting_again:
  assumes "one_value_each m" "mset kvs = mset (hm_iter m)"
  shows "hm_get_all (hm_insert_all kvs []) = hm_get_all m"
proof -
  have d: "distinct (map fst (hm_iter m))" using assms(1) by (rule one_value_each_distinct)
  have "mset (map fst kvs) = mset (map fst (hm_iter m))" using assms(2) by (metis mset_map)
  then have d': "distinct (map fst kvs)" using d mset_eq_imp_distinct_iff by blast
  have "map_of kvs = map_of (hm_iter m)"
    using d d' mset_eq_setD [OF assms(2)] by (simp add: map_of_inject_set)
  then show ?thesis
    by (simp add: fun_eq_iff hm_get_all_insert_all map_of_rev [OF d'] one_value_each_get_all [OF assms(1)]
        split: option.split)
qed

lemma link_header_options_ok:
  assumes l: "link_header_options same rh ph n = Inr (m, options)"
    and ok: "custom_headers_ok request_header_forbidden rh" "custom_headers_ok response_header_forbidden ph"
    and pairs: "pairs_ok hapi rh" "pairs_ok hapi ph"
  shows "list_all (option_emitted hapi) options"
    "hm_get_all (hm_insert_all (header_options CHR ''h'' options) []) = hm_get_all (if same then rh else [])"
    "hm_get_all (hm_insert_all (header_options CHR ''r'' options) []) = hm_get_all (if same then ph else [])"
proof -
  note shape = link_header_options_shape [OF l ok]
  have one: "one_value_each rh" "one_value_each ph" using ok by (simp_all add: custom_headers_ok_def)
  have "option_emitted hapi opt" if "opt \<in> set options" for opt
  proof -
    have "opt \<in> set (tagged rh ph)" using that shape(1) by (auto split: if_splits)
    moreover have "option_ok opt" using that shape(4) by (simp add: list_all_iff)
    ultimately show ?thesis
      using pairs allowed_headers(2) [OF ok(1)] allowed_headers(2) [OF ok(2)]
      by (auto simp: tagged_def option_emitted_def pairs_ok_def list_all_iff)
  qed
  then show "list_all (option_emitted hapi) options" by (simp add: list_all_iff)
  have none: "header_options k [] = []" for k by (simp add: header_options_def)
  show "hm_get_all (hm_insert_all (header_options CHR ''h'' options) []) = hm_get_all (if same then rh else [])"
    using inserting_again [OF one(1) tagged_options(1)] by (simp add: shape(1) none)
  show "hm_get_all (hm_insert_all (header_options CHR ''r'' options) []) = hm_get_all (if same then ph else [])"
    using inserting_again [OF one(2) tagged_options(2)] by (simp add: shape(1) none)
qed

section \<open>Round trip of links\<close>

lemma restore_without_placeholders:
  assumes "restore_loop table out s = Inr r" "\<And>i. map_of table (byte_range s i (i + 4)) = None"
  shows "r = out @ s"
  using assms
proof (induction table out s rule: restore_loop.induct)
  case (2 table out c s)
  have none: "map_of table (take 4 (c # s)) = None" using 2(4) [of 0] by (simp add: byte_range_def)
  then have here: "(if 4 \<le> length (c # s) then map_of table (take 4 (c # s)) else None) = None" by (simp only: if_cancel)
  obtain out1 where o: "push_target out (take (char_len c) (c # s)) = Inr out1"
    and r: "restore_loop table out1 (drop (char_len c) (c # s)) = Inr r"
    using 2(3) unfolding restore_loop.simps(2) here option.case rbind_Inr_iff by blast
  have "map_of table (byte_range (drop (char_len c) (c # s)) i (i + 4)) = None" for i
    using 2(4) [of "char_len c + i"] by (simp add: byte_range_def add.commute add.left_commute)
  then have "r = out1 @ drop (char_len c) (c # s)" using 2(1) here r by blast
  moreover have "out1 = out @ take (char_len c) (c # s)" using o by (auto simp: push_target_def rbind_Inr_iff)
  ultimately show ?case by (simp add: append_assoc)
qed simp

lemma window_starts_iff:
  assumes "length p = 4"
  shows "window_starts p s = [] \<longleftrightarrow> (\<forall>i. byte_range s i (i + 4) \<noteq> p)"
proof -
  have "i < length s - 3" if "byte_range s i (i + 4) = p" for i
    using arg_cong [OF that, of length] assms by (auto simp: byte_range_def)
  then show ?thesis by (auto simp: window_starts_def filter_empty_conv)
qed

lemma safe_replacements:
  assumes "resolve_with_placeholders uapi reference base variables = Inr (Some (absolute, replacements))"
  shows "hls_placeholders_are_safe uapi absolute replacements \<and> (\<exists>u. validate_proxy_target uapi u = Inr absolute)"
proof -
  have valid: "\<exists>u. validate_proxy_target uapi u = Inr a"
    if "resolve_substituted_hls_reference uapi base t = Inr (Some a)" for t a
    using that by (auto simp: resolve_substituted_hls_reference_def map_err_def rbind_Inr_iff
        split: option.splits if_splits sum.splits)
  obtain t reps g found where first: "resolve_substituted_hls_reference uapi base t = Inr found"
    and rest: "(case found of
         None \<Rightarrow> Inr None
       | Some a \<Rightarrow>
           if hls_placeholders_are_safe uapi a reps then Inr (Some (a, reps))
           else
             rbind (substitute_hls_variables reference variables (occupy (pu_as_str uapi a) g)) (\<lambda>(t', reps', g).
             rbind (resolve_substituted_hls_reference uapi base t') (\<lambda>found'.
               case found' of
                 None \<Rightarrow> Inr None
               | Some a' \<Rightarrow>
                   if hls_placeholders_are_safe uapi a' reps' then Inr (Some (a', reps')) else Inr None))) =
       Inr (Some (absolute, replacements))"
    using assms unfolding resolve_with_placeholders_def rbind_Inr_iff by (auto simp: rbind_Inr_iff)
  obtain a where a: "found = Some a" using rest by (cases found) auto
  show ?thesis
  proof (cases "hls_placeholders_are_safe uapi a reps")
    case True
    then show ?thesis using rest valid first by (auto simp: a)
  next
    case False
    then obtain t' reps' found' where second: "resolve_substituted_hls_reference uapi base t' = Inr found'"
      and last': "(case found' of
                 None \<Rightarrow> Inr None
               | Some a' \<Rightarrow>
                   if hls_placeholders_are_safe uapi a' reps' then Inr (Some (a', reps')) else Inr None) =
       (Inr (Some (absolute, replacements)) :: (proxy_error, _) result)"
      using rest by (auto simp: a rbind_Inr_iff)
    then show ?thesis using valid by (cases found') (auto split: if_splits)
  qed
qed

lemma resolved_target:
  assumes "resolve_hls_reference uapi reference base = Inr (Some r)" "rf_variable_path r = None"
  obtains absolute u where "rf_target r = pu_as_str uapi absolute" "rf_same_origin r = same_origin uapi base absolute"
    "validate_proxy_target uapi u = Inr absolute"
proof -
  obtain absolute replacements where found:
      "resolve_with_placeholders uapi reference base (hls_variable_ranges reference) = Inr (Some (absolute, replacements))"
    and r: "resolved_reference uapi base absolute replacements = Inr (Some r)"
    using assms(1) by (auto simp: resolve_hls_reference_def Let_def rbind_Inr_iff split: if_splits option.splits)
  have removed: "\<forall>x \<in> set replacements. hr_removed_with_fragment x"
    and restored: "restore_hls_variables (pu_as_str uapi absolute) replacements = Inr (rf_target r)"
    and same: "rf_same_origin r = same_origin uapi base absolute"
    using r assms(2)
    by (auto simp: resolved_reference_def rbind_Inr_iff list_ex_iff split: if_splits option.splits)
  have "byte_range (pu_as_str uapi absolute) i (i + 4) \<noteq> hr_placeholder x" if "x \<in> set replacements" for x i
  proof -
    have "length (hr_placeholder x) = 4" "window_starts (hr_placeholder x) (pu_as_str uapi absolute) = []"
      using safe_replacements [OF found] removed that
      by (auto simp: hls_placeholders_are_safe_def Let_def list_all_iff)
    then show ?thesis using window_starts_iff by blast
  qed
  then have "map_of (rev (map (\<lambda>r. (hr_placeholder r, hr_token r)) replacements))
      (byte_range (pu_as_str uapi absolute) i (i + 4)) = None" for i
    by (auto simp: map_of_eq_None_iff)
  then have "rf_target r = pu_as_str uapi absolute"
    using restored restore_without_placeholders unfolding restore_hls_variables_def by fastforce
  then show ?thesis using that same safe_replacements [OF found] by blast
qed

text \<open>
  Property C10.  A link that the rewriter emits means what it replaced: for a reference without
  variables it is \<open>/proxy\<close> followed by a suffix that the proxy's own parser accepts; the parsed
  target is the canonical URL of the reference, and the parsed options are the headers of the
  request the playlist was fetched with, if the reference stays on the playlist's origin, and none
  otherwise.
\<close>

theorem emitted_links_parse_back:
  assumes contracts: "header_contract hapi" "url_contract uapi"
    and parsed: "parse_proxy_suffix uapi hapi suffix0 = Inr req"
      "rh = pr_request_headers req \<or> rh = []" "ph = pr_response_headers req"
    and ref: "resolve_hls_reference uapi reference base = Inr (Some r)" "rf_variable_path r = None"
    and emitted: "push_proxy_uri out r rh ph = Inr out'"
  shows "\<exists>suffix req'. out' = out @ ''/proxy'' @ suffix \<and> parse_proxy_suffix uapi hapi suffix = Inr req' \<and>
    pu_as_str uapi (pr_target req') = rf_target r \<and>
    rf_same_origin r = same_origin uapi base (pr_target req') \<and>
    hm_get_all (pr_request_headers req') = hm_get_all (if rf_same_origin r then rh else []) \<and>
    hm_get_all (pr_response_headers req') = hm_get_all (if rf_same_origin r then ph else [])"
proof -
  obtain absolute u where target: "rf_target r = pu_as_str uapi absolute"
      "rf_same_origin r = same_origin uapi base absolute" and valid: "validate_proxy_target uapi u = Inr absolute"
    using resolved_target [OF ref] .
  have again: "validate_proxy_target uapi absolute = Inr absolute"
    using valid contracts(2) by (auto simp: validate_proxy_target_def url_contract_def Let_def split: if_splits)
  have ok: "custom_headers_ok request_header_forbidden rh" "custom_headers_ok response_header_forbidden ph"
      "pairs_ok hapi rh" "pairs_ok hapi ph"
    using parsed_headers_ok [OF parsed(1)] parsed_pairs [OF contracts(1) parsed(1)] parsed(2,3)
    by (auto simp: custom_headers_ok_def pairs_ok_def hm_iter_def)
  let ?enc = "percent_encode (rf_target r)"
  obtain n options where l: "link_header_options (rf_same_origin r) rh ph (length ''/?d='' + length ?enc) = Inr (n, options)"
    and len: "n \<le> MAX_PROXY_INPUT"
    and out': "out' = out @ ''/proxy'' @ ''/?d='' @ ?enc @ concat (map option_text options)"
    using emitted ref(2)
    by (auto simp: push_proxy_uri_def rbind_Inr_iff link_path_length_def split: if_splits
        dest!: percent_encoded_length_ok checked_sum_ok)
  note shape = link_header_options_shape [OF l ok(1,2)] and opts = link_header_options_ok [OF l ok]
  let ?s = "''d='' @ ?enc" and ?suffix = "''/?d='' @ ?enc @ concat (map option_text options)"
  have amp: "CHR ''&'' \<notin> set ?s" using percent_encode_bytes link_byte_excludes by fastforce
  have dec: "strict_percent_decode ?enc True = Inr (rf_target r)"
    using percent_decode_encode [of True "rf_target r" "[]"] contracts(2)
    by (simp add: strict_percent_decode_def target(1) url_contract_def)
  have d: "parse_option hapi ?s parse_start = Inr (parse_start\<lparr>ps_target := Some (rf_target r)\<rparr>)"
    using dec decode_letter [of "CHR ''d''"] by (simp add: parse_option_def starts_with_def parse_start_def)
  obtain st where st: "parse_options hapi (map (tl \<circ> option_text) options)
        (parse_start\<lparr>ps_target := Some (rf_target r)\<rparr>) = Inr st"
      "ps_target st = Some (rf_target r)" "\<not> ps_raw_canonical_path st"
      "ps_request_headers st = hm_insert_all (header_options CHR ''h'' options) []"
      "ps_response_headers st = hm_insert_all (header_options CHR ''r'' options) []"
    using parse_emitted_options [OF opts(1), of "parse_start\<lparr>ps_target := Some (rf_target r)\<rparr>"] shape(3)
    by (auto simp: parse_start_def)
  have parts: "suffix_parts ?suffix = Inr (?s @ concat (map option_text options), None, None)"
    by (simp add: suffix_parts_def strip_prefix_def starts_with_def)
  have all: "parse_options hapi (split_on CHR ''&'' (?s @ concat (map option_text options))) parse_start = Inr st"
    unfolding split_options [OF opts(1) amp] using d st(1) by simp
  have "length ?suffix \<le> MAX_PROXY_INPUT" using len shape(2) by simp
  then have "parse_proxy_suffix uapi hapi ?suffix =
      Inr \<lparr>pr_target = absolute, pr_request_headers = ps_request_headers st, pr_response_headers = ps_response_headers st\<rparr>"
    using parts all st(2,3) again contracts(2)
    by (simp add: parse_proxy_suffix_def apply_path_tail_def target(1) url_contract_def)
  then show ?thesis
    using out' st(4,5) opts(2,3) target by (intro exI [of _ ?suffix]) auto
qed

section \<open>A playlist as a list of pieces\<close>

text \<open>
  The reference definition of the rewriter: a playlist is cut into text that is copied and
  references that are rewritten.  Cutting a tag works on what is left of the line instead of on
  positions in it.
\<close>

datatype piece = Verbatim (piece_source: string) | Reference (piece_source: string)

definition emit :: "'u proxy_url_api \<Rightarrow> 'u rewrite_context \<Rightarrow> piece \<Rightarrow> string \<Rightarrow> (proxy_error, string) result" where
  "emit uapi cx p out =
     (case p of Verbatim s \<Rightarrow> push_playlist out s | Reference s \<Rightarrow> rewrite_playlist_reference uapi cx s out)"

fun emit_all ::
  "'u proxy_url_api \<Rightarrow> 'u rewrite_context \<Rightarrow> piece list \<Rightarrow> string \<Rightarrow> (proxy_error, string) result" where
  "emit_all uapi cx [] out = Inr out"
| "emit_all uapi cx (p # ps) out = rbind (emit uapi cx p out) (emit_all uapi cx ps)"

text \<open>The pieces of one attribute and the text after it.\<close>

definition cut_attribute :: "string \<Rightarrow> string \<Rightarrow> piece list \<times> string" where
  "cut_attribute seen s =
     (case scan_attribute False 0 s of
        None \<Rightarrow> ([Verbatim (seen @ s)], [])
      | Some i \<Rightarrow> ([Verbatim (seen @ take (i + 1) s)], drop (i + 1) s))"

definition attribute_pieces :: "string \<Rightarrow> piece list \<times> string" where
  "attribute_pieces s =
     (let blank = takeWhile is_ows s; r = dropWhile is_ows s
      in if starts_with URI_ATTRIBUTE r
         then (case position (\<lambda>b. b = CHR 0x22) (drop 5 r) of
                 None \<Rightarrow> ([Verbatim s], [])
               | Some n \<Rightarrow>
                   let (ps, rest) = cut_attribute [CHR 0x22] (drop (n + 6) r)
                   in (Verbatim (blank @ URI_ATTRIBUTE) # Reference (take n (drop 5 r)) # ps, rest))
         else cut_attribute [] s)"

lemma cut_attribute_source:
  "cut_attribute seen s = (ps, rest) \<Longrightarrow> concat (map piece_source ps) @ rest = seen @ s"
  by (auto simp: cut_attribute_def split: option.splits)

lemma position_Some: "position P s = Some n \<longleftrightarrow> n < length s \<and> P (s ! n) \<and> (\<forall>i < n. \<not> P (s ! i))"
proof -
  let ?n = "length (takeWhile (\<lambda>c. \<not> P c) s)"
  have a: "P (s ! ?n)" if "?n < length s" using nth_length_takeWhile [OF that] by simp
  have b: "\<not> P (s ! i)" if "i < ?n" for i
    using that nth_mem [OF that] by (auto simp: takeWhile_nth dest: set_takeWhileD)
  have "?n = n" if "n < length s" "P (s ! n)" "\<forall>i < n. \<not> P (s ! i)"
  proof (rule antisym)
    show "?n \<le> n" using b that(2) by (meson leI)
    show "n \<le> ?n" using a that by (meson leI le_less_trans less_imp_le)
  qed
  then show ?thesis using a b by (auto simp: position_def Let_def)
qed

lemma quoted_value:
  assumes "position (\<lambda>b. b = CHR 0x22) s = Some n"
  shows "s = take n s @ CHR 0x22 # drop (n + 1) s"
  using assms by (simp add: position_Some) (metis Suc_eq_plus1 id_take_nth_drop)

lemma starts_with_take: "starts_with p s \<Longrightarrow> s = p @ drop (length p) s"
  by (metis append_take_drop_id starts_with_def)

lemma attribute_pieces_source:
  assumes "attribute_pieces s = (ps, rest)"
  shows "concat (map piece_source ps) @ rest = s"
proof -
  let ?r = "dropWhile is_ows s"
  have s: "s = takeWhile is_ows s @ ?r" by simp
  show ?thesis
  proof (cases "starts_with URI_ATTRIBUTE ?r")
    case False
    then show ?thesis using assms cut_attribute_source [of "[]" s ps rest] by (simp add: attribute_pieces_def)
  next
    case True
    then have r: "?r = URI_ATTRIBUTE @ drop 5 ?r" 
    proof -
      have "length URI_ATTRIBUTE = 5" by (simp add: URI_ATTRIBUTE_def)
      then show ?thesis using starts_with_take [OF True] by simp
    qed
    show ?thesis
    proof (cases "position (\<lambda>b. b = CHR 0x22) (drop 5 ?r)")
      case None
      then show ?thesis using assms True by (auto simp: attribute_pieces_def)
    next
      case (Some n)
      obtain qs rest' where c: "cut_attribute [CHR 0x22] (drop (n + 6) ?r) = (qs, rest')" by fastforce
      have q: "drop 5 ?r = take n (drop 5 ?r) @ CHR 0x22 # drop (n + 6) ?r"
        using quoted_value [OF Some] by (simp add: add.commute)
      have ps: "ps = Verbatim (takeWhile is_ows s @ URI_ATTRIBUTE) # Reference (take n (drop 5 ?r)) # qs" "rest = rest'"
        using assms True Some c by (simp_all add: attribute_pieces_def Let_def)
      have "concat (map piece_source ps) @ rest =
          takeWhile is_ows s @ URI_ATTRIBUTE @ take n (drop 5 ?r) @ (concat (map piece_source qs) @ rest')"
        unfolding ps by simp
      also have "\<dots> = takeWhile is_ows s @ URI_ATTRIBUTE @ (take n (drop 5 ?r) @ CHR 0x22 # drop (n + 6) ?r)"
        unfolding cut_attribute_source [OF c] by simp
      finally show ?thesis unfolding q [symmetric] r [symmetric] by simp
    qed
  qed
qed

lemma cut_attribute_shrinks: "s \<noteq> [] \<Longrightarrow> cut_attribute seen s = (ps, rest) \<Longrightarrow> length rest < length s"
  by (auto simp: cut_attribute_def split: option.splits)

lemma attribute_pieces_shrinks:
  assumes "s \<noteq> []" "attribute_pieces s = (ps, rest)"
  shows "length rest < length s"
proof -
  have "concat (map piece_source ps) \<noteq> []" if "rest \<noteq> []"
    using assms(2) that
    by (auto simp: attribute_pieces_def Let_def cut_attribute_def URI_ATTRIBUTE_def split: if_splits option.splits prod.splits)
  then show ?thesis using attribute_pieces_source [OF assms(2)] assms(1) by (cases "rest = []") fastforce+
qed

function tag_pieces :: "string \<Rightarrow> piece list" where
  "tag_pieces s = (if s = [] then [] else case attribute_pieces s of (ps, rest) \<Rightarrow> ps @ tag_pieces rest)"
  by pat_completeness auto
termination
  by (relation "measure length") (auto, metis attribute_pieces_shrinks)

declare tag_pieces.simps [simp del]

definition line_pieces :: "string \<Rightarrow> piece list" where
  "line_pieces line =
     (if starts_with ''#EXT'' line
      then (case position (\<lambda>b. b = CHR '':'') line of
              None \<Rightarrow> [Verbatim line]
            | Some colon \<Rightarrow> Verbatim (take (colon + 1) line) # tag_pieces (drop (colon + 1) line))
      else if starts_with ''#'' line \<or> list_all is_ows line then [Verbatim line]
      else [Reference line])"

function playlist_pieces :: "string \<Rightarrow> piece list" where
  "playlist_pieces body =
     (if body = [] then []
      else case next_line body of (line, ending, rest) \<Rightarrow>
        line_pieces line @ Verbatim ending # playlist_pieces rest)"
  by pat_completeness auto
termination
  by (relation "measure length") (auto, metis next_line_shrinks snd_conv)

declare playlist_pieces.simps [simp del]

lemma tag_pieces_source: "concat (map piece_source (tag_pieces s)) = s"
proof (induction s rule: tag_pieces.induct)
  case (1 s)
  show ?case
  proof (cases "s = []")
    case False
    obtain ps rest where a: "attribute_pieces s = (ps, rest)" by fastforce
    then show ?thesis
      using 1 [OF False a [symmetric]] attribute_pieces_source [OF a] False
      by (subst tag_pieces.simps) simp
  qed (simp add: tag_pieces.simps)
qed

lemma next_line_parts: "next_line body = (line, ending, rest) \<Longrightarrow> line @ ending @ rest = body"
proof -
  let ?l = "takeWhile (\<lambda>b. \<not> is_line_break b) body"
  assume n: "next_line body = (line, ending, rest)"
  have "?l @ drop (length ?l) body = body" by (metis append_take_drop_id takeWhile_eq_take)
  moreover have "line = ?l \<and> ending @ rest = drop (length ?l) body"
    using n by (auto simp: next_line_def Let_def split: list.splits if_splits)
  ultimately show ?thesis by metis
qed

lemma playlist_pieces_source: "concat (map piece_source (playlist_pieces body)) = body"
proof (induction body rule: playlist_pieces.induct)
  case (1 body)
  show ?case
  proof (cases "body = []")
    case False
    obtain line ending rest where n: "next_line body = (line, ending, rest)" by (metis prod_cases3)
    have "concat (map piece_source (line_pieces line)) = line"
      by (auto simp: line_pieces_def tag_pieces_source split: option.splits)
    then show ?thesis
      using 1 [OF False n [symmetric] refl] False n next_line_parts [OF n]
      by (subst playlist_pieces.simps) simp
  qed (simp add: playlist_pieces.simps)
qed

section \<open>The rewriter emits the pieces\<close>

lemma push_playlist_append: "push_playlist out (a @ b) = rbind (push_playlist out a) (\<lambda>out. push_playlist out b)"
  by (auto simp: push_playlist_def reserve_bounded_def checked_add_u64_def MAX_PLAYLIST_OUTPUT_def)

lemma push_playlist_Nil: "length out \<le> MAX_PLAYLIST_OUTPUT \<Longrightarrow> push_playlist out [] = Inr out"
  by (auto simp: push_playlist_def reserve_bounded_def checked_add_u64_def MAX_PLAYLIST_OUTPUT_def)

lemma rbind_assoc: "rbind (rbind x f) g = rbind x (\<lambda>a. rbind (f a) g)"
  by (cases x) auto

lemma rbind_cong: "x = y \<Longrightarrow> (\<And>a. y = Inr a \<Longrightarrow> f a = g a) \<Longrightarrow> rbind x f = rbind y g"
  by (cases y) auto

lemma emit_all_append: "emit_all uapi cx (ps @ qs) out = rbind (emit_all uapi cx ps out) (emit_all uapi cx qs)"
  by (induction ps arbitrary: out) (simp_all add: rbind_assoc cong: rbind_cong)

lemma emit_all_merge: "emit_all uapi cx (Verbatim (a @ b) # ps) out = emit_all uapi cx (Verbatim a # Verbatim b # ps) out"
  by (simp add: emit_def push_playlist_append rbind_assoc cong: rbind_cong)

lemma push_playlist_bound: "push_playlist out s = Inr out' \<Longrightarrow> length out' \<le> MAX_PLAYLIST_OUTPUT"
  by (auto simp: push_playlist_def reserve_bounded_def rbind_Inr_iff checked_add_u64_def ok_or_def split: if_splits)

lemma link_path_length_ok:
  "link_path_length path n = Inr m \<Longrightarrow> m = n + length (case path of None \<Rightarrow> [] | Some vp \<Rightarrow> variable_suffix vp)"
  by (auto simp: link_path_length_def rbind_Inr_iff variable_suffix_def split: option.splits dest!: checked_sum_ok)

lemma link_header_options_length:
  assumes "link_header_options same rh ph n = Inr (m, options)"
  shows "m = n + length (concat (map option_text options))"
proof (cases same)
  case True
  then obtain k o1 o2 where "link_options CHR ''h'' request_header_forbidden (hm_iter rh) n [] = Inr (k, o1)"
    "link_options CHR ''r'' response_header_forbidden (hm_iter ph) k o1 = Inr (m, o2)" "options = sort o2"
    using assms by (auto simp: link_header_options_def rbind_Inr_iff split: if_splits)
  then have "options = sort o2" "m = n + length (concat (map option_text o2))"
    by (auto dest!: link_options_ok)
  then show ?thesis by (simp add: length_concat sum_list_sort [where g = "length \<circ> option_text"])
next
  case False
  then show ?thesis using assms by (simp add: link_header_options_def)
qed

lemma push_proxy_uri_bound:
  assumes "push_proxy_uri out r rh ph = Inr out'"
  shows "length out' \<le> MAX_PLAYLIST_OUTPUT"
proof -
  obtain pre target n0 n options suffix_length where
      pt: "(pre, target) = (case rf_variable_path r of
              Some vp \<Rightarrow> (''/d='', vp_base_target vp) | None \<Rightarrow> (''/?d='', rf_target r))"
    and l: "n0 = length pre + length (percent_encode target)"
      "link_header_options (rf_same_origin r) rh ph n0 = Inr (n, options)"
      "link_path_length (rf_variable_path r) n = Inr suffix_length"
    and b: "reserve_playlist out (length ''/proxy'' + suffix_length) = Inr ()"
    and out': "out' = out @ ''/proxy'' @ pre @ percent_encode target @ concat (map option_text options) @
                    (case rf_variable_path r of None \<Rightarrow> [] | Some vp \<Rightarrow> variable_suffix vp)"
    using assms unfolding push_proxy_uri_def Let_def
    by (cases "rf_variable_path r")
      (auto simp: rbind_Inr_iff split: if_splits dest!: percent_encoded_length_ok checked_sum_ok)
  have "length out' = length out + (length ''/proxy'' + suffix_length)"
    using l(1) link_header_options_length [OF l(2)] link_path_length_ok [OF l(3)] by (simp add: out')
  then show ?thesis
    using b by (auto simp: reserve_playlist_def reserve_bounded_def rbind_Inr_iff checked_add_u64_def ok_or_def split: if_splits)
qed

lemma emit_bound: "emit uapi cx p out = Inr out' \<Longrightarrow> length out' \<le> MAX_PLAYLIST_OUTPUT"
  by (cases p) (auto simp: emit_def rewrite_playlist_reference_def rbind_Inr_iff split: option.splits
      dest: push_playlist_bound push_proxy_uri_bound)

lemma emit_all_bound:
  "emit_all uapi cx ps out = Inr out' \<Longrightarrow> length out \<le> MAX_PLAYLIST_OUTPUT \<Longrightarrow> length out' \<le> MAX_PLAYLIST_OUTPUT"
  by (induction ps arbitrary: out) (auto simp: rbind_Inr_iff dest: emit_bound)

lemma takeWhile_drop_offset:
  "key = a + length (takeWhile P (drop a line)) \<Longrightarrow> drop key line = dropWhile P (drop a line)"
  by (simp add: dropWhile_eq_drop add.commute)

lemma byte_range_split: "a \<le> b \<Longrightarrow> b \<le> c \<Longrightarrow> byte_range s a c = byte_range s a b @ byte_range s b c"
proof -
  assume "a \<le> b" "b \<le> c"
  then have "c - a = (b - a) + (c - b)" "drop b s = drop (b - a) (drop a s)" by simp_all
  then show ?thesis by (simp add: byte_range_def take_add)
qed

lemma byte_range_drop: "a \<le> b \<Longrightarrow> drop a s = byte_range s a b @ drop b s"
  by (simp add: byte_range_def) (metis append_take_drop_id drop_drop le_add_diff_inverse2)

lemma emit_all_Verbatim: "emit_all uapi cx [Verbatim s] out = push_playlist out s"
  by (cases "push_playlist out s") (simp_all add: emit_def)

lemma tag_pieces_Nil [simp]: "tag_pieces [] = []"
  by (simp add: tag_pieces.simps)

lemma scan_attribute_bound: "scan_attribute q k s = Some i \<Longrightarrow> k \<le> i \<and> i - k < length s"
  by (induction q k s rule: scan_attribute.induct) (fastforce split: if_splits)+

text \<open>What the loop does after an attribute, and the pieces that are cut there.\<close>

lemma cut_attribute_emits:
  assumes IH: "\<And>i. scan_attribute False 0 (drop scan line) = Some i \<Longrightarrow>
      tag_loop uapi cx line (scan + i + 1) copied out =
      emit_all uapi cx (Verbatim (byte_range line copied (scan + i + 1)) # tag_pieces (drop (scan + i + 1) line)) out"
    and b: "copied \<le> scan"
    and cut: "cut_attribute (byte_range line copied scan) (drop scan line) = (ps, rest)"
  shows "(case scan_attribute False 0 (drop scan line) of
            None \<Rightarrow> push_playlist out (drop copied line)
          | Some offset \<Rightarrow> tag_loop uapi cx line (scan + offset + 1) copied out) =
         emit_all uapi cx (ps @ tag_pieces rest) out"
proof (cases "scan_attribute False 0 (drop scan line)")
  case None
  then have "ps = [Verbatim (drop copied line)]" "rest = []"
    using cut byte_range_drop [OF b, of line] by (auto simp: cut_attribute_def)
  then show ?thesis using None by (simp add: emit_all_Verbatim del: emit_all.simps)
next
  case (Some i)
  have "byte_range line copied (scan + i + 1) = byte_range line copied scan @ take (i + 1) (drop scan line)"
    using byte_range_split [OF b, of "scan + i + 1" line] by (simp add: byte_range_def)
  moreover have "drop (i + 1) (drop scan line) = drop (scan + i + 1) line" by (simp add: add.commute add.left_commute)
  ultimately have "ps = [Verbatim (byte_range line copied (scan + i + 1))]" "rest = drop (scan + i + 1) line"
    using cut Some by (auto simp: cut_attribute_def)
  then show ?thesis using Some IH by simp
qed

lemma cut_attribute_prefix:
  "cut_attribute (p @ seen) s = (ps, rest) \<Longrightarrow>
   \<exists>qs. cut_attribute seen s = (qs, rest) \<and>
     (\<forall>t out. emit_all uapi cx (Verbatim p # qs @ t) out = emit_all uapi cx (ps @ t) out)"
  by (auto simp: cut_attribute_def emit_all_merge simp del: emit_all.simps split: option.splits)

lemma uri_head:
  assumes "starts_with URI_ATTRIBUTE (drop key line)" "key = a + length (takeWhile is_ows (drop a line))" "copied \<le> a"
  shows "byte_range line copied (key + 5) = byte_range line copied a @ takeWhile is_ows (drop a line) @ URI_ATTRIBUTE"
proof -
  have "take 5 (drop key line) = URI_ATTRIBUTE" 
  proof -
    have "length URI_ATTRIBUTE = 5" by (simp add: URI_ATTRIBUTE_def)
    then show ?thesis using assms(1) by (simp add: starts_with_def)
  qed
  then have "byte_range line key (key + 5) = URI_ATTRIBUTE" by (simp add: byte_range_def)
  moreover have "byte_range line a key = takeWhile is_ows (drop a line)"
    by (simp add: byte_range_def assms(2) takeWhile_eq_take [symmetric])
  moreover have "byte_range line copied (key + 5) = byte_range line copied key @ byte_range line key (key + 5)"
    "byte_range line copied key = byte_range line copied a @ byte_range line a key"
    using assms(2,3) by (intro byte_range_split; simp)+
  ultimately show ?thesis by simp
qed

lemma uri_quote:
  assumes "position (\<lambda>b. b = CHR 0x22) (drop 5 (drop key line)) = Some n"
  shows "byte_range line (key + 5 + n) (key + 5 + n + 1) = [CHR 0x22]"
proof -
  let ?d = "drop 5 (drop key line)"
  have n: "n < length ?d" "?d ! n = CHR 0x22" using assms by (simp_all add: position_Some)
  have "take 1 (drop n ?d) = [?d ! n]" using n(1) by (simp add: take_Suc_conv_app_nth hd_drop_conv_nth take_Suc add.commute)
  moreover have "drop n ?d = drop (key + 5 + n) line" by (simp add: add.commute add.left_commute)
  ultimately show ?thesis using n(2) by (simp add: byte_range_def)
qed

text \<open>The attribute holds a reference.\<close>

lemma uri_attribute_emits:
  assumes uri: "starts_with URI_ATTRIBUTE (drop key line)" "key = a + length (takeWhile is_ows (drop a line))"
      "copied \<le> a" "a < length line"
    and v: "position (\<lambda>b. b = CHR 0x22) (drop 5 (drop key line)) = Some n"
    and IH: "\<And>scan copied' o' i. tag_attribute uapi cx line a copied out = Inr (Some (scan, copied', o')) \<Longrightarrow>
        scan_attribute False 0 (drop scan line) = Some i \<Longrightarrow> copied' \<le> scan \<Longrightarrow>
        tag_loop uapi cx line (scan + i + 1) copied' o' =
        emit_all uapi cx (Verbatim (byte_range line copied' (scan + i + 1)) # tag_pieces (drop (scan + i + 1) line)) o'"
    and c: "cut_attribute [CHR 0x22] (drop (n + 6) (drop key line)) = (qs, rest)"
  shows "tag_loop uapi cx line a copied out =
    rbind (push_playlist out (byte_range line copied (key + 5))) (\<lambda>out.
      rbind (rewrite_playlist_reference uapi cx (take n (drop 5 (drop key line))) out)
        (emit_all uapi cx (qs @ tag_pieces rest)))"
proof -
  let ?v = "take n (drop 5 (drop key line))" and ?scan = "key + 5 + n + 1"
  have range: "byte_range line (key + 5) (key + 5 + n) = ?v" by (simp add: byte_range_def add.commute)
  have t: "tag_attribute uapi cx line a copied out =
      rbind (push_playlist out (byte_range line copied (key + 5))) (\<lambda>out.
        rbind (rewrite_playlist_reference uapi cx ?v out) (\<lambda>out. Inr (Some (?scan, key + 5 + n, out))))"
    using uri(1) v range unfolding tag_attribute_def Let_def uri(2) [symmetric] by (simp add: add.commute)
  have d: "drop (n + 6) (drop key line) = drop ?scan line" by (simp add: add.commute add.left_commute)
  show ?thesis
  proof (cases "push_playlist out (byte_range line copied (key + 5))")
    case (Inl e)
    then have "tag_attribute uapi cx line a copied out = Inl e" using t by simp
    then show ?thesis using uri(4) Inl by (subst tag_loop.simps) simp
  next
    case o1: (Inr o1)
    show ?thesis
    proof (cases "rewrite_playlist_reference uapi cx ?v o1")
      case (Inl e)
      then have "tag_attribute uapi cx line a copied out = Inl e" using t o1 by simp
      then show ?thesis using uri(4) o1 Inl by (subst tag_loop.simps) simp
    next
      case (Inr o2)
      have t': "tag_attribute uapi cx line a copied out = Inr (Some (?scan, key + 5 + n, o2))"
        using t o1 Inr by simp
      have le: "key + 5 + n \<le> ?scan" by simp
      have "(case scan_attribute False 0 (drop ?scan line) of
            None \<Rightarrow> push_playlist o2 (drop (key + 5 + n) line)
          | Some offset \<Rightarrow> tag_loop uapi cx line (?scan + offset + 1) (key + 5 + n) o2) =
         emit_all uapi cx (qs @ tag_pieces rest) o2"
        using cut_attribute_emits [OF IH [OF t'] le c [unfolded d uri_quote [OF v, symmetric]]] le by blast
      moreover have "tag_loop uapi cx line a copied out = (case scan_attribute False 0 (drop ?scan line) of
            None \<Rightarrow> push_playlist o2 (drop (key + 5 + n) line)
          | Some offset \<Rightarrow> tag_loop uapi cx line (?scan + offset + 1) (key + 5 + n) o2)"
        using uri(4) by (subst tag_loop.simps) (simp only: t' if_True sum.case option.case prod.case)
      ultimately show ?thesis using o1 Inr by simp
    qed
  qed
qed

lemma tag_loop_emits:
  "a \<le> length line \<Longrightarrow> copied \<le> a \<Longrightarrow>
   tag_loop uapi cx line a copied out =
   emit_all uapi cx (Verbatim (byte_range line copied a) # tag_pieces (drop a line)) out"
proof (induction uapi cx line a copied out rule: tag_loop.induct)
  case (1 uapi cx line a copied out)
  let ?s = "drop a line"
  show ?case
  proof (cases "a < length line")
    case False
    then have "?s = []" "byte_range line copied a = drop copied line" using 1(2) by (simp_all add: byte_range_def)
    then show ?thesis using False by (subst tag_loop.simps) (simp add: emit_all_Verbatim del: emit_all.simps)
  next
    case True
    obtain ps rest where ap: "attribute_pieces ?s = (ps, rest)" by fastforce
    have pieces: "tag_pieces ?s = ps @ tag_pieces rest" using True ap by (subst tag_pieces.simps) simp
    define key where "key = a + length (takeWhile is_ows ?s)"
    have r: "drop key line = dropWhile is_ows ?s" unfolding key_def by (rule takeWhile_drop_offset) simp
    have IH: "tag_loop uapi cx line (scan + i + 1) copied' o' =
        emit_all uapi cx (Verbatim (byte_range line copied' (scan + i + 1)) # tag_pieces (drop (scan + i + 1) line)) o'"
      if "tag_attribute uapi cx line a copied out = Inr (Some (scan, copied', o'))"
        "scan_attribute False 0 (drop scan line) = Some i" "copied' \<le> scan" for scan copied' o' i
      using 1(1) [OF True that(1) refl refl refl that(2)] scan_attribute_bound [OF that(2)] that(3) by simp
    show ?thesis
    proof (cases "starts_with URI_ATTRIBUTE (drop key line)")
      case False
      then have t: "tag_attribute uapi cx line a copied out = Inr (Some (a, copied, out))"
        by (simp add: tag_attribute_def key_def)
      have c0: "cut_attribute [] ?s = (ps, rest)" using ap False by (simp add: attribute_pieces_def Let_def r)
      obtain qs rest' where c: "cut_attribute (byte_range line copied a @ []) ?s = (qs, rest')" by fastforce
      have e: "rest' = rest"
        "emit_all uapi cx (Verbatim (byte_range line copied a) # ps @ tag_pieces rest) out = emit_all uapi cx (qs @ tag_pieces rest) out"
        using cut_attribute_prefix [OF c, of uapi cx] c0 by (auto simp del: emit_all.simps)
      have "tag_loop uapi cx line a copied out = emit_all uapi cx (qs @ tag_pieces rest) out"
        using cut_attribute_emits [OF IH [OF t] 1(3) c [unfolded append_Nil2]] t True 1(3)
        by (subst tag_loop.simps) (simp add: e(1) del: emit_all.simps)
      then show ?thesis by (simp only: pieces e(2))
    next
      case uri: True
      let ?r = "drop key line"
      show ?thesis
      proof (cases "position (\<lambda>b. b = CHR 0x22) (drop 5 ?r)")
        case None
        then have t: "tag_attribute uapi cx line a copied out = Inr None"
          using uri by (simp add: tag_attribute_def key_def add.commute)
        have p: "ps = [Verbatim ?s]" "rest = []" using ap uri None by (auto simp: attribute_pieces_def r)
        have "tag_loop uapi cx line a copied out = push_playlist out (drop copied line)"
          using True by (subst tag_loop.simps) (simp add: t)
        also have "\<dots> = emit_all uapi cx [Verbatim (byte_range line copied a @ ?s)] out"
          using byte_range_drop [OF 1(3), of line] by (simp add: emit_all_Verbatim del: emit_all.simps)
        finally show ?thesis unfolding emit_all_merge pieces p by simp
      next
        case (Some n)
        obtain qs where c: "cut_attribute [CHR 0x22] (drop (n + 6) ?r) = (qs, rest)"
          and ps: "ps = Verbatim (takeWhile is_ows ?s @ URI_ATTRIBUTE) # Reference (take n (drop 5 ?r)) # qs"
          using ap uri Some by (auto simp: attribute_pieces_def r Let_def split: prod.splits)
        have "emit_all uapi cx (Verbatim (byte_range line copied a) # tag_pieces ?s) out =
            rbind (push_playlist out (byte_range line copied (key + 5))) (\<lambda>out.
              rbind (rewrite_playlist_reference uapi cx (take n (drop 5 ?r)) out) (emit_all uapi cx (qs @ tag_pieces rest)))"
          unfolding pieces ps uri_head [OF uri key_def 1(3)] append_Cons emit_all_merge [symmetric]
          by (simp add: emit_def cong: rbind_cong)
        then show ?thesis using uri_attribute_emits [OF uri key_def 1(3) True Some IH c] by simp
      qed
    qed
  qed
qed

lemma rewrite_line_emits:
  "rewrite_line uapi cx line out = emit_all uapi cx (line_pieces line) out"
proof (cases "starts_with ''#EXT'' line")
  case True
  show ?thesis
  proof (cases "position (\<lambda>b. b = CHR '':'') line")
    case None
    then show ?thesis
      using True by (simp add: rewrite_line_def rewrite_playlist_tag_def line_pieces_def emit_all_Verbatim del: emit_all.simps)
  next
    case (Some colon)
    then have "Suc colon \<le> length line" by (simp add: position_Some)
    then show ?thesis
      using True Some tag_loop_emits [of "colon + 1" line 0 uapi cx out]
      by (simp add: rewrite_line_def rewrite_playlist_tag_def line_pieces_def byte_range_def del: emit_all.simps)
  qed
next
  case False
  have "emit_all uapi cx [Reference line] out = rewrite_playlist_reference uapi cx line out"
    by (cases "rewrite_playlist_reference uapi cx line out") (simp_all add: emit_def)
  then show ?thesis using False by (simp add: rewrite_line_def line_pieces_def emit_all_Verbatim del: emit_all.simps)
qed

definition agrees :: "'u rewrite_context \<Rightarrow> (proxy_error, string) result \<Rightarrow> (proxy_error, string) result \<Rightarrow> bool" where
  "agrees cx x y \<longleftrightarrow> x = y \<or> x = Inl PeCancelled \<and> (\<exists>n. rw_cancelled cx n)"

lemma rewrite_loop_emits: "agrees cx (rewrite_loop uapi cx body out) (emit_all uapi cx (playlist_pieces body) out)"
proof (induction uapi cx body out rule: rewrite_loop.induct)
  case (1 uapi cx body out)
  show ?case
  proof (cases "body = []")
    case True
    then show ?thesis by (simp add: agrees_def rewrite_loop.simps playlist_pieces.simps)
  next
    case False
    obtain line ending rest where n: "next_line body = (line, ending, rest)" by (metis prod_cases3)
    show ?thesis
    proof (cases "check_cancellation (rw_cancelled cx) out")
      case (Inl e)
      then have "e = PeCancelled" "\<exists>n. rw_cancelled cx n" by (auto simp: check_cancellation_def split: if_splits)
      then show ?thesis using False n Inl by (subst rewrite_loop.simps) (simp add: agrees_def)
    next
      case (Inr u)
      have line: "rbind (rewrite_line uapi cx line out) (\<lambda>out. push_playlist out ending) =
          emit_all uapi cx (line_pieces line @ [Verbatim ending]) out"
        unfolding emit_all_append rewrite_line_emits emit_all_Verbatim [abs_def] by (simp cong: rbind_cong add: emit_all_Verbatim del: emit_all.simps)
      have pieces: "emit_all uapi cx (playlist_pieces body) out =
          rbind (emit_all uapi cx (line_pieces line @ [Verbatim ending]) out) (emit_all uapi cx (playlist_pieces rest))"
        using False n emit_all_append [of uapi cx "line_pieces line @ [Verbatim ending]" "playlist_pieces rest" out]
        by (subst playlist_pieces.simps) simp
      show ?thesis
      proof (cases "rbind (rewrite_line uapi cx line out) (\<lambda>out. push_playlist out ending)")
        case (Inl e)
        then have "rewrite_loop uapi cx body out = Inl e"
          using False n Inr by (subst rewrite_loop.simps) simp
        moreover have "emit_all uapi cx (line_pieces line @ [Verbatim ending]) out = Inl e" using line Inl by metis
        ultimately show ?thesis using pieces by (simp add: agrees_def)
      next
        case r: (Inr out1)
        then have "rewrite_loop uapi cx body out = rewrite_loop uapi cx rest out1"
          using False n Inr by (subst rewrite_loop.simps) simp
        moreover have "agrees cx (rewrite_loop uapi cx rest out1) (emit_all uapi cx (playlist_pieces rest) out1)"
          using 1 [OF False n [symmetric] refl Inr r] .
        moreover have "emit_all uapi cx (line_pieces line @ [Verbatim ending]) out = Inr out1" using line r by metis
        ultimately show ?thesis using pieces by simp
      qed
    qed
  qed
qed

text \<open>
  Property C11.  The scanner with its positions is the piecewise rewriter: unless it is cancelled it
  gives exactly what copying the verbatim pieces and rewriting the references gives, including the
  errors, and it can be ended early only by a cancellation.  The pieces cover the playlist, so
  nothing but references changes, and no output is longer than 16 MiB.
\<close>

theorem rewriting_changes_only_references:
  "agrees cx (rewrite_playlist_with_options_cancellable uapi cx body)
     (emit_all uapi cx (playlist_pieces body) []) \<and>
   concat (map piece_source (playlist_pieces body)) = body \<and>
   (\<forall>out. rewrite_playlist_with_options_cancellable uapi cx body = Inr out \<longrightarrow> length out \<le> MAX_PLAYLIST_OUTPUT)"
proof -
  have a: "agrees cx (rewrite_playlist_with_options_cancellable uapi cx body) (emit_all uapi cx (playlist_pieces body) [])"
    unfolding rewrite_playlist_with_options_cancellable_def by (rule rewrite_loop_emits)
  have "length out \<le> MAX_PLAYLIST_OUTPUT" if "rewrite_playlist_with_options_cancellable uapi cx body = Inr out" for out
  proof -
    have "emit_all uapi cx (playlist_pieces body) [] = Inr out" using a that by (simp add: agrees_def)
    then show ?thesis by (rule emit_all_bound) simp
  qed
  then show ?thesis using a playlist_pieces_source by blast
qed

section \<open>Witnesses\<close>

theorem rewriting_changes_only_references_witness:
  "rewrite_playlist_with_options_cancellable text_url_api
     \<lparr>rw_base_url = ''http://a/b'', rw_request_headers = [], rw_response_headers = [], rw_cancelled = (\<lambda>_. False)\<rparr>
     [CHR ''#'', CHR 0x0A] = Inr [CHR ''#'', CHR 0x0A] \<and> length [CHR ''#'', CHR 0x0A] \<le> MAX_PLAYLIST_OUTPUT"
proof -
  let ?cx = "\<lparr>rw_base_url = ''http://a/b'', rw_request_headers = [], rw_response_headers = [], rw_cancelled = (\<lambda>_. False)\<rparr>"
  have "next_line [CHR ''#'', CHR 0x0A] = (''#'', [CHR 0x0A], [])"
    by (simp add: next_line_def is_line_break_def)
  then have p: "playlist_pieces [CHR ''#'', CHR 0x0A] = [Verbatim ''#'', Verbatim [CHR 0x0A]]"
    by (simp add: playlist_pieces.simps line_pieces_def starts_with_def)
  have "emit_all text_url_api ?cx (playlist_pieces [CHR ''#'', CHR 0x0A]) [] = Inr [CHR ''#'', CHR 0x0A]"
    by (simp add: p emit_def push_playlist_def reserve_bounded_def checked_add_u64_def MAX_PLAYLIST_OUTPUT_def)
  then have "rewrite_playlist_with_options_cancellable text_url_api ?cx [CHR ''#'', CHR 0x0A] = Inr [CHR ''#'', CHR 0x0A]"
    using rewriting_changes_only_references [of ?cx text_url_api "[CHR ''#'', CHR 0x0A]"] by (simp add: agrees_def)
  then show ?thesis
    using rewriting_changes_only_references [of ?cx text_url_api "[CHR ''#'', CHR 0x0A]"] by blast
qed

text \<open>An interface with two URLs, for which the contracts hold.\<close>

definition two_url_text :: "bool \<Rightarrow> string" where
  "two_url_text u = (if u then ''http://a/b'' else ''http://a/c'')"

definition two_url_api :: "bool proxy_url_api" where
  "two_url_api = \<lparr>url_scheme = (\<lambda>u. ''http''), url_host = (\<lambda>u. Some (HostDomain ''a'')),
     url_port_or_known_default = (\<lambda>u. Some 80), url_without_fragment = id,
     pu_parse = (\<lambda>s. if s = ''http://a/b'' then Some True else if s = ''http://a/c'' then Some False else None),
     pu_as_str = two_url_text, pu_from_path = (\<lambda>u. drop 8 (two_url_text u)),
     pu_path_query = (\<lambda>u. drop 8 (two_url_text u)), pu_path = (\<lambda>u. drop 8 (two_url_text u)), pu_query = (\<lambda>u. None),
     pu_username = (\<lambda>u. []), pu_password = (\<lambda>u. None), pu_set_path = (\<lambda>p u. u), pu_set_query = (\<lambda>q u. u),
     pu_set_username = (\<lambda>n u. u), pu_set_password = (\<lambda>p u. u), pu_join = (\<lambda>base r. Some False)\<rparr>"

lemma two_url_contracts: "url_contract two_url_api" "header_contract text_header_api"
proof -
  have "from_utf8_ok (two_url_text u)" for u by (simp add: two_url_text_def from_utf8_ok_def)
  then show "url_contract two_url_api" by (auto simp: url_contract_def two_url_api_def two_url_text_def)
  show "header_contract text_header_api"
    by (auto simp: header_contract_def text_header_api_def split: if_splits)
qed

lemma two_url_parse:
  "parse_proxy_suffix two_url_api text_header_api ''?d=http://a/b&r=Content-Type:a'' =
     Inr \<lparr>pr_target = True, pr_request_headers = [], pr_response_headers = [(''content-type'', [''a''])]\<rparr>"
proof -
  have chars: "char_of (99 :: nat) = CHR ''c''" "char_of (116 :: nat) = CHR ''t''" by code_simp+
  have utf8: "from_utf8_ok ''d''" "from_utf8_ok ''r''" "from_utf8_ok ''http://a/b''" "from_utf8_ok ''Content-Type:a''"
    by (simp_all add: from_utf8_ok_def)
  have header: "parse_custom_header text_header_api ''Content-Type:a'' = Inr (''content-type'', ''a'')"
    by (simp add: parse_custom_header_def starts_with_def trim_ascii_ows_eq trim_http_ows_eq is_ows_def
        is_ascii_alphanumeric_def checked_add_u64_def MAX_HEADER_PAIR_def text_header_api_def to_lowercase_def
        to_lower_char_def is_quoted_header_byte_def chars)
  have "parse_options text_header_api [''d=http://a/b'', ''r=Content-Type:a''] parse_start =
      Inr \<lparr>ps_target = Some ''http://a/b'', ps_request_headers = [], ps_response_headers = [(''content-type'', [''a''])],
        ps_option_count = 1, ps_raw_canonical_path = False\<rparr>"
    using utf8 header
    by (simp add: parse_option_def starts_with_def strict_percent_decode_def parse_start_def parse_header_option_def
        checked_add_u64_def MAX_CUSTOM_OPTIONS_def MAX_HEADER_PAIR_def hm_insert_def response_header_forbidden_def)
  then show ?thesis
    by (simp add: parse_proxy_suffix_def suffix_parts_def strip_prefix_def starts_with_def MAX_PROXY_INPUT_def
        apply_path_tail_def validate_proxy_target_def two_url_api_def two_url_text_def MAX_TARGET_URL_def)
qed

lemma two_url_reference:
  "resolve_hls_reference two_url_api ''c'' True =
     Inr (Some \<lparr>rf_target = ''http://a/c'', rf_same_origin = True, rf_variable_path = None\<rparr>)"
proof -
  have "hls_variable_ranges ''c'' = []"
    by (simp add: hls_variable_ranges_def hls_variable_ranges_from.simps)
  moreover have "scheme_colon_of ''c'' = None" by (simp add: scheme_colon_of_def position_def MAX_TARGET_URL_def)
  moreover have "authority_range ''c'' None = None" by (simp add: authority_range_def starts_with_def)
  moreover have "substitute_hls_variables ''c'' [] g = Inr (''c'', [], g)" for g
    by (simp add: substitute_hls_variables_def push_target_def reserve_bounded_def checked_add_u64_def MAX_TARGET_URL_def)
  moreover have "resolve_substituted_hls_reference two_url_api True ''c'' = Inr (Some False)"
    by (simp add: resolve_substituted_hls_reference_def two_url_api_def validate_proxy_target_def map_err_def
        two_url_text_def MAX_TARGET_URL_def)
  moreover have "restore_hls_variables ''http://a/c'' [] = Inr ''http://a/c''"
    by (simp add: restore_hls_variables_def restore_loop.simps(2) char_len_def push_target_def reserve_bounded_def
        checked_add_u64_def MAX_TARGET_URL_def)
  ultimately show ?thesis
    by (simp add: resolve_hls_reference_def resolve_with_placeholders_def hls_placeholders_are_safe_def
        resolved_reference_def MAX_TARGET_URL_def) (simp add: two_url_api_def two_url_text_def same_origin_def)
qed

theorem emitted_links_parse_back_witness:
  "\<exists>suffix req'. parse_proxy_suffix two_url_api text_header_api suffix = Inr req' \<and> \<not> pr_target req' \<and>
     hm_get_all (pr_response_headers req') ''content-type'' = [''a'']"
proof -
  let ?r = "\<lparr>rf_target = ''http://a/c'', rf_same_origin = True, rf_variable_path = None\<rparr>"
  have "\<exists>out. push_proxy_uri [] ?r [] [(''content-type'', [''a''])] = Inr out"
    by (simp add: push_proxy_uri_def link_header_options_def link_option_def link_path_length_def hm_iter_def
        response_header_forbidden_def checked_sum_def checked_add_u64_def percent_encoding_safe_def is_ascii_alphanumeric_def
        from_utf8_ok_def MAX_HEADER_PAIR_def MAX_CUSTOM_OPTIONS_def MAX_PROXY_INPUT_def reserve_playlist_def
        reserve_bounded_def MAX_PLAYLIST_OUTPUT_def)
  then obtain out where out: "push_proxy_uri [] ?r [] [(''content-type'', [''a''])] = Inr out" ..
  have "\<exists>suffix req'. out = [] @ ''/proxy'' @ suffix \<and>
      parse_proxy_suffix two_url_api text_header_api suffix = Inr req' \<and>
      pu_as_str two_url_api (pr_target req') = ''http://a/c'' \<and>
      hm_get_all (pr_response_headers req') = hm_get_all [(''content-type'', [''a''])]"
    using emitted_links_parse_back [OF two_url_contracts(2,1) two_url_parse _ _ two_url_reference _, of "[]"
        "[(''content-type'', [''a''])]" "[]" out] out by auto
  moreover have "u = False" if "pu_as_str two_url_api u = ''http://a/c''" for u
    using that by (simp add: two_url_api_def two_url_text_def split: if_splits)
  ultimately show ?thesis by (fastforce simp: hm_get_all_def)
qed

end
