(* ===== verification/ProxyBody.thy ===== *)
theory ProxyBody
  imports ProxyRuntime "HOL-Library.Sublist"
begin

text \<open>
  Delivery of a proxied body (\<open>server/src/routes/proxy.rs\<close>): a producer task reads the upstream and
  hands chunks over a one-place buffer (\<open>ProxyHandoff\<close>) to the response body, under cancellation,
  deadlines, a consumer that may go away and a producer that may be aborted or panic.

  Every section under the mutex is one function on \<open>proxy_handoff_state\<close>, together with the
  notification that follows it.  Instants are numbers of milliseconds and timers fire on time.  A \<open>Notify\<close> waiter is registered before
  the state is checked; it is the flag of the waiting phases, set by every \<open>notify_waiters\<close>.  The
  upstream is the list of what it will answer.  \<open>body_step\<close> interleaves the sections of the
  producer and of the consumer with time, cancellation and the loss of either side; \<open>bw_items\<close>
  records what the consumer was given.

  Shown here: what is delivered is always a prefix of the upstream body in bounded chunks, and the
  end of the stream is reported only after the whole body or after exactly one error; a clean end
  is visible only when the producer's permits are released; no side sleeps through a change.
\<close>

section \<open>Sources\<close>

definition UPSTREAM_READ_IDLE_DEADLINE :: nat where "UPSTREAM_READ_IDLE_DEADLINE = 30 * 1000"
definition DOWNSTREAM_NO_PROGRESS_DEADLINE :: nat where "DOWNSTREAM_NO_PROGRESS_DEADLINE = 120 * 1000"
definition PROXY_BODY_CHUNK_SIZE :: nat where "PROXY_BODY_CHUNK_SIZE = 64 * 1024"

datatype proxy_source_error = ProxySourceError

datatype proxy_body_source =
    Streaming "(proxy_source_error, string) result list"
  | Buffered "string option"

datatype proxy_source_item = SourceChunk string | SourceEof | SourceFailed

fun source_next :: "proxy_body_source \<Rightarrow> proxy_source_item \<times> proxy_body_source" where
  "source_next (Streaming (Inr bytes # rest)) = (SourceChunk bytes, Streaming rest)"
| "source_next (Streaming (Inl e # rest)) = (SourceFailed, Streaming rest)"
| "source_next (Streaming []) = (SourceEof, Streaming [])"
| "source_next (Buffered (Some bytes)) = (SourceChunk bytes, Buffered None)"
| "source_next (Buffered None) = (SourceEof, Buffered None)"

fun is_drained :: "proxy_body_source \<Rightarrow> bool" where
  "is_drained (Buffered b) = (b = None)"
| "is_drained (Streaming items) = False"

section \<open>The handoff\<close>

datatype proxy_handoff_slot = SlotEmpty | SlotReserved | SlotFull (slot_bytes: string) (slot_deadline: nat)

datatype proxy_handoff_terminal = Running | Clean | FailedPending | FailedDelivered

record proxy_handoff_state =
  hs_slot :: proxy_handoff_slot
  hs_terminal :: proxy_handoff_terminal
  hs_consumer_closed :: bool

datatype proxy_producer_stop = ConsumerClosed | ProducerFailed

datatype proxy_consumer_item = ItemChunk string | ItemFailed | ItemEof

definition handoff_new :: proxy_handoff_state where
  "handoff_new = \<lparr>hs_slot = SlotEmpty, hs_terminal = Running, hs_consumer_closed = False\<rparr>"

definition fail_locked :: "proxy_handoff_state \<Rightarrow> proxy_handoff_state" where
  "fail_locked s =
     (if \<not> hs_consumer_closed s \<and> hs_terminal s = Running
      then s\<lparr>hs_slot := SlotEmpty, hs_terminal := FailedPending\<rparr> else s)"

definition close_consumer :: "proxy_handoff_state \<Rightarrow> proxy_handoff_state" where
  "close_consumer s = s\<lparr>hs_consumer_closed := True, hs_slot := SlotEmpty\<rparr>"

definition deadline_passed :: "nat option \<Rightarrow> nat \<Rightarrow> bool" where
  "deadline_passed fixed now \<longleftrightarrow> pred_option (\<lambda>deadline. now \<ge> deadline) fixed \<and> fixed \<noteq> None"

text \<open>The section of \<open>reserve\<close> under the lock; \<open>None\<close> is that it has to wait.\<close>

definition reserve_section ::
  "nat option \<Rightarrow> nat \<Rightarrow> proxy_handoff_state \<Rightarrow>
   proxy_handoff_state \<times> (proxy_producer_stop, unit) result option" where
  "reserve_section fixed now s =
     (if hs_consumer_closed s then (s, Some (Inl ConsumerClosed))
      else if hs_terminal s \<noteq> Running then (s, Some (Inl ProducerFailed))
      else if deadline_passed fixed now then (fail_locked s, Some (Inl ProducerFailed))
      else if hs_slot s = SlotEmpty then (s\<lparr>hs_slot := SlotReserved\<rparr>, Some (Inr ()))
      else (s, None))"

definition publish ::
  "bool \<Rightarrow> nat option \<Rightarrow> nat \<Rightarrow> string \<Rightarrow> nat \<Rightarrow> proxy_handoff_state \<Rightarrow>
   proxy_handoff_state \<times> (proxy_producer_stop, unit) result" where
  "publish cancelled fixed now bytes deadline s =
     (if hs_consumer_closed s then (s\<lparr>hs_slot := SlotEmpty\<rparr>, Inl ConsumerClosed)
      else if cancelled \<or> hs_terminal s \<noteq> Running then (fail_locked s, Inl ProducerFailed)
      else if deadline_passed fixed now then (fail_locked s, Inl ProducerFailed)
      else (s\<lparr>hs_slot := SlotFull bytes deadline\<rparr>, Inr ()))"

definition delivery_deadline :: "nat option \<Rightarrow> nat \<Rightarrow> nat" where
  "delivery_deadline fixed sliding = (case fixed of None \<Rightarrow> sliding | Some f \<Rightarrow> min f sliding)"

definition consumed_section ::
  "proxy_handoff_state \<Rightarrow> (proxy_producer_stop, unit) result option" where
  "consumed_section s =
     (if hs_consumer_closed s then Some (Inl ConsumerClosed)
      else if hs_terminal s \<noteq> Running then Some (Inl ProducerFailed)
      else if hs_slot s = SlotEmpty then Some (Inr ())
      else None)"

text \<open>The branch of \<open>wait_until_consumed\<close> in which the deadline has passed.\<close>

definition consumed_timeout ::
  "proxy_handoff_state \<Rightarrow> proxy_handoff_state \<times> (proxy_producer_stop, unit) result" where
  "consumed_timeout s =
     (case consumed_section s of
        Some r \<Rightarrow> (s, r)
      | None \<Rightarrow> (fail_locked s, Inl ProducerFailed))"

definition clean :: "bool \<Rightarrow> proxy_handoff_state \<Rightarrow> proxy_handoff_state" where
  "clean cancelled s =
     (if cancelled then fail_locked s
      else if \<not> hs_consumer_closed s \<and> hs_terminal s = Running
      then s\<lparr>hs_slot := SlotEmpty, hs_terminal := Clean\<rparr>
      else s)"

definition slot_expired :: "nat \<Rightarrow> proxy_handoff_slot \<Rightarrow> bool" where
  "slot_expired now slot \<longleftrightarrow> (case slot of SlotFull bytes deadline \<Rightarrow> now \<ge> deadline | _ \<Rightarrow> False)"

definition take_section ::
  "bool \<Rightarrow> nat \<Rightarrow> proxy_handoff_state \<Rightarrow> proxy_handoff_state \<times> proxy_consumer_item option" where
  "take_section cancelled now s0 =
     (let s1 = (if cancelled then fail_locked s0 else s0);
          s = (if hs_terminal s1 = Running \<and> slot_expired now (hs_slot s1) then fail_locked s1 else s1)
      in case hs_terminal s of
           FailedPending \<Rightarrow> (s\<lparr>hs_slot := SlotEmpty, hs_terminal := FailedDelivered\<rparr>, Some ItemFailed)
         | FailedDelivered \<Rightarrow> (s, Some ItemEof)
         | Clean \<Rightarrow> (s, Some ItemEof)
         | Running \<Rightarrow>
             (case hs_slot s of
                SlotFull bytes _ \<Rightarrow> (s\<lparr>hs_slot := SlotEmpty\<rparr>, Some (ItemChunk bytes))
              | _ \<Rightarrow> (s, None)))"

section \<open>Producer and consumer\<close>

text \<open>
  Where the producer is: \<open>rest\<close> is the part of the chunk read from the source that is not published
  yet, and is empty at the top of the loop.  \<open>Cleaning\<close> is between dropping the resources and
  \<open>clean\<close>; \<open>Returning\<close> is after the guard was disarmed, before the resources are dropped.
\<close>

datatype producer_phase =
    Reserving string
  | ReserveWait bool string
  | Reading nat
  | Publishing string
  | ConsumeStart nat string
  | ConsumeWait bool nat string
  | Cleaning
  | Returning
  | Finished

datatype consumer_phase = ConsumerIdle | ConsumerWaiting bool | ConsumerGone

record body_world =
  bw_state :: proxy_handoff_state
  bw_producer :: producer_phase
  bw_consumer :: consumer_phase
  bw_source :: proxy_body_source
  bw_lease :: bool
  bw_cancelled :: bool
  bw_now :: nat
  bw_fixed :: "nat option"
  bw_items :: "proxy_consumer_item list"

definition notify_producer :: "body_world \<Rightarrow> body_world" where
  "notify_producer w =
     w\<lparr>bw_producer :=
         (case bw_producer w of
            ReserveWait _ rest \<Rightarrow> ReserveWait True rest
          | ConsumeWait _ deadline rest \<Rightarrow> ConsumeWait True deadline rest
          | p \<Rightarrow> p)\<rparr>"

definition notify_consumer :: "body_world \<Rightarrow> body_world" where
  "notify_consumer w =
     w\<lparr>bw_consumer := (case bw_consumer w of ConsumerWaiting _ \<Rightarrow> ConsumerWaiting True | c \<Rightarrow> c)\<rparr>"

definition handoff_fail :: "body_world \<Rightarrow> body_world" where
  "handoff_fail w = notify_consumer (notify_producer (w\<lparr>bw_state := fail_locked (bw_state w)\<rparr>))"

definition handoff_close :: "body_world \<Rightarrow> body_world" where
  "handoff_close w = notify_consumer (notify_producer (w\<lparr>bw_state := close_consumer (bw_state w)\<rparr>))"

definition handoff_clean :: "body_world \<Rightarrow> body_world" where
  "handoff_clean w =
     notify_consumer (notify_producer (w\<lparr>bw_state := clean (bw_cancelled w) (bw_state w)\<rparr>))"

text \<open>One pass of the loop in \<open>reserve\<close> up to its \<open>select!\<close>; \<open>rest\<close> decides where it returns to.\<close>

definition reserve_pass :: "string \<Rightarrow> body_world \<Rightarrow> body_world" where
  "reserve_pass rest w =
     (let (s, r) = reserve_section (bw_fixed w) (bw_now w) (bw_state w);
          w' = w\<lparr>bw_state := s\<rparr>
      in case r of
           None \<Rightarrow> w'\<lparr>bw_producer := ReserveWait False rest\<rparr>
         | Some (Inl ConsumerClosed) \<Rightarrow> w'\<lparr>bw_producer := Returning\<rparr>
         | Some (Inl ProducerFailed) \<Rightarrow>
             (if s = bw_state w then w' else notify_consumer w')\<lparr>bw_producer := Returning\<rparr>
         | Some (Inr _) \<Rightarrow>
             w'\<lparr>bw_producer := (if rest = [] then Reading (bw_now w + UPSTREAM_READ_IDLE_DEADLINE)
                               else Publishing rest)\<rparr>)"

text \<open>One poll of the \<open>select!\<close> in \<open>read_source_chunk\<close>; \<open>ready\<close>: the upstream has an answer.\<close>

definition read_poll :: "nat \<Rightarrow> bool \<Rightarrow> body_world \<Rightarrow> body_world" where
  "read_poll idle ready w =
     (if bw_cancelled w then (handoff_fail w)\<lparr>bw_producer := Returning\<rparr>
      else if hs_consumer_closed (bw_state w) then w\<lparr>bw_producer := Returning\<rparr>
      else if deadline_passed (bw_fixed w) (bw_now w) then (handoff_fail w)\<lparr>bw_producer := Returning\<rparr>
      else if bw_now w \<ge> idle then (handoff_fail w)\<lparr>bw_producer := Returning\<rparr>
      else if \<not> ready then w
      else
        let (item, source) = source_next (bw_source w); w' = w\<lparr>bw_source := source\<rparr>
        in case item of
             SourceChunk bytes \<Rightarrow> if bytes = [] then w' else w'\<lparr>bw_producer := Publishing bytes\<rparr>
           | SourceEof \<Rightarrow> w'\<lparr>bw_lease := False, bw_producer := Cleaning\<rparr>
           | SourceFailed \<Rightarrow> (handoff_fail w')\<lparr>bw_producer := Returning\<rparr>)"

definition publish_pass :: "string \<Rightarrow> body_world \<Rightarrow> body_world" where
  "publish_pass rest w =
     (let chunk = take PROXY_BODY_CHUNK_SIZE rest;
          deadline = delivery_deadline (bw_fixed w) (bw_now w + DOWNSTREAM_NO_PROGRESS_DEADLINE);
          (s, r) = publish (bw_cancelled w) (bw_fixed w) (bw_now w) chunk deadline (bw_state w);
          w' = w\<lparr>bw_state := s\<rparr>
      in case r of
           Inl ConsumerClosed \<Rightarrow> w'\<lparr>bw_producer := Returning\<rparr>
         | Inl ProducerFailed \<Rightarrow> (notify_consumer w')\<lparr>bw_producer := Returning\<rparr>
         | Inr _ \<Rightarrow> (notify_consumer w')\<lparr>bw_producer := ConsumeStart deadline (drop PROXY_BODY_CHUNK_SIZE rest)\<rparr>)"

text \<open>After a chunk is consumed: the rest of it, the next one, or the end of a drained buffer.\<close>

definition consumed :: "string \<Rightarrow> body_world \<Rightarrow> body_world" where
  "consumed rest w =
     (if rest \<noteq> [] then w\<lparr>bw_producer := Reserving rest\<rparr>
      else if is_drained (bw_source w) then w\<lparr>bw_lease := False, bw_producer := Cleaning\<rparr>
      else w\<lparr>bw_producer := Reserving []\<rparr>)"

definition consumed_result :: "string \<Rightarrow> (proxy_producer_stop, unit) result \<Rightarrow> body_world \<Rightarrow> body_world" where
  "consumed_result rest r w = (case r of Inl _ \<Rightarrow> w\<lparr>bw_producer := Returning\<rparr> | Inr _ \<Rightarrow> consumed rest w)"

definition consume_pass :: "nat \<Rightarrow> string \<Rightarrow> body_world \<Rightarrow> body_world" where
  "consume_pass deadline rest w =
     (case consumed_section (bw_state w) of
        None \<Rightarrow> w\<lparr>bw_producer := ConsumeWait False deadline rest\<rparr>
      | Some r \<Rightarrow> consumed_result rest r w)"

definition consume_timeout :: "string \<Rightarrow> body_world \<Rightarrow> body_world" where
  "consume_timeout rest w =
     (let (s, r) = consumed_timeout (bw_state w); w' = w\<lparr>bw_state := s\<rparr>
      in consumed_result rest r (if s = bw_state w then w' else notify_consumer (notify_producer w')))"

text \<open>
  One pass of the loop in \<open>take\<close>.  The consumer is dropped with the end of the stream, which closes
  the handoff.
\<close>

definition take_pass :: "body_world \<Rightarrow> body_world" where
  "take_pass w =
     (let (s, item) = take_section (bw_cancelled w) (bw_now w) (bw_state w); w' = w\<lparr>bw_state := s\<rparr>
      in case item of
           None \<Rightarrow> w'\<lparr>bw_consumer := ConsumerWaiting False\<rparr>
         | Some ItemEof \<Rightarrow>
             (handoff_close (w'\<lparr>bw_items := bw_items w @ [ItemEof]\<rparr>))\<lparr>bw_consumer := ConsumerGone\<rparr>
         | Some i \<Rightarrow> (notify_producer w')\<lparr>bw_consumer := ConsumerIdle, bw_items := bw_items w @ [i]\<rparr>)"

text \<open>Dropping the producer's future: the armed guard fails the handoff, then the resources go.\<close>

definition producer_dropped :: "body_world \<Rightarrow> body_world" where
  "producer_dropped w = (handoff_fail w)\<lparr>bw_producer := Returning\<rparr>"

definition producer_returns :: "body_world \<Rightarrow> body_world" where
  "producer_returns w = w\<lparr>bw_lease := False, bw_producer := Finished\<rparr>"

fun await_point :: "producer_phase \<Rightarrow> bool" where
  "await_point (Reserving rest) = True"
| "await_point (ReserveWait n rest) = True"
| "await_point (Reading idle) = True"
| "await_point (ConsumeWait n deadline rest) = True"
| "await_point p = False"

definition spawn_proxy_body :: "proxy_body_source \<Rightarrow> nat \<Rightarrow> bool \<Rightarrow> proxy_producer_lease \<Rightarrow> body_world" where
  "spawn_proxy_body source now cancelled l =
     \<lparr>bw_state = handoff_new, bw_producer = Reserving [], bw_consumer = ConsumerIdle, bw_source = source,
      bw_lease = True, bw_cancelled = cancelled, bw_now = now, bw_fixed = lease_deadline l, bw_items = []\<rparr>"

definition buffered_proxy_body :: "string \<Rightarrow> nat \<Rightarrow> bool \<Rightarrow> proxy_producer_lease \<Rightarrow> body_world" where
  "buffered_proxy_body bytes = spawn_proxy_body (Buffered (Some bytes))"

definition streaming_proxy_body ::
  "(proxy_source_error, string) result list \<Rightarrow> nat \<Rightarrow> bool \<Rightarrow> proxy_producer_lease \<Rightarrow> body_world" where
  "streaming_proxy_body items = spawn_proxy_body (Streaming items)"

inductive body_step :: "body_world \<Rightarrow> body_world \<Rightarrow> bool" where
  time: "body_step w (w\<lparr>bw_now := bw_now w + d\<rparr>)"
| cancel: "body_step w (w\<lparr>bw_cancelled := True\<rparr>)"
| reserve: "bw_producer w = Reserving rest \<Longrightarrow> body_step w (reserve_pass rest w)"
| reserve_woken: "bw_producer w = ReserveWait True rest \<Longrightarrow> \<not> bw_cancelled w \<Longrightarrow>
     \<not> deadline_passed (bw_fixed w) (bw_now w) \<Longrightarrow> body_step w (reserve_pass rest w)"
| reserve_stopped: "bw_producer w = ReserveWait n rest \<Longrightarrow>
     bw_cancelled w \<or> deadline_passed (bw_fixed w) (bw_now w) \<Longrightarrow>
     body_step w ((handoff_fail w)\<lparr>bw_producer := Returning\<rparr>)"
| read: "bw_producer w = Reading idle \<Longrightarrow> body_step w (read_poll idle ready w)"
| publish: "bw_producer w = Publishing rest \<Longrightarrow> body_step w (publish_pass rest w)"
| consume: "bw_producer w = ConsumeStart deadline rest \<Longrightarrow> body_step w (consume_pass deadline rest w)"
| consume_woken: "bw_producer w = ConsumeWait True deadline rest \<Longrightarrow> \<not> bw_cancelled w \<Longrightarrow>
     bw_now w < deadline \<Longrightarrow> body_step w (consume_pass deadline rest w)"
| consume_cancelled: "bw_producer w = ConsumeWait n deadline rest \<Longrightarrow> bw_cancelled w \<Longrightarrow>
     body_step w ((handoff_fail w)\<lparr>bw_producer := Returning\<rparr>)"
| consume_late: "bw_producer w = ConsumeWait n deadline rest \<Longrightarrow> \<not> bw_cancelled w \<Longrightarrow> bw_now w \<ge> deadline \<Longrightarrow>
     body_step w (consume_timeout rest w)"
| cleaned: "bw_producer w = Cleaning \<Longrightarrow> body_step w ((handoff_clean w)\<lparr>bw_producer := Finished\<rparr>)"
| returned: "bw_producer w = Returning \<Longrightarrow> body_step w (producer_returns w)"
| dropped: "await_point (bw_producer w) \<Longrightarrow> body_step w (producer_dropped w)"
| take: "bw_consumer w = ConsumerIdle \<or> bw_consumer w = ConsumerWaiting True \<and> \<not> bw_cancelled w \<Longrightarrow> body_step w (take_pass w)"
| take_cancelled: "bw_consumer w = ConsumerWaiting n \<Longrightarrow> bw_cancelled w \<Longrightarrow>
     body_step w ((handoff_fail w)\<lparr>bw_consumer := ConsumerIdle\<rparr>)"
| consumer_dropped: "bw_consumer w \<noteq> ConsumerGone \<Longrightarrow>
     body_step w ((handoff_close w)\<lparr>bw_consumer := ConsumerGone\<rparr>)"

inductive_cases body_stepE: "body_step w w'"

section \<open>What has been delivered\<close>

fun stream_text :: "(proxy_source_error, string) result list \<Rightarrow> string" where
  "stream_text [] = []"
| "stream_text (i # rest) = (case i of Inl e \<Rightarrow> [] | Inr bytes \<Rightarrow> bytes @ stream_text rest)"

fun source_text :: "proxy_body_source \<Rightarrow> string" where
  "source_text (Streaming items) = stream_text items"
| "source_text (Buffered b) = (case b of None \<Rightarrow> [] | Some bytes \<Rightarrow> bytes)"

fun source_complete :: "proxy_body_source \<Rightarrow> bool" where
  "source_complete (Streaming items) = list_all (\<lambda>i. \<exists>b. i = Inr b) items"
| "source_complete (Buffered b) = True"

fun unpublished :: "producer_phase \<Rightarrow> string" where
  "unpublished (Reserving rest) = rest"
| "unpublished (ReserveWait n rest) = rest"
| "unpublished (Publishing rest) = rest"
| "unpublished (ConsumeStart d rest) = rest"
| "unpublished (ConsumeWait n d rest) = rest"
| "unpublished p = []"

fun slot_text :: "proxy_handoff_slot \<Rightarrow> string" where
  "slot_text (SlotFull bytes d) = bytes"
| "slot_text s = []"

definition chunk_text :: "proxy_consumer_item list \<Rightarrow> string" where
  "chunk_text items = concat (map (\<lambda>i. case i of ItemChunk b \<Rightarrow> b | _ \<Rightarrow> []) items)"

definition chunk_ok :: "string \<Rightarrow> bool" where
  "chunk_ok c \<longleftrightarrow> c \<noteq> [] \<and> length c \<le> PROXY_BODY_CHUNK_SIZE"

fun endings :: "proxy_handoff_terminal \<Rightarrow> proxy_consumer_item list set" where
  "endings Running = {[]}"
| "endings FailedPending = {[]}"
| "endings FailedDelivered = {[ItemFailed], [ItemFailed, ItemEof]}"
| "endings Clean = {[], [ItemEof]}"

definition items_shape :: "proxy_handoff_terminal \<Rightarrow> proxy_consumer_item list \<Rightarrow> bool" where
  "items_shape t items \<longleftrightarrow>
     (\<exists>cs ending. list_all chunk_ok cs \<and> ending \<in> endings t \<and> items = map ItemChunk cs @ ending)"

definition live :: "proxy_handoff_state \<Rightarrow> bool" where
  "live s \<longleftrightarrow> hs_terminal s = Running \<and> \<not> hs_consumer_closed s"

fun phase_slot_ok :: "producer_phase \<Rightarrow> proxy_handoff_slot \<Rightarrow> bool" where
  "phase_slot_ok (Reserving rest) s = (s = SlotEmpty)"
| "phase_slot_ok (ReserveWait n rest) s = False"
| "phase_slot_ok (Reading idle) s = (s = SlotReserved)"
| "phase_slot_ok (Publishing rest) s = (s = SlotReserved \<and> rest \<noteq> [])"
| "phase_slot_ok (ConsumeStart d rest) s = (s = SlotEmpty \<or> (\<exists>b. chunk_ok b \<and> s = SlotFull b d))"
| "phase_slot_ok (ConsumeWait n d rest) s = (s = SlotEmpty \<and> n \<or> (\<exists>b. chunk_ok b \<and> s = SlotFull b d))"
| "phase_slot_ok Cleaning s = (s = SlotEmpty \<or> s = SlotReserved)"
| "phase_slot_ok p s = False"

text \<open>While the handoff runs, nothing that was read is lost.\<close>

definition flow_inv :: "proxy_body_source \<Rightarrow> body_world \<Rightarrow> bool" where
  "flow_inv src w \<longleftrightarrow>
     (live (bw_state w) \<longrightarrow>
        phase_slot_ok (bw_producer w) (hs_slot (bw_state w)) \<and>
        chunk_text (bw_items w) @ slot_text (hs_slot (bw_state w)) @ unpublished (bw_producer w) @
          source_text (bw_source w) = source_text src \<and>
        source_complete (bw_source w) = source_complete src) \<and>
     (live (bw_state w) \<longrightarrow> bw_producer w = Cleaning \<longrightarrow> source_text (bw_source w) = [] \<and> source_complete src)"

definition history_inv :: "proxy_body_source \<Rightarrow> body_world \<Rightarrow> bool" where
  "history_inv src w \<longleftrightarrow>
     prefix (chunk_text (bw_items w)) (source_text src) \<and>
     items_shape (hs_terminal (bw_state w)) (bw_items w) \<and>
     (hs_terminal (bw_state w) = Clean \<longrightarrow>
        chunk_text (bw_items w) = source_text src \<and> source_complete src \<and> bw_producer w = Finished)"

text \<open>A side that sleeps has not been told of anything, and nothing it waits for has happened.\<close>

definition wake_inv :: "body_world \<Rightarrow> bool" where
  "wake_inv w \<longleftrightarrow>
     (bw_consumer w = ConsumerWaiting False \<longrightarrow>
        hs_terminal (bw_state w) = Running \<and> slot_text (hs_slot (bw_state w)) = []) \<and>
     (\<forall>d rest. bw_producer w = ConsumeWait False d rest \<longrightarrow> live (bw_state w))"

definition owner_inv :: "body_world \<Rightarrow> bool" where
  "owner_inv w \<longleftrightarrow>
     (\<not> bw_lease w \<longleftrightarrow> bw_producer w = Cleaning \<or> bw_producer w = Finished) \<and>
     (bw_consumer w = ConsumerGone \<longleftrightarrow> hs_consumer_closed (bw_state w)) \<and>
     (ItemEof \<in> set (bw_items w) \<longrightarrow> bw_consumer w = ConsumerGone)"

definition body_inv :: "proxy_body_source \<Rightarrow> body_world \<Rightarrow> bool" where
  "body_inv src w \<longleftrightarrow> flow_inv src w \<and> history_inv src w \<and> wake_inv w \<and> owner_inv w"

lemmas body_inv_defs = body_inv_def flow_inv_def history_inv_def wake_inv_def owner_inv_def

lemma chunk_text_snoc [simp]:
  "chunk_text (items @ [ItemChunk b]) = chunk_text items @ b"
  "chunk_text (items @ [ItemFailed]) = chunk_text items"
  "chunk_text (items @ [ItemEof]) = chunk_text items"
  "chunk_text [] = []"
  by (simp_all add: chunk_text_def)

lemma items_shape_snoc:
  "items_shape Running items \<Longrightarrow> chunk_ok b \<Longrightarrow> items_shape Running (items @ [ItemChunk b])"
  "items_shape FailedPending items \<Longrightarrow> items_shape FailedDelivered (items @ [ItemFailed])"
  "items_shape FailedDelivered items \<Longrightarrow> ItemEof \<notin> set items \<Longrightarrow> items_shape FailedDelivered (items @ [ItemEof])"
  "items_shape Clean items \<Longrightarrow> ItemEof \<notin> set items \<Longrightarrow> items_shape Clean (items @ [ItemEof])"
  "items_shape Running items \<Longrightarrow> items_shape FailedPending items"
  "items_shape Running items \<Longrightarrow> items_shape Clean items"
proof -
  assume "items_shape Running items" "chunk_ok b"
  then obtain cs where "list_all chunk_ok (cs @ [b])" "items @ [ItemChunk b] = map ItemChunk (cs @ [b]) @ []"
    by (auto simp: items_shape_def)
  then show "items_shape Running (items @ [ItemChunk b])"
    unfolding items_shape_def by (intro exI [of _ "cs @ [b]"] exI [of _ "[]"]) simp
qed (auto simp: items_shape_def)

lemma body_inv_init:
  "body_inv source (spawn_proxy_body source now cancelled l)"
  by (auto simp: body_inv_defs spawn_proxy_body_def handoff_new_def live_def items_shape_def)

lemma notify_sel [simp]:
  "bw_state (notify_producer w) = bw_state w" "bw_state (notify_consumer w) = bw_state w"
  "bw_consumer (notify_producer w) = bw_consumer w" "bw_producer (notify_consumer w) = bw_producer w"
  "bw_source (notify_producer w) = bw_source w" "bw_source (notify_consumer w) = bw_source w"
  "bw_items (notify_producer w) = bw_items w" "bw_items (notify_consumer w) = bw_items w"
  "bw_lease (notify_producer w) = bw_lease w" "bw_lease (notify_consumer w) = bw_lease w"
  by (simp_all add: notify_producer_def notify_consumer_def)

lemma notify_phase [simp]:
  "bw_consumer (notify_consumer w) \<noteq> ConsumerWaiting False"
  "bw_producer (notify_producer w) \<noteq> ConsumeWait False d rest"
  "bw_consumer (notify_consumer w) = ConsumerGone \<longleftrightarrow> bw_consumer w = ConsumerGone"
  "bw_producer (notify_producer w) = Cleaning \<longleftrightarrow> bw_producer w = Cleaning"
  "bw_producer (notify_producer w) = Finished \<longleftrightarrow> bw_producer w = Finished"
  "unpublished (bw_producer (notify_producer w)) = unpublished (bw_producer w)"
  by (auto simp: notify_producer_def notify_consumer_def split: consumer_phase.splits producer_phase.splits)

lemma body_inv_time: "body_inv src w \<Longrightarrow> body_inv src (w\<lparr>bw_now := n\<rparr>)"
  unfolding body_inv_defs by auto

lemma body_inv_cancel: "body_inv src w \<Longrightarrow> body_inv src (w\<lparr>bw_cancelled := c\<rparr>)"
  unfolding body_inv_defs by auto

lemma fail_locked_cases:
  "live s \<and> fail_locked s = s\<lparr>hs_slot := SlotEmpty, hs_terminal := FailedPending\<rparr> \<or> \<not> live s \<and> fail_locked s = s"
  by (auto simp: fail_locked_def live_def)

lemma fail_not_live [simp]: "\<not> live (fail_locked s)"
  by (auto simp: fail_locked_def live_def)

lemma closed_not_live [simp]: "hs_consumer_closed s \<Longrightarrow> \<not> live s"
  by (simp add: live_def)

lemma history_fail:
  "history_inv src w \<Longrightarrow> items_shape (hs_terminal (fail_locked (bw_state w))) (bw_items w) \<and>
     (hs_terminal (fail_locked (bw_state w)) = Clean \<longleftrightarrow> hs_terminal (bw_state w) = Clean)"
  by (auto simp: history_inv_def fail_locked_def items_shape_snoc)

lemma phase_slot_notify: "phase_slot_ok (bw_producer w) s \<Longrightarrow> phase_slot_ok (bw_producer (notify_producer w)) s"
  by (cases "bw_producer w") (auto simp: notify_producer_def)

lemma body_inv_notify:
  assumes "body_inv src w"
  shows "body_inv src (notify_consumer w)" "body_inv src (notify_producer w)"
proof -
  show "body_inv src (notify_consumer w)" using assms by (simp add: body_inv_defs)
  show "body_inv src (notify_producer w)"
    using assms phase_slot_notify [of w "hs_slot (bw_state w)"] by (simp add: body_inv_defs)
qed

lemma body_inv_fail:
  assumes "body_inv src w"
  shows "body_inv src (handoff_fail w)"
proof (cases "live (bw_state w)")
  case True
  then have f: "fail_locked (bw_state w) = (bw_state w)\<lparr>hs_slot := SlotEmpty, hs_terminal := FailedPending\<rparr>"
    using fail_locked_cases by blast
  have t: "hs_terminal (bw_state w) = Running" using True by (simp add: live_def)
  show ?thesis
    using assms t unfolding body_inv_defs handoff_fail_def f by (simp add: live_def items_shape_snoc)
next
  case False
  then have "fail_locked (bw_state w) = bw_state w" using fail_locked_cases by blast
  then show ?thesis using body_inv_notify assms by (simp add: handoff_fail_def)
qed

lemma fail_state: "bw_state (handoff_fail w) = fail_locked (bw_state w)" "bw_lease (handoff_fail w) = bw_lease w"
  by (simp_all add: handoff_fail_def)

text \<open>The producer may go anywhere that keeps its permits once the handoff does not run.\<close>

lemma body_inv_returning:
  assumes "body_inv src w" "\<not> live (bw_state w)" "bw_producer w \<noteq> Cleaning" "bw_producer w \<noteq> Finished"
  shows "body_inv src (w\<lparr>bw_producer := Returning\<rparr>)"
  using assms by (auto simp: body_inv_defs)

lemma body_inv_fail_returning:
  assumes "body_inv src w" "bw_producer w \<noteq> Cleaning" "bw_producer w \<noteq> Finished"
  shows "body_inv src ((handoff_fail w)\<lparr>bw_producer := Returning\<rparr>)"
proof (rule body_inv_returning [OF body_inv_fail [OF assms(1)]])
  show "\<not> live (bw_state (handoff_fail w))" by (simp add: fail_state)
  show "bw_producer (handoff_fail w) \<noteq> Cleaning" "bw_producer (handoff_fail w) \<noteq> Finished"
    using assms(2,3) by (simp_all add: handoff_fail_def)
qed

lemma failed_returning:
  "(notify_consumer (w\<lparr>bw_state := fail_locked (bw_state w)\<rparr>))\<lparr>bw_producer := Returning\<rparr> =
   (handoff_fail w)\<lparr>bw_producer := Returning\<rparr>"
  by (simp add: handoff_fail_def notify_consumer_def notify_producer_def)

lemma body_inv_close:
  assumes "body_inv src w"
  shows "body_inv src ((handoff_close w)\<lparr>bw_consumer := ConsumerGone\<rparr>)"
  using assms by (auto simp: body_inv_defs handoff_close_def close_consumer_def)

lemma body_inv_reserve:
  assumes "body_inv src w" "bw_producer w = Reserving rest \<or> bw_producer w = ReserveWait n rest"
  shows "body_inv src (reserve_pass rest w)"
proof (cases "live (bw_state w)")
  case True
  then have r: "bw_producer w = Reserving rest" and s: "hs_slot (bw_state w) = SlotEmpty"
      "hs_terminal (bw_state w) = Running" "\<not> hs_consumer_closed (bw_state w)"
    using assms by (auto simp: body_inv_def flow_inv_def live_def)
  moreover have "fail_locked (bw_state w) \<noteq> bw_state w" using True fail_not_live by metis
  ultimately show ?thesis
    using assms(1) r s body_inv_fail_returning [OF assms(1)]
    by (auto simp: reserve_pass_def reserve_section_def failed_returning) (auto simp: body_inv_defs live_def)
next
  case False
  then show ?thesis
    using assms body_inv_returning [OF assms(1) False]
    by (auto simp: reserve_pass_def reserve_section_def live_def)
qed


lemma source_next_text:
  assumes "source_next source = (item, source')"
  shows "item = SourceChunk b \<Longrightarrow> source_text source = b @ source_text source' \<and> source_complete source' = source_complete source"
    and "item = SourceEof \<Longrightarrow> source_text source = [] \<and> source_complete source \<and> source' = source"
  using assms by (induction source rule: source_next.induct) auto

lemma body_inv_source:
  assumes "body_inv src w" "bw_producer w = Reading idle" "source_next (bw_source w) = (SourceChunk b, source')"
  shows "b = [] \<Longrightarrow> body_inv src (w\<lparr>bw_source := source'\<rparr>)"
    and "b \<noteq> [] \<Longrightarrow> body_inv src (w\<lparr>bw_source := source', bw_producer := Publishing b\<rparr>)"
  using assms source_next_text(1) [OF assms(3)] by (auto simp: body_inv_defs)

lemma body_inv_eof:
  assumes "body_inv src w" "live (bw_state w)" "source_text (bw_source w) = []" "source_complete (bw_source w)"
    "unpublished (bw_producer w) = []" "hs_slot (bw_state w) = SlotEmpty \<or> hs_slot (bw_state w) = SlotReserved"
  shows "body_inv src (w\<lparr>bw_lease := False, bw_producer := Cleaning\<rparr>)"
  using assms by (auto simp: body_inv_defs live_def)

lemma body_inv_lost:
  assumes "body_inv src w" "\<not> live (bw_state w)" "bw_producer w = Reading idle"
  shows "body_inv src (w\<lparr>bw_source := s\<rparr>)"
  using assms by (auto simp: body_inv_defs)

lemma fail_source: "handoff_fail (w\<lparr>bw_source := s\<rparr>) = (handoff_fail w)\<lparr>bw_source := s\<rparr>"
  by (simp add: handoff_fail_def notify_producer_def notify_consumer_def)

lemma body_inv_read:
  assumes "body_inv src w" "bw_producer w = Reading idle"
  shows "body_inv src (read_poll idle ready w)"
proof (cases "bw_cancelled w \<or> hs_consumer_closed (bw_state w) \<or> deadline_passed (bw_fixed w) (bw_now w) \<or>
    idle \<le> bw_now w \<or> \<not> ready")
  case True
  then show ?thesis
    using assms body_inv_fail_returning [OF assms(1)] body_inv_returning [OF assms(1)]
    by (auto simp: read_poll_def)
next
  case False
  obtain item source' where n: "source_next (bw_source w) = (item, source')" by fastforce
  show ?thesis
  proof (cases item)
    case (SourceChunk b)
    then show ?thesis
      using False n body_inv_source [OF assms, of b source'] assms(2) by (auto simp: read_poll_def Let_def)
  next
    case SourceEof
    then have e: "source_text (bw_source w) = []" "source_complete (bw_source w)" "source' = bw_source w"
      using source_next_text(2) [OF n] by auto
    show ?thesis
    proof (cases "live (bw_state w)")
      case True
      then have "hs_slot (bw_state w) = SlotReserved" using assms by (auto simp: body_inv_defs)
      then show ?thesis
        using False n SourceEof e body_inv_eof [OF assms(1) True] assms(2) by (auto simp: read_poll_def)
    next
      case nl: False
      then have "body_inv src (w\<lparr>bw_lease := False, bw_producer := Cleaning\<rparr>)"
        using assms by (auto simp: body_inv_defs)
      then show ?thesis using False n SourceEof e by (auto simp: read_poll_def)
    qed
  next
    case SourceFailed
    have "body_inv src ((handoff_fail w)\<lparr>bw_source := source'\<rparr>)"
      by (rule body_inv_lost [OF body_inv_fail [OF assms(1)]])
        (use assms(2) in \<open>simp_all add: fail_state handoff_fail_def notify_producer_def notify_consumer_def\<close>)
    then have "body_inv src ((handoff_fail w)\<lparr>bw_source := source', bw_producer := Returning\<rparr>)"
      by (rule body_inv_returning)
        (use assms(2) in \<open>simp_all add: fail_state handoff_fail_def notify_producer_def notify_consumer_def\<close>)
    then show ?thesis using False n SourceFailed by (auto simp: read_poll_def fail_source)
  qed
qed

lemma chunk_ok_take: "rest \<noteq> [] \<Longrightarrow> chunk_ok (take PROXY_BODY_CHUNK_SIZE rest)"
  by (simp add: chunk_ok_def PROXY_BODY_CHUNK_SIZE_def)

lemma body_inv_publish:
  assumes "body_inv src w" "bw_producer w = Publishing rest"
  shows "body_inv src (publish_pass rest w)"
proof -
  note stop = body_inv_fail_returning [OF assms(1)]
  show ?thesis
  proof (cases "live (bw_state w) \<and> \<not> bw_cancelled w \<and> \<not> deadline_passed (bw_fixed w) (bw_now w)")
    case True
    then have s: "hs_slot (bw_state w) = SlotReserved" "rest \<noteq> []" using assms by (auto simp: body_inv_defs)
    let ?d = "delivery_deadline (bw_fixed w) (bw_now w + DOWNSTREAM_NO_PROGRESS_DEADLINE)"
    let ?w = "(notify_consumer (w\<lparr>bw_state := (bw_state w)\<lparr>hs_slot := SlotFull (take PROXY_BODY_CHUNK_SIZE rest) ?d\<rparr>\<rparr>))
      \<lparr>bw_producer := ConsumeStart ?d (drop PROXY_BODY_CHUNK_SIZE rest)\<rparr>"
    have "live (bw_state ?w)" using True by (simp add: live_def)
    then have "body_inv src ?w"
      using assms s True chunk_ok_take [OF s(2)] by (simp add: body_inv_defs) (simp add: live_def append_assoc [symmetric] del: append_assoc)
    then show ?thesis using True by (simp add: publish_pass_def publish_def Let_def live_def)
  next
    case False
    show ?thesis
    proof (cases "hs_consumer_closed (bw_state w)")
      case True
      then have "body_inv src (w\<lparr>bw_state := (bw_state w)\<lparr>hs_slot := SlotEmpty\<rparr>, bw_producer := Returning\<rparr>)"
        using assms by (auto simp: body_inv_defs)
      then show ?thesis using True by (simp add: publish_pass_def publish_def Let_def)
    next
      case unclosed: False
      then show ?thesis
        using False stop assms(2) by (auto simp: publish_pass_def publish_def Let_def live_def failed_returning)
    qed
  qed
qed

lemma body_inv_consumed:
  assumes "body_inv src w" "live (bw_state w)" "hs_slot (bw_state w) = SlotEmpty"
    "bw_producer w = ConsumeStart d rest \<or> bw_producer w = ConsumeWait n d rest"
  shows "body_inv src (consumed rest w)"
proof -
  have "body_inv src (w\<lparr>bw_producer := Reserving rest\<rparr>)" using assms by (auto simp: body_inv_defs)
  moreover have "body_inv src (w\<lparr>bw_lease := False, bw_producer := Cleaning\<rparr>)"
    if "rest = []" "is_drained (bw_source w)"
    by (rule body_inv_eof [OF assms(1,2)])
      (use assms that in \<open>cases "bw_source w"; auto\<close>)+
  ultimately show ?thesis by (auto simp: consumed_def)
qed

lemma consumed_section_live:
  "consumed_section s = Some (Inr x) \<longleftrightarrow> live s \<and> hs_slot s = SlotEmpty"
  "consumed_section s = None \<longleftrightarrow> live s \<and> hs_slot s \<noteq> SlotEmpty"
  "consumed_section s = Some (Inl e) \<Longrightarrow> \<not> live s"
  by (auto simp: consumed_section_def live_def split: if_splits)

lemma body_inv_consumed_result:
  assumes "body_inv src w" "consumed_section (bw_state w) = Some r"
    "bw_producer w = ConsumeStart d rest \<or> bw_producer w = ConsumeWait n d rest"
  shows "body_inv src (consumed_result rest r w)"
proof (cases r)
  case (Inl e)
  then have "\<not> live (bw_state w)" using assms(2) consumed_section_live(3) by blast
  then show ?thesis
    using body_inv_returning [OF assms(1)] assms(3) Inl by (auto simp: consumed_result_def)
next
  case (Inr x)
  then show ?thesis
    using assms consumed_section_live(1) body_inv_consumed [OF assms(1) _ _ assms(3)] by (simp add: consumed_result_def)
qed

lemma body_inv_consume:
  assumes "body_inv src w" "bw_producer w = ConsumeStart d rest \<or> bw_producer w = ConsumeWait n d rest"
  shows "body_inv src (consume_pass d rest w)"
proof (cases "consumed_section (bw_state w)")
  case None
  then have "live (bw_state w)" "hs_slot (bw_state w) \<noteq> SlotEmpty" using consumed_section_live(2) by blast+
  moreover from this obtain b where "hs_slot (bw_state w) = SlotFull b d" "chunk_ok b"
    using assms by (auto simp: body_inv_def flow_inv_def)
  ultimately have "body_inv src (w\<lparr>bw_producer := ConsumeWait False d rest\<rparr>)"
    using assms by (elim disjE; simp add: body_inv_defs)
  then show ?thesis using None by (simp add: consume_pass_def)
next
  case (Some r)
  then show ?thesis using body_inv_consumed_result [OF assms(1) Some assms(2)] by (simp add: consume_pass_def)
qed

lemma body_inv_consume_timeout:
  assumes "body_inv src w" "bw_producer w = ConsumeWait n d rest"
  shows "body_inv src (consume_timeout rest w)"
proof (cases "consumed_section (bw_state w)")
  case None
  have "fail_locked (bw_state w) \<noteq> bw_state w" using None consumed_section_live(2) fail_not_live by metis
  then have "consume_timeout rest w = (handoff_fail w)\<lparr>bw_producer := Returning\<rparr>"
    using None by (simp add: consume_timeout_def consumed_timeout_def consumed_result_def handoff_fail_def)
  then show ?thesis using body_inv_fail_returning [OF assms(1)] assms(2) by simp
next
  case (Some r)
  then show ?thesis
    using body_inv_consumed_result [OF assms(1) Some] assms(2) by (simp add: consume_timeout_def consumed_timeout_def)
qed

lemma body_inv_clean:
  assumes "body_inv src w" "bw_producer w = Cleaning"
  shows "body_inv src ((handoff_clean w)\<lparr>bw_producer := Finished\<rparr>)"
proof (cases "live (bw_state w) \<and> \<not> bw_cancelled w")
  case True
  then have c: "clean (bw_cancelled w) (bw_state w) = (bw_state w)\<lparr>hs_slot := SlotEmpty, hs_terminal := Clean\<rparr>"
    by (simp add: clean_def live_def)
  show ?thesis
    using assms True unfolding body_inv_defs handoff_clean_def c
    by (auto simp: live_def items_shape_snoc)
next
  case False
  then have c: "clean (bw_cancelled w) (bw_state w) = fail_locked (bw_state w)"
    by (auto simp: clean_def live_def fail_locked_def)
  have "body_inv src (handoff_fail w)" "\<not> live (bw_state (handoff_fail w))" "bw_producer (handoff_fail w) = Cleaning"
    using body_inv_fail [OF assms(1)] assms(2) by (auto simp: fail_state) (simp add: handoff_fail_def)
  then have "body_inv src ((handoff_fail w)\<lparr>bw_producer := Finished\<rparr>)"
    by (auto simp: body_inv_defs)
  then show ?thesis unfolding handoff_clean_def c by (simp add: handoff_fail_def)
qed


lemma take_section_cases:
  assumes "take_section cancelled now s = (s', item)" "\<not> hs_consumer_closed s"
  obtains (waits) "item = None" "s' = s" "hs_terminal s = Running" "slot_text (hs_slot s) = []"
    | (chunk) b d where "item = Some (ItemChunk b)" "hs_slot s = SlotFull b d" "hs_terminal s = Running"
      "s' = s\<lparr>hs_slot := SlotEmpty\<rparr>" "now < d" "\<not> cancelled"
    | (failed) "item = Some ItemFailed" "hs_terminal (fail_locked s) = FailedPending"
      "s' = (fail_locked s)\<lparr>hs_slot := SlotEmpty, hs_terminal := FailedDelivered\<rparr>"
    | (eof) "item = Some ItemEof" "s' = s" "hs_terminal s = FailedDelivered \<or> hs_terminal s = Clean"
  using assms
  by (cases "hs_terminal s"; cases "hs_slot s")
    (auto simp: take_section_def fail_locked_def slot_expired_def Let_def not_le split: if_splits)

lemma body_inv_failed_delivered:
  assumes "body_inv src w" "hs_terminal (bw_state w) = FailedPending"
  shows "body_inv src (w\<lparr>bw_state := (bw_state w)\<lparr>hs_slot := SlotEmpty, hs_terminal := FailedDelivered\<rparr>,
    bw_items := bw_items w @ [ItemFailed], bw_consumer := if hs_consumer_closed (bw_state w) then ConsumerGone else ConsumerIdle\<rparr>)"
  using assms by (auto simp: body_inv_defs live_def items_shape_snoc)

lemma body_inv_take_eof:
  assumes "body_inv src w" "hs_terminal (bw_state w) = FailedDelivered \<or> hs_terminal (bw_state w) = Clean"
    "bw_consumer w \<noteq> ConsumerGone"
  shows "body_inv src ((handoff_close (w\<lparr>bw_items := bw_items w @ [ItemEof]\<rparr>))\<lparr>bw_consumer := ConsumerGone\<rparr>)"
proof -
  let ?w = "w\<lparr>bw_items := bw_items w @ [ItemEof], bw_consumer := ConsumerGone,
    bw_state := (bw_state w)\<lparr>hs_consumer_closed := True\<rparr>\<rparr>"
  have "ItemEof \<notin> set (bw_items w)" using assms(1,3) by (auto simp: body_inv_def owner_inv_def)
  moreover have "items_shape (hs_terminal (bw_state w)) (bw_items w)" "\<not> live (bw_state w)"
    using assms(1,2) by (auto simp: body_inv_def history_inv_def live_def)
  ultimately have sh: "items_shape (hs_terminal (bw_state w)) (bw_items w @ [ItemEof])"
    using assms(2) items_shape_snoc(3,4) by metis
  have nl: "\<not> live (bw_state w)" using assms(2) by (auto simp: live_def)
  have "history_inv src w" using assms(1) by (simp add: body_inv_def)
  then have "history_inv src ?w" using sh unfolding history_inv_def by simp
  moreover have "flow_inv src ?w" by (simp add: flow_inv_def)
  moreover have "wake_inv ?w"
    using assms(1) nl unfolding body_inv_def wake_inv_def by simp
  moreover have "owner_inv ?w"
    using assms(1) unfolding body_inv_def owner_inv_def by auto
  ultimately have "body_inv src ?w" by (simp add: body_inv_def)
  then have "body_inv src ((handoff_close ?w)\<lparr>bw_consumer := ConsumerGone\<rparr>)" by (rule body_inv_close)
  then show ?thesis by (simp add: handoff_close_def close_consumer_def notify_consumer_def notify_producer_def)
qed

lemma body_inv_take_chunk:
  assumes "body_inv src w" "live (bw_state w)" "hs_slot (bw_state w) = SlotFull b d" "bw_consumer w \<noteq> ConsumerGone"
  shows "body_inv src ((notify_producer (w\<lparr>bw_state := (bw_state w)\<lparr>hs_slot := SlotEmpty\<rparr>\<rparr>))
    \<lparr>bw_consumer := ConsumerIdle, bw_items := bw_items w @ [ItemChunk b]\<rparr>)" (is "body_inv src ?w")
proof -
  have flow: "flow_inv src w" and history: "history_inv src w" and owner: "owner_inv w"
    using assms(1) by (simp_all add: body_inv_def)
  have p: "phase_slot_ok (bw_producer w) (SlotFull b d)"
      and body: "chunk_text (bw_items w) @ b @ unpublished (bw_producer w) @ source_text (bw_source w) = source_text src"
      and whole: "source_complete (bw_source w) = source_complete src"
    using flow assms(2,3) by (auto simp: flow_inv_def)
  have b: "chunk_ok b" and nc: "bw_producer w \<noteq> Cleaning" using p by (cases "bw_producer w"; auto)+
  have run: "hs_terminal (bw_state w) = Running" using assms(2) by (simp add: live_def)
  have "phase_slot_ok (bw_producer (notify_producer (w\<lparr>bw_state := s\<rparr>))) SlotEmpty" for s
    using p by (cases "bw_producer w") (auto simp: notify_producer_def)
  then have "flow_inv src ?w" using body whole nc by (simp add: flow_inv_def)
  moreover have "history_inv src ?w"
    using history run b body by (auto simp: history_inv_def items_shape_snoc prefix_def)
  moreover have "wake_inv ?w" by (simp add: wake_inv_def)
  moreover have "owner_inv ?w" using owner assms(4) by (simp add: owner_inv_def)
  ultimately show ?thesis by (simp add: body_inv_def)
qed

lemma take_pass_inv:
  assumes "body_inv src w" "bw_consumer w \<noteq> ConsumerGone"
  shows "body_inv src (take_pass w)"
proof -
  obtain s item where t: "take_section (bw_cancelled w) (bw_now w) (bw_state w) = (s, item)" by fastforce
  have c: "\<not> hs_consumer_closed (bw_state w)" using assms by (auto simp: body_inv_def owner_inv_def)
  from t c show ?thesis
  proof (cases rule: take_section_cases)
    case waits
    have "body_inv src (w\<lparr>bw_consumer := ConsumerWaiting False\<rparr>)"
      using assms waits(3,4) c unfolding body_inv_def flow_inv_def history_inv_def wake_inv_def owner_inv_def by simp
    then show ?thesis using t waits by (simp add: take_pass_def)
  next
    case (chunk b d)
    then show ?thesis
      using t c body_inv_take_chunk [OF assms(1) _ chunk(2) assms(2)] by (simp add: take_pass_def live_def)
  next
    case failed
    have i: "body_inv src (handoff_fail w)" by (rule body_inv_fail [OF assms(1)])
    have "bw_state (handoff_fail w) = fail_locked (bw_state w)" by (simp add: fail_state)
    moreover have "\<not> hs_consumer_closed (fail_locked (bw_state w))" using c by (simp add: fail_locked_def)
    ultimately have "body_inv src ((handoff_fail w)\<lparr>bw_state := s, bw_items := bw_items w @ [ItemFailed],
        bw_consumer := ConsumerIdle\<rparr>)"
      using body_inv_failed_delivered [OF i] failed by (simp add: handoff_fail_def)
    moreover have "take_pass w = (handoff_fail w)\<lparr>bw_state := s, bw_items := bw_items w @ [ItemFailed],
        bw_consumer := ConsumerIdle\<rparr>"
      using t failed(1)
      by (cases w) (simp add: take_pass_def handoff_fail_def notify_consumer_def notify_producer_def)
    ultimately show ?thesis by simp
  next
    case eof
    then show ?thesis using t body_inv_take_eof [OF assms(1) eof(3) assms(2)] by (simp add: take_pass_def)
  qed
qed

lemma body_inv_consumer_idle: "body_inv src w \<Longrightarrow> bw_consumer w \<noteq> ConsumerGone \<Longrightarrow> body_inv src (w\<lparr>bw_consumer := ConsumerIdle\<rparr>)"
  by (auto simp: body_inv_def flow_inv_def history_inv_def wake_inv_def owner_inv_def)

lemma body_inv_returns: "body_inv src w \<Longrightarrow> bw_producer w = Returning \<Longrightarrow> body_inv src (producer_returns w)"
  by (auto simp: body_inv_def flow_inv_def history_inv_def wake_inv_def owner_inv_def producer_returns_def)

lemma body_inv_step:
  assumes "body_inv src w" "body_step w w'"
  shows "body_inv src w'"
proof -
  note fails = body_inv_fail_returning [OF assms(1)]
  from assms(2) show ?thesis
  proof cases
    case dropped
    then have "bw_producer w \<noteq> Cleaning" "bw_producer w \<noteq> Finished" by auto
    then show ?thesis using fails dropped by (simp add: producer_dropped_def)
  next
    case (take_cancelled n)
    then show ?thesis
      using body_inv_consumer_idle [OF body_inv_fail [OF assms(1)]] by (simp add: handoff_fail_def)
  next
    case (take)
    then have "bw_consumer w \<noteq> ConsumerGone" by auto
    then show ?thesis using take_pass_inv [OF assms(1)] take by simp
  qed (use assms(1) fails in \<open>simp_all add: body_inv_time body_inv_cancel body_inv_reserve body_inv_read body_inv_publish
      body_inv_consume body_inv_consume_timeout body_inv_clean body_inv_returns body_inv_close\<close>)
qed

section \<open>Properties\<close>

definition body_reach :: "proxy_body_source \<Rightarrow> body_world \<Rightarrow> bool" where
  "body_reach source w \<longleftrightarrow> (\<exists>now cancelled l. body_step\<^sup>*\<^sup>* (spawn_proxy_body source now cancelled l) w)"

lemma body_reach_inv: "body_reach source w \<Longrightarrow> body_inv source w"
proof -
  assume "body_reach source w"
  then obtain now cancelled l where "body_step\<^sup>*\<^sup>* (spawn_proxy_body source now cancelled l) w"
    by (auto simp: body_reach_def)
  then show ?thesis by (induction) (auto intro: body_inv_init body_inv_step)
qed

lemma chunk_text_chunks: "chunk_text (map ItemChunk cs @ ending) = concat cs @ chunk_text ending"
  by (induction cs) (simp_all add: chunk_text_def)

lemma chunk_text_ending: "ending \<in> endings t \<Longrightarrow> chunk_text ending = []"
  by (cases t) (auto simp: chunk_text_def)

lemma take_section_cancelled:
  assumes "take_section True now s = (s', item)" "\<not> hs_consumer_closed s"
  shows "item \<noteq> Some (ItemChunk b)"
  using assms by (cases rule: take_section_cases) auto

lemma items_other_steps:
  "bw_items (handoff_fail w) = bw_items w" "bw_items (handoff_close w) = bw_items w"
  "bw_items (handoff_clean w) = bw_items w" "bw_items (reserve_pass rest w) = bw_items w"
  "bw_items (read_poll idle ready w) = bw_items w" "bw_items (publish_pass rest w) = bw_items w"
  "bw_items (consume_pass d rest w) = bw_items w" "bw_items (consume_timeout rest w) = bw_items w"
  by (auto simp: handoff_fail_def handoff_close_def handoff_clean_def reserve_pass_def read_poll_def publish_pass_def
      consume_pass_def consume_timeout_def consumed_result_def consumed_def Let_def
      split: prod.split option.split sum.split proxy_producer_stop.split proxy_source_item.split)

lemma cancelled_delivers_nothing:
  assumes "body_inv source w" "bw_cancelled w" "body_step w w'"
  shows "chunk_text (bw_items w') = chunk_text (bw_items w)"
  using assms(3)
proof cases
  case take
  then have "bw_consumer w \<noteq> ConsumerGone" by auto
  then have c: "\<not> hs_consumer_closed (bw_state w)" using assms(1) by (auto simp: body_inv_def owner_inv_def)
  obtain s item where t: "take_section True (bw_now w) (bw_state w) = (s, item)" by fastforce
  have "chunk_text (bw_items w @ [i]) = chunk_text (bw_items w)" if "item = Some i" for i
    using take_section_cancelled [OF t c] that by (cases i) auto
  then show ?thesis
    using take t assms(2)
    by (cases item; auto simp: take_pass_def Let_def items_other_steps split: proxy_consumer_item.split)
qed (simp_all add: items_other_steps producer_dropped_def producer_returns_def)

text \<open>
  Property C12.  Whatever the interleaving of producer, consumer, time, cancellation and loss of
  either side: what the consumer of a proxied body is given is a sequence of chunks of 1 to 65536
  bytes, together a prefix of the upstream body, then possibly one error, then possibly the end of
  the stream.  The end without an error is reported only after the complete body of an upstream that
  did not fail, and when the producer has released its permits.  Nothing is delivered after a
  cancellation.
\<close>

theorem bodies_arrive_whole_or_fail_once:
  assumes "body_reach source w"
  shows "(\<exists>cs ending. bw_items w = map ItemChunk cs @ ending \<and>
      ending \<in> {[], [ItemFailed], [ItemFailed, ItemEof], [ItemEof]} \<and>
      (\<forall>c \<in> set cs. 1 \<le> length c \<and> length c \<le> 65536) \<and> prefix (concat cs) (source_text source) \<and>
      (ending = [ItemEof] \<longrightarrow> concat cs = source_text source \<and> source_complete source \<and> \<not> bw_lease w)) \<and>
    (\<forall>w'. bw_cancelled w \<longrightarrow> body_step w w' \<longrightarrow> chunk_text (bw_items w') = chunk_text (bw_items w))"
proof -
  note inv = body_reach_inv [OF assms]
  obtain cs ending where i: "bw_items w = map ItemChunk cs @ ending" "list_all chunk_ok cs"
      "ending \<in> endings (hs_terminal (bw_state w))"
    using inv by (auto simp: body_inv_def history_inv_def items_shape_def)
  have c: "chunk_text (bw_items w) = concat cs" using i chunk_text_chunks chunk_text_ending by simp
  have "hs_terminal (bw_state w) = Clean" if "ending = [ItemEof]"
    using i(3) that by (cases "hs_terminal (bw_state w)") auto
  then have "concat cs = source_text source \<and> source_complete source \<and> \<not> bw_lease w" if "ending = [ItemEof]"
    using inv that c by (auto simp: body_inv_def history_inv_def owner_inv_def)
  moreover have "prefix (concat cs) (source_text source)"
    using inv c by (simp add: body_inv_def history_inv_def)
  moreover have "ending \<in> {[], [ItemFailed], [ItemFailed, ItemEof], [ItemEof]}"
    using i(3) by (cases "hs_terminal (bw_state w)") auto
  moreover have "\<forall>c \<in> set cs. 1 \<le> length c \<and> length c \<le> 65536"
    using i(2) by (auto simp: list_all_iff chunk_ok_def PROXY_BODY_CHUNK_SIZE_def Suc_le_eq)
  ultimately show ?thesis
    using i(1) cancelled_delivers_nothing [OF inv] by blast
qed

text \<open>
  Property C13.  Producer and consumer never wait for each other: while the consumer sleeps, the
  handoff runs and the producer is alive and either awake or reading the upstream; while the
  producer sleeps, a chunk lies ready and the consumer is awake or already woken.  The producer
  never has to wait for its reservation.
\<close>

theorem producer_and_consumer_never_both_wait:
  assumes "body_reach source w"
  shows "(bw_consumer w = ConsumerWaiting False \<longrightarrow>
       live (bw_state w) \<and> bw_producer w \<notin> {Returning, Finished} \<and>
       (\<forall>d rest. bw_producer w \<noteq> ConsumeWait False d rest)) \<and>
    (\<forall>d rest. bw_producer w = ConsumeWait False d rest \<longrightarrow>
       (\<exists>b. hs_slot (bw_state w) = SlotFull b d \<and> b \<noteq> []) \<and>
       (bw_consumer w = ConsumerIdle \<or> bw_consumer w = ConsumerWaiting True)) \<and>
    (live (bw_state w) \<longrightarrow> (\<forall>n rest. bw_producer w \<noteq> ReserveWait n rest))"
proof -
  note inv = body_reach_inv [OF assms]
  have slot: "live (bw_state w) \<Longrightarrow> phase_slot_ok (bw_producer w) (hs_slot (bw_state w))"
    using inv by (simp add: body_inv_def flow_inv_def)
  have sleeps: "bw_consumer w = ConsumerWaiting False \<Longrightarrow> live (bw_state w) \<and> slot_text (hs_slot (bw_state w)) = []"
    using inv by (auto simp: body_inv_def wake_inv_def owner_inv_def live_def)
  have waits: "live (bw_state w) \<and> bw_consumer w \<noteq> ConsumerGone \<and> (\<exists>b. hs_slot (bw_state w) = SlotFull b d \<and> b \<noteq> [])"
    if "bw_producer w = ConsumeWait False d rest" for d rest
  proof -
    have l: "live (bw_state w)" using inv that by (simp add: body_inv_def wake_inv_def)
    moreover have "bw_consumer w \<noteq> ConsumerGone" using l inv by (auto simp: body_inv_def owner_inv_def live_def)
    moreover have "\<exists>b. hs_slot (bw_state w) = SlotFull b d \<and> b \<noteq> []"
      using slot [OF l] that by (auto simp: chunk_ok_def)
    ultimately show ?thesis by blast
  qed
  have "bw_producer w \<notin> {Returning, Finished}" "bw_producer w \<noteq> ReserveWait n rest" if "live (bw_state w)" for n rest
    using slot [OF that] by auto
  moreover have "\<not> (bw_consumer w = ConsumerWaiting False \<and> bw_producer w = ConsumeWait False d rest)" for d rest
    using sleeps waits [of d rest] by auto
  moreover have "bw_consumer w = ConsumerIdle \<or> bw_consumer w = ConsumerWaiting True"
    if "bw_producer w = ConsumeWait False d rest" for d rest
    using waits [OF that] calculation(3) [of d rest] that by (cases "bw_consumer w") auto
  ultimately show ?thesis using sleeps waits by blast
qed

section \<open>Witnesses\<close>

definition sample_lease :: proxy_producer_lease where
  "sample_lease = \<lparr>lease_cancellation = 0, lease_peer = Unknown, lease_playlist_peer = None, lease_deadline = None\<rparr>"

definition sample_body :: "nat \<Rightarrow> body_world" where
  "sample_body n = foldl (\<lambda>w f. f w) (buffered_proxy_body ''ab'' 0 False sample_lease)
     (take n [reserve_pass [], read_poll 30000 True, publish_pass ''ab'', consume_pass 120000 [], take_pass,
        consume_pass 120000 [], (\<lambda>w. (handoff_clean w)\<lparr>bw_producer := Finished\<rparr>), take_pass])"

lemmas body_evaluation =
  sample_body_def buffered_proxy_body_def spawn_proxy_body_def sample_lease_def handoff_new_def reserve_pass_def
  reserve_section_def deadline_passed_def UPSTREAM_READ_IDLE_DEADLINE_def read_poll_def publish_pass_def
  publish_def DOWNSTREAM_NO_PROGRESS_DEADLINE_def PROXY_BODY_CHUNK_SIZE_def delivery_deadline_def
  notify_consumer_def notify_producer_def consume_pass_def consumed_section_def take_pass_def take_section_def
  slot_expired_def consumed_result_def consumed_def handoff_clean_def clean_def handoff_close_def close_consumer_def

lemma sample_body_phases:
  "bw_producer (sample_body 0) = Reserving []" "bw_producer (sample_body 1) = Reading 30000"
  "bw_producer (sample_body 2) = Publishing ''ab''" "bw_producer (sample_body 3) = ConsumeStart 120000 []"
  "bw_producer (sample_body 4) = ConsumeWait False 120000 []" "bw_consumer (sample_body 4) = ConsumerIdle"
  "bw_producer (sample_body 5) = ConsumeWait True 120000 []" "\<not> bw_cancelled (sample_body 5)" "bw_now (sample_body 5) = 0"
  "bw_producer (sample_body 6) = Cleaning" "bw_consumer (sample_body 7) = ConsumerIdle"
  "bw_items (sample_body 8) = [ItemChunk ''ab'', ItemEof]"
  by (simp_all add: body_evaluation)


lemma sample_body_steps:
  "body_step (sample_body 0) (sample_body 1)" "body_step (sample_body 1) (sample_body 2)"
  "body_step (sample_body 2) (sample_body 3)" "body_step (sample_body 3) (sample_body 4)"
  "body_step (sample_body 4) (sample_body 5)" "body_step (sample_body 5) (sample_body 6)"
  "body_step (sample_body 6) (sample_body 7)" "body_step (sample_body 7) (sample_body 8)"
proof -
  have e: "sample_body 1 = reserve_pass [] (sample_body 0)" "sample_body 2 = read_poll 30000 True (sample_body 1)"
    "sample_body 3 = publish_pass ''ab'' (sample_body 2)" "sample_body 4 = consume_pass 120000 [] (sample_body 3)"
    "sample_body 5 = take_pass (sample_body 4)" "sample_body 6 = consume_pass 120000 [] (sample_body 5)"
    "sample_body 7 = (handoff_clean (sample_body 6))\<lparr>bw_producer := Finished\<rparr>"
    "sample_body 8 = take_pass (sample_body 7)"
    by (simp_all add: sample_body_def)
  show "body_step (sample_body 0) (sample_body 1)" unfolding e(1) by (intro body_step.reserve sample_body_phases)
  show "body_step (sample_body 1) (sample_body 2)" unfolding e(2) by (intro body_step.read sample_body_phases)
  show "body_step (sample_body 2) (sample_body 3)" unfolding e(3) by (intro body_step.publish sample_body_phases)
  show "body_step (sample_body 3) (sample_body 4)" unfolding e(4) by (intro body_step.consume sample_body_phases)
  show "body_step (sample_body 4) (sample_body 5)" unfolding e(5) by (intro body_step.take disjI1 sample_body_phases)
  show "body_step (sample_body 5) (sample_body 6)"
    unfolding e(6) by (rule body_step.consume_woken) (simp_all add: sample_body_phases)
  show "body_step (sample_body 6) (sample_body 7)" unfolding e(7) by (intro body_step.cleaned sample_body_phases)
  show "body_step (sample_body 7) (sample_body 8)" unfolding e(8) by (intro body_step.take disjI1 sample_body_phases)
qed

lemma sample_body_reach: "body_reach (Buffered (Some ''ab'')) (sample_body 4)" "body_reach (Buffered (Some ''ab'')) (sample_body 8)"
proof -
  have s: "sample_body 0 = spawn_proxy_body (Buffered (Some ''ab'')) 0 False sample_lease"
    by (simp add: sample_body_def buffered_proxy_body_def)
  note step = rtranclp.rtrancl_into_rtrancl [of body_step]
  have four: "body_step\<^sup>*\<^sup>* (sample_body 0) (sample_body 4)"
    using sample_body_steps(1-4) by (meson step rtranclp.rtrancl_refl)
  then have "body_step\<^sup>*\<^sup>* (sample_body 0) (sample_body 8)"
    using sample_body_steps(5-8) by (meson step)
  with four show "body_reach (Buffered (Some ''ab'')) (sample_body 4)" "body_reach (Buffered (Some ''ab'')) (sample_body 8)"
    unfolding body_reach_def s by blast+
qed

theorem bodies_arrive_whole_or_fail_once_witness:
  "bw_items (sample_body 8) = [ItemChunk ''ab'', ItemEof] \<and> \<not> bw_lease (sample_body 8)"
proof -
  obtain cs ending where "bw_items (sample_body 8) = map ItemChunk cs @ ending"
      "ending \<in> {[], [ItemFailed], [ItemFailed, ItemEof], [ItemEof]}" "ending = [ItemEof] \<longrightarrow> \<not> bw_lease (sample_body 8)"
    using bodies_arrive_whole_or_fail_once [OF sample_body_reach(2)] by blast
  then have "ending = [ItemEof]" "ending = [ItemEof] \<longrightarrow> \<not> bw_lease (sample_body 8)"
    unfolding sample_body_phases(12) by (auto simp: Cons_eq_append_conv Cons_eq_map_conv append_eq_Cons_conv)
  then show ?thesis by (simp add: sample_body_phases)
qed

theorem producer_and_consumer_never_both_wait_witness:
  "\<exists>b. hs_slot (bw_state (sample_body 4)) = SlotFull b 120000 \<and> b \<noteq> []"
  using producer_and_consumer_never_both_wait [OF sample_body_reach(1)] sample_body_phases(5) by blast

end
