(* ===== verification/ProxyFetch.thy ===== *)
theory ProxyFetch
  imports Playlist ProxyBody
begin

text \<open>
  Fetching through the proxy (\<open>server/src/routes/proxy.rs\<close>): the loop that follows redirects and
  validates every hop, the collection of a playlist body, and the two handlers that put admission,
  parsing, fetching, rewriting and delivery together.

  What the network and the other tasks do during one turn of the loop is a \<open>hop_env\<close>; the state
  shared with other requests is passed along, and \<open>he_others\<close> is what they do to it between two
  turns.  A run returns the requests that were sent.  \<open>HeaderValue::to_str\<close> is the parameter
  \<open>to_str\<close>.  Dropping a context or a lease gives its permits back; \<open>None\<close> would be a panic of a
  destructor.

  Shown here: at most six requests are sent, each to a validated destination and marked with the hop
  header; credentials and custom headers stay at the origin they were given for; and a handler gives
  back every permit it takes, at once or with the lease of the body.
\<close>

section \<open>One turn of the redirect loop\<close>

record proxy_shared =
  sh_rt :: proxy_runtime
  sh_validator :: validator

record upstream_reply =
  up_status :: nat
  up_headers :: header_map
  up_length :: "nat option"
  up_body :: "(nat \<times> (proxy_source_error, string) result) list"
  up_end :: nat

datatype send_outcome = SendFailed | SendTimedOut | SendReply upstream_reply

record hop_env =
  he_others :: "proxy_shared \<Rightarrow> proxy_shared"
  he_validator :: validator_env
  he_timed_out :: bool
  he_cancelled_validating :: bool
  he_client_builds :: bool
  he_cancelled_sending :: bool
  he_outcome :: send_outcome

record 'u sent_request =
  sq_method :: string
  sq_url :: 'u
  sq_pinned :: "(string \<times> socket_addr list) option"
  sq_headers :: header_map
  sq_accept_invalid_certs :: bool

record 'u fetched_proxy_response =
  fp_response :: upstream_reply
  fp_final_url :: 'u
  fp_custom_request_headers :: header_map
  fp_response_headers :: header_map
  fp_credential_bearing :: bool

record 'u fetch_state =
  fs_target :: 'u
  fs_automatic :: header_map
  fs_custom :: header_map
  fs_redirects :: nat
  fs_credential :: bool

datatype 'u hop_result =
    HopFailed proxy_error
  | HopDone "'u fetched_proxy_response"
  | HopRedirect "'u fetch_state"

definition await_response_headers :: "bool \<Rightarrow> send_outcome \<Rightarrow> (proxy_error, upstream_reply) result" where
  "await_response_headers cancelled outcome =
     (if cancelled then Inl PeCancelled
      else case outcome of SendReply r \<Rightarrow> Inr r | SendTimedOut \<Rightarrow> Inl PeUpstream | SendFailed \<Rightarrow> Inl PeUpstream)"

definition REDIRECT_STATUSES :: "nat list" where
  "REDIRECT_STATUSES = [301, 302, 303, 307, 308]"

definition AUTOMATIC_REQUEST_HEADERS :: "string list" where
  "AUTOMATIC_REQUEST_HEADERS = [''accept'', ''accept-language'', ''range'', ''if-range'', ''user-agent'']"

definition automatic_headers :: "header_map \<Rightarrow> header_map" where
  "automatic_headers incoming =
     foldl (\<lambda>m name. case hm_get incoming name of None \<Rightarrow> m | Some v \<Rightarrow> hm_insert name v m) []
       AUTOMATIC_REQUEST_HEADERS"

definition apply_redirect_origin_policy ::
  "'u proxy_url_api \<Rightarrow> 'u \<Rightarrow> 'u \<Rightarrow> header_map \<Rightarrow> header_map \<Rightarrow> 'u \<times> header_map \<times> header_map" where
  "apply_redirect_origin_policy uapi current next automatic custom =
     (if \<not> same_origin uapi current next
      then (pu_set_password uapi None (pu_set_username uapi [] next), hm_remove ''if-range'' automatic, [])
      else (next, automatic, custom))"

definition redirect_target ::
  "'u proxy_url_api \<Rightarrow> (string \<Rightarrow> string option) \<Rightarrow> 'u \<Rightarrow> upstream_reply \<Rightarrow> (proxy_error, 'u) result" where
  "redirect_target uapi to_str current reply =
     rbind (ok_or PeUpstream (Option.bind (hm_get (up_headers reply) ''location'') to_str)) (\<lambda>location.
       rbind (ok_or PeUpstream (pu_join uapi current location)) (\<lambda>next.
         if url_scheme uapi current = ''https'' \<and> url_scheme uapi next = ''http'' then Inl PeUpstream
         else if url_scheme uapi next \<notin> {''http'', ''https''} \<or> url_host uapi next = None then Inl PeUpstream
         else
           let next' = url_without_fragment uapi next
           in if length (pu_as_str uapi next') > MAX_TARGET_URL then Inl PeUpstream else Inr next'))"

definition hop_request ::
  "proxy_runtime \<Rightarrow> proxy_request_context \<Rightarrow> string \<Rightarrow> 'u fetch_state \<Rightarrow> 'u resolved_destination \<Rightarrow>
   'u sent_request" where
  "hop_request rt c http_method st d =
     \<lparr>sq_method = http_method, sq_url = rd_url d, sq_pinned = map_option (\<lambda>domain. (domain, rd_addrs d)) (rd_domain d),
      sq_headers = hm_insert PROXY_HOP_HEADER_NAME (rt_hop_marker rt)
        (hm_insert ''accept-encoding'' ''identity'' (hm_insert_all (hm_iter (fs_custom st)) (fs_automatic st))),
      sq_accept_invalid_certs = ps_invalid_tls (ctx_settings c)\<rparr>"

definition carries_credentials :: "'u proxy_url_api \<Rightarrow> 'u \<Rightarrow> bool" where
  "carries_credentials uapi url \<longleftrightarrow> pu_username uapi url \<noteq> [] \<or> pu_password uapi url \<noteq> None"

definition after_reply ::
  "'u proxy_url_api \<Rightarrow> (string \<Rightarrow> string option) \<Rightarrow> header_map \<Rightarrow> 'u fetch_state \<Rightarrow> 'u \<Rightarrow> bool \<Rightarrow>
   upstream_reply \<Rightarrow> 'u hop_result" where
  "after_reply uapi to_str response_headers st url credential_bearing reply =
     (if up_status reply = 101 then HopFailed PeUpstream
      else if up_status reply \<notin> set REDIRECT_STATUSES
      then HopDone \<lparr>fp_response = reply, fp_final_url = url, fp_custom_request_headers = fs_custom st,
                    fp_response_headers = response_headers, fp_credential_bearing = credential_bearing\<rparr>
      else if fs_redirects st \<ge> 5 then HopFailed PeUpstream
      else case redirect_target uapi to_str url reply of
          Inl e \<Rightarrow> HopFailed e
        | Inr next \<Rightarrow>
            let (target, automatic, custom) =
                  apply_redirect_origin_policy uapi url next (fs_automatic st) (fs_custom st)
            in HopRedirect \<lparr>fs_target = target, fs_automatic = automatic, fs_custom = custom,
                            fs_redirects = fs_redirects st + 1, fs_credential = credential_bearing\<rparr>)"

text \<open>
  A request counts as sent unless its token was cancelled before the first poll.
\<close>

definition fetch_hop ::
  "ipnet_api \<Rightarrow> 'u proxy_url_api \<Rightarrow> (string \<Rightarrow> string option) \<Rightarrow> hop_env \<Rightarrow> proxy_request_context \<Rightarrow> string \<Rightarrow>
   header_map \<Rightarrow> 'u fetch_state \<Rightarrow> proxy_shared \<Rightarrow> proxy_shared \<times> 'u sent_request list \<times> 'u hop_result" where
  "fetch_hop api uapi to_str he c http_method response_headers st sh0 =
     (let sh1 = he_others he sh0;
          (v, r) = runtime_validate api (url_api.truncate uapi) (he_validator he) (he_timed_out he)
                     (he_cancelled_validating he) (sh_rt sh1) (sh_validator sh1) c (fs_target st);
          sh = sh1\<lparr>sh_validator := v\<rparr>
      in case r of
           Inl e \<Rightarrow> (sh, [], HopFailed (from_destination_error e))
         | Inr d \<Rightarrow>
             let credential = (fs_credential st \<or> carries_credentials uapi (rd_url d) \<or> fs_custom st \<noteq> []);
                 q = hop_request (sh_rt sh) c http_method st d;
                 cancelled = (ctx_cancellation c \<in> rt_cancelled (sh_rt sh))
             in if \<not> he_client_builds he then (sh, [], HopFailed PeUpstream)
                else case await_response_headers (cancelled \<or> he_cancelled_sending he) (he_outcome he) of
                    Inl e \<Rightarrow> (sh, if cancelled then [] else [q], HopFailed e)
                  | Inr reply \<Rightarrow> (sh, [q], after_reply uapi to_str response_headers st (rd_url d) credential reply))"

lemma fetch_hop_redirect:
  "fetch_hop api uapi to_str he c http_method rh st sh = (sh', sent, HopRedirect st') \<Longrightarrow>
   fs_redirects st < 5 \<and> fs_redirects st' = fs_redirects st + 1"
  by (auto simp: fetch_hop_def after_reply_def Let_def
      split: prod.splits sum.splits if_splits)

section \<open>The redirect loop\<close>

function fetch_loop ::
  "ipnet_api \<Rightarrow> 'u proxy_url_api \<Rightarrow> (string \<Rightarrow> string option) \<Rightarrow> (nat \<Rightarrow> hop_env) \<Rightarrow> proxy_request_context \<Rightarrow>
   string \<Rightarrow> header_map \<Rightarrow> 'u fetch_state \<Rightarrow> proxy_shared \<Rightarrow>
   proxy_shared \<times> 'u sent_request list \<times> (proxy_error, 'u fetched_proxy_response) result" where
  "fetch_loop api uapi to_str hops c http_method response_headers st sh =
     (case fetch_hop api uapi to_str (hops (fs_redirects st)) c http_method response_headers st sh of
        (sh', sent, HopFailed e) \<Rightarrow> (sh', sent, Inl e)
      | (sh', sent, HopDone f) \<Rightarrow> (sh', sent, Inr f)
      | (sh', sent, HopRedirect st') \<Rightarrow>
          (case fetch_loop api uapi to_str hops c http_method response_headers st' sh' of
             (sh'', sent', r) \<Rightarrow> (sh'', sent @ sent', r)))"
  by pat_completeness auto
termination
  by (relation "measure (\<lambda>(api, uapi, to_str, hops, c, m, rh, st, sh). 6 - fs_redirects st)")
    (auto dest!: sym [THEN fetch_hop_redirect])

declare fetch_loop.simps [simp del]

definition fetch_with_redirects ::
  "ipnet_api \<Rightarrow> 'u proxy_url_api \<Rightarrow> (string \<Rightarrow> string option) \<Rightarrow> (nat \<Rightarrow> hop_env) \<Rightarrow> proxy_request_context \<Rightarrow>
   'u parsed_proxy_request \<Rightarrow> string \<Rightarrow> header_map \<Rightarrow> proxy_shared \<Rightarrow>
   proxy_shared \<times> 'u sent_request list \<times> (proxy_error, 'u fetched_proxy_response) result" where
  "fetch_with_redirects api uapi to_str hops c request http_method incoming sh =
     fetch_loop api uapi to_str hops c http_method (pr_response_headers request)
       \<lparr>fs_target = pr_target request, fs_automatic = automatic_headers incoming,
        fs_custom = pr_request_headers request, fs_redirects = 0, fs_credential = False\<rparr> sh"

section \<open>Collecting a playlist\<close>

definition PLAYLIST_LIFETIME_DEADLINE :: nat where "PLAYLIST_LIFETIME_DEADLINE = 120 * 1000"

definition declared_playlist_length_exceeds_limit :: "upstream_reply \<Rightarrow> bool" where
  "declared_playlist_length_exceeds_limit response \<longleftrightarrow>
     (case up_length response of None \<Rightarrow> False | Some n \<Rightarrow> n > MAX_PLAYLIST_INPUT)"

definition reserve_playlist_input :: "string \<Rightarrow> nat \<Rightarrow> (proxy_error, unit) result" where
  "reserve_playlist_input bytes additional =
     rbind (ok_or PeUpstream (checked_add_u64 (length bytes) additional)) (\<lambda>next_length.
       if next_length > MAX_PLAYLIST_INPUT then Inl PeUpstream else Inr ())"

text \<open>
  An answer of the upstream has the time it arrives at, and the stream ends at the time \<open>finish\<close>;
  \<open>cancel_at\<close> is when the token is cancelled.  The branches of the \<open>select!\<close> before the answer:
\<close>

definition collect_stopped :: "nat option \<Rightarrow> nat \<Rightarrow> nat \<Rightarrow> nat \<Rightarrow> proxy_error option" where
  "collect_stopped cancel_at collection_deadline read_deadline now =
     (if deadline_passed cancel_at (min now (min collection_deadline read_deadline)) then Some PeCancelled
      else if now \<ge> collection_deadline then Some PeUpstream
      else if now \<ge> read_deadline then Some PeUpstream
      else None)"

fun collect_loop ::
  "nat option \<Rightarrow> nat \<Rightarrow> nat \<Rightarrow> string \<Rightarrow> (nat \<times> (proxy_source_error, string) result) list \<Rightarrow> nat \<Rightarrow>
   (proxy_error, string) result" where
  "collect_loop cancel_at collection_deadline read_deadline bytes [] finish =
     (case collect_stopped cancel_at collection_deadline read_deadline finish of
        Some e \<Rightarrow> Inl e
      | None \<Rightarrow> Inr bytes)"
| "collect_loop cancel_at collection_deadline read_deadline bytes ((now, item) # answers) finish =
     (case collect_stopped cancel_at collection_deadline read_deadline now of
        Some e \<Rightarrow> Inl e
      | None \<Rightarrow>
          (case item of
             Inl e \<Rightarrow> Inl PeUpstream
           | Inr chunk \<Rightarrow>
               if chunk = [] then collect_loop cancel_at collection_deadline read_deadline bytes answers finish
               else rbind (reserve_playlist_input bytes (length chunk)) (\<lambda>_.
                      collect_loop cancel_at collection_deadline (now + UPSTREAM_READ_IDLE_DEADLINE)
                        (bytes @ chunk) answers finish)))"

definition collect_playlist_stream ::
  "nat option \<Rightarrow> nat \<Rightarrow> nat \<Rightarrow> nat option \<Rightarrow> (nat \<times> (proxy_source_error, string) result) list \<Rightarrow> nat \<Rightarrow>
   (proxy_error, string) result" where
  "collect_playlist_stream cancel_at now collection_deadline declared_length answers finish =
     rbind (case declared_length of None \<Rightarrow> Inr () | Some n \<Rightarrow> reserve_playlist_input [] n) (\<lambda>_.
       collect_loop cancel_at collection_deadline (now + UPSTREAM_READ_IDLE_DEADLINE) [] answers finish)"

definition collect_playlist_until ::
  "nat option \<Rightarrow> nat \<Rightarrow> nat \<Rightarrow> upstream_reply \<Rightarrow> (proxy_error, string) result" where
  "collect_playlist_until cancel_at now collection_deadline response =
     (if declared_playlist_length_exceeds_limit response then Inl PeUpstream
      else collect_playlist_stream cancel_at now collection_deadline (up_length response) (up_body response)
             (up_end response))"

section \<open>The handlers\<close>

text \<open>
  How the wait for the rewriting thread ends: with its result, with the cancellation of the request
  or with the loss of the worker.
\<close>

datatype off_thread = OffCompleted | OffCancelled | OffWorkerLost

definition run_playlist_rewrite_off_thread ::
  "'u proxy_url_api \<Rightarrow> off_thread \<Rightarrow> 'u rewrite_context \<Rightarrow> string \<Rightarrow> (proxy_error, string) result" where
  "run_playlist_rewrite_off_thread uapi event cx input =
     (case event of
        OffCompleted \<Rightarrow> run_playlist_rewrite_job uapi cx input
      | OffCancelled \<Rightarrow> Inl PeCancelled
      | OffWorkerLost \<Rightarrow> Inl PeUpstream)"

record handler_env =
  hn_hops :: "nat \<Rightarrow> hop_env"
  hn_cancel_at :: "nat option"
  hn_now :: nat
  hn_off_thread :: off_thread
  hn_rewrite_cancelled :: "nat \<Rightarrow> bool"
  hn_rewritten_now :: nat

datatype proxy_body = BodyText string | BodyDelivery body_world proxy_producer_lease

definition error_response :: "proxy_error \<Rightarrow> proxy_body proxy_response" where
  "error_response e =
     \<lparr>rs_status = rs_status (proxy_error_response e), rs_headers = rs_headers (proxy_error_response e),
      rs_body = BodyText (rs_body (proxy_error_response e))\<rparr>"

definition give_back :: "(proxy_runtime \<Rightarrow> proxy_runtime option) \<Rightarrow> proxy_shared \<Rightarrow> proxy_shared option" where
  "give_back release sh = map_option (\<lambda>rt. sh\<lparr>sh_rt := rt\<rparr>) (release (sh_rt sh))"

definition drop_both :: "proxy_request_context \<Rightarrow> proxy_peer \<Rightarrow> proxy_runtime \<Rightarrow> proxy_runtime option" where
  "drop_both c p rt = Option.bind (drop_playlist_permit rt p) (\<lambda>rt'. drop_context rt' c)"

definition is_playlist_response :: "'u proxy_url_api \<Rightarrow> 'u fetched_proxy_response \<Rightarrow> bool" where
  "is_playlist_response uapi f \<longleftrightarrow>
     ends_with ''.m3u8'' (pu_path uapi (fp_final_url f)) \<or> ends_with ''.m3u'' (pu_path uapi (fp_final_url f)) \<or>
     (case hm_get (fp_response_headers f) ''content-type'' of
        Some v \<Rightarrow> content_type_is_playlist v
      | None \<Rightarrow>
          (case hm_get (up_headers (fp_response f)) ''content-type'' of
             Some v \<Rightarrow> content_type_is_playlist v
           | None \<Rightarrow> False))"

definition must_transform :: "'u proxy_url_api \<Rightarrow> string \<Rightarrow> 'u fetched_proxy_response \<Rightarrow> bool" where
  "must_transform uapi http_method f \<longleftrightarrow>
     is_playlist_response uapi f \<and> http_method \<noteq> ''HEAD'' \<and> up_status (fp_response f) = 200 \<and>
     \<not> cache_control_forbids_transform (up_headers (fp_response f))"

definition fetched_response :: "'u fetched_proxy_response \<Rightarrow> proxy_body \<Rightarrow> bool \<Rightarrow> proxy_body proxy_response" where
  "fetched_response f body rewritten =
     build_proxy_response (up_status (fp_response f)) (up_headers (fp_response f)) (fp_response_headers f) body
       rewritten (fp_credential_bearing f)"

definition token_cancelled :: "proxy_shared \<Rightarrow> proxy_producer_lease \<Rightarrow> bool" where
  "token_cancelled sh l \<longleftrightarrow> lease_cancellation l \<in> rt_cancelled (sh_rt sh)"

definition respond_rewritten ::
  "'u proxy_url_api \<Rightarrow> handler_env \<Rightarrow> proxy_request_context \<Rightarrow> 'u fetched_proxy_response \<Rightarrow> proxy_shared \<Rightarrow>
   proxy_shared option \<times> proxy_body proxy_response" where
  "respond_rewritten uapi hn c f sh =
     (if \<not> content_encoding_is_identity_only (up_headers (fp_response f)) \<or>
         declared_playlist_length_exceeds_limit (fp_response f)
      then (give_back (\<lambda>rt. drop_context rt c) sh, error_response PeUpstream)
      else case try_playlist (sh_rt sh) c of
          (rt, Inl _) \<Rightarrow> (give_back (\<lambda>rt. drop_context rt c) (sh\<lparr>sh_rt := rt\<rparr>), error_response PeCapacity)
        | (rt, Inr p) \<Rightarrow>
            let sh' = sh\<lparr>sh_rt := rt\<rparr>;
                cx = \<lparr>rw_base_url = fp_final_url f, rw_request_headers = fp_custom_request_headers f,
                      rw_response_headers = fp_response_headers f, rw_cancelled = hn_rewrite_cancelled hn\<rparr>
            in case rbind (collect_playlist_until (hn_cancel_at hn) (hn_now hn)
                             (hn_now hn + PLAYLIST_LIFETIME_DEADLINE) (fp_response f))
                      (run_playlist_rewrite_off_thread uapi (hn_off_thread hn) cx) of
                Inl e \<Rightarrow> (give_back (drop_both c p) sh', error_response e)
              | Inr body \<Rightarrow>
                  let l = into_playlist_producer_lease c p (hn_rewritten_now hn + DOWNSTREAM_NO_PROGRESS_DEADLINE)
                  in (Some sh', fetched_response f
                        (BodyDelivery (buffered_proxy_body body (hn_rewritten_now hn) (token_cancelled sh' l) l) l) True))"

definition respond_streaming ::
  "handler_env \<Rightarrow> proxy_request_context \<Rightarrow> 'u fetched_proxy_response \<Rightarrow> proxy_shared \<Rightarrow>
   proxy_shared option \<times> proxy_body proxy_response" where
  "respond_streaming hn c f sh =
     (let l = into_producer_lease c
      in (Some sh, fetched_response f
            (BodyDelivery (streaming_proxy_body (map snd (up_body (fp_response f))) (hn_now hn)
               (token_cancelled sh l) l) l) False))"

definition handle_proxy_suffix_for_peer ::
  "ipnet_api \<Rightarrow> 'u proxy_url_api \<Rightarrow> header_api \<Rightarrow> (string \<Rightarrow> string option) \<Rightarrow> (string \<Rightarrow> string \<Rightarrow> bool) \<Rightarrow>
   handler_env \<Rightarrow> ip_addr option \<Rightarrow> string \<Rightarrow> header_map \<Rightarrow> string \<Rightarrow> proxy_shared \<Rightarrow>
   proxy_shared option \<times> 'u sent_request list \<times> proxy_body proxy_response" where
  "handle_proxy_suffix_for_peer api uapi hapi to_str ct_eq hn peer raw_suffix headers http_method sh =
     (if length raw_suffix > MAX_PROXY_INPUT then (Some sh, [], error_response PeInvalidRequest)
      else if matches_inbound_hop_marker ct_eq (sh_rt sh) (hm_get_all headers) then (Some sh, [], error_response PeBlocked)
      else if http_method = ''CONNECT'' then (Some sh, [], error_response PeInvalidRequest)
      else case try_request_for_peer (sh_rt sh) peer of
          (rt, Inl _) \<Rightarrow> (Some (sh\<lparr>sh_rt := rt\<rparr>), [], error_response PeCapacity)
        | (rt, Inr c) \<Rightarrow>
            let sh1 = sh\<lparr>sh_rt := rt\<rparr>
            in case parse_proxy_suffix uapi hapi raw_suffix of
                Inl e \<Rightarrow> (give_back (\<lambda>rt. drop_context rt c) sh1, [], error_response e)
              | Inr request \<Rightarrow>
                  (case fetch_with_redirects api uapi to_str (hn_hops hn) c request http_method headers sh1 of
                     (sh2, sent, Inl e) \<Rightarrow> (give_back (\<lambda>rt. drop_context rt c) sh2, sent, error_response e)
                   | (sh2, sent, Inr f) \<Rightarrow>
                       (let (sh3, response) =
                              (if must_transform uapi http_method f then respond_rewritten uapi hn c f sh2
                               else respond_streaming hn c f sh2)
                        in (sh3, sent, response))))"

definition handle_proxy_for_peer ::
  "ipnet_api \<Rightarrow> 'u proxy_url_api \<Rightarrow> header_api \<Rightarrow> (string \<Rightarrow> string option) \<Rightarrow> (string \<Rightarrow> string \<Rightarrow> bool) \<Rightarrow>
   handler_env \<Rightarrow> ip_addr option \<Rightarrow> string \<Rightarrow> header_map \<Rightarrow> string \<Rightarrow> proxy_shared \<Rightarrow>
   proxy_shared option \<times> 'u sent_request list \<times> proxy_body proxy_response" where
  "handle_proxy_for_peer api uapi hapi to_str ct_eq hn peer raw_target headers http_method sh =
     (case strip_prefix ''/proxy'' raw_target of
        None \<Rightarrow> (Some sh, [], error_response PeInvalidRequest)
      | Some raw_suffix \<Rightarrow>
          if raw_suffix = [] \<or> starts_with ''/'' raw_suffix \<or> starts_with ''?'' raw_suffix
          then handle_proxy_suffix_for_peer api uapi hapi to_str ct_eq hn peer raw_suffix headers http_method sh
          else (Some sh, [], error_response PeInvalidRequest))"

text \<open>
  Fetching a media source for the server itself: \<open>None\<close> for the shared state is a panic; the lease
  stays with the caller.
\<close>

definition fetch_media_source ::
  "ipnet_api \<Rightarrow> 'u proxy_url_api \<Rightarrow> (string \<Rightarrow> string option) \<Rightarrow> (nat \<Rightarrow> hop_env) \<Rightarrow> 'u \<Rightarrow> string \<Rightarrow>
   string option \<Rightarrow> proxy_shared \<Rightarrow>
   proxy_shared option \<times> 'u sent_request list \<times> (proxy_error, upstream_reply \<times> proxy_producer_lease) result" where
  "fetch_media_source api uapi to_str hops target http_method range_header sh =
     (if http_method \<noteq> ''GET'' \<and> http_method \<noteq> ''HEAD'' then (Some sh, [], Inl PeInvalidRequest)
      else case try_request_for_peer (sh_rt sh) None of
          (rt, Inl _) \<Rightarrow> (Some (sh\<lparr>sh_rt := rt\<rparr>), [], Inl PeCapacity)
        | (rt, Inr c) \<Rightarrow>
            let request = \<lparr>pr_target = target, pr_request_headers = [], pr_response_headers = []\<rparr>;
                incoming = (case range_header of None \<Rightarrow> [] | Some r \<Rightarrow> hm_insert ''range'' r [])
            in case fetch_with_redirects api uapi to_str hops c request http_method incoming (sh\<lparr>sh_rt := rt\<rparr>) of
                (sh', sent, Inl e) \<Rightarrow> (give_back (\<lambda>rt. drop_context rt c) sh', sent, Inl e)
              | (sh', sent, Inr f) \<Rightarrow> (Some sh', sent, Inr (fp_response f, into_producer_lease c)))"

section \<open>What a turn of the loop does\<close>

text \<open>What the code relies on of the \<open>url\<close> crate: the setters change only their own part.\<close>

definition redirect_url_contract :: "'u proxy_url_api \<Rightarrow> bool" where
  "redirect_url_contract uapi \<longleftrightarrow>
     (\<forall>u u'. u' = url_without_fragment uapi u \<or> (\<exists>s. u' = pu_set_username uapi s u) \<or> (\<exists>p. u' = pu_set_password uapi p u) \<longrightarrow>
        url_scheme uapi u' = url_scheme uapi u \<and> url_host uapi u' = url_host uapi u \<and>
        url_port_or_known_default uapi u' = url_port_or_known_default uapi u) \<and>
     (\<forall>u. carries_credentials uapi (url_without_fragment uapi u) = carries_credentials uapi u) \<and>
     (\<forall>u. url_scheme uapi u \<in> {''http'', ''https''} \<and> url_host uapi u \<noteq> None \<longrightarrow>
        \<not> carries_credentials uapi (pu_set_password uapi None (pu_set_username uapi [] u)))"

lemma contract_same_origin:
  assumes "redirect_url_contract uapi"
  shows "same_origin uapi a (url_without_fragment uapi u) = same_origin uapi a u"
    and "same_origin uapi a (pu_set_password uapi p (pu_set_username uapi s u)) = same_origin uapi a u"
    and "url_scheme uapi (url_without_fragment uapi u) = url_scheme uapi u"
    and "url_host uapi (url_without_fragment uapi u) = url_host uapi u"
    and "url_scheme uapi (pu_set_password uapi p (pu_set_username uapi s u)) = url_scheme uapi u"
  using assms unfolding redirect_url_contract_def same_origin_def by metis+

lemma contract_clears:
  assumes "redirect_url_contract uapi" "url_scheme uapi u \<in> {''http'', ''https''}" "url_host uapi u \<noteq> None"
  shows "\<not> carries_credentials uapi (pu_set_password uapi None (pu_set_username uapi [] u))"
  using assms unfolding redirect_url_contract_def by blast

lemma contract_fragment:
  "redirect_url_contract uapi \<Longrightarrow> carries_credentials uapi (url_without_fragment uapi u) = carries_credentials uapi u"
  unfolding redirect_url_contract_def by blast

lemma validated_url:
  assumes "runtime_validate api uapi env t x rt v c url = (v', Inr d)"
  shows "rd_url d = url_without_fragment uapi url"
  using assms
  by (auto simp: runtime_validate_def validate_def validate_inner_def Let_def split: if_splits option.splits host.splits
      dest!: arg_cong [where f = snd] admit_InrD)

text \<open>The addresses a request can reach, under the settings of its context.\<close>

definition destination_admitted :: "ipnet_api \<Rightarrow> proxy_request_context \<Rightarrow> 'u resolved_destination \<Rightarrow> bool" where
  "destination_admitted api c d \<longleftrightarrow>
     (\<exists>local nat64 ls. \<forall>a \<in> set (rd_addrs d).
        address_admitted api ls local nat64 \<lparr>allow_private_network_sources = ps_private (ctx_settings c)\<rparr> a)"

lemma validated_admitted:
  assumes "runtime_validate api uapi env t x rt v c url = (v', Inr d)"
  shows "destination_admitted api c d \<and> rd_addrs d \<noteq> []"
proof -
  let ?policy = "\<lparr>allow_private_network_sources = ps_private (ctx_settings c)\<rparr>"
  have "snd (validate_inner api uapi env v url ?policy) = Inr d"
    using assms by (auto simp: runtime_validate_def validate_def split: if_splits)
  then obtain local as u dn where "snd (admit api env v as local ?policy u dn) = Inr d" "as \<noteq> []"
    using validate_inner_InrD by metis
  then show ?thesis
    using admit_InrD [of api env v as local ?policy u dn d] unfolding destination_admitted_def by metis
qed

lemma fetch_hop_cases:
  assumes "fetch_hop api uapi to_str he c http_method rh st sh = (sh', sent, r)"
  obtains (unsent) e where "sent = []" "r = HopFailed e" "sh_rt sh' = sh_rt (he_others he sh)"
  | (one) d v v' where
      "runtime_validate api (url_api.truncate uapi) (he_validator he) (he_timed_out he) (he_cancelled_validating he)
         (sh_rt (he_others he sh)) v c (fs_target st) = (v', Inr d)"
      "sh_rt sh' = sh_rt (he_others he sh)" "sent = [hop_request (sh_rt sh') c http_method st d]"
      "(\<exists>e. r = HopFailed e) \<or> (\<exists>reply. r = after_reply uapi to_str rh st (rd_url d)
         (fs_credential st \<or> carries_credentials uapi (rd_url d) \<or> fs_custom st \<noteq> []) reply)"
proof -
  obtain v' res where val: "runtime_validate api (url_api.truncate uapi) (he_validator he) (he_timed_out he)
      (he_cancelled_validating he) (sh_rt (he_others he sh)) (sh_validator (he_others he sh)) c (fs_target st) = (v', res)"
    by fastforce
  have shared: "sh_rt sh' = sh_rt (he_others he sh)"
    using assms val by (auto simp: fetch_hop_def Let_def split: if_splits sum.splits)
  show ?thesis
  proof (cases "sent = []")
    case True
    then have "\<exists>e. r = HopFailed e"
      using assms val by (auto simp: fetch_hop_def Let_def split: if_splits sum.splits)
    then show ?thesis using unsent True shared by blast
  next
    case False
    then obtain d where d: "res = Inr d"
      using assms val by (cases res) (auto simp: fetch_hop_def Let_def)
    moreover have "sent = [hop_request (sh_rt sh') c http_method st d]"
      using False assms val d by (auto simp: fetch_hop_def Let_def split: if_splits sum.splits)
    moreover have "(\<exists>e. r = HopFailed e) \<or> (\<exists>reply. r = after_reply uapi to_str rh st (rd_url d)
         (fs_credential st \<or> carries_credentials uapi (rd_url d) \<or> fs_custom st \<noteq> []) reply)"
      using False assms val d by (auto simp: fetch_hop_def Let_def split: if_splits sum.splits)
    ultimately show ?thesis using one [OF _ shared] val by blast
  qed
qed

lemma truncate_sel [simp]:
  "url_without_fragment (url_api.truncate uapi) = url_without_fragment uapi"
  "url_scheme (url_api.truncate uapi) = url_scheme uapi"
  by (simp_all add: url_api.truncate_def)

text \<open>What the headers of a map are called.\<close>

definition hm_names :: "header_map \<Rightarrow> string set" where
  "hm_names m = fst ` set (hm_iter m)"

lemma hm_names_get: "hm_get_all m name \<noteq> [] \<Longrightarrow> name \<in> hm_names m"
proof -
  assume "hm_get_all m name \<noteq> []"
  then obtain vs where "(name, vs) \<in> set m" "vs \<noteq> []"
    by (auto simp: hm_get_all_def dest: map_of_SomeD split: option.splits)
  then show ?thesis by (force simp: hm_names_def hm_iter_def neq_Nil_conv)
qed

definition route_names :: "string set" where
  "route_names = {''accept-encoding'', PROXY_HOP_HEADER_NAME}"

lemma hop_request_names:
  assumes "hm_get_all (sq_headers (hop_request rt c http_method st d)) name \<noteq> []"
  shows "name \<in> route_names \<or> hm_get_all (fs_automatic st) name \<noteq> [] \<or> name \<in> hm_names (fs_custom st)"
proof -
  have "map_of (rev (hm_iter (fs_custom st))) name = Some v \<Longrightarrow> name \<in> hm_names (fs_custom st)" for v
    by (force simp: hm_names_def dest!: map_of_SomeD)
  then show ?thesis
    using assms
    by (auto simp: hop_request_def route_names_def hm_get_all_insert_all split: if_splits option.splits)
qed

section \<open>Every hop is admitted\<close>

definition request_admitted ::
  "ipnet_api \<Rightarrow> proxy_request_context \<Rightarrow> string \<Rightarrow> 'u sent_request \<Rightarrow> bool" where
  "request_admitted api c marker q \<longleftrightarrow>
     (\<exists>d. sq_url q = rd_url d \<and> sq_pinned q = map_option (\<lambda>domain. (domain, rd_addrs d)) (rd_domain d) \<and>
        rd_addrs d \<noteq> [] \<and> destination_admitted api c d) \<and>
     sq_accept_invalid_certs q = ps_invalid_tls (ctx_settings c) \<and>
     hm_get_all (sq_headers q) PROXY_HOP_HEADER_NAME = [marker] \<and>
     hm_get_all (sq_headers q) ''accept-encoding'' = [''identity'']"

lemma hop_request_admitted:
  assumes "runtime_validate api uapi env t x rt v c url = (v', Inr d)"
  shows "request_admitted api c (rt_hop_marker rt') (hop_request rt' c http_method st d)"
  using validated_admitted [OF assms]
  by (auto simp: request_admitted_def hop_request_def PROXY_HOP_HEADER_NAME_def)

definition marker_kept :: "(nat \<Rightarrow> hop_env) \<Rightarrow> bool" where
  "marker_kept hops \<longleftrightarrow> (\<forall>n sh. rt_hop_marker (sh_rt (he_others (hops n) sh)) = rt_hop_marker (sh_rt sh))"

lemma fetch_loop_cases:
  assumes "fetch_loop api uapi to_str hops c http_method rh st sh = (sh', sent, r)"
  obtains (failed) e where "r = Inl e"
      "fetch_hop api uapi to_str (hops (fs_redirects st)) c http_method rh st sh = (sh', sent, HopFailed e)"
    | (fetched) f where "r = Inr f"
      "fetch_hop api uapi to_str (hops (fs_redirects st)) c http_method rh st sh = (sh', sent, HopDone f)"
    | (redirected) sh1 sent1 st1 sent2 where
      "fetch_hop api uapi to_str (hops (fs_redirects st)) c http_method rh st sh = (sh1, sent1, HopRedirect st1)"
      "fetch_loop api uapi to_str hops c http_method rh st1 sh1 = (sh', sent2, r)" "sent = sent1 @ sent2"
proof -
  obtain sh1 sent1 h where h: "fetch_hop api uapi to_str (hops (fs_redirects st)) c http_method rh st sh = (sh1, sent1, h)"
    using prod_cases3 by blast
  show ?thesis
  proof (cases h)
    case (HopFailed e)
    then show ?thesis using assms h failed [of e] by (simp add: fetch_loop.simps [of _ _ _ _ _ _ _ st])
  next
    case (HopDone f)
    then show ?thesis using assms h fetched [of f] by (simp add: fetch_loop.simps [of _ _ _ _ _ _ _ st])
  next
    case (HopRedirect st1)
    obtain sh2 sent2 r2 where l: "fetch_loop api uapi to_str hops c http_method rh st1 sh1 = (sh2, sent2, r2)"
      using prod_cases3 by blast
    then have "sh2 = sh'" "r2 = r" "sent = sent1 @ sent2"
      using assms h HopRedirect by (simp_all add: fetch_loop.simps [of _ _ _ _ _ _ _ st])
    then show ?thesis using redirected h HopRedirect l by blast
  qed
qed

text \<open>An induction over the redirects that are left.\<close>

lemma fetch_loop_induct [consumes 1, case_names failed fetched redirected]:
  assumes loop: "fetch_loop api uapi to_str hops c http_method rh st sh = (sh', sent, r)"
    and failed: "\<And>st sh sh' sent e.
      fetch_hop api uapi to_str (hops (fs_redirects st)) c http_method rh st sh = (sh', sent, HopFailed e) \<Longrightarrow>
      P st sh sh' sent (Inl e)"
    and fetched: "\<And>st sh sh' sent f.
      fetch_hop api uapi to_str (hops (fs_redirects st)) c http_method rh st sh = (sh', sent, HopDone f) \<Longrightarrow>
      P st sh sh' sent (Inr f)"
    and redirected: "\<And>st sh sh1 sent1 st1 sh' sent2 r.
      fetch_hop api uapi to_str (hops (fs_redirects st)) c http_method rh st sh = (sh1, sent1, HopRedirect st1) \<Longrightarrow>
      P st1 sh1 sh' sent2 r \<Longrightarrow> P st sh sh' (sent1 @ sent2) r"
  shows "P st sh sh' sent r"
  using loop
proof (induction "6 - fs_redirects st" arbitrary: st sh sent rule: less_induct)
  case less
  from less.prems show ?case
  proof (cases rule: fetch_loop_cases)
    case (redirected sh1 sent1 st1 sent2)
    then have "6 - fs_redirects st1 < 6 - fs_redirects st" using fetch_hop_redirect [OF redirected(1)] by linarith
    then show ?thesis using less.hyps redirected assms(4) by blast
  qed (use failed fetched in auto)
qed

lemma loop_admits:
  assumes "fetch_loop api uapi to_str hops c http_method rh st sh = (sh', sent, r)" "marker_kept hops" "fs_redirects st \<le> 5"
  shows "length sent \<le> 6 - fs_redirects st \<and> rt_hop_marker (sh_rt sh') = rt_hop_marker (sh_rt sh) \<and>
    list_all (request_admitted api c (rt_hop_marker (sh_rt sh))) sent"
  using assms(1,3)
proof (induction rule: fetch_loop_induct)
  case (redirected st sh sh1 sent1 st1 sh' sent2 r)
  have n: "fs_redirects st < 5" "fs_redirects st1 = fs_redirects st + 1" using fetch_hop_redirect [OF redirected(1)] by auto
  from redirected(1) show ?case
  proof (cases rule: fetch_hop_cases)
    case (one d v v')
    have "rt_hop_marker (sh_rt sh1) = rt_hop_marker (sh_rt sh)" using one(2) assms(2) by (simp add: marker_kept_def)
    then show ?thesis
      using redirected(2) n one hop_request_admitted [OF one(1), of "sh_rt sh1" http_method st] by auto
  qed simp
next
  case (failed st sh sh' sent e)
  from failed(1) show ?case
  proof (cases rule: fetch_hop_cases)
    case (one d v v')
    have "rt_hop_marker (sh_rt sh') = rt_hop_marker (sh_rt sh)" using one(2) assms(2) by (simp add: marker_kept_def)
    then show ?thesis
      using failed(2) one hop_request_admitted [OF one(1), of "sh_rt sh'" http_method st] by auto
  qed (use assms(2) in \<open>simp add: marker_kept_def\<close>)
next
  case (fetched st sh sh' sent f)
  from fetched(1) show ?case
  proof (cases rule: fetch_hop_cases)
    case (one d v v')
    have "rt_hop_marker (sh_rt sh') = rt_hop_marker (sh_rt sh)" using one(2) assms(2) by (simp add: marker_kept_def)
    then show ?thesis
      using fetched(2) one hop_request_admitted [OF one(1), of "sh_rt sh'" http_method st] by auto
  qed simp
qed

section \<open>Secrets stay at their origin\<close>

lemma redirect_target_Inr:
  assumes "redirect_target uapi to_str current reply = Inr next"
  shows "\<exists>u. next = url_without_fragment uapi u \<and> \<not> (url_scheme uapi current = ''https'' \<and> url_scheme uapi u = ''http'') \<and>
    url_scheme uapi u \<in> {''http'', ''https''} \<and> url_host uapi u \<noteq> None"
  using assms by (auto simp: redirect_target_def rbind_Inr_iff Let_def split: if_splits)

lemma after_reply_done:
  "after_reply uapi to_str rh st url cred reply = HopDone f \<Longrightarrow>
   f = \<lparr>fp_response = reply, fp_final_url = url, fp_custom_request_headers = fs_custom st,
        fp_response_headers = rh, fp_credential_bearing = cred\<rparr> \<and>
   up_status reply \<noteq> 101 \<and> up_status reply \<notin> set REDIRECT_STATUSES"
  by (auto simp: after_reply_def Let_def split: if_splits sum.splits prod.splits)

lemma after_reply_redirect:
  "after_reply uapi to_str rh st url cred reply = HopRedirect st1 \<Longrightarrow>
   \<exists>next. redirect_target uapi to_str url reply = Inr next \<and> fs_credential st1 = cred \<and>
     (fs_target st1, fs_automatic st1, fs_custom st1) =
       apply_redirect_origin_policy uapi url next (fs_automatic st) (fs_custom st)"
  by (auto simp: after_reply_def Let_def split: if_splits sum.splits prod.splits)

lemma hop_sent:
  assumes "fetch_hop api uapi to_str he c http_method rh st sh = (sh1, sent, r)"
  shows "length sent \<le> 1"
    and "q \<in> set sent \<Longrightarrow> \<exists>rt d. q = hop_request rt c http_method st d \<and> rd_url d = url_without_fragment uapi (fs_target st)"
    and "q \<in> set sent \<Longrightarrow> sq_url q = url_without_fragment uapi (fs_target st)"
proof -
  show "length sent \<le> 1" using assms by (cases rule: fetch_hop_cases) simp_all
  show ex: "\<exists>rt d. q = hop_request rt c http_method st d \<and> rd_url d = url_without_fragment uapi (fs_target st)" if "q \<in> set sent"
    using assms
  proof (cases rule: fetch_hop_cases)
    case (one d v v')
    then show ?thesis using that validated_url [OF one(1)] by auto
  qed (use that in simp)
  show "sq_url q = url_without_fragment uapi (fs_target st)" if "q \<in> set sent"
    using ex [OF that] by (auto simp: hop_request_def)
qed

lemma redirect_step:
  assumes contract: "redirect_url_contract uapi"
    and hop: "fetch_hop api uapi to_str he c http_method rh st sh = (sh1, sent1, HopRedirect st1)"
  obtains q rt d where "sent1 = [q]" "q = hop_request rt c http_method st d" "sq_url q = url_without_fragment uapi (fs_target st)"
    "\<not> (url_scheme uapi (sq_url q) = ''https'' \<and> url_scheme uapi (fs_target st1) = ''http'')"
    "fs_credential st1 = (fs_credential st \<or> carries_credentials uapi (sq_url q) \<or> fs_custom st \<noteq> [])"
    "same_origin uapi (sq_url q) (fs_target st1) \<Longrightarrow> fs_custom st1 = fs_custom st \<and> fs_automatic st1 = fs_automatic st"
    "\<not> same_origin uapi (sq_url q) (fs_target st1) \<Longrightarrow> fs_custom st1 = [] \<and>
       fs_automatic st1 = hm_remove ''if-range'' (fs_automatic st) \<and> \<not> carries_credentials uapi (fs_target st1)"
  using hop
proof (cases rule: fetch_hop_cases)
  case (one d v v')
  let ?q = "hop_request (sh_rt sh1) c http_method st d"
  let ?cred = "fs_credential st \<or> carries_credentials uapi (rd_url d) \<or> fs_custom st \<noteq> []"
  have q: "sq_url ?q = rd_url d" by (simp add: hop_request_def)
  obtain reply where ar: "after_reply uapi to_str rh st (rd_url d) ?cred reply = HopRedirect st1" using one(4) by auto
  obtain nxt where t: "redirect_target uapi to_str (rd_url d) reply = Inr nxt" "fs_credential st1 = ?cred"
      "(fs_target st1, fs_automatic st1, fs_custom st1) =
       apply_redirect_origin_policy uapi (rd_url d) nxt (fs_automatic st) (fs_custom st)"
    using after_reply_redirect [OF ar] by blast
  obtain u where u: "nxt = url_without_fragment uapi u" "\<not> (url_scheme uapi (rd_url d) = ''https'' \<and> url_scheme uapi u = ''http'')"
      "url_scheme uapi u \<in> {''http'', ''https''}" "url_host uapi u \<noteq> None"
    using redirect_target_Inr [OF t(1)] by blast
  note laws = contract_same_origin [OF contract]
  have origin: "same_origin uapi (rd_url d) (fs_target st1) = same_origin uapi (rd_url d) nxt"
    and scheme: "url_scheme uapi (fs_target st1) = url_scheme uapi nxt"
    using t(3) laws(2,5) by (cases "same_origin uapi (rd_url d) nxt"; simp add: apply_redirect_origin_policy_def)+
  have "\<not> carries_credentials uapi (pu_set_password uapi None (pu_set_username uapi [] nxt))"
    by (rule contract_clears [OF contract]) (use u(3,4) laws(3,4) u(1) in simp_all)
  then have moved: "fs_custom st1 = [] \<and> fs_automatic st1 = hm_remove ''if-range'' (fs_automatic st) \<and>
      \<not> carries_credentials uapi (fs_target st1)" if "\<not> same_origin uapi (rd_url d) (fs_target st1)"
    using t(3) that origin by (simp add: apply_redirect_origin_policy_def)
  have kept: "fs_custom st1 = fs_custom st \<and> fs_automatic st1 = fs_automatic st"
    if "same_origin uapi (rd_url d) (fs_target st1)"
    using t(3) that origin by (simp add: apply_redirect_origin_policy_def)
  have url: "rd_url d = url_without_fragment uapi (fs_target st)" using validated_url [OF one(1)] by simp
  have down: "\<not> (url_scheme uapi (rd_url d) = ''https'' \<and> url_scheme uapi (fs_target st1) = ''http'')"
    using u(1,2) scheme laws(3) by simp
  show ?thesis
    by (rule that [OF one(3) refl, unfolded q]) (rule url down t(2) | erule kept | erule moved)+
qed simp

definition origin_kept :: "'u proxy_url_api \<Rightarrow> 'u sent_request list \<Rightarrow> bool" where
  "origin_kept uapi sent \<longleftrightarrow> successively (\<lambda>q q'. same_origin uapi (sq_url q) (sq_url q')) sent"

lemma hop_done:
  assumes "fetch_hop api uapi to_str he c http_method rh st sh = (sh1, sent, HopDone f)"
  shows "\<exists>q. sent = [q] \<and> fp_final_url f = sq_url q \<and> fp_custom_request_headers f = fs_custom st \<and> fp_response_headers f = rh \<and>
    fp_credential_bearing f = (fs_credential st \<or> carries_credentials uapi (sq_url q) \<or> fs_custom st \<noteq> []) \<and>
    up_status (fp_response f) \<notin> insert 101 (set REDIRECT_STATUSES)"
  using assms
proof (cases rule: fetch_hop_cases)
  case (one d v v')
  then obtain cred reply where "after_reply uapi to_str rh st (rd_url d) cred reply = HopDone f"
      "cred = (fs_credential st \<or> carries_credentials uapi (rd_url d) \<or> fs_custom st \<noteq> [])"
    by auto
  then show ?thesis using after_reply_done one(3) by (fastforce simp: hop_request_def)
qed simp

text \<open>A run in terms of its first request and the run after it.\<close>

lemma fetch_loop_trace_induct [consumes 2, case_names failed fetched redirected]:
  assumes loop: "fetch_loop api uapi to_str hops c http_method rh st sh = (sh', sent, r)"
    and contract: "redirect_url_contract uapi"
    and failed: "\<And>st sent e. length sent \<le> 1 \<Longrightarrow>
      (\<And>q. q \<in> set sent \<Longrightarrow> sq_url q = url_without_fragment uapi (fs_target st) \<and> (\<exists>rt d. q = hop_request rt c http_method st d)) \<Longrightarrow>
      P st sent (Inl e)"
    and fetched: "\<And>st q f rt d. q = hop_request rt c http_method st d \<Longrightarrow> sq_url q = url_without_fragment uapi (fs_target st) \<Longrightarrow>
      fp_final_url f = sq_url q \<Longrightarrow> fp_custom_request_headers f = fs_custom st \<Longrightarrow>
      fp_credential_bearing f = (fs_credential st \<or> carries_credentials uapi (sq_url q) \<or> fs_custom st \<noteq> []) \<Longrightarrow>
      up_status (fp_response f) \<notin> insert 101 (set REDIRECT_STATUSES) \<Longrightarrow> P st [q] (Inr f)"
    and redirected: "\<And>st q rt d st1 sent r. q = hop_request rt c http_method st d \<Longrightarrow>
      sq_url q = url_without_fragment uapi (fs_target st) \<Longrightarrow>
      \<not> (url_scheme uapi (sq_url q) = ''https'' \<and> url_scheme uapi (fs_target st1) = ''http'') \<Longrightarrow>
      fs_credential st1 = (fs_credential st \<or> carries_credentials uapi (sq_url q) \<or> fs_custom st \<noteq> []) \<Longrightarrow>
      (same_origin uapi (sq_url q) (fs_target st1) \<Longrightarrow> fs_custom st1 = fs_custom st \<and> fs_automatic st1 = fs_automatic st) \<Longrightarrow>
      (\<not> same_origin uapi (sq_url q) (fs_target st1) \<Longrightarrow> fs_custom st1 = [] \<and>
         fs_automatic st1 = hm_remove ''if-range'' (fs_automatic st) \<and> \<not> carries_credentials uapi (fs_target st1)) \<Longrightarrow>
      (sent \<noteq> [] \<Longrightarrow> sq_url (hd sent) = url_without_fragment uapi (fs_target st1)) \<Longrightarrow>
      P st1 sent r \<Longrightarrow> P st (q # sent) r"
  shows "P st sent r"
proof -
  have "P st sent r \<and> (sent \<noteq> [] \<longrightarrow> sq_url (hd sent) = url_without_fragment uapi (fs_target st))"
    using loop
  proof (induction rule: fetch_loop_induct)
    case (failed st sh sh' sent e)
    have "P st sent (Inl e)" by (rule assms(3)) (use hop_sent [OF failed] in blast)+
    then show ?case using hop_sent(3) [OF failed] by auto
  next
    case (fetched st sh sh' sent f)
    obtain q where q: "sent = [q]" "fp_final_url f = sq_url q" "fp_custom_request_headers f = fs_custom st"
      "fp_credential_bearing f = (fs_credential st \<or> carries_credentials uapi (sq_url q) \<or> fs_custom st \<noteq> [])"
      "up_status (fp_response f) \<notin> insert 101 (set REDIRECT_STATUSES)"
      using hop_done [OF fetched] by blast
    obtain rt d where "q = hop_request rt c http_method st d" and u: "sq_url q = url_without_fragment uapi (fs_target st)"
      using hop_sent(2,3) [OF fetched, of q] q(1) by auto
    then have "P st [q] (Inr f)" using assms(4) q by blast
    then show ?case using q(1) u by simp
  next
    case (redirected st sh sh1 sent1 st1 sh' sent2 r)
    show ?case
    proof (rule redirect_step [OF contract redirected(1)])
      fix q rt d
      assume *: "sent1 = [q]" "q = hop_request rt c http_method st d" "sq_url q = url_without_fragment uapi (fs_target st)"
        "\<not> (url_scheme uapi (sq_url q) = ''https'' \<and> url_scheme uapi (fs_target st1) = ''http'')"
        "fs_credential st1 = (fs_credential st \<or> carries_credentials uapi (sq_url q) \<or> fs_custom st \<noteq> [])"
        "same_origin uapi (sq_url q) (fs_target st1) \<Longrightarrow> fs_custom st1 = fs_custom st \<and> fs_automatic st1 = fs_automatic st"
        "\<not> same_origin uapi (sq_url q) (fs_target st1) \<Longrightarrow> fs_custom st1 = [] \<and>
           fs_automatic st1 = hm_remove ''if-range'' (fs_automatic st) \<and> \<not> carries_credentials uapi (fs_target st1)"
      have "P st (q # sent2) r"
        by (rule assms(5) [OF *(2-5)]) (use * redirected(2) in blast)+
      then show ?thesis using * by simp
    qed
  qed
  then show ?thesis by blast
qed

definition plain_names :: "'u fetch_state \<Rightarrow> string set" where
  "plain_names st = route_names \<union> {name. hm_get_all (fs_automatic st) name \<noteq> []}"

definition redirect_safe :: "'u proxy_url_api \<Rightarrow> 'u sent_request \<Rightarrow> 'u sent_request \<Rightarrow> bool" where
  "redirect_safe uapi q q' \<longleftrightarrow>
     \<not> (url_scheme uapi (sq_url q) = ''https'' \<and> url_scheme uapi (sq_url q') = ''http'') \<and>
     (\<not> same_origin uapi (sq_url q) (sq_url q') \<longrightarrow> \<not> carries_credentials uapi (sq_url q'))"

definition sent_names :: "'u sent_request \<Rightarrow> string set" where
  "sent_names q = {name. hm_get_all (sq_headers q) name \<noteq> []}"

definition run_safe :: "'u proxy_url_api \<Rightarrow> 'u fetch_state \<Rightarrow> 'u sent_request list \<Rightarrow> bool" where
  "run_safe uapi st sent \<longleftrightarrow>
     successively (redirect_safe uapi) sent \<and>
     (\<forall>q \<in> set sent. sent_names q \<subseteq> plain_names st \<union> hm_names (fs_custom st)) \<and>
     (\<forall>before q after. sent = before @ q # after \<longrightarrow> \<not> origin_kept uapi (before @ [q]) \<longrightarrow>
        sent_names q \<subseteq> plain_names st - {''if-range''})"

definition run_result ::
  "'u proxy_url_api \<Rightarrow> 'u fetch_state \<Rightarrow> 'u sent_request list \<Rightarrow> 'u fetched_proxy_response \<Rightarrow> bool" where
  "run_result uapi st sent f \<longleftrightarrow>
     sent \<noteq> [] \<and> fp_final_url f = sq_url (last sent) \<and>
     fp_custom_request_headers f = (if origin_kept uapi sent then fs_custom st else []) \<and>
     (fp_credential_bearing f \<longleftrightarrow>
        fs_credential st \<or> fs_custom st \<noteq> [] \<or> (\<exists>q \<in> set sent. carries_credentials uapi (sq_url q))) \<and>
     up_status (fp_response f) \<notin> insert 101 (set REDIRECT_STATUSES)"

lemma sent_names_hop: "sent_names (hop_request rt c http_method st d) \<subseteq> plain_names st \<union> hm_names (fs_custom st)"
  using hop_request_names unfolding sent_names_def plain_names_def by blast

lemma run_safe_single:
  assumes "length sent \<le> 1" "\<And>q. q \<in> set sent \<Longrightarrow> \<exists>rt d. q = hop_request rt c http_method st d"
  shows "run_safe uapi st sent"
proof (cases sent)
  case (Cons q rest)
  then have "sent = [q]" "sent_names q \<subseteq> plain_names st \<union> hm_names (fs_custom st)"
    using assms sent_names_hop by fastforce+
  then show ?thesis by (auto simp: run_safe_def origin_kept_def Cons_eq_append_conv)
qed (simp add: run_safe_def)

lemma origin_kept_Cons:
  "origin_kept uapi (q # sent) \<longleftrightarrow> sent = [] \<or> same_origin uapi (sq_url q) (sq_url (hd sent)) \<and> origin_kept uapi sent"
  by (simp add: origin_kept_def successively_Cons)

lemma origin_kept_Nil [simp]: "origin_kept uapi []" by (simp add: origin_kept_def)

text \<open>The redirect from the request \<open>q\<close>, sent in state \<open>st\<close>, to the state \<open>st1\<close> and the requests after it.\<close>

definition redirected_to ::
  "'u proxy_url_api \<Rightarrow> 'u sent_request \<Rightarrow> 'u fetch_state \<Rightarrow> 'u fetch_state \<Rightarrow> 'u sent_request list \<Rightarrow> bool" where
  "redirected_to uapi q st st1 sent \<longleftrightarrow>
     \<not> (url_scheme uapi (sq_url q) = ''https'' \<and> url_scheme uapi (fs_target st1) = ''http'') \<and>
     fs_credential st1 = (fs_credential st \<or> carries_credentials uapi (sq_url q) \<or> fs_custom st \<noteq> []) \<and>
     (same_origin uapi (sq_url q) (fs_target st1) \<longrightarrow> fs_custom st1 = fs_custom st \<and> fs_automatic st1 = fs_automatic st) \<and>
     (\<not> same_origin uapi (sq_url q) (fs_target st1) \<longrightarrow> fs_custom st1 = [] \<and>
        fs_automatic st1 = hm_remove ''if-range'' (fs_automatic st) \<and> \<not> carries_credentials uapi (fs_target st1)) \<and>
     (sent \<noteq> [] \<longrightarrow> sq_url (hd sent) = url_without_fragment uapi (fs_target st1))"

lemma redirected_names:
  assumes "redirected_to uapi q st st1 sent"
  shows "plain_names st1 \<union> hm_names (fs_custom st1) \<subseteq> plain_names st \<union> hm_names (fs_custom st)"
    and "plain_names st1 - {''if-range''} \<subseteq> plain_names st - {''if-range''}"
    and "\<not> same_origin uapi (sq_url q) (fs_target st1) \<Longrightarrow>
      plain_names st1 \<union> hm_names (fs_custom st1) \<subseteq> plain_names st - {''if-range''}"
proof -
  consider (kept) "fs_custom st1 = fs_custom st" "fs_automatic st1 = fs_automatic st"
      "same_origin uapi (sq_url q) (fs_target st1)"
    | (moved) "fs_custom st1 = []" "fs_automatic st1 = hm_remove ''if-range'' (fs_automatic st)"
    using assms unfolding redirected_to_def by metis
  then have "plain_names st1 \<union> hm_names (fs_custom st1) \<subseteq> plain_names st \<union> hm_names (fs_custom st) \<and>
      plain_names st1 - {''if-range''} \<subseteq> plain_names st - {''if-range''} \<and>
      (same_origin uapi (sq_url q) (fs_target st1) \<or>
        plain_names st1 \<union> hm_names (fs_custom st1) \<subseteq> plain_names st - {''if-range''})"
  proof cases
    case moved
    then show ?thesis
      by (auto simp: plain_names_def hm_names_def hm_iter_def route_names_def PROXY_HOP_HEADER_NAME_def split: if_splits)
  qed (simp add: plain_names_def)
  then show "plain_names st1 \<union> hm_names (fs_custom st1) \<subseteq> plain_names st \<union> hm_names (fs_custom st)"
    "plain_names st1 - {''if-range''} \<subseteq> plain_names st - {''if-range''}"
    "\<not> same_origin uapi (sq_url q) (fs_target st1) \<Longrightarrow>
      plain_names st1 \<union> hm_names (fs_custom st1) \<subseteq> plain_names st - {''if-range''}"
    by blast+
qed

lemma run_safe_redirect:
  assumes contract: "redirect_url_contract uapi" and q: "q = hop_request rt c http_method st d"
    and to: "redirected_to uapi q st st1 sent" and safe: "run_safe uapi st1 sent"
  shows "run_safe uapi st (q # sent)"
proof -
  note laws = contract_same_origin [OF contract] contract_fragment [OF contract]
  have origin: "same_origin uapi (sq_url q) (sq_url (hd sent)) = same_origin uapi (sq_url q) (fs_target st1)" if "sent \<noteq> []"
    using to that laws(1) by (simp add: redirected_to_def)
  have "redirect_safe uapi q (hd sent)" if "sent \<noteq> []"
    using to that laws unfolding redirect_safe_def redirected_to_def by metis
  then have "successively (redirect_safe uapi) (q # sent)"
    using safe unfolding run_safe_def successively_Cons by blast
  moreover have "sent_names q' \<subseteq> plain_names st \<union> hm_names (fs_custom st)" if "q' \<in> set (q # sent)" for q'
  proof (cases "q' = q")
    case True
    then show ?thesis using sent_names_hop q by simp
  next
    case False
    then have "sent_names q' \<subseteq> plain_names st1 \<union> hm_names (fs_custom st1)"
      using that safe unfolding run_safe_def by simp
    then show ?thesis using redirected_names(1) [OF to] by blast
  qed
  moreover have "sent_names q' \<subseteq> plain_names st - {''if-range''}"
    if split: "q # sent = before @ q' # after" "\<not> origin_kept uapi (before @ [q'])" for before q' after
  proof (cases before)
    case Nil
    then show ?thesis using that(2) by (simp add: origin_kept_def)
  next
    case (Cons b before')
    then have sent: "b = q" "sent = before' @ q' # after" using split(1) by auto
    then have hd: "hd (before' @ [q']) = hd sent" "sent \<noteq> []" by (simp_all add: hd_append)
    show ?thesis
    proof (cases "same_origin uapi (sq_url q) (fs_target st1)")
      case True
      then have "\<not> origin_kept uapi (before' @ [q'])"
        using split(2) Cons sent(1) hd origin by (simp add: origin_kept_Cons)
      then have "sent_names q' \<subseteq> plain_names st1 - {''if-range''}" using safe sent(2) unfolding run_safe_def by blast
      then show ?thesis using redirected_names(2) [OF to] by blast
    next
      case False
      have "sent_names q' \<subseteq> plain_names st1 \<union> hm_names (fs_custom st1)" using safe sent(2) unfolding run_safe_def by auto
      then show ?thesis using redirected_names(3) [OF to False] by blast
    qed
  qed
  ultimately show ?thesis unfolding run_safe_def by blast
qed

lemma run_result_redirect:
  assumes contract: "redirect_url_contract uapi"
    and to: "redirected_to uapi q st st1 sent" and result: "run_result uapi st1 sent f"
  shows "run_result uapi st (q # sent) f"
proof -
  have ne: "sent \<noteq> []" using result by (simp add: run_result_def)
  then have origin: "same_origin uapi (sq_url q) (sq_url (hd sent)) = same_origin uapi (sq_url q) (fs_target st1)"
    using to contract_same_origin(1) [OF contract] by (simp add: redirected_to_def)
  have custom: "fs_custom st1 = (if same_origin uapi (sq_url q) (fs_target st1) then fs_custom st else [])"
    using to by (auto simp: redirected_to_def)
  have "fp_custom_request_headers f = (if origin_kept uapi (q # sent) then fs_custom st else [])"
    using result ne origin custom by (auto simp: run_result_def origin_kept_Cons)
  moreover have "fp_credential_bearing f \<longleftrightarrow>
      fs_credential st \<or> fs_custom st \<noteq> [] \<or> (\<exists>q' \<in> set (q # sent). carries_credentials uapi (sq_url q'))"
    using result to custom by (auto simp: run_result_def redirected_to_def split: if_splits)
  ultimately show ?thesis using result ne by (simp add: run_result_def)
qed

lemma loop_is_safe:
  assumes loop: "fetch_loop api uapi to_str hops c http_method rh st sh = (sh', sent, r)"
    and contract: "redirect_url_contract uapi"
  shows "run_safe uapi st sent \<and> (\<forall>f. r = Inr f \<longrightarrow> run_result uapi st sent f)"
  using loop contract
proof (induction rule: fetch_loop_trace_induct)
  case (failed st sent e)
  then show ?case using run_safe_single [of sent c http_method st] by blast
next
  case (fetched st q f rt d)
  have "run_safe uapi st [q]" using run_safe_single [of "[q]" c http_method st] fetched(1) by auto
  moreover have "run_result uapi st [q] f" using fetched by (auto simp: run_result_def origin_kept_Cons)
  ultimately show ?case by simp
next
  case (redirected st q rt d st1 sent r)
  have "redirected_to uapi q st st1 sent" using redirected(3-7) unfolding redirected_to_def by blast
  then show ?case
    using run_safe_redirect [OF contract redirected(1)] run_result_redirect [OF contract] redirected(8) by blast
qed

lemma automatic_names: "hm_get_all (automatic_headers incoming) name \<noteq> [] \<Longrightarrow> name \<in> set AUTOMATIC_REQUEST_HEADERS"
proof -
  have "hm_get_all (foldl (\<lambda>m name. case hm_get incoming name of None \<Rightarrow> m | Some v \<Rightarrow> hm_insert name v m) m names) name \<noteq> [] \<Longrightarrow>
      name \<in> set names \<or> hm_get_all m name \<noteq> []" for m names
  proof (induction names arbitrary: m)
    case (Cons n names)
    from Cons.IH [OF Cons.prems [unfolded foldl_Cons]] show ?case by (auto split: option.splits if_splits)
  qed simp
  from this [of "[]" AUTOMATIC_REQUEST_HEADERS]
  show "hm_get_all (automatic_headers incoming) name \<noteq> [] \<Longrightarrow> name \<in> set AUTOMATIC_REQUEST_HEADERS"
    by (auto simp: automatic_headers_def)
qed

lemma subset_insert_diff: "A \<subseteq> insert x S \<Longrightarrow> A - {x} \<subseteq> S"
  by blast


text \<open>
  Property C15.  Secrets stay at the origin they were given for: a redirect never leads from https to
  http, the URL of a request to a new origin carries no user or password, and once the origin has
  changed no custom header and no \<open>If-Range\<close> is sent again, not even after a redirect back.  The
  response comes from the last request; the custom headers it hands on to a rewritten playlist are
  those of the request only if the origin never changed, and it is marked as credential-bearing
  exactly if custom headers were given or some URL carried credentials.
\<close>

theorem redirects_keep_secrets_at_their_origin:
  assumes contract: "redirect_url_contract uapi"
    and fetch: "fetch_with_redirects api uapi to_str hops c request http_method incoming sh = (sh', sent, r)"
  shows "successively (redirect_safe uapi) sent \<and>
    (\<forall>before q after. sent = before @ q # after \<longrightarrow> \<not> origin_kept uapi (before @ [q]) \<longrightarrow>
       sent_names q \<subseteq> {''accept'', ''accept-language'', ''range'', ''user-agent'', ''accept-encoding'', PROXY_HOP_HEADER_NAME}) \<and>
    (\<forall>f. r = Inr f \<longrightarrow> sent \<noteq> [] \<and> fp_final_url f = sq_url (last sent) \<and>
       fp_custom_request_headers f = (if origin_kept uapi sent then pr_request_headers request else []) \<and>
       (fp_credential_bearing f \<longleftrightarrow>
          pr_request_headers request \<noteq> [] \<or> (\<exists>q \<in> set sent. carries_credentials uapi (sq_url q))))"
proof -
  let ?st = "\<lparr>fs_target = pr_target request, fs_automatic = automatic_headers incoming,
    fs_custom = pr_request_headers request, fs_redirects = 0, fs_credential = False\<rparr>"
  have run: "run_safe uapi ?st sent" "\<And>f. r = Inr f \<Longrightarrow> run_result uapi ?st sent f"
    using loop_is_safe [OF fetch [unfolded fetch_with_redirects_def] contract] by auto
  have names: "plain_names ?st - {''if-range''} \<subseteq>
      {''accept'', ''accept-language'', ''range'', ''user-agent'', ''accept-encoding'', PROXY_HOP_HEADER_NAME}"
  proof -
    have "plain_names ?st \<subseteq> route_names \<union> set AUTOMATIC_REQUEST_HEADERS"
      using automatic_names [of incoming] unfolding plain_names_def fetch_state.simps by blast
    moreover have "route_names \<union> set AUTOMATIC_REQUEST_HEADERS \<subseteq> insert ''if-range''
        {''accept'', ''accept-language'', ''range'', ''user-agent'', ''accept-encoding'', PROXY_HOP_HEADER_NAME}"
      by (simp add: route_names_def AUTOMATIC_REQUEST_HEADERS_def)
    ultimately show ?thesis by (rule subset_insert_diff [OF order_trans])
  qed
  have "sent_names q \<subseteq> {''accept'', ''accept-language'', ''range'', ''user-agent'', ''accept-encoding'', PROXY_HOP_HEADER_NAME}"
    if "sent = before @ q # after" "\<not> origin_kept uapi (before @ [q])" for before q after
  proof -
    have "sent_names q \<subseteq> plain_names ?st - {''if-range''}" using run(1) that unfolding run_safe_def by blast
    then show ?thesis using names by (rule order_trans)
  qed
  moreover have "successively (redirect_safe uapi) sent" using run(1) by (simp only: run_safe_def)
  moreover have "sent \<noteq> [] \<and> fp_final_url f = sq_url (last sent) \<and>
      fp_custom_request_headers f = (if origin_kept uapi sent then pr_request_headers request else []) \<and>
      (fp_credential_bearing f \<longleftrightarrow>
         pr_request_headers request \<noteq> [] \<or> (\<exists>q \<in> set sent. carries_credentials uapi (sq_url q)))" if "r = Inr f" for f
    using run(2) [OF that] by (simp add: run_result_def)
  ultimately show ?thesis by blast
qed

section \<open>Permits of the handlers\<close>

text \<open>No other task runs in between: what is left over is what the handler itself keeps.\<close>

definition undisturbed :: "(nat \<Rightarrow> hop_env) \<Rightarrow> bool" where
  "undisturbed hops \<longleftrightarrow> (\<forall>n sh. he_others (hops n) sh = sh)"

lemma loop_keeps_runtime:
  assumes "fetch_loop api uapi to_str hops c http_method rh st sh = (sh', sent, r)" "undisturbed hops"
  shows "sh_rt sh' = sh_rt sh"
  using assms(1)
proof (induction rule: fetch_loop_induct)
  case (failed st sh sh' sent e)
  then show ?case using assms(2) by (cases rule: fetch_hop_cases) (simp_all add: undisturbed_def)
next
  case (fetched st sh sh' sent f)
  then show ?case using assms(2) by (cases rule: fetch_hop_cases) (simp_all add: undisturbed_def)
next
  case (redirected st sh sh1 sent1 st1 sh' sent2 r)
  from redirected(1) have "sh_rt sh1 = sh_rt sh"
    using assms(2) by (cases rule: fetch_hop_cases) (simp_all add: undisturbed_def)
  then show ?case using redirected(2) by simp
qed


definition pools_hold :: "proxy_runtime \<Rightarrow> bool" where
  "pools_hold rt \<longleftrightarrow>
     (\<exists>H. pool_holds MAX_CONCURRENT_PROXY_REQUESTS MAX_CONCURRENT_PROXY_REQUESTS_PER_PEER (rt_capacity rt) H) \<and>
     (\<exists>H. pool_holds MAX_CONCURRENT_PLAYLISTS MAX_CONCURRENT_PLAYLISTS_PER_PEER (rt_playlist_capacity rt) H)"

lemma request_given_back:
  assumes "pools_hold rt" "try_request_for_peer rt peer = (rt1, Inr c)"
  shows "drop_permit (rt_capacity rt1) (ctx_peer c) = Some (rt_capacity rt)" "rt1 = rt\<lparr>rt_capacity := rt_capacity rt1\<rparr>"
    "pools_hold rt1" "drop_context rt1 c = Some rt" "rt1\<lparr>rt_capacity := rt_capacity rt\<rparr> = rt"
proof -
  obtain cap where cap: "try_acquire_normalized (rt_capacity rt) (normalize_peer peer)
      MAX_CONCURRENT_PROXY_REQUESTS MAX_CONCURRENT_PROXY_REQUESTS_PER_PEER = (cap, Inr (ctx_peer c))"
    and rt1: "rt1 = rt\<lparr>rt_capacity := cap\<rparr>"
    using try_request_Inr_D [OF assms(2)] by blast
  obtain H where H: "pool_holds MAX_CONCURRENT_PROXY_REQUESTS MAX_CONCURRENT_PROXY_REQUESTS_PER_PEER (rt_capacity rt) H"
    using assms(1) by (auto simp: pools_hold_def)
  show d: "drop_permit (rt_capacity rt1) (ctx_peer c) = Some (rt_capacity rt)"
    using request_pool.acquire_release_restores [OF H cap] rt1 by simp
  show "drop_context rt1 c = Some rt" "rt1\<lparr>rt_capacity := rt_capacity rt\<rparr> = rt"
    using d rt1 by (cases rt; simp add: drop_context_def)+
  show "rt1 = rt\<lparr>rt_capacity := rt_capacity rt1\<rparr>" using rt1 by simp
  show "pools_hold rt1" using request_pool.acquire_granted [OF H cap] assms(1) rt1 by (auto simp: pools_hold_def)
qed

lemma playlist_given_back:
  assumes "pools_hold rt" "try_playlist rt c = (rt1, Inr p)"
  shows "drop_permit (rt_playlist_capacity rt1) p = Some (rt_playlist_capacity rt)"
    "drop_playlist_permit rt1 p = Some rt" "rt_capacity rt1 = rt_capacity rt"
    "rt\<lparr>rt_capacity := x, rt_playlist_capacity := rt_playlist_capacity rt1\<rparr> = rt1\<lparr>rt_capacity := x\<rparr>"
proof -
  obtain cap where cap: "try_acquire_normalized (rt_playlist_capacity rt) (ctx_peer c)
      MAX_CONCURRENT_PLAYLISTS MAX_CONCURRENT_PLAYLISTS_PER_PEER = (cap, Inr p)"
    and rt1: "rt1 = rt\<lparr>rt_playlist_capacity := cap\<rparr>"
    using try_playlist_D(1) [OF assms(2)] by blast
  obtain H where H: "pool_holds MAX_CONCURRENT_PLAYLISTS MAX_CONCURRENT_PLAYLISTS_PER_PEER (rt_playlist_capacity rt) H"
    using assms(1) by (auto simp: pools_hold_def)
  show d: "drop_permit (rt_playlist_capacity rt1) p = Some (rt_playlist_capacity rt)"
    using playlist_pool.acquire_release_restores [OF H cap] rt1 by simp
  show "drop_playlist_permit rt1 p = Some rt" using d rt1 by (cases rt) (simp add: drop_playlist_permit_def)
  show "rt_capacity rt1 = rt_capacity rt"
    "rt\<lparr>rt_capacity := x, rt_playlist_capacity := rt_playlist_capacity rt1\<rparr> = rt1\<lparr>rt_capacity := x\<rparr>"
    using rt1 by simp_all
qed

definition fresh_body :: "body_world \<Rightarrow> proxy_producer_lease \<Rightarrow> bool" where
  "fresh_body w l \<longleftrightarrow> (\<exists>source now cancelled. w = spawn_proxy_body source now cancelled l)"

lemma fresh_body_spawn [simp]: "fresh_body (spawn_proxy_body source now cancelled l) l"
  unfolding fresh_body_def by blast

text \<open>What a response keeps of the runtime: nothing, or the permits of the lease of its body.\<close>

definition returns_permits :: "proxy_runtime \<Rightarrow> proxy_shared option \<Rightarrow> proxy_body \<Rightarrow> bool" where
  "returns_permits rt result body \<longleftrightarrow>
     (\<exists>sh. result = Some sh \<and>
        (case body of
           BodyText t \<Rightarrow> sh_rt sh = rt
         | BodyDelivery w l \<Rightarrow> drop_lease (sh_rt sh) l = Some rt \<and> fresh_body w l))"

lemma returns_error: "returns_permits rt result (rs_body (error_response e)) \<longleftrightarrow> (\<exists>sh. result = Some sh \<and> sh_rt sh = rt)"
  by (simp add: returns_permits_def error_response_def)

lemma returns_fetched: "rs_body (fetched_response f body rewritten) = body"
  by (simp add: fetched_response_def build_proxy_response_def Let_def)


lemma returns_context:
  assumes "pools_hold rt" "try_request_for_peer rt peer = (rt1, Inr c)" "sh_rt sh = rt1"
  shows "returns_permits rt (give_back (\<lambda>rt. drop_context rt c) sh) (rs_body (error_response e))"
  using request_given_back(4) [OF assms(1,2)] assms(3) by (simp add: returns_error give_back_def)

lemma respond_rewritten_returns:
  assumes "pools_hold rt" "try_request_for_peer rt peer = (rt1, Inr c)" "sh_rt sh = rt1"
    "respond_rewritten uapi hn c f sh = (result, response)"
  shows "returns_permits rt result (rs_body response)"
proof (cases "\<not> content_encoding_is_identity_only (up_headers (fp_response f)) \<or>
    declared_playlist_length_exceeds_limit (fp_response f)")
  case True
  then show ?thesis using assms(4) returns_context [OF assms(1-3)] by (auto simp: respond_rewritten_def)
next
  case False
  note req = request_given_back [OF assms(1,2)]
  obtain rt2 res where t: "try_playlist (sh_rt sh) c = (rt2, res)" by fastforce
  show ?thesis
  proof (cases res)
    case (Inl e)
    then have "rt2 = rt1" using t try_playlist_D(2) assms(3) by blast
    then show ?thesis
      using assms(3,4) False t Inl returns_context [OF assms(1,2), of "sh\<lparr>sh_rt := rt2\<rparr>"]
      by (auto simp: respond_rewritten_def)
  next
    case (Inr p)
    have pl: "try_playlist rt1 c = (rt2, Inr p)" using t Inr assms(3) by simp
    note play = playlist_given_back [OF req(3) pl]
    have both: "drop_both c p rt2 = Some rt" using play(2) req(4) by (simp add: drop_both_def)
    have released_playlist: "rt1\<lparr>rt_capacity := a, rt_playlist_capacity := rt_playlist_capacity rt1\<rparr> = rt1\<lparr>rt_capacity := a\<rparr>" for a
      by (cases rt1) simp
    have lease: "drop_lease rt2 (into_playlist_producer_lease c p d) = Some rt" for d
      using req(1,5) play(1,3) play(4) [symmetric, of "rt_capacity rt"]
      by (simp add: drop_lease_def into_playlist_producer_lease_def drop_playlist_permit_def Let_def)
        (metis released_playlist)
    show ?thesis
      using assms(4) False t Inr both lease
      by (auto simp: respond_rewritten_def Let_def give_back_def error_response_def returns_fetched returns_permits_def
          buffered_proxy_body_def split: sum.splits)
  qed
qed

lemma respond_streaming_returns:
  assumes "pools_hold rt" "try_request_for_peer rt peer = (rt1, Inr c)" "sh_rt sh = rt1"
    "respond_streaming hn c f sh = (result, response)"
  shows "returns_permits rt result (rs_body response)"
proof -
  have "drop_lease rt1 (into_producer_lease c) = Some rt"
    using request_given_back [OF assms(1,2)] by (simp add: drop_lease_def into_producer_lease_def)
  then show ?thesis
    using assms(3,4)
    by (auto simp: respond_streaming_def Let_def returns_permits_def returns_fetched streaming_proxy_body_def)
qed


section \<open>A run with a redirect to another origin\<close>

definition host_url_api :: "string proxy_url_api" where
  "host_url_api = \<lparr>url_scheme = (\<lambda>_. ''https''), url_host = (\<lambda>u. Some (HostDomain u)),
     url_port_or_known_default = (\<lambda>_. Some 443), url_without_fragment = id,
     pu_parse = Some, pu_as_str = id, pu_from_path = (\<lambda>_. ''/''), pu_path_query = (\<lambda>_. ''/''), pu_path = (\<lambda>_. ''/''),
     pu_query = (\<lambda>_. None), pu_username = (\<lambda>_. []), pu_password = (\<lambda>_. None),
     pu_set_path = (\<lambda>_ u. u), pu_set_query = (\<lambda>_ u. u), pu_set_username = (\<lambda>_ u. u), pu_set_password = (\<lambda>_ u. u),
     pu_join = (\<lambda>_ r. Some r)\<rparr>"

lemma host_url_contract: "redirect_url_contract host_url_api"
  by (auto simp: redirect_url_contract_def host_url_api_def carries_credentials_def)

lemma host_url_credentials: "\<not> carries_credentials host_url_api u"
  by (simp add: carries_credentials_def host_url_api_def)

lemma host_url_truncate: "url_api.truncate host_url_api = example_url_api"
  by (simp add: url_api.truncate_def host_url_api_def example_url_api_def)

lemma host_validate:
  "validate cidr_api example_url_api (example_env [SA4 (ipv4_new 93 184 216 34) 0]) False
     (validator_new []) u \<lparr>allow_private_network_sources = False\<rparr> =
   (validator_new [], Inr \<lparr>rd_url = u, rd_domain = Some u, rd_addrs = [SA4 (ipv4_new 93 184 216 34) 443]\<rparr>)"
  by (simp add: validate_def validate_inner_def example_env_def example_url_api_def admit_def
      nat64_prefixes_for_def address_needs_discovery_def validate_addresses_eq
      address_admitted_def matches_listener_def validator_new_def MAX_DNS_ANSWERS_def
      cidr.classify_v4_ranges blocked_ranges_v4_def private_ranges_v4_def
      in_range_def local_contains_def ipv4_new_def)

definition sample_reply :: "nat \<Rightarrow> upstream_reply" where
  "sample_reply n = (if n = 0
     then \<lparr>up_status = 302, up_headers = [(''location'', [''other.org''])], up_length = None, up_body = [], up_end = 0\<rparr>
     else \<lparr>up_status = 200, up_headers = [], up_length = None, up_body = [], up_end = 0\<rparr>)"

definition sample_hops :: "nat \<Rightarrow> hop_env" where
  "sample_hops n =
     \<lparr>he_others = id, he_validator = example_env [SA4 (ipv4_new 93 184 216 34) 0], he_timed_out = False,
      he_cancelled_validating = False, he_client_builds = True, he_cancelled_sending = False,
      he_outcome = SendReply (sample_reply n)\<rparr>"

definition sample_shared :: proxy_shared where
  "sample_shared = \<lparr>sh_rt = with_hop_marker \<lparr>ps_private = False, ps_invalid_tls = False\<rparr> ''m'',
     sh_validator = validator_new []\<rparr>"

definition sample_request_context :: proxy_request_context where
  "sample_request_context = \<lparr>ctx_settings = \<lparr>ps_private = False, ps_invalid_tls = False\<rparr>, ctx_cancellation = 0,
     ctx_peer = Unknown\<rparr>"

definition sample_request :: "string parsed_proxy_request" where
  "sample_request = \<lparr>pr_target = ''example.org'', pr_request_headers = [(''x-key'', [''v''])], pr_response_headers = []\<rparr>"

definition sample_sent :: "string \<Rightarrow> header_map \<Rightarrow> string sent_request" where
  "sample_sent u custom =
     \<lparr>sq_method = ''GET'', sq_url = u, sq_pinned = Some (u, [SA4 (ipv4_new 93 184 216 34) 443]),
      sq_headers = custom @ [(''accept-encoding'', [''identity'']), (PROXY_HOP_HEADER_NAME, [''m''])],
      sq_accept_invalid_certs = False\<rparr>"

lemma sample_hop:
  "fetch_hop cidr_api host_url_api Some (sample_hops n) sample_request_context ''GET'' [] st sample_shared =
     (sample_shared,
      [hop_request (sh_rt sample_shared) sample_request_context ''GET'' st
         \<lparr>rd_url = fs_target st, rd_domain = Some (fs_target st), rd_addrs = [SA4 (ipv4_new 93 184 216 34) 443]\<rparr>],
      after_reply host_url_api Some [] st (fs_target st) (fs_credential st \<or> fs_custom st \<noteq> []) (sample_reply n))"
  by (simp add: fetch_hop_def sample_hops_def host_url_truncate runtime_validate_def sample_shared_def
      sample_request_context_def with_hop_marker_def host_validate await_response_headers_def
      host_url_credentials)

lemma sample_fetch:
  "\<exists>f. fetch_with_redirects cidr_api host_url_api Some sample_hops sample_request_context sample_request ''GET'' []
     sample_shared =
     (sample_shared, [sample_sent ''example.org'' [(''x-key'', [''v''])], sample_sent ''other.org'' []], Inr f)"
proof -
  let ?st = "\<lparr>fs_target = ''example.org'', fs_automatic = [], fs_custom = [(''x-key'', [''v''])], fs_redirects = 0,
      fs_credential = False\<rparr>"
  let ?st1 = "\<lparr>fs_target = ''other.org'', fs_automatic = [], fs_custom = [], fs_redirects = Suc 0, fs_credential = True\<rparr>"
  have first: "after_reply host_url_api Some [] ?st ''example.org'' True (sample_reply 0) = HopRedirect ?st1"
    by (simp add: after_reply_def sample_reply_def REDIRECT_STATUSES_def redirect_target_def hm_get_def hm_get_all_def
        host_url_api_def MAX_TARGET_URL_def apply_redirect_origin_policy_def same_origin_def hm_remove_def)
  obtain f where second: "after_reply host_url_api Some [] ?st1 ''other.org'' True (sample_reply (Suc 0)) = HopDone f"
    by (simp add: after_reply_def sample_reply_def REDIRECT_STATUSES_def)
  have sent: "hop_request (sh_rt sample_shared) sample_request_context ''GET'' ?st
        \<lparr>rd_url = ''example.org'', rd_domain = Some ''example.org'', rd_addrs = [SA4 (ipv4_new 93 184 216 34) 443]\<rparr> =
        sample_sent ''example.org'' [(''x-key'', [''v''])]"
    "hop_request (sh_rt sample_shared) sample_request_context ''GET'' ?st1
        \<lparr>rd_url = ''other.org'', rd_domain = Some ''other.org'', rd_addrs = [SA4 (ipv4_new 93 184 216 34) 443]\<rparr> =
        sample_sent ''other.org'' []"
    by (simp_all add: hop_request_def sample_sent_def sample_shared_def with_hop_marker_def sample_request_context_def
        hm_iter_def hm_insert_def PROXY_HOP_HEADER_NAME_def)
  have "fetch_loop cidr_api host_url_api Some sample_hops sample_request_context ''GET'' [] ?st1 sample_shared =
      (sample_shared, [sample_sent ''other.org'' []], Inr f)"
    by (subst fetch_loop.simps) (simp add: sample_hop second sent)
  then have "fetch_loop cidr_api host_url_api Some sample_hops sample_request_context ''GET'' [] ?st sample_shared =
      (sample_shared, [sample_sent ''example.org'' [(''x-key'', [''v''])], sample_sent ''other.org'' []], Inr f)"
    by (subst fetch_loop.simps) (simp add: sample_hop first sent)
  then show ?thesis
    by (auto simp: fetch_with_redirects_def sample_request_def automatic_headers_def AUTOMATIC_REQUEST_HEADERS_def hm_get_def)
qed


theorem redirects_keep_secrets_at_their_origin_witness:
  "sent_names (sample_sent ''other.org'' []) \<subseteq>
     {''accept'', ''accept-language'', ''range'', ''user-agent'', ''accept-encoding'', PROXY_HOP_HEADER_NAME}"
proof -
  obtain f where f: "fetch_with_redirects cidr_api host_url_api Some sample_hops sample_request_context sample_request ''GET'' []
     sample_shared = (sample_shared, [sample_sent ''example.org'' [(''x-key'', [''v''])], sample_sent ''other.org'' []], Inr f)"
    using sample_fetch by blast
  have "\<not> origin_kept host_url_api ([sample_sent ''example.org'' [(''x-key'', [''v''])]] @ [sample_sent ''other.org'' []])"
    by (simp add: origin_kept_def same_origin_def host_url_api_def sample_sent_def)
  moreover have "[sample_sent ''example.org'' [(''x-key'', [''v''])], sample_sent ''other.org'' []] =
      [sample_sent ''example.org'' [(''x-key'', [''v''])]] @ sample_sent ''other.org'' [] # []" by simp
  ultimately show ?thesis
    using redirects_keep_secrets_at_their_origin [OF host_url_contract f] by blast
qed

definition sample_handler :: handler_env where
  "sample_handler = \<lparr>hn_hops = sample_hops, hn_cancel_at = None, hn_now = 0, hn_off_thread = OffCompleted,
     hn_rewrite_cancelled = (\<lambda>_. False), hn_rewritten_now = 0\<rparr>"


end
