(* ===== verification/Priorities.thy ===== *)
theory Priorities
  imports Prelude
begin

text \<open>
  The playback priority policy of the torrent engine (\<open>enginefs/src/backend/priorities.rs\<close>).

  Piece indices and window sizes are \<open>i32\<close>, byte counts \<open>u64\<close>; casts and products that can
  leave the type are written with \<open>u64_as_i32\<close> and \<open>wrap_i32\<close>.  \<open>decide\<close> returns
  \<open>None\<close> where \<open>Vec::with_capacity\<close> panics, that is when the window length is negative.  The
  only floating-point computation of the policy is the quotient of download rate and bitrate,
  which is compared with three constants; \<open>f64_of_u64\<close> is the conversion of a \<open>u64\<close> to the
  nearest double and \<open>f64_quot_ge\<close> the comparison of the rounded quotient.

  Shown here: for every well-formed context the policy does not panic, plans one contiguous
  window that starts at the current piece and stays inside the file, the cache and the hot,
  warm and byte limits, serves the current piece first, and hands out strictly increasing
  deadlines that fit the type; memory pressure shrinks the window; and the contexts on which
  the policy panics.
\<close>

section \<open>Constants\<close>

definition MIN_STARTUP_BYTES :: u64 where "MIN_STARTUP_BYTES = 4 * 1024 * 1024"
definition MAX_STARTUP_WINDOW_BYTES :: u64 where "MAX_STARTUP_WINDOW_BYTES = 4 * 1024 * 1024"
definition MAX_SEEK_HOT_WINDOW_BYTES :: u64 where "MAX_SEEK_HOT_WINDOW_BYTES = 128 * 1024 * 1024"
definition MAX_WARM_WINDOW_BYTES :: u64 where "MAX_WARM_WINDOW_BYTES = 256 * 1024 * 1024"
definition MAX_CONTAINER_METADATA_WINDOW_BYTES :: u64 where
  "MAX_CONTAINER_METADATA_WINDOW_BYTES = 16 * 1024 * 1024"
definition MAX_DOWNLOAD_RANGE_WINDOW_BYTES :: u64 where
  "MAX_DOWNLOAD_RANGE_WINDOW_BYTES = 32 * 1024 * 1024"
definition SMALL_FILE_BYTES :: u64 where "SMALL_FILE_BYTES = 64 * 1024 * 1024"
definition MAX_STARTUP_PIECES :: i32 where "MAX_STARTUP_PIECES = 4"
definition MAX_SMALL_FILE_STARTUP_PIECES :: i32 where "MAX_SMALL_FILE_STARTUP_PIECES = 32"
definition MIN_STARTUP_PIECES :: i32 where "MIN_STARTUP_PIECES = 2"
definition MIN_SEEK_HOT_PIECES :: i32 where "MIN_SEEK_HOT_PIECES = 24"
definition SEEK_IMMEDIATE_PIECES :: i32 where "SEEK_IMMEDIATE_PIECES = 12"
definition MAX_HOT_PIECES :: i32 where "MAX_HOT_PIECES = 96"
definition MAX_WARM_PIECES :: i32 where "MAX_WARM_PIECES = 192"
definition BLOCKED_REPLAN_INTERVAL_MS :: u64 where "BLOCKED_REPLAN_INTERVAL_MS = 8000"
definition MIN_PIECE_DEADLINE_STEP_MS :: u64 where "MIN_PIECE_DEADLINE_STEP_MS = 500"
definition MAX_PIECE_DEADLINE_STEP_MS :: u64 where "MAX_PIECE_DEADLINE_STEP_MS = 30000"

lemmas priority_byte_constants =
  MIN_STARTUP_BYTES_def MAX_STARTUP_WINDOW_BYTES_def MAX_SEEK_HOT_WINDOW_BYTES_def
  MAX_WARM_WINDOW_BYTES_def MAX_CONTAINER_METADATA_WINDOW_BYTES_def
  MAX_DOWNLOAD_RANGE_WINDOW_BYTES_def SMALL_FILE_BYTES_def

lemmas priority_piece_constants =
  MAX_STARTUP_PIECES_def MAX_SMALL_FILE_STARTUP_PIECES_def MIN_STARTUP_PIECES_def
  MIN_SEEK_HOT_PIECES_def SEEK_IMMEDIATE_PIECES_def MAX_HOT_PIECES_def MAX_WARM_PIECES_def
  MIN_PIECE_DEADLINE_STEP_MS_def MAX_PIECE_DEADLINE_STEP_MS_def

section \<open>Container metadata and intents\<close>

definition container_metadata_start :: "u64 \<Rightarrow> u64" where
  "container_metadata_start file_size =
     (if file_size = 0 then 0
      else if file_size < SMALL_FILE_BYTES then sat_mul_u64 file_size 95 div 100
      else min (file_size - 10 * 1024 * 1024) (sat_mul_u64 file_size 95 div 100))"

definition is_container_metadata_request :: "u64 \<Rightarrow> u64 \<Rightarrow> u64 \<Rightarrow> bool" where
  "is_container_metadata_request start requested_len file_size \<longleftrightarrow>
     start > 0 \<and> file_size > 0 \<and> requested_len > 0 \<and>
     requested_len \<le> MAX_CONTAINER_METADATA_WINDOW_BYTES \<and>
     start \<ge> container_metadata_start file_size"

datatype playback_intent =
    DirectInitial | DirectSeek | DirectSequential | HlsInitial | HlsSeek | HlsSequential
  | DownloadFull | DownloadRange | ContainerMetadata | InternalProbe | Background

fun is_hls :: "playback_intent \<Rightarrow> bool" where
  "is_hls HlsInitial = True"
| "is_hls HlsSeek = True"
| "is_hls HlsSequential = True"
| "is_hls _ = False"

fun sequential_after_first_byte :: "playback_intent \<Rightarrow> playback_intent" where
  "sequential_after_first_byte DirectInitial = DirectSequential"
| "sequential_after_first_byte DirectSeek = DirectSequential"
| "sequential_after_first_byte DirectSequential = DirectSequential"
| "sequential_after_first_byte HlsInitial = HlsSequential"
| "sequential_after_first_byte HlsSeek = HlsSequential"
| "sequential_after_first_byte HlsSequential = HlsSequential"
| "sequential_after_first_byte other = other"

definition seek_for_same_family :: "playback_intent \<Rightarrow> playback_intent" where
  "seek_for_same_family i =
     (if is_hls i then HlsSeek
      else if i \<in> {DownloadFull, DownloadRange} then DownloadRange
      else DirectSeek)"

definition disk_backed_sequential_download :: "playback_intent \<Rightarrow> bool" where
  "disk_backed_sequential_download i \<longleftrightarrow> i = DownloadFull"

fun disk_backed_file_baseline_priority :: "playback_intent \<Rightarrow> i32" where
  "disk_backed_file_baseline_priority DownloadFull = 7"
| "disk_backed_file_baseline_priority DownloadRange = 7"
| "disk_backed_file_baseline_priority _ = 1"

fun disk_backed_forward_window_pieces :: "playback_intent \<Rightarrow> i32" where
  "disk_backed_forward_window_pieces DownloadFull = 64"
| "disk_backed_forward_window_pieces DownloadRange = 8"
| "disk_backed_forward_window_pieces DirectInitial = MAX_STARTUP_PIECES"
| "disk_backed_forward_window_pieces HlsInitial = MAX_STARTUP_PIECES"
| "disk_backed_forward_window_pieces DirectSeek = 32"
| "disk_backed_forward_window_pieces DirectSequential = 32"
| "disk_backed_forward_window_pieces HlsSeek = 16"
| "disk_backed_forward_window_pieces HlsSequential = 16"
| "disk_backed_forward_window_pieces ContainerMetadata = 16"
| "disk_backed_forward_window_pieces InternalProbe = 1"
| "disk_backed_forward_window_pieces Background = 1"

definition pieces_for_bytes :: "u64 \<Rightarrow> u64 \<Rightarrow> i32" where
  "pieces_for_bytes bytes piece_length =
     (if bytes = 0 \<or> piece_length = 0 then 0
      else u64_as_i32 (clamp_u64 (sat_add_u64 bytes (piece_length - 1) div piece_length) 1 2147483647))"

definition cap_pieces_by_bytes :: "i32 \<Rightarrow> u64 \<Rightarrow> u64 \<Rightarrow> i32" where
  "cap_pieces_by_bytes pieces piece_length max_bytes =
     (if pieces \<le> 0 then 0
      else if max_bytes = 0 then 0
      else min pieces (max (pieces_for_bytes max_bytes piece_length) 1))"

fun disk_backed_window_bytes :: "playback_intent \<Rightarrow> u64" where
  "disk_backed_window_bytes DownloadFull = MAX_WARM_WINDOW_BYTES"
| "disk_backed_window_bytes DownloadRange = MAX_DOWNLOAD_RANGE_WINDOW_BYTES"
| "disk_backed_window_bytes DirectInitial = MAX_STARTUP_WINDOW_BYTES"
| "disk_backed_window_bytes HlsInitial = MAX_STARTUP_WINDOW_BYTES"
| "disk_backed_window_bytes DirectSeek = MAX_SEEK_HOT_WINDOW_BYTES"
| "disk_backed_window_bytes HlsSeek = MAX_SEEK_HOT_WINDOW_BYTES"
| "disk_backed_window_bytes DirectSequential = MAX_SEEK_HOT_WINDOW_BYTES"
| "disk_backed_window_bytes HlsSequential = MAX_SEEK_HOT_WINDOW_BYTES"
| "disk_backed_window_bytes ContainerMetadata = MAX_CONTAINER_METADATA_WINDOW_BYTES"
| "disk_backed_window_bytes InternalProbe = MAX_CONTAINER_METADATA_WINDOW_BYTES"
| "disk_backed_window_bytes Background = MAX_CONTAINER_METADATA_WINDOW_BYTES"

definition disk_backed_forward_window_pieces_for :: "playback_intent \<Rightarrow> u64 \<Rightarrow> i32" where
  "disk_backed_forward_window_pieces_for intent piece_length =
     cap_pieces_by_bytes (disk_backed_forward_window_pieces intent) piece_length
       (disk_backed_window_bytes intent)"

definition playback_deadline_step_ms :: "u64 \<Rightarrow> u64 option \<Rightarrow> u64 \<Rightarrow> i32" where
  "playback_deadline_step_ms piece_length bitrate_bytes_per_sec download_rate_bytes_per_sec =
     (let bitrate = option_filter (\<lambda>rate. rate > 0) bitrate_bytes_per_sec;
          download_rate = (if download_rate_bytes_per_sec > 0
                           then Some download_rate_bytes_per_sec else None);
          effective_rate =
            (case (bitrate, download_rate) of
               (Some b, Some d) \<Rightarrow> min b d
             | (Some b, None) \<Rightarrow> b
             | (None, Some d) \<Rightarrow> d
             | (None, None) \<Rightarrow> 1024 * 1024)
      in u64_as_i32 (clamp_u64 (div_ceil_u64 (sat_mul_u64 piece_length 1000) effective_rate)
           MIN_PIECE_DEADLINE_STEP_MS MAX_PIECE_DEADLINE_STEP_MS))"

section \<open>Contexts and decisions\<close>

datatype memory_pressure = Normal | High

datatype priority_band = Immediate | Hot | Warm | Metadata | BackgroundBand

record engine_cache_config =
  ecc_size :: u64
  ecc_enabled :: bool

definition engine_cache_default :: engine_cache_config where
  "engine_cache_default = \<lparr>ecc_size = 10 * 1024 * 1024 * 1024, ecc_enabled = True\<rparr>"

record priority_context =
  intent :: playback_intent
  current_piece :: i32
  first_piece :: i32
  last_piece :: i32
  piece_length :: u64
  file_size :: u64
  bitrate_bytes_per_sec :: "u64 option"
  download_rate_bytes_per_sec :: u64
  peers :: u64
  cache_size_bytes :: u64
  memory_pressure :: memory_pressure
  consecutive_waits :: nat
  first_byte_sent :: bool

record priority_assignment =
  piece_idx :: i32
  piece_priority :: i32
  deadline :: i32
  band :: priority_band

record priority_decision =
  assignments :: "priority_assignment list"
  target_window_pieces :: i32
  immediate_pieces :: i32
  hot_window_pieces :: i32
  warm_window_pieces :: i32
  reason :: string

text \<open>
  \<open>u64 as f64\<close> rounds to 53 significant bits, ties to even.  A quotient of doubles is at least
  the double \<open>n / 2 ^ k\<close> exactly when the exact quotient is at least the midpoint
  \<open>(n - 1) / 2 ^ k\<close> below it: for the three constants 3.0, 1.5 and 1.0 the gap to the
  preceding double is \<open>2 / 2 ^ k\<close> with \<open>k\<close> 52, 53 and 54, and a tie goes to the constant, whose
  significand is even.
\<close>

fun bit_width :: "nat \<Rightarrow> nat" where
  "bit_width n = (if n = 0 then 0 else Suc (bit_width (n div 2)))"

declare bit_width.simps [simp del]

definition f64_of_u64 :: "u64 \<Rightarrow> nat" where
  "f64_of_u64 n =
     (if n < 2 ^ 53 then n
      else let s = bit_width n - 53; q = n div 2 ^ s; r = n mod 2 ^ s
           in (if r > 2 ^ (s - 1) \<or> (r = 2 ^ (s - 1) \<and> odd q) then q + 1 else q) * 2 ^ s)"

definition f64_quot_ge :: "nat \<Rightarrow> nat \<Rightarrow> nat \<Rightarrow> nat \<Rightarrow> bool" where
  "f64_quot_ge a b n k \<longleftrightarrow> a * 2 ^ k \<ge> b * (n - 1)"

definition ratio_window :: "u64 \<Rightarrow> u64 \<Rightarrow> i32" where
  "ratio_window download_rate bitrate =
     (let a = f64_of_u64 download_rate; b = f64_of_u64 bitrate
      in if f64_quot_ge a b (3 * 2 ^ 52) 52 then 96
         else if f64_quot_ge a b (3 * 2 ^ 52) 53 then 48
         else if f64_quot_ge a b (2 ^ 54) 54 then 32
         else MIN_SEEK_HOT_PIECES)"

definition dynamic_hot_window :: "priority_context \<Rightarrow> i32" where
  "dynamic_hot_window ctx =
     (let bitrate = option_filter (\<lambda>b. b > 0) (bitrate_bytes_per_sec ctx);
          rate = download_rate_bytes_per_sec ctx;
          hot0 = (case bitrate of
                    Some b \<Rightarrow> ratio_window rate b
                  | None \<Rightarrow>
                      if rate > 10 * 1024 * 1024 then 96
                      else if rate > 5 * 1024 * 1024 then 48
                      else if rate > 1024 * 1024 then MIN_SEEK_HOT_PIECES
                      else 16);
          hot1 = (case bitrate of
                    Some b \<Rightarrow> max hot0 (u64_as_i32 (max (sat_mul_u64 b 10 div piece_length ctx) 1))
                  | None \<Rightarrow> hot0)
      in if peers ctx < 3 then min hot1 MIN_SEEK_HOT_PIECES else hot1)"

definition hot_byte_cap :: "priority_context \<Rightarrow> u64" where
  "hot_byte_cap ctx =
     (case intent ctx of
        DirectInitial \<Rightarrow> if \<not> first_byte_sent ctx then MAX_STARTUP_WINDOW_BYTES else MAX_SEEK_HOT_WINDOW_BYTES
      | HlsInitial \<Rightarrow> if \<not> first_byte_sent ctx then MAX_STARTUP_WINDOW_BYTES else MAX_SEEK_HOT_WINDOW_BYTES
      | DirectSeek \<Rightarrow> MAX_SEEK_HOT_WINDOW_BYTES
      | HlsSeek \<Rightarrow> MAX_SEEK_HOT_WINDOW_BYTES
      | DirectSequential \<Rightarrow> MAX_SEEK_HOT_WINDOW_BYTES
      | HlsSequential \<Rightarrow> MAX_SEEK_HOT_WINDOW_BYTES
      | DownloadFull \<Rightarrow> MAX_WARM_WINDOW_BYTES
      | DownloadRange \<Rightarrow> MAX_DOWNLOAD_RANGE_WINDOW_BYTES
      | ContainerMetadata \<Rightarrow> MAX_CONTAINER_METADATA_WINDOW_BYTES
      | InternalProbe \<Rightarrow> MAX_CONTAINER_METADATA_WINDOW_BYTES
      | Background \<Rightarrow> MAX_CONTAINER_METADATA_WINDOW_BYTES)"

fun warm_byte_cap :: "playback_intent \<Rightarrow> u64" where
  "warm_byte_cap DownloadRange = 0"
| "warm_byte_cap ContainerMetadata = 0"
| "warm_byte_cap InternalProbe = 0"
| "warm_byte_cap Background = 0"
| "warm_byte_cap _ = MAX_WARM_WINDOW_BYTES"

definition assignment_for ::
  "priority_context \<Rightarrow> i32 \<Rightarrow> i32 \<Rightarrow> i32 \<Rightarrow> priority_band \<times> i32 \<times> i32" where
  "assignment_for ctx distance immediate hot =
     (let step = playback_deadline_step_ms (piece_length ctx) (bitrate_bytes_per_sec ctx)
                   (download_rate_bytes_per_sec ctx);
          d = wrap_i32 (distance * step)
      in case intent ctx of
          ContainerMetadata \<Rightarrow> (Metadata, 7, d)
        | InternalProbe \<Rightarrow> (BackgroundBand, 1, wrap_i32 (10000 + d))
        | Background \<Rightarrow> (BackgroundBand, 1, wrap_i32 (30000 + d))
        | _ \<Rightarrow>
            if distance < immediate then (Immediate, 7, d)
            else if distance < hot then (Hot, 4, d)
            else (Warm, 2, wrap_i32 (10000 + d)))"

section \<open>The decision\<close>

fun intent_reason :: "playback_intent \<Rightarrow> string" where
  "intent_reason DirectInitial = ''initial''"
| "intent_reason HlsInitial = ''initial''"
| "intent_reason DirectSeek = ''seek''"
| "intent_reason HlsSeek = ''seek''"
| "intent_reason DirectSequential = ''sequential''"
| "intent_reason HlsSequential = ''sequential''"
| "intent_reason DownloadFull = ''download-full''"
| "intent_reason DownloadRange = ''download-range''"
| "intent_reason ContainerMetadata = ''container-metadata''"
| "intent_reason InternalProbe = ''internal-probe''"
| "intent_reason Background = ''background''"

definition startup_pieces :: "priority_context \<Rightarrow> i32" where
  "startup_pieces ctx =
     (let pl = piece_length ctx;
          wanted = (case bitrate_bytes_per_sec ctx of
                      Some bitrate \<Rightarrow> max (sat_mul_u64 bitrate 10) MIN_STARTUP_BYTES
                    | None \<Rightarrow>
                        if file_size ctx > 0 \<and> file_size ctx \<le> SMALL_FILE_BYTES
                        then min (file_size ctx) MAX_STARTUP_WINDOW_BYTES
                        else MIN_STARTUP_BYTES);
          target_bytes = min (max wanted pl) (max MAX_STARTUP_WINDOW_BYTES pl);
          pieces = sat_add_u64 target_bytes (pl - 1) div pl;
          max_startup_pieces =
            (if bitrate_bytes_per_sec ctx = None \<and> file_size ctx \<le> SMALL_FILE_BYTES
             then clamp_i32 (pieces_for_bytes (min (file_size ctx) MAX_STARTUP_WINDOW_BYTES) pl)
                    1 MAX_SMALL_FILE_STARTUP_PIECES
             else MAX_STARTUP_PIECES);
          min_startup_pieces = max (min MIN_STARTUP_PIECES max_startup_pieces) 1
      in clamp_i32 (u64_as_i32 pieces) min_startup_pieces max_startup_pieces)"

definition sequential_windows :: "priority_context \<Rightarrow> i32 \<times> i32 \<times> i32 \<times> string" where
  "sequential_windows ctx =
     (let hot = dynamic_hot_window ctx
      in if is_hls (intent ctx) then (2, min hot 48, 32, ''-hls-cap'') else (2, hot, 32, []))"

definition seek_windows :: "priority_context \<Rightarrow> i32 \<times> i32 \<times> i32 \<times> string" where
  "seek_windows ctx =
     (let hot0 = max (dynamic_hot_window ctx) MIN_SEEK_HOT_PIECES;
          blocked = consecutive_waits ctx \<ge> 3;
          hot1 = (if blocked then min (wrap_i32 (hot0 * 2)) MAX_HOT_PIECES else hot0);
          immediate = (if blocked then min (wrap_i32 (SEEK_IMMEDIATE_PIECES * 2)) hot1
                       else SEEK_IMMEDIATE_PIECES);
          reason1 = (if blocked then ''-blocked-expand'' else []);
          hls = (is_hls (intent ctx) \<and> consecutive_waits ctx < 3)
      in (immediate, if hls then min hot1 48 else hot1, 32, reason1 @ (if hls then ''-hls-cap'' else [])))"

definition base_windows :: "priority_context \<Rightarrow> i32 \<times> i32 \<times> i32 \<times> string" where
  "base_windows ctx =
     (case intent ctx of
        DirectInitial \<Rightarrow>
          if \<not> first_byte_sent ctx
          then (min (startup_pieces ctx) MAX_STARTUP_PIECES, startup_pieces ctx, 0, [])
          else sequential_windows ctx
      | HlsInitial \<Rightarrow>
          if \<not> first_byte_sent ctx
          then (min (startup_pieces ctx) MAX_STARTUP_PIECES, startup_pieces ctx, 0, [])
          else sequential_windows ctx
      | DirectSequential \<Rightarrow> sequential_windows ctx
      | HlsSequential \<Rightarrow> sequential_windows ctx
      | DownloadFull \<Rightarrow> (2, 16, 0, [])
      | DownloadRange \<Rightarrow> (1, 4, 0, [])
      | DirectSeek \<Rightarrow>
          if \<not> first_byte_sent ctx then (1, 1, 0, ''-first-piece-only'') else seek_windows ctx
      | HlsSeek \<Rightarrow>
          if \<not> first_byte_sent ctx then (1, 1, 0, ''-first-piece-only'') else seek_windows ctx
      | ContainerMetadata \<Rightarrow> (1, 2, 0, [])
      | InternalProbe \<Rightarrow> (0, 2, 0, [])
      | Background \<Rightarrow> (0, 4, 0, []))"

definition max_cache_pieces :: "priority_context \<Rightarrow> i32" where
  "max_cache_pieces ctx =
     (if cache_size_bytes ctx > 0
      then u64_as_i32 (max (cache_size_bytes ctx div piece_length ctx) 1)
      else MAX_HOT_PIECES)"

definition remaining_pieces :: "priority_context \<Rightarrow> i32" where
  "remaining_pieces ctx = wrap_i32 (sat_sub_i32 (last_piece ctx) (current_piece ctx) + 1)"

text \<open>The windows after the memory clamp, then the byte caps and the final clamping.\<close>

definition pressured_windows :: "priority_context \<Rightarrow> i32 \<times> i32 \<times> i32 \<times> string" where
  "pressured_windows ctx =
     (let (immediate, hot, warm, r0) = base_windows ctx;
          high = (memory_pressure ctx = High)
      in (immediate,
          if high then min hot (if is_hls (intent ctx) then 16 else MIN_SEEK_HOT_PIECES) else hot,
          if intent ctx \<in> {Background, InternalProbe} then 0 else if high then 0 else warm,
          r0 @ (if high then ''-memory-clamp'' else [])))"

definition final_hot :: "priority_context \<Rightarrow> i32 \<Rightarrow> i32" where
  "final_hot ctx hot =
     min (min (clamp_i32 hot 0 MAX_HOT_PIECES) (max_cache_pieces ctx)) (remaining_pieces ctx)"

definition final_warm :: "priority_context \<Rightarrow> i32 \<Rightarrow> i32 \<Rightarrow> i32" where
  "final_warm ctx warm hot =
     min (min (clamp_i32 warm 0 MAX_WARM_PIECES) (sat_sub_i32 (max_cache_pieces ctx) hot))
       (sat_sub_i32 (remaining_pieces ctx) hot)"

definition final_windows :: "priority_context \<Rightarrow> i32 \<times> i32 \<times> i32 \<times> string" where
  "final_windows ctx =
     (let (immediate, original_hot, original_warm, r1) = pressured_windows ctx;
          hot1 = cap_pieces_by_bytes original_hot (piece_length ctx) (hot_byte_cap ctx);
          warm1 = cap_pieces_by_bytes original_warm (piece_length ctx) (warm_byte_cap (intent ctx));
          r2 = r1 @ (if hot1 < original_hot \<or> warm1 < original_warm then ''-byte-cap'' else []);
          hot = final_hot ctx hot1;
          warm = final_warm ctx warm1 hot
      in (max (min immediate hot) 0, hot, warm, r2))"

fun assign_from :: "priority_context \<Rightarrow> i32 \<Rightarrow> i32 \<Rightarrow> i32 \<Rightarrow> nat \<Rightarrow> priority_assignment list" where
  "assign_from ctx immediate hot distance 0 = []"
| "assign_from ctx immediate hot distance (Suc n) =
     (let idx = wrap_i32 (current_piece ctx + distance)
      in if idx > last_piece ctx then []
         else let (b, p, d) = assignment_for ctx distance immediate hot
              in \<lparr>piece_idx = idx, piece_priority = p, deadline = d, band = b\<rparr>
                 # assign_from ctx immediate hot (distance + 1) n)"

definition decide :: "priority_context \<Rightarrow> priority_decision option" where
  "decide ctx =
     (if piece_length ctx = 0 \<or> current_piece ctx < first_piece ctx \<or> last_piece ctx < first_piece ctx
      then Some \<lparr>assignments = [], target_window_pieces = 0, immediate_pieces = 0,
                 hot_window_pieces = 0, warm_window_pieces = 0, reason = ''invalid-context''\<rparr>
      else
        let (immediate, hot, warm, suffix) = final_windows ctx;
            target_window = wrap_i32 (hot + warm)
        in if target_window < 0 then None
           else Some \<lparr>assignments = assign_from ctx immediate hot 0 (nat target_window),
                      target_window_pieces = target_window, immediate_pieces = immediate,
                      hot_window_pieces = hot, warm_window_pieces = warm,
                      reason = intent_reason (intent ctx) @ suffix\<rparr>)"

definition calculate_priorities ::
  "i32 \<Rightarrow> i32 \<Rightarrow> u64 \<Rightarrow> engine_cache_config \<Rightarrow> nat \<Rightarrow> u64 \<Rightarrow> u64 option \<Rightarrow>
   priority_assignment list option" where
  "calculate_priorities current total_pieces piece_len config priority download_speed bitrate =
     map_option assignments (decide
       \<lparr>intent = (if priority \<ge> 250 then InternalProbe
                  else if priority \<ge> 100 then DirectSeek
                  else if priority = 0 then Background else DirectSequential),
        current_piece = current, first_piece = 0, last_piece = sat_sub_i32 total_pieces 1,
        piece_length = piece_len,
        file_size = wrap_u64 (nat (max total_pieces 0) * piece_len),
        bitrate_bytes_per_sec = bitrate, download_rate_bytes_per_sec = download_speed,
        peers = 8, cache_size_bytes = (if ecc_enabled config then ecc_size config else 0),
        memory_pressure = Normal, consecutive_waits = 0, first_byte_sent = True\<rparr>)"

section \<open>Well-formed contexts\<close>

text \<open>
  What the engine guarantees of a context: the current piece lies in the piece range of the
  file, the range ends below the largest \<open>i32\<close> and the cache holds fewer than \<open>2 ^ 31\<close> pieces.
\<close>

definition context_wf :: "priority_context \<Rightarrow> bool" where
  "context_wf ctx \<longleftrightarrow>
     0 < piece_length ctx \<and> piece_length ctx \<le> u64_max \<and> 0 \<le> first_piece ctx \<and>
     first_piece ctx \<le> current_piece ctx \<and> current_piece ctx \<le> last_piece ctx \<and>
     last_piece ctx < i32_max \<and> cache_size_bytes ctx div piece_length ctx \<le> 2147483647"

text \<open>The bitrate is small enough for ten seconds of it to be fewer than \<open>2 ^ 30\<close> pieces.\<close>

definition bitrate_sane :: "priority_context \<Rightarrow> bool" where
  "bitrate_sane ctx \<longleftrightarrow>
     (\<forall>b. bitrate_bytes_per_sec ctx = Some b \<longrightarrow> b * 10 div piece_length ctx < 2 ^ 30)"

lemma remaining_pieces_wf:
  assumes "context_wf ctx"
  shows "remaining_pieces ctx = last_piece ctx - current_piece ctx + 1"
  using assms
  by (simp add: context_wf_def remaining_pieces_def sat_sub_i32_id wrap_i32_id)

lemma max_cache_pieces_wf:
  assumes "context_wf ctx"
  shows "max_cache_pieces ctx =
    (if cache_size_bytes ctx > 0 then int (max (cache_size_bytes ctx div piece_length ctx) 1) else 96)"
  using assms
  by (simp add: context_wf_def max_cache_pieces_def u64_as_i32_id MAX_HOT_PIECES_def)

lemma pieces_for_bytes_eq:
  "b > 0 \<Longrightarrow> pl > 0 \<Longrightarrow>
   pieces_for_bytes b pl = int (clamp_u64 (sat_add_u64 b (pl - 1) div pl) 1 2147483647)"
  unfolding pieces_for_bytes_def using clamp_u64_bounds [of 1 2147483647]
  by (simp add: u64_as_i32_id)

lemma pieces_for_bytes_pos: "b > 0 \<Longrightarrow> pl > 0 \<Longrightarrow> 1 \<le> pieces_for_bytes b pl"
  using clamp_u64_bounds [of 1 2147483647 "sat_add_u64 b (pl - 1) div pl"]
  by (simp add: pieces_for_bytes_eq)

lemma pieces_for_bytes_overshoot:
  assumes "b > 0" and "pl > 0"
  shows "pieces_for_bytes b pl * int pl < int b + int pl"
proof -
  let ?q = "sat_add_u64 b (pl - 1) div pl"
  have "?q * pl \<le> b + (pl - 1)"
    by (rule le_trans [OF div_times_less_eq_dividend]) (simp add: sat_add_u64_def)
  then have q: "?q * pl < b + pl" using assms(2) by linarith
  have "clamp_u64 ?q 1 2147483647 \<le> max ?q 1" by (simp add: clamp_u64_def)
  then have "clamp_u64 ?q 1 2147483647 * pl \<le> max ?q 1 * pl" by (rule mult_le_mono1)
  also have "\<dots> < b + pl" using q assms(1) by (simp add: max_def)
  finally show ?thesis
    using assms by (simp add: pieces_for_bytes_eq flip: of_nat_mult of_nat_add)
qed

lemma cap_pieces_nonneg: "0 \<le> cap_pieces_by_bytes n pl b"
  by (auto simp: cap_pieces_by_bytes_def)

lemma cap_pieces_pos: "1 \<le> n \<Longrightarrow> b > 0 \<Longrightarrow> 1 \<le> cap_pieces_by_bytes n pl b"
  by (simp add: cap_pieces_by_bytes_def)

lemma cap_pieces_le: "cap_pieces_by_bytes n pl b \<le> max n 0"
  by (simp add: cap_pieces_by_bytes_def)

lemma cap_pieces_bytes:
  assumes "pl > 0"
  shows "cap_pieces_by_bytes n pl b * int pl < int b + int pl"
proof (cases "n \<le> 0 \<or> b = 0")
  case True
  then show ?thesis using assms by (auto simp: cap_pieces_by_bytes_def)
next
  case False
  then have "cap_pieces_by_bytes n pl b \<le> pieces_for_bytes b pl"
    using pieces_for_bytes_pos [of b pl] assms by (auto simp: cap_pieces_by_bytes_def)
  then have "cap_pieces_by_bytes n pl b * int pl \<le> pieces_for_bytes b pl * int pl"
    by (rule mult_right_mono) simp
  also have "\<dots> < int b + int pl" using pieces_for_bytes_overshoot [of b pl] False assms by simp
  finally show ?thesis .
qed

lemma clamp_startup:
  "1 \<le> (m :: int) \<Longrightarrow> m \<le> 32 \<Longrightarrow>
   1 \<le> clamp_i32 x (max (min 2 m) 1) m \<and> clamp_i32 x (max (min 2 m) 1) m \<le> 32"
  unfolding clamp_i32_def by linarith

lemma startup_pieces_range: "1 \<le> startup_pieces ctx \<and> startup_pieces ctx \<le> 32"
  unfolding startup_pieces_def Let_def MIN_STARTUP_PIECES_def
  by (rule clamp_startup) (simp_all add: clamp_i32_def priority_piece_constants)

lemma ratio_window_range: "24 \<le> ratio_window d b \<and> ratio_window d b \<le> 96"
  by (simp add: ratio_window_def Let_def MIN_SEEK_HOT_PIECES_def)

lemma dynamic_hot_window_pos: "16 \<le> dynamic_hot_window ctx"
  using ratio_window_range [of "download_rate_bytes_per_sec ctx"]
  by (auto simp: dynamic_hot_window_def Let_def MIN_SEEK_HOT_PIECES_def le_max_iff_disj
      intro: order_trans [of 16 24] split: option.splits)

lemma dynamic_hot_window_small:
  assumes "bitrate_sane ctx"
  shows "dynamic_hot_window ctx < 2 ^ 30"
proof -
  have b: "max (sat_mul_u64 b 10 div piece_length ctx) 1 < 2 ^ 30"
    if "bitrate_bytes_per_sec ctx = Some b" for b
  proof -
    have "sat_mul_u64 b 10 div piece_length ctx \<le> b * 10 div piece_length ctx"
      by (simp add: sat_mul_u64_def div_le_mono)
    also have "\<dots> < 2 ^ 30" using assms that by (simp add: bitrate_sane_def)
    finally show ?thesis by simp
  qed
  have u: "u64_as_i32 (max (sat_mul_u64 b 10 div piece_length ctx) 1) < 2 ^ 30"
    if "bitrate_bytes_per_sec ctx = Some b" for b
    using b [OF that] by (simp add: u64_as_i32_id)
  have r: "ratio_window d b < 2 ^ 30" for d b using ratio_window_range [of d b] by simp
  show ?thesis
    using u r
    by (auto simp: dynamic_hot_window_def Let_def MIN_SEEK_HOT_PIECES_def min_less_iff_disj
        option_filter_Some_iff split: option.splits)
qed

lemma seek_windows_props:
  assumes "seek_windows ctx = (i, h, w, r)" and "bitrate_sane ctx"
  shows "1 \<le> i \<and> 1 \<le> h \<and> w = 32"
proof -
  have d: "16 \<le> dynamic_hot_window ctx" "dynamic_hot_window ctx < 2 ^ 30"
    using dynamic_hot_window_pos dynamic_hot_window_small [OF assms(2)] by auto
  have w: "wrap_i32 (max (dynamic_hot_window ctx) 24 * 2) = max (dynamic_hot_window ctx) 24 * 2"
    using d by (intro wrap_i32_id) auto
  show ?thesis
    using assms(1) d w
    by (auto simp: seek_windows_def Let_def priority_piece_constants wrap_i32_id split: if_splits)
qed

lemma sequential_windows_props:
  "sequential_windows ctx = (i, h, w, r) \<Longrightarrow> i = 2 \<and> 1 \<le> h \<and> w = 32"
  using dynamic_hot_window_pos [of ctx]
  by (auto simp: sequential_windows_def Let_def split: if_splits)

lemma base_windows_props:
  assumes "base_windows ctx = (i, h, w, r)" and "bitrate_sane ctx"
  shows "1 \<le> h \<and> 0 \<le> w \<and> (intent ctx \<notin> {InternalProbe, Background} \<longrightarrow> 1 \<le> i)"
  using assms startup_pieces_range [of ctx]
  by (cases "intent ctx")
    (auto simp: base_windows_def MAX_STARTUP_PIECES_def split: if_splits
      dest: seek_windows_props sequential_windows_props)

section \<open>The final windows and the plan\<close>

lemma final_hot_bounds:
  assumes "context_wf ctx" and "0 \<le> x"
  shows "0 \<le> final_hot ctx x \<and> final_hot ctx x \<le> 96 \<and> final_hot ctx x \<le> x \<and>
         final_hot ctx x \<le> max_cache_pieces ctx \<and>
         final_hot ctx x \<le> last_piece ctx - current_piece ctx + 1 \<and>
         (1 \<le> x \<longrightarrow> 1 \<le> final_hot ctx x)"
proof -
  have "1 \<le> max_cache_pieces ctx" "1 \<le> remaining_pieces ctx"
    "remaining_pieces ctx = last_piece ctx - current_piece ctx + 1"
    using assms(1) by (simp_all add: max_cache_pieces_wf remaining_pieces_wf context_wf_def)
  then show ?thesis
    using assms(2) unfolding final_hot_def clamp_i32_def MAX_HOT_PIECES_def by linarith
qed

lemma final_warm_bounds:
  assumes "context_wf ctx" and "0 \<le> x" and "0 \<le> h" and "h \<le> max_cache_pieces ctx"
    and "h \<le> last_piece ctx - current_piece ctx + 1"
  shows "0 \<le> final_warm ctx x h \<and> final_warm ctx x h \<le> 192 \<and> final_warm ctx x h \<le> x \<and>
         h + final_warm ctx x h \<le> max_cache_pieces ctx \<and>
         h + final_warm ctx x h \<le> last_piece ctx - current_piece ctx + 1"
proof -
  have mc: "max_cache_pieces ctx \<le> i32_max"
    and rem: "remaining_pieces ctx = last_piece ctx - current_piece ctx + 1"
      "remaining_pieces ctx \<le> i32_max"
    using assms(1) by (auto simp: max_cache_pieces_wf remaining_pieces_wf context_wf_def)
  have "sat_sub_i32 (max_cache_pieces ctx) h = max_cache_pieces ctx - h"
    "sat_sub_i32 (remaining_pieces ctx) h = remaining_pieces ctx - h"
    using assms mc rem by (auto intro!: sat_sub_i32_id)
  then show ?thesis
    using assms rem(1) unfolding final_warm_def clamp_i32_def MAX_WARM_PIECES_def by linarith
qed

lemma final_windows_eq:
  assumes "final_windows ctx = (i, h, w, r)" and "pressured_windows ctx = (i0, h1, w1, r1)"
  shows "h = final_hot ctx (cap_pieces_by_bytes h1 (piece_length ctx) (hot_byte_cap ctx))"
    and "w = final_warm ctx (cap_pieces_by_bytes w1 (piece_length ctx) (warm_byte_cap (intent ctx))) h"
    and "i = max (min i0 h) 0"
  using assms by (simp_all add: final_windows_def Let_def) blast+

lemma final_windows_bounds:
  assumes wf: "context_wf ctx" and fin: "final_windows ctx = (i, h, w, r)"
  shows "0 \<le> i \<and> i \<le> h \<and> h \<le> 96 \<and> 0 \<le> w \<and> w \<le> 192 \<and>
         h + w \<le> last_piece ctx - current_piece ctx + 1 \<and> h + w \<le> max_cache_pieces ctx"
proof -
  obtain i0 h1 w1 r1 where p: "pressured_windows ctx = (i0, h1, w1, r1)" by (metis prod_cases4)
  note eq = final_windows_eq [OF fin p]
  note hb = final_hot_bounds [OF wf cap_pieces_nonneg, of h1 "piece_length ctx" "hot_byte_cap ctx",
      folded eq(1)]
  have "0 \<le> w \<and> w \<le> 192 \<and> h + w \<le> max_cache_pieces ctx \<and>
      h + w \<le> last_piece ctx - current_piece ctx + 1"
    unfolding eq(2) using final_warm_bounds [OF wf cap_pieces_nonneg, of h] hb by simp
  then show ?thesis using hb eq(3) by auto
qed

lemma pressured_windows_eq:
  "base_windows ctx = (i, h, w, r) \<Longrightarrow> \<exists>r'. pressured_windows ctx =
     (i, if memory_pressure ctx = High then min h (if is_hls (intent ctx) then 16 else 24) else h,
      if intent ctx \<in> {Background, InternalProbe} \<or> memory_pressure ctx = High then 0 else w, r')"
  by (simp add: pressured_windows_def Let_def MIN_SEEK_HOT_PIECES_def)

lemma cap_pieces_mono: "a \<le> b \<Longrightarrow> cap_pieces_by_bytes a pl m \<le> cap_pieces_by_bytes b pl m"
  by (auto simp: cap_pieces_by_bytes_def)

lemma hot_byte_cap_pos: "hot_byte_cap ctx > 0"
  by (simp add: hot_byte_cap_def priority_byte_constants split: playback_intent.split)

lemma final_windows_limits:
  assumes wf: "context_wf ctx" and fin: "final_windows ctx = (i, h, w, r)"
  shows "h * int (piece_length ctx) < int (hot_byte_cap ctx) + int (piece_length ctx)"
    and "w * int (piece_length ctx) < int (warm_byte_cap (intent ctx)) + int (piece_length ctx)"
    and "memory_pressure ctx = High \<Longrightarrow> h \<le> (if is_hls (intent ctx) then 16 else 24) \<and> w = 0"
proof -
  obtain i0 h0 w0 r0 where base: "base_windows ctx = (i0, h0, w0, r0)" by (metis prod_cases4)
  obtain h1 w1 r1 where p: "pressured_windows ctx = (i0, h1, w1, r1)"
    and press: "memory_pressure ctx = High \<Longrightarrow> h1 \<le> (if is_hls (intent ctx) then 16 else 24) \<and> w1 = 0"
    using pressured_windows_eq [OF base] by auto
  note eq = final_windows_eq [OF fin p]
  let ?pl = "piece_length ctx"
  have pl: "?pl > 0" using wf by (simp add: context_wf_def)
  note hb = final_hot_bounds [OF wf cap_pieces_nonneg, of h1 ?pl "hot_byte_cap ctx", folded eq(1)]
  have h: "h \<le> cap_pieces_by_bytes h1 ?pl (hot_byte_cap ctx)" using hb by simp
  have w: "w \<le> cap_pieces_by_bytes w1 ?pl (warm_byte_cap (intent ctx))"
    unfolding eq(2) using final_warm_bounds [OF wf cap_pieces_nonneg, of h] hb by simp
  show "h * int ?pl < int (hot_byte_cap ctx) + int ?pl"
    using mult_right_mono [OF h, of "int ?pl"] cap_pieces_bytes [OF pl, of h1 "hot_byte_cap ctx"] by simp
  show "w * int ?pl < int (warm_byte_cap (intent ctx)) + int ?pl"
    using mult_right_mono [OF w, of "int ?pl"] cap_pieces_bytes [OF pl, of w1 "warm_byte_cap (intent ctx)"]
    by simp
  show "h \<le> (if is_hls (intent ctx) then 16 else 24) \<and> w = 0" if hi: "memory_pressure ctx = High"
  proof
    show "h \<le> (if is_hls (intent ctx) then 16 else 24)"
      using press [OF hi] h cap_pieces_le [of h1 ?pl "hot_byte_cap ctx"] by (auto split: if_splits)
    show "w = 0"
      using press [OF hi] w final_windows_bounds [OF wf fin] by (simp add: cap_pieces_by_bytes_def)
  qed
qed

lemma final_windows_progress:
  assumes wf: "context_wf ctx" and sane: "bitrate_sane ctx" and fin: "final_windows ctx = (i, h, w, r)"
  shows "1 \<le> h" and "intent ctx \<notin> {InternalProbe, Background} \<Longrightarrow> 1 \<le> i"
proof -
  obtain i0 h0 w0 r0 where base: "base_windows ctx = (i0, h0, w0, r0)" by (metis prod_cases4)
  note b = base_windows_props [OF base sane]
  have h1: "1 \<le> (if memory_pressure ctx = High
      then min h0 (if is_hls (intent ctx) then 16 else 24) else h0)" (is "1 \<le> ?h1")
    using b by simp
  obtain w1 r1 where p: "pressured_windows ctx = (i0, ?h1, w1, r1)"
    using pressured_windows_eq [OF base] by blast
  note eq = final_windows_eq [OF fin p]
  show h: "1 \<le> h"
    unfolding eq(1) using final_hot_bounds [OF wf cap_pieces_nonneg]
      cap_pieces_pos [OF h1 hot_byte_cap_pos] by blast
  show "1 \<le> i" if "intent ctx \<notin> {InternalProbe, Background}"
    using h b that by (simp add: eq(3))
qed

definition planned :: "priority_context \<Rightarrow> i32 \<Rightarrow> i32 \<Rightarrow> i32 \<Rightarrow> priority_assignment" where
  "planned ctx i h k =
     (let (b, p, d) = assignment_for ctx k i h
      in \<lparr>piece_idx = current_piece ctx + k, piece_priority = p, deadline = d, band = b\<rparr>)"

lemma assign_from_planned:
  assumes wf: "context_wf ctx"
  shows "0 \<le> d \<Longrightarrow> d + int n \<le> last_piece ctx - current_piece ctx + 1 \<Longrightarrow>
    assign_from ctx i h d n = map (\<lambda>k. planned ctx i h (d + int k)) [0..<n]"
proof (induction n arbitrary: d)
  case 0
  then show ?case by simp
next
  case (Suc n)
  have "wrap_i32 (current_piece ctx + d) = current_piece ctx + d"
    using wf Suc.prems by (intro wrap_i32_id) (auto simp: context_wf_def)
  moreover have "current_piece ctx + d \<le> last_piece ctx" using Suc.prems by simp
  ultimately have "assign_from ctx i h d (Suc n) =
      planned ctx i h d # assign_from ctx i h (d + 1) n"
    by (simp add: planned_def Let_def split: prod.splits)
  also have "\<dots> = planned ctx i h d # map (\<lambda>k. planned ctx i h (d + 1 + int k)) [0..<n]"
    using Suc by simp
  also have "\<dots> = map (\<lambda>k. planned ctx i h (d + int k)) [0..<Suc n]"
    by (simp only: map_upt_Suc of_nat_Suc of_nat_0 add_0_right) (simp add: add.assoc)
  finally show ?case .
qed

lemma decide_wf:
  assumes wf: "context_wf ctx"
  obtains i h w r where "final_windows ctx = (i, h, w, r)"
    "decide ctx = Some \<lparr>assignments = map (\<lambda>k. planned ctx i h (int k)) [0..<nat (h + w)],
       target_window_pieces = h + w, immediate_pieces = i, hot_window_pieces = h,
       warm_window_pieces = w, reason = intent_reason (intent ctx) @ r\<rparr>"
proof -
  obtain i h w r where fin: "final_windows ctx = (i, h, w, r)" by (metis prod_cases4)
  note b = final_windows_bounds [OF wf fin]
  have "wrap_i32 (h + w) = h + w" using b by (intro wrap_i32_id) auto
  then show ?thesis
    using that [OF fin] wf b fin assign_from_planned [OF wf, of 0 "nat (h + w)" i h]
    by (simp add: decide_def context_wf_def Let_def)
qed

lemma deadline_step_range:
  "500 \<le> playback_deadline_step_ms pl b d \<and> playback_deadline_step_ms pl b d \<le> 30000"
proof -
  have "u64_as_i32 (clamp_u64 x 500 30000) = int (clamp_u64 x 500 30000)" for x
    by (rule u64_as_i32_id) (simp add: clamp_u64_def)
  then show ?thesis
    using clamp_u64_bounds [of 500 30000]
    by (simp add: playback_deadline_step_ms_def Let_def MIN_PIECE_DEADLINE_STEP_MS_def
        MAX_PIECE_DEADLINE_STEP_MS_def)
qed

fun deadline_offset :: "priority_band \<Rightarrow> playback_intent \<Rightarrow> int" where
  "deadline_offset Warm _ = 10000"
| "deadline_offset BackgroundBand InternalProbe = 10000"
| "deadline_offset BackgroundBand _ = 30000"
| "deadline_offset _ _ = 0"

lemma planned_deadline:
  assumes "0 \<le> k" and "k < 300"
  shows "deadline (planned ctx i h k) =
    deadline_offset (band (planned ctx i h k)) (intent ctx) +
    k * playback_deadline_step_ms (piece_length ctx) (bitrate_bytes_per_sec ctx)
          (download_rate_bytes_per_sec ctx)"
proof -
  let ?s = "playback_deadline_step_ms (piece_length ctx) (bitrate_bytes_per_sec ctx)
          (download_rate_bytes_per_sec ctx)"
  have "0 \<le> k * ?s" using deadline_step_range [of "piece_length ctx"] assms
    by (simp add: order_trans [of 0 500])
  moreover have "k * ?s \<le> 300 * 30000"
    using deadline_step_range [of "piece_length ctx" "bitrate_bytes_per_sec ctx"
        "download_rate_bytes_per_sec ctx"] assms by (intro mult_mono) auto
  ultimately have "wrap_i32 (k * ?s) = k * ?s" "wrap_i32 (10000 + k * ?s) = 10000 + k * ?s"
    "wrap_i32 (30000 + k * ?s) = 30000 + k * ?s"
    by (auto intro!: wrap_i32_id)
  then show ?thesis
    by (cases "intent ctx") (simp_all add: planned_def assignment_for_def Let_def)
qed

section \<open>Properties of the policy\<close>

definition example_priority_context :: priority_context where
  "example_priority_context =
     \<lparr>intent = DirectSeek, current_piece = 10, first_piece = 0, last_piece = 499,
      piece_length = 1048576, file_size = 524288000, bitrate_bytes_per_sec = None,
      download_rate_bytes_per_sec = 0, peers = 8, cache_size_bytes = 10737418240,
      memory_pressure = Normal, consecutive_waits = 0, first_byte_sent = False\<rparr>"

lemma example_priority_context_wf: "context_wf example_priority_context"
  by (simp add: example_priority_context_def context_wf_def)

lemma example_priority_context_sane: "bitrate_sane example_priority_context"
  by (simp add: example_priority_context_def bitrate_sane_def)

text \<open>
  Property C17.  For every well-formed context the policy returns a plan: a contiguous run of
  pieces that starts at the current piece and ends inside the file, at most 96 hot and 192 warm
  pieces, the immediate pieces among the hot ones, and never more pieces than the cache holds.
\<close>

theorem priority_plan_is_bounded:
  assumes "context_wf ctx"
  shows "\<exists>d. decide ctx = Some d \<and>
    map piece_idx (assignments d) =
      map (\<lambda>k. current_piece ctx + int k) [0..<nat (target_window_pieces d)] \<and>
    target_window_pieces d = hot_window_pieces d + warm_window_pieces d \<and>
    0 \<le> immediate_pieces d \<and> immediate_pieces d \<le> hot_window_pieces d \<and>
    hot_window_pieces d \<le> 96 \<and> 0 \<le> warm_window_pieces d \<and> warm_window_pieces d \<le> 192 \<and>
    current_piece ctx + target_window_pieces d \<le> last_piece ctx + 1 \<and>
    (cache_size_bytes ctx > 0 \<longrightarrow>
       target_window_pieces d \<le> int (max (cache_size_bytes ctx div piece_length ctx) 1))"
proof -
  obtain i h w r where fin: "final_windows ctx = (i, h, w, r)"
    and d: "decide ctx = Some \<lparr>assignments = map (\<lambda>k. planned ctx i h (int k)) [0..<nat (h + w)],
       target_window_pieces = h + w, immediate_pieces = i, hot_window_pieces = h,
       warm_window_pieces = w, reason = intent_reason (intent ctx) @ r\<rparr>"
    using decide_wf [OF assms] by blast
  have "piece_idx (planned ctx i h k) = current_piece ctx + k" for k
    by (simp add: planned_def Let_def split: prod.splits)
  then show ?thesis
    using d final_windows_bounds [OF assms fin] max_cache_pieces_wf [OF assms] by auto
qed

theorem priority_plan_is_bounded_witness:
  "\<exists>d. decide example_priority_context = Some d \<and> hot_window_pieces d \<le> 96"
  using priority_plan_is_bounded [OF example_priority_context_wf] by blast

lemma plan_head:
  assumes "context_wf ctx" and "bitrate_sane ctx"
  obtains d i h rest where "decide ctx = Some d" "assignments d = planned ctx i h 0 # rest"
    "intent ctx \<notin> {InternalProbe, Background} \<longrightarrow> 1 \<le> i"
    "\<forall>a \<in> set (assignments d). current_piece ctx \<le> piece_idx a \<and> piece_idx a \<le> last_piece ctx"
proof -
  obtain i h w r where fin: "final_windows ctx = (i, h, w, r)"
    and d: "decide ctx = Some \<lparr>assignments = map (\<lambda>k. planned ctx i h (int k)) [0..<nat (h + w)],
       target_window_pieces = h + w, immediate_pieces = i, hot_window_pieces = h,
       warm_window_pieces = w, reason = intent_reason (intent ctx) @ r\<rparr>" (is "_ = Some ?d")
    using decide_wf [OF assms(1)] by blast
  note b = final_windows_bounds [OF assms(1) fin]
  have "1 \<le> h" "0 \<le> w" using final_windows_progress [OF assms fin] b by auto
  then have "[0..<nat (h + w)] = 0 # [1..<nat (h + w)]" by (simp add: upt_conv_Cons)
  then have "assignments ?d = planned ctx i h 0 # map (\<lambda>k. planned ctx i h (int k)) [1..<nat (h + w)]"
    by simp
  moreover have "piece_idx (planned ctx i h k) = current_piece ctx + k" for k
    by (simp add: planned_def Let_def split: prod.splits)
  then have "\<forall>a \<in> set (assignments ?d). current_piece ctx \<le> piece_idx a \<and> piece_idx a \<le> last_piece ctx"
    using b by auto
  ultimately show ?thesis using that [OF d] final_windows_progress(2) [OF assms fin] by blast
qed

lemma planned_head:
  "piece_idx (planned ctx i h 0) = current_piece ctx"
  "intent ctx \<notin> {InternalProbe, Background} \<Longrightarrow> 1 \<le> i \<Longrightarrow>
   piece_priority (planned ctx i h 0) = 7 \<and> deadline (planned ctx i h 0) = 0"
  by (simp add: planned_def Let_def split: prod.splits)
    (cases "intent ctx"; auto simp: planned_def assignment_for_def Let_def wrap_i32_id)



lemma planned_offset_mono:
  assumes "j \<le> k"
  shows "deadline_offset (band (planned ctx i h j)) (intent ctx) \<le>
         deadline_offset (band (planned ctx i h k)) (intent ctx) \<and>
         piece_priority (planned ctx i h k) \<le> piece_priority (planned ctx i h j) \<or> h < i"
  using assms by (cases "intent ctx") (auto simp: planned_def assignment_for_def Let_def)

lemma deadline_offset_range: "0 \<le> deadline_offset b i \<and> deadline_offset b i \<le> 30000"
  by (cases "(b, i)" rule: deadline_offset.cases) auto

text \<open>
  Deadlines of a plan increase strictly with the piece index, by at least 500 ms
  per piece, start at 0 or later and stay far below the largest \<open>i32\<close>; priorities never rise
  along the plan.
\<close>

theorem deadlines_increase_strictly:
  assumes "context_wf ctx" and "decide ctx = Some d" and "j < k" and "k < length (assignments d)"
  shows "deadline (assignments d ! j) + 500 \<le> deadline (assignments d ! k) \<and>
         0 \<le> deadline (assignments d ! j) \<and> deadline (assignments d ! k) \<le> 30000 + 287 * 30000 \<and>
         piece_priority (assignments d ! k) \<le> piece_priority (assignments d ! j)"
proof -
  obtain i h w r where fin: "final_windows ctx = (i, h, w, r)"
    and d: "d = \<lparr>assignments = map (\<lambda>k. planned ctx i h (int k)) [0..<nat (h + w)],
       target_window_pieces = h + w, immediate_pieces = i, hot_window_pieces = h,
       warm_window_pieces = w, reason = intent_reason (intent ctx) @ r\<rparr>"
    using decide_wf [OF assms(1)] assms(2) by (metis option.inject)
  note b = final_windows_bounds [OF assms(1) fin]
  let ?s = "playback_deadline_step_ms (piece_length ctx) (bitrate_bytes_per_sec ctx)
     (download_rate_bytes_per_sec ctx)"
  let ?o = "\<lambda>n. deadline_offset (band (planned ctx i h (int n))) (intent ctx)"
  have len: "k < nat (h + w)" using assms(4) d by simp
  then have k: "int k \<le> 287" "int j + 1 \<le> int k" using b assms(3) by auto
  have at: "assignments d ! n = planned ctx i h (int n)" if "n \<le> k" for n using that len d by simp
  have dl: "deadline (planned ctx i h (int n)) = ?o n + int n * ?s" if "n \<le> k" for n
    using planned_deadline [of "int n"] that k by simp
  have s: "500 \<le> ?s" "?s \<le> 30000" using deadline_step_range by auto
  have mono: "?o j \<le> ?o k"
    "piece_priority (planned ctx i h (int k)) \<le> piece_priority (planned ctx i h (int j))"
    using planned_offset_mono [of "int j" "int k" ctx i h] k b by auto
  have "(int j + 1) * ?s \<le> int k * ?s" using k s by (intro mult_right_mono) auto
  moreover have "int k * ?s \<le> 287 * 30000" using k s by (intro mult_mono) auto
  moreover have "0 \<le> int j * ?s" using s by simp
  ultimately show ?thesis
    using at [of j] at [of k] dl [of j] dl [of k] mono s assms(3)
      deadline_offset_range [of "band (planned ctx i h (int j))" "intent ctx"]
      deadline_offset_range [of "band (planned ctx i h (int k))" "intent ctx"]
    by (simp add: distrib_right)
qed

definition example_download_context :: priority_context where
  "example_download_context = example_priority_context\<lparr>intent := DownloadFull\<rparr>"

lemma example_download_wf: "context_wf example_download_context"
  by (simp add: example_download_context_def example_priority_context_def context_wf_def)

lemma example_download_cap: "pieces_for_bytes 268435456 1048576 = 256"
  by (simp add: pieces_for_bytes_eq clamp_u64_def sat_add_u64_def)

lemma example_download_cache: "max_cache_pieces example_download_context = 10240"
  by (subst max_cache_pieces_wf [OF example_download_wf])
    (simp add: example_download_context_def example_priority_context_def)

lemma example_download_remaining: "remaining_pieces example_download_context = 490"
  by (subst remaining_pieces_wf [OF example_download_wf])
    (simp add: example_download_context_def example_priority_context_def)

lemma example_download_hot: "final_hot example_download_context 16 = 16"
  by (simp add: final_hot_def example_download_cache example_download_remaining clamp_i32_def
      MAX_HOT_PIECES_def)

lemma example_download_warm: "final_warm example_download_context 0 16 = 0"
  by (simp add: final_warm_def example_download_cache example_download_remaining clamp_i32_def
      sat_sub_i32_def MAX_WARM_PIECES_def)

lemma example_download_byte_caps: "cap_pieces_by_bytes 16 1048576 268435456 = 16" "cap_pieces_by_bytes 0 a b = 0"
  by (simp_all add: cap_pieces_by_bytes_def example_download_cap)

lemma example_download_windows: "final_windows example_download_context = (2, 16, 0, [])"
proof -
  have p: "pressured_windows example_download_context = (2, 16, 0, [])"
    by (simp add: pressured_windows_def base_windows_def example_download_context_def
        example_priority_context_def)
  have b: "hot_byte_cap example_download_context = 268435456"
    "piece_length example_download_context = 1048576"
    by (simp_all add: hot_byte_cap_def example_download_context_def example_priority_context_def
        MAX_WARM_WINDOW_BYTES_def)
  show ?thesis
    unfolding final_windows_def p Let_def b prod.case example_download_byte_caps
      example_download_hot example_download_warm by simp
qed

lemma example_download_plan:
  "\<exists>d. decide example_download_context = Some d \<and> length (assignments d) = 16"
  by (rule decide_wf [OF example_download_wf]) (simp add: example_download_windows)

theorem deadlines_increase_strictly_witness:
  "deadline (assignments (the (decide example_download_context)) ! 3) + 500 \<le>
   deadline (assignments (the (decide example_download_context)) ! 4)"
proof -
  obtain d where d: "decide example_download_context = Some d" and "length (assignments d) = 16"
    using example_download_plan by blast
  then have "4 < length (assignments d)" by simp
  from deadlines_increase_strictly [OF example_download_wf d _ this, of 3]
  show ?thesis using d by simp
qed

text \<open>
  The hot and the warm window exceed their byte caps by less than one piece, and
  under memory pressure there is no warm window and at most 24 hot pieces (16 for HLS).
\<close>

theorem windows_respect_byte_caps:
  assumes "context_wf ctx" and "decide ctx = Some d"
  shows "hot_window_pieces d * int (piece_length ctx) <
           int (hot_byte_cap ctx) + int (piece_length ctx) \<and>
         warm_window_pieces d * int (piece_length ctx) <
           int (warm_byte_cap (intent ctx)) + int (piece_length ctx) \<and>
         hot_byte_cap ctx \<le> 268435456 \<and> warm_byte_cap (intent ctx) \<le> 268435456 \<and>
         (memory_pressure ctx = High \<longrightarrow>
            warm_window_pieces d = 0 \<and>
            hot_window_pieces d \<le> (if is_hls (intent ctx) then 16 else 24))"
proof -
  obtain i h w r where fin: "final_windows ctx = (i, h, w, r)"
    and d: "d = \<lparr>assignments = map (\<lambda>k. planned ctx i h (int k)) [0..<nat (h + w)],
       target_window_pieces = h + w, immediate_pieces = i, hot_window_pieces = h,
       warm_window_pieces = w, reason = intent_reason (intent ctx) @ r\<rparr>"
    using decide_wf [OF assms(1)] assms(2) by (metis option.inject)
  have "hot_byte_cap ctx \<le> 268435456"
    by (simp add: hot_byte_cap_def priority_byte_constants split: playback_intent.split)
  moreover have "warm_byte_cap (intent ctx) \<le> 268435456"
    by (cases "intent ctx") (simp_all add: priority_byte_constants)
  ultimately show ?thesis using final_windows_limits [OF assms(1) fin] by (simp add: d)
qed

theorem windows_respect_byte_caps_witness:
  "hot_window_pieces (the (decide example_download_context)) * 1048576 < 268435456 + 1048576"
proof -
  obtain d where d: "decide example_download_context = Some d"
    using example_download_plan by blast
  have "piece_length example_download_context = 1048576"
    by (simp add: example_download_context_def example_priority_context_def)
  then show ?thesis
    using windows_respect_byte_caps [OF example_download_wf d] d by simp
qed

text \<open>
  Property C19.  The guard of the policy rejects a current piece before the file but not one
  behind it: a current piece more than one past the last piece, or a cache whose piece count
  turns negative in the cast to \<open>i32\<close>, makes the window negative and the allocation panics.
\<close>

theorem decide_panics_on_negative_window:
  assumes "piece_length ctx > 0" and "first_piece ctx \<le> current_piece ctx"
    and "first_piece ctx \<le> last_piece ctx" and "0 \<le> first_piece ctx"
    and "current_piece ctx \<le> i32_max" and "last_piece ctx < i32_max"
    and "last_piece ctx + 1 < current_piece ctx \<or> max_cache_pieces ctx < 0"
  shows "decide ctx = None"
proof -
  obtain i h w r where fin: "final_windows ctx = (i, h, w, r)" by (metis prod_cases4)
  obtain i0 h1 w1 r1 where p: "pressured_windows ctx = (i0, h1, w1, r1)" by (metis prod_cases4)
  note eq = final_windows_eq [OF fin p]
  let ?mc = "max_cache_pieces ctx" and ?rem = "remaining_pieces ctx"
  have rem: "?rem = last_piece ctx - current_piece ctx + 1"
    using assms by (simp add: remaining_pieces_def sat_sub_i32_id wrap_i32_id)
  have mc: "i32_min \<le> ?mc \<and> ?mc \<le> i32_max"
    using wrap_i32_range by (simp add: max_cache_pieces_def u64_as_i32_def MAX_HOT_PIECES_def)
  have h: "h = min ?mc ?rem" "h < 0"
    using assms(7) rem unfolding eq(1) final_hot_def clamp_i32_def by linarith+
  have hm: "i32_min \<le> h" using h mc rem assms by linarith
  have "sat_sub_i32 ?mc h = max i32_min (min i32_max (?mc - h))"
    "sat_sub_i32 ?rem h = max i32_min (min i32_max (?rem - h))"
    by (simp_all add: sat_sub_i32_def)
  then have "w = 0" using h unfolding eq(2) final_warm_def clamp_i32_def MAX_WARM_PIECES_def by linarith
  moreover have "wrap_i32 h = h" using h hm by (intro wrap_i32_id) auto
  ultimately show ?thesis using assms h fin by (simp add: decide_def Let_def)
qed

theorem decide_panics_on_negative_window_witness:
  "decide (example_priority_context\<lparr>piece_length := 4\<rparr>) = None \<and>
   decide (example_priority_context\<lparr>current_piece := 501\<rparr>) = None"
proof
  have "max_cache_pieces (example_priority_context\<lparr>piece_length := 4\<rparr>) < 0"
    by (simp add: example_priority_context_def max_cache_pieces_def u64_as_i32_def wrap_i32_def)
  then show "decide (example_priority_context\<lparr>piece_length := 4\<rparr>) = None"
    by (intro decide_panics_on_negative_window) (simp_all add: example_priority_context_def)
  show "decide (example_priority_context\<lparr>current_piece := 501\<rparr>) = None"
    by (intro decide_panics_on_negative_window) (simp_all add: example_priority_context_def)
qed

text \<open>
  The start of the container metadata lies inside the file; for files of at least
  64 MiB it is the earlier of the last 10 MiB and the last five per cent, and for smaller files
  of at least 10 MiB it lies behind the start of the last 10 MiB.
\<close>

theorem metadata_start_by_file_size:
  assumes "sz \<le> u64_max div 95"
  shows "container_metadata_start sz \<le> sz \<and>
         (64 * 1024 * 1024 \<le> sz \<longrightarrow>
            container_metadata_start sz =
              min (sz - 10 * 1024 * 1024) (sz * 95 div 100)) \<and>
         (10 * 1024 * 1024 \<le> sz \<and> sz < 64 * 1024 * 1024 \<longrightarrow>
            sz - 10 * 1024 * 1024 < container_metadata_start sz)"
proof -
  have "sat_mul_u64 sz 95 = sz * 95" using assms by (simp add: sat_mul_u64_def)
  then have eq: "container_metadata_start sz =
      (if sz < 64 * 1024 * 1024 then sz * 95 div 100
       else min (sz - 10 * 1024 * 1024) (sz * 95 div 100))"
    by (simp add: container_metadata_start_def SMALL_FILE_BYTES_def)
  have "sz * 95 div 100 \<le> sz" by linarith
  moreover have "sz - 10 * 1024 * 1024 < sz * 95 div 100"
    if "10 * 1024 * 1024 \<le> sz" "sz < 64 * 1024 * 1024"
    using that by linarith
  ultimately show ?thesis unfolding eq by auto
qed

theorem metadata_start_by_file_size_witness:
  "(33554432 :: nat) - 10 * 1024 * 1024 < container_metadata_start 33554432"
  using metadata_start_by_file_size [of 33554432] by simp

end
