(* ===== verification/PriorityWindows.thy ===== *)
theory PriorityWindows
  imports Prelude "HOL-Library.AList"
begin

text \<open>
  The piece-priority windows that several readers of one torrent share
  (\<open>ActivePriorityWindows\<close> of \<open>enginefs/src/backend/libtorrent/playback.rs\<close>) and the native
  calls made for their changes.

  A \<open>HashMap\<close> that the code iterates over is an association list with distinct keys, so that an
  iteration order is explicit and the results are shown not to depend on it; a \<open>HashSet\<close> of
  affected pieces is a list without duplicates.  Calls on the native torrent handle are collected
  as a list of \<open>native_call\<close>s.

  Shown here: the tracked effective table is always the pointwise merge of all windows (highest
  priority, earliest deadline), whatever the order of iteration; the changes returned by an
  operation turn the old table into the new one and contain no redundant entry; after the last
  reader of a piece is gone the piece is reset; the native calls reset exactly the pieces without
  a deadline before priorities are set.
\<close>

section \<open>Windows\<close>

record piece_priority_entry =
  pp_piece :: i32
  pp_priority :: i32
  pp_deadline_ms :: "i32 option"

datatype piece_priority_change = Apply piece_priority_entry | Reset i32

fun change_piece :: "piece_priority_change \<Rightarrow> i32" where
  "change_piece (Apply a) = pp_piece a"
| "change_piece (Reset p) = p"

type_synonym window = "(i32 \<times> piece_priority_entry) list"

record active_priority_windows =
  aw_streams :: "(nat \<times> window) list"
  aw_effective :: window

definition windows_default :: active_priority_windows where
  "windows_default = \<lparr>aw_streams = [], aw_effective = []\<rparr>"

fun earliest_deadline :: "i32 option \<Rightarrow> i32 option \<Rightarrow> i32 option" where
  "earliest_deadline (Some l) (Some r) = Some (min l r)"
| "earliest_deadline (Some d) None = Some d"
| "earliest_deadline None (Some d) = Some d"
| "earliest_deadline None None = None"

definition merge_entries :: "i32 \<Rightarrow> piece_priority_entry \<Rightarrow> piece_priority_entry \<Rightarrow> piece_priority_entry" where
  "merge_entries piece l r =
     \<lparr>pp_piece = piece, pp_priority = max (pp_priority l) (pp_priority r),
      pp_deadline_ms = earliest_deadline (pp_deadline_ms l) (pp_deadline_ms r)\<rparr>"

fun reduce :: "('a \<Rightarrow> 'a \<Rightarrow> 'a) \<Rightarrow> 'a list \<Rightarrow> 'a option" where
  "reduce f [] = None"
| "reduce f (x # xs) = Some (foldl f x xs)"

definition wanted_by :: "(nat \<times> window) list \<Rightarrow> i32 \<Rightarrow> piece_priority_entry list" where
  "wanted_by streams piece = List.map_filter (\<lambda>(_, window). map_of window piece) streams"

definition effective_for :: "active_priority_windows \<Rightarrow> i32 \<Rightarrow> piece_priority_entry option" where
  "effective_for w piece = reduce (merge_entries piece) (wanted_by (aw_streams w) piece)"

fun reconcile_loop ::
  "active_priority_windows \<Rightarrow> i32 list \<Rightarrow> piece_priority_change list \<Rightarrow>
   active_priority_windows \<times> piece_priority_change list" where
  "reconcile_loop w [] changes = (w, changes)"
| "reconcile_loop w (piece # affected) changes =
     (let nxt = effective_for w piece
      in if map_of (aw_effective w) piece = nxt then reconcile_loop w affected changes
         else case nxt of
             Some e \<Rightarrow>
               reconcile_loop (w\<lparr>aw_effective := AList.update piece e (aw_effective w)\<rparr>) affected
                 (changes @ [Apply e])
           | None \<Rightarrow>
               reconcile_loop (w\<lparr>aw_effective := AList.delete piece (aw_effective w)\<rparr>) affected
                 (changes @ [Reset piece]))"

definition reconcile ::
  "active_priority_windows \<Rightarrow> i32 list \<Rightarrow> active_priority_windows \<times> piece_priority_change list" where
  "reconcile w affected =
     (let (w', changes) = reconcile_loop w affected [] in (w', sort_key change_piece changes))"

definition collect_window :: "piece_priority_entry list \<Rightarrow> window" where
  "collect_window assignments =
     fold (\<lambda>a m. AList.update (pp_piece a) a m) (filter (\<lambda>a. pp_piece a \<ge> 0) assignments) []"

definition replace ::
  "active_priority_windows \<Rightarrow> nat \<Rightarrow> piece_priority_entry list \<Rightarrow>
   active_priority_windows \<times> piece_priority_change list" where
  "replace w stream_id assignments =
     (let replacement = collect_window assignments;
          previous = (case map_of (aw_streams w) stream_id of None \<Rightarrow> [] | Some p \<Rightarrow> map fst p)
      in reconcile (w\<lparr>aw_streams := AList.update stream_id replacement (aw_streams w)\<rparr>)
           (remdups (map fst replacement @ previous)))"

definition release ::
  "active_priority_windows \<Rightarrow> nat \<Rightarrow> active_priority_windows \<times> piece_priority_change list" where
  "release w stream_id =
     (case map_of (aw_streams w) stream_id of
        None \<Rightarrow> (w, [])
      | Some previous \<Rightarrow>
          reconcile (w\<lparr>aw_streams := AList.delete stream_id (aw_streams w)\<rparr>) (map fst previous))"

definition clear_tracking :: "active_priority_windows \<Rightarrow> active_priority_windows" where
  "clear_tracking w = \<lparr>aw_streams = [], aw_effective = []\<rparr>"

definition mark_piece_verified :: "active_priority_windows \<Rightarrow> i32 \<Rightarrow> active_priority_windows" where
  "mark_piece_verified w piece =
     \<lparr>aw_streams = map (\<lambda>(s, window). (s, AList.delete piece window)) (aw_streams w),
      aw_effective = AList.delete piece (aw_effective w)\<rparr>"

section \<open>Native calls\<close>

datatype native_call =
    ResetPieceDeadline i32
  | SetPiecePriorities "(i32 \<times> i32) list"
  | SetPieceDeadline i32 i32

fun deadline_resets :: "piece_priority_change \<Rightarrow> native_call list" where
  "deadline_resets (Reset piece) = [ResetPieceDeadline piece]"
| "deadline_resets (Apply a) =
     (case pp_deadline_ms a of None \<Rightarrow> [ResetPieceDeadline (pp_piece a)] | Some _ \<Rightarrow> [])"

fun priority_item :: "i32 \<Rightarrow> piece_priority_change \<Rightarrow> i32 \<times> i32" where
  "priority_item baseline (Apply a) = (pp_piece a, pp_priority a)"
| "priority_item baseline (Reset piece) = (piece, baseline)"

fun deadline_sets :: "piece_priority_change \<Rightarrow> native_call list" where
  "deadline_sets (Reset piece) = []"
| "deadline_sets (Apply a) =
     (case pp_deadline_ms a of None \<Rightarrow> [] | Some d \<Rightarrow> [SetPieceDeadline (pp_piece a) d])"

text \<open>\<open>found\<close> says whether the session still knows the torrent.\<close>

definition apply_piece_priority_changes ::
  "bool \<Rightarrow> i32 \<Rightarrow> piece_priority_change list \<Rightarrow> (string, native_call list) result" where
  "apply_piece_priority_changes found baseline_priority changes =
     (if changes = [] then Inr []
      else if \<not> found then Inl ''Torrent not found''
      else Inr (concat (map deadline_resets changes) @
                [SetPiecePriorities (map (priority_item baseline_priority) changes)] @
                concat (map deadline_sets changes)))"

section \<open>Merging does not depend on the iteration order\<close>

definition entry_at :: "i32 \<Rightarrow> piece_priority_entry \<Rightarrow> bool" where
  "entry_at piece e \<longleftrightarrow> pp_piece e = piece"

lemma earliest_deadline_assoc:
  "earliest_deadline (earliest_deadline a b) c = earliest_deadline a (earliest_deadline b c)"
  by (cases a; cases b; cases c) (simp_all add: min.assoc)

lemma earliest_deadline_comm: "earliest_deadline a b = earliest_deadline b a"
  by (cases a; cases b) (simp_all add: min.commute)

lemma merge_entries_assoc:
  "merge_entries p (merge_entries p a b) c = merge_entries p a (merge_entries p b c)"
  by (simp add: merge_entries_def earliest_deadline_assoc max.assoc)

lemma merge_entries_comm: "merge_entries p a b = merge_entries p b a"
  by (simp add: merge_entries_def earliest_deadline_comm max.commute)

lemma merge_entries_piece [simp]: "pp_piece (merge_entries p a b) = p"
  by (simp add: merge_entries_def)

locale commutative_merge =
  fixes merge :: "'a \<Rightarrow> 'a \<Rightarrow> 'a"
  assumes merge_assoc: "merge (merge a b) c = merge a (merge b c)"
    and merge_comm: "merge a b = merge b a"
begin

definition merge_step :: "'a \<Rightarrow> 'a option \<Rightarrow> 'a option" where
"merge_step x acc = Some (case acc of None \<Rightarrow> x | Some a \<Rightarrow> merge a x)"

lemma merge_step_commute: "merge_step x \<circ> merge_step y = merge_step y \<circ> merge_step x"
proof
  fix acc
  have "merge (merge a y) x = merge (merge a x) y" for a
    by (simp only: merge_assoc merge_comm [of y x])
  then show "(merge_step x \<circ> merge_step y) acc = (merge_step y \<circ> merge_step x) acc"
    by (cases acc) (simp_all add: merge_step_def merge_comm [of y x])
qed

lemma fold_merge_step: "fold merge_step xs (Some x) = Some (foldl merge x xs)"
  by (induction xs arbitrary: x) (simp_all add: merge_step_def)

lemma reduce_fold: "reduce merge xs = fold merge_step xs None"
  by (cases xs) (simp_all add: merge_step_def fold_merge_step)

lemma reduce_permuted: "mset xs = mset ys \<Longrightarrow> reduce merge xs = reduce merge ys"
  unfolding reduce_fold using fold_multiset_equiv [of xs merge_step ys] merge_step_commute by metis

end

interpretation entries: commutative_merge "merge_entries p"
  by unfold_locales (rule merge_entries_assoc, rule merge_entries_comm)

section \<open>Well-formed windows\<close>

definition window_wf :: "window \<Rightarrow> bool" where
  "window_wf win \<longleftrightarrow> distinct (map fst win) \<and> (\<forall>(p, e) \<in> set win. pp_piece e = p \<and> p \<ge> 0)"

definition windows_wf :: "active_priority_windows \<Rightarrow> bool" where
  "windows_wf w \<longleftrightarrow>
     distinct (map fst (aw_streams w)) \<and> (\<forall>(s, win) \<in> set (aw_streams w). window_wf win) \<and>
     (\<forall>p. map_of (aw_effective w) p = effective_for w p)"

lemma window_wf_update: "window_wf win \<Longrightarrow> pp_piece a \<ge> 0 \<Longrightarrow> window_wf (AList.update (pp_piece a) a win)"
proof -
  assume wf: "window_wf win" "pp_piece a \<ge> 0"
  have "distinct (map fst (AList.update (pp_piece a) a win))"
    using wf by (simp add: window_wf_def distinct_update)
  moreover have "set (AList.update (pp_piece a) a win) \<subseteq> insert (pp_piece a, a) (set win)"
    by (induction win) auto
  ultimately show ?thesis using wf unfolding window_wf_def by fastforce
qed

lemma window_wf_delete: "window_wf win \<Longrightarrow> window_wf (AList.delete p win)"
  by (auto simp: window_wf_def AList.delete_eq intro: distinct_map_filter)

lemma collect_window_wf: "window_wf (collect_window xs)"
proof -
  have "window_wf win \<Longrightarrow> (\<forall>a \<in> set as. pp_piece a \<ge> 0) \<Longrightarrow>
      window_wf (fold (\<lambda>a m. AList.update (pp_piece a) a m) as win)" for as win
    by (induction as arbitrary: win) (auto intro: window_wf_update)
  then show ?thesis unfolding collect_window_def by (simp add: window_wf_def [of "[]"])
qed

lemma window_wf_map_of: "window_wf win \<Longrightarrow> map_of win p = Some e \<Longrightarrow> pp_piece e = p \<and> p \<ge> 0"
  by (auto simp: window_wf_def dest: map_of_SomeD)

lemma wanted_by_simps [simp]:
  "wanted_by [] p = []"
  "wanted_by ((s, win) # xs) p =
     (case map_of win p of None \<Rightarrow> wanted_by xs p | Some e \<Rightarrow> e # wanted_by xs p)"
  by (simp_all add: wanted_by_def List.map_filter_simps split: option.splits)

lemma wanted_by_update_other:
  "map_of win p = None \<Longrightarrow> (\<forall>prev. map_of xs s = Some prev \<longrightarrow> map_of prev p = None) \<Longrightarrow>
   wanted_by (AList.update s win xs) p = wanted_by xs p"
  by (induction xs) (auto split: option.splits if_splits)

lemma wanted_by_delete_other:
  "distinct (map fst xs) \<Longrightarrow> (\<forall>prev. map_of xs s = Some prev \<longrightarrow> map_of prev p = None) \<Longrightarrow>
   wanted_by (AList.delete s xs) p = wanted_by xs p"
proof (induction xs)
  case (Cons x xs)
  show ?case
  proof (cases "fst x = s")
    case True
    then have "AList.delete s xs = xs"
      using Cons.prems(1) by (auto simp: AList.delete_eq filter_id_conv rev_image_eqI)
    then show ?thesis using Cons.prems(2) True by (cases x) auto
  next
    case False
    then show ?thesis using Cons by (cases x) (auto split: option.splits)
  qed
qed simp

lemma wanted_by_verified:
  "wanted_by (map (\<lambda>(s, win). (s, AList.delete q win)) xs) p = (if p = q then [] else wanted_by xs p)"
  by (induction xs) (auto simp: AList.delete_conv split: option.splits)

lemma effective_for_cong: "aw_streams w = aw_streams w' \<Longrightarrow> effective_for w = effective_for w'"
  by (simp add: effective_for_def fun_eq_iff)

lemma effective_for_upd [simp]: "effective_for (w\<lparr>aw_effective := x\<rparr>) = effective_for w"
  by (rule effective_for_cong) simp

lemma effective_for_piece:
  assumes "\<forall>(s, win) \<in> set (aw_streams w). window_wf win" and "effective_for w p = Some e"
  shows "pp_piece e = p"
proof -
  have w: "pp_piece x = p" if "x \<in> set (wanted_by (aw_streams w) p)" for x
    using that assms(1) by (induction "aw_streams w" arbitrary: w)
      (auto simp: wanted_by_def List.map_filter_def dest!: window_wf_map_of split: option.splits)
  have f: "pp_piece (foldl (merge_entries p) x xs) = p" if "pp_piece x = p" for x xs
    using that by (induction xs arbitrary: x) auto
  show ?thesis
    using assms(2) w f by (cases "wanted_by (aw_streams w) p") (auto simp: effective_for_def)
qed

section \<open>Changes\<close>

fun change_value :: "piece_priority_change \<Rightarrow> piece_priority_entry option" where
  "change_value (Apply e) = Some e"
| "change_value (Reset p) = None"

definition apply_changes ::
  "piece_priority_change list \<Rightarrow> (i32 \<rightharpoonup> piece_priority_entry) \<Rightarrow> (i32 \<rightharpoonup> piece_priority_entry)" where
  "apply_changes cs m = fold (\<lambda>c m. m(change_piece c := change_value c)) cs m"

lemma apply_changes_untouched:
  "p \<notin> change_piece ` set cs \<Longrightarrow> apply_changes cs m p = m p"
  unfolding apply_changes_def by (induction cs arbitrary: m) auto

lemma apply_changes_touched:
  "distinct (map change_piece cs) \<Longrightarrow> c \<in> set cs \<Longrightarrow> apply_changes cs m (change_piece c) = change_value c"
proof (induction cs arbitrary: m)
  case (Cons x cs)
  show ?case
  proof (cases "c = x")
    case True
    then have "change_piece c \<notin> change_piece ` set cs" using Cons.prems(1) by simp
    then show ?thesis
      using apply_changes_untouched [of "change_piece c" cs "m(change_piece x := change_value x)"] True
      by (simp add: apply_changes_def)
  next
    case False
    then show ?thesis using Cons by (simp add: apply_changes_def)
  qed
qed simp

definition change_for :: "active_priority_windows \<Rightarrow> i32 \<Rightarrow> piece_priority_change" where
  "change_for w p = (case effective_for w p of None \<Rightarrow> Reset p | Some e \<Rightarrow> Apply e)"

lemma change_for_value [simp]: "change_value (change_for w p) = effective_for w p"
  by (simp add: change_for_def split: option.splits)

lemma change_for_cong: "aw_streams w = aw_streams w' \<Longrightarrow> change_for w = change_for w'"
  by (simp add: fun_eq_iff change_for_def effective_for_cong [of w w'])

lemma change_for_piece:
  "\<forall>(s, win) \<in> set (aw_streams w). window_wf win \<Longrightarrow> change_piece (change_for w p) = p"
  by (auto simp: change_for_def effective_for_piece split: option.splits)

lemma reconcile_loop_spec:
  "distinct aff \<Longrightarrow> reconcile_loop w aff cs = (w', cs') \<Longrightarrow>
   aw_streams w' = aw_streams w \<and>
   map_of (aw_effective w') =
     (\<lambda>p. if p \<in> set aff then effective_for w p else map_of (aw_effective w) p) \<and>
   cs' = cs @ map (change_for w) (filter (\<lambda>p. map_of (aw_effective w) p \<noteq> effective_for w p) aff)"
proof (induction aff arbitrary: w cs)
  case (Cons p aff)
  show ?case
  proof (cases "map_of (aw_effective w) p = effective_for w p")
    case True
    then show ?thesis using Cons by (auto simp: fun_eq_iff)
  next
    case False
    define w1 where "w1 = w\<lparr>aw_effective := (case effective_for w p of
        None \<Rightarrow> AList.delete p (aw_effective w) | Some e \<Rightarrow> AList.update p e (aw_effective w))\<rparr>"
    have eff1: "map_of (aw_effective w1) = (map_of (aw_effective w))(p := effective_for w p)"
      by (auto simp: w1_def update_conv' AList.delete_conv' split: option.splits)
    have run: "reconcile_loop w1 aff (cs @ [change_for w p]) = (w', cs')"
      using Cons.prems(2) False by (auto simp: w1_def change_for_def split: option.splits)
    have same: "effective_for w1 = effective_for w" "change_for w1 = change_for w"
      "aw_streams w1 = aw_streams w"
      by (auto intro!: effective_for_cong change_for_cong simp: w1_def)
    have filt: "filter (\<lambda>q. map_of (aw_effective w1) q \<noteq> effective_for w q) aff =
        filter (\<lambda>q. map_of (aw_effective w) q \<noteq> effective_for w q) aff"
      using Cons.prems(1) by (intro filter_cong) (auto simp: eff1)
    have "distinct aff" using Cons.prems(1) by simp
    note ih = Cons.IH [OF this run, unfolded same filt]
    have "map_of (aw_effective w') =
        (\<lambda>q. if q \<in> set (p # aff) then effective_for w q else map_of (aw_effective w) q)"
      using ih Cons.prems(1) by (auto simp: eff1 fun_eq_iff)
    then show ?thesis using ih False by simp
  qed
qed auto

text \<open>
  What reconciliation guarantees once the windows are changed: if the table was right outside the
  affected pieces, it is right everywhere, and the changes are exactly the difference.
\<close>

lemma reconcile_spec:
  assumes dist: "distinct aff" and run: "reconcile w aff = (w', cs)"
    and wins: "\<forall>(s, win) \<in> set (aw_streams w). window_wf win"
    and str: "distinct (map fst (aw_streams w))"
    and rest: "\<And>p. p \<notin> set aff \<Longrightarrow> map_of (aw_effective w) p = effective_for w p"
  shows "windows_wf w'" and "aw_streams w' = aw_streams w"
    and "apply_changes cs (map_of (aw_effective w)) = map_of (aw_effective w')"
    and "sorted (map change_piece cs)" and "distinct (map change_piece cs)"
    and "\<forall>c \<in> set cs. map_of (aw_effective w) (change_piece c) \<noteq> change_value c"
proof -
  let ?D = "filter (\<lambda>p. map_of (aw_effective w) p \<noteq> effective_for w p) aff"
  obtain cs0 where loop: "reconcile_loop w aff [] = (w', cs0)" and cs: "cs = sort_key change_piece cs0"
    using run by (auto simp: reconcile_def Let_def split: prod.splits)
  have s: "aw_streams w' = aw_streams w" and cs0: "cs0 = map (change_for w) ?D"
    and eff: "map_of (aw_effective w') =
      (\<lambda>p. if p \<in> set aff then effective_for w p else map_of (aw_effective w) p)"
    using reconcile_loop_spec [OF dist loop] by auto
  have all: "map_of (aw_effective w') p = effective_for w p" for p using eff rest by simp
  have pieces0: "map change_piece cs0 = ?D"
    using change_for_piece [OF wins] by (simp add: cs0 comp_def)
  have d: "distinct (map change_piece cs0)" using dist by (simp add: pieces0)
  have mset: "mset cs = mset cs0" by (simp add: cs)
  show dcs: "distinct (map change_piece cs)"
    using d mset by (metis mset_map mset_eq_imp_distinct_iff)
  have setcs: "set cs = change_for w ` set ?D" by (simp add: cs cs0)
  show "aw_streams w' = aw_streams w" by (rule s)
  show "windows_wf w'"
    using wins str all effective_for_cong [OF s] by (simp add: windows_wf_def s)
  show "sorted (map change_piece cs)" by (simp add: cs)
  show "\<forall>c \<in> set cs. map_of (aw_effective w) (change_piece c) \<noteq> change_value c"
    using change_for_piece [OF wins] by (auto simp: setcs)
  show "apply_changes cs (map_of (aw_effective w)) = map_of (aw_effective w')"
  proof
    fix p
    show "apply_changes cs (map_of (aw_effective w)) p = map_of (aw_effective w') p"
    proof (cases "p \<in> set ?D")
      case True
      then have "change_for w p \<in> set cs" by (simp add: setcs)
      from apply_changes_touched [OF dcs this] show ?thesis
        using change_for_piece [OF wins, of p] all by simp
    next
      case False
      then have "p \<notin> change_piece ` set cs" using change_for_piece [OF wins] by (auto simp: setcs)
      then have "apply_changes cs (map_of (aw_effective w)) p = map_of (aw_effective w) p"
        by (rule apply_changes_untouched)
      then show ?thesis using False all rest [of p] by auto
    qed
  qed
qed

section \<open>The operations keep the table right\<close>

definition exact_changes ::
  "active_priority_windows \<Rightarrow> active_priority_windows \<Rightarrow> piece_priority_change list \<Rightarrow> bool" where
  "exact_changes w w' cs \<longleftrightarrow>
     apply_changes cs (map_of (aw_effective w)) = map_of (aw_effective w') \<and>
     sorted (map change_piece cs) \<and> distinct (map change_piece cs) \<and>
     (\<forall>c \<in> set cs. map_of (aw_effective w) (change_piece c) \<noteq> change_value c)"

lemma windows_default_wf: "windows_wf windows_default"
  by (simp add: windows_wf_def windows_default_def effective_for_def)

lemma replace_exact:
  assumes wf: "windows_wf w" and run: "replace w sid items = (w', cs)"
  shows "windows_wf w' \<and> aw_streams w' = AList.update sid (collect_window items) (aw_streams w) \<and>
         exact_changes w w' cs"
proof -
  let ?win = "collect_window items"
  let ?prev = "case map_of (aw_streams w) sid of None \<Rightarrow> [] | Some p \<Rightarrow> map fst p"
  let ?w1 = "w\<lparr>aw_streams := AList.update sid ?win (aw_streams w)\<rparr>"
  let ?aff = "remdups (map fst ?win @ ?prev)"
  have rec: "reconcile ?w1 ?aff = (w', cs)" using run by (simp add: replace_def Let_def)
  have sub: "set (AList.update sid ?win xs) \<subseteq> insert (sid, ?win) (set xs)" for xs
    by (induction xs) auto
  have wins: "\<forall>(s, win) \<in> set (aw_streams ?w1). window_wf win"
    using wf sub [of "aw_streams w"] collect_window_wf [of items] by (fastforce simp: windows_wf_def)
  have str: "distinct (map fst (aw_streams ?w1))"
    using wf by (simp add: windows_wf_def distinct_update)
  have rest: "map_of (aw_effective ?w1) p = effective_for ?w1 p" if "p \<notin> set ?aff" for p
  proof -
    have "map_of ?win p = None" using that by (simp add: map_of_eq_None_iff)
    moreover have "map_of prev p = None" if "map_of (aw_streams w) sid = Some prev" for prev
      using \<open>p \<notin> set ?aff\<close> that by (simp add: map_of_eq_None_iff)
    ultimately have "wanted_by (aw_streams ?w1) p = wanted_by (aw_streams w) p"
      by (simp add: wanted_by_update_other)
    then show ?thesis using wf by (simp add: windows_wf_def effective_for_def)
  qed
  show ?thesis
    using reconcile_spec [OF _ rec wins str rest] by (simp add: exact_changes_def)
qed

lemma release_exact:
  assumes wf: "windows_wf w" and run: "release w sid = (w', cs)"
  shows "windows_wf w' \<and> aw_streams w' = AList.delete sid (aw_streams w) \<and> exact_changes w w' cs"
proof (cases "map_of (aw_streams w) sid")
  case None
  then have "AList.delete sid (aw_streams w) = aw_streams w"
    by (simp add: map_of_eq_None_iff)
  then show ?thesis
    using assms None by (auto simp: release_def exact_changes_def apply_changes_def)
next
  case (Some prev)
  let ?w1 = "w\<lparr>aw_streams := AList.delete sid (aw_streams w)\<rparr>"
  have rec: "reconcile ?w1 (map fst prev) = (w', cs)" using run Some by (simp add: release_def)
  have "window_wf prev" using wf Some by (auto simp: windows_wf_def dest: map_of_SomeD)
  then have dist: "distinct (map fst prev)" by (simp add: window_wf_def)
  have wins: "\<forall>(s, win) \<in> set (aw_streams ?w1). window_wf win"
    using wf by (auto simp: windows_wf_def AList.delete_eq)
  have str: "distinct (map fst (aw_streams ?w1))"
    using wf by (simp add: windows_wf_def distinct_delete)
  have rest: "map_of (aw_effective ?w1) p = effective_for ?w1 p" if "p \<notin> set (map fst prev)" for p
  proof -
    have "map_of prev p = None" using that by (simp add: map_of_eq_None_iff)
    then have "wanted_by (aw_streams ?w1) p = wanted_by (aw_streams w) p"
      using wf Some by (simp add: wanted_by_delete_other windows_wf_def)
    then show ?thesis using wf by (simp add: windows_wf_def effective_for_def)
  qed
  show ?thesis using reconcile_spec [OF dist rec wins str rest] by (simp add: exact_changes_def)
qed

lemma clear_tracking_wf: "windows_wf (clear_tracking w)"
  by (simp add: windows_wf_def clear_tracking_def effective_for_def)

lemma mark_piece_verified_wf:
  assumes "windows_wf w"
  shows "windows_wf (mark_piece_verified w q) \<and>
         map_of (aw_effective (mark_piece_verified w q)) = (map_of (aw_effective w))(q := None)"
proof -
  have "fst \<circ> (\<lambda>(s, win). (s, AList.delete q win)) = (fst :: nat \<times> window \<Rightarrow> nat)"
    by (auto simp: fun_eq_iff)
  then show ?thesis
    using assms
    by (auto simp: windows_wf_def mark_piece_verified_def effective_for_def wanted_by_verified
        AList.delete_conv window_wf_delete AList.delete_conv')
qed

section \<open>The interface of a tracker of changes\<close>

datatype ('s, 'a, 'p) tracker_op = Replace 's "'a list" | Release 's | Clear | Verified 'p

locale change_tracker =
  fixes empty :: 'w
    and rep :: "'w \<Rightarrow> 's \<Rightarrow> 'a list \<Rightarrow> 'w \<times> 'c"
    and rel :: "'w \<Rightarrow> 's \<Rightarrow> 'w \<times> 'c"
    and clear :: "'w \<Rightarrow> 'w"
    and verified :: "'w \<Rightarrow> 'p \<Rightarrow> 'w"
    and ok :: "'w \<Rightarrow> bool"
    and table :: "'w \<Rightarrow> 'p \<Rightarrow> 'e option"
    and upd :: "'c \<Rightarrow> ('p \<Rightarrow> 'e option) \<Rightarrow> ('p \<Rightarrow> 'e option)"
  assumes ok_empty: "ok empty \<and> table empty = Map.empty"
    and ok_rep: "ok w \<Longrightarrow> rep w s as = (w', c) \<Longrightarrow> ok w' \<and> upd c (table w) = table w'"
    and ok_rel: "ok w \<Longrightarrow> rel w s = (w', c) \<Longrightarrow> ok w' \<and> upd c (table w) = table w'"
    and ok_clear: "ok w \<Longrightarrow> ok (clear w) \<and> table (clear w) = Map.empty"
    and ok_verified: "ok w \<Longrightarrow> ok (verified w p) \<and> table (verified w p) = (table w)(p := None)"
begin

fun track :: "('s, 'a, 'p) tracker_op \<Rightarrow> 'w \<times> ('p \<Rightarrow> 'e option) \<Rightarrow> 'w \<times> ('p \<Rightarrow> 'e option)" where
"track (Replace s as) (w, m) = (case rep w s as of (w', c) \<Rightarrow> (w', upd c m))"
| "track (Release s) (w, m) = (case rel w s of (w', c) \<Rightarrow> (w', upd c m))"
| "track Clear (w, m) = (clear w, Map.empty)"
| "track (Verified p) (w, m) = (verified w p, m(p := None))"

lemma track_in_sync: "ok w \<Longrightarrow> track a (w, table w) = (w', m') \<Longrightarrow> ok w' \<and> m' = table w'"
  by (cases a) (auto simp: ok_clear ok_verified dest: ok_rep ok_rel split: prod.splits)

lemma mirror_in_sync_from:
  "ok w \<Longrightarrow> fold track ops (w, table w) = (w', m') \<Longrightarrow> ok w' \<and> m' = table w'"
proof (induction ops arbitrary: w)
  case (Cons a ops)
  obtain w1 m1 where t: "track a (w, table w) = (w1, m1)" by fastforce
  then have "ok w1" "m1 = table w1" using track_in_sync [OF Cons.prems(1) t] by auto
  then show ?case using Cons.IH [of w1] Cons.prems(2) t by simp
qed simp

lemma mirror_in_sync: "fold track ops (empty, Map.empty) = (w', m') \<Longrightarrow> ok w' \<and> m' = table w'"
  using mirror_in_sync_from [of empty] ok_empty by metis

end

interpretation windows: change_tracker windows_default replace release clear_tracking
  mark_piece_verified windows_wf "\<lambda>w. map_of (aw_effective w)" apply_changes
proof
  show "windows_wf windows_default \<and> map_of (aw_effective windows_default) = Map.empty"
    using windows_default_wf by (simp add: windows_default_def)
  show "windows_wf w' \<and> apply_changes c (map_of (aw_effective w)) = map_of (aw_effective w')"
    if "windows_wf w" "replace w s as = (w', c)" for w s as w' c
    using replace_exact [OF that] by (simp add: exact_changes_def)
  show "windows_wf w' \<and> apply_changes c (map_of (aw_effective w)) = map_of (aw_effective w')"
    if "windows_wf w" "release w s = (w', c)" for w s w' c
    using release_exact [OF that] by (simp add: exact_changes_def)
  show "windows_wf (clear_tracking w) \<and> map_of (aw_effective (clear_tracking w)) = Map.empty" for w
    using clear_tracking_wf by (simp add: clear_tracking_def)
qed (rule mark_piece_verified_wf)

section \<open>Properties of the shared windows\<close>

type_synonym window_op = "(nat, piece_priority_entry, i32) tracker_op"

fun window_step ::
  "window_op \<Rightarrow> active_priority_windows \<times> (i32 \<rightharpoonup> piece_priority_entry) \<Rightarrow>
   active_priority_windows \<times> (i32 \<rightharpoonup> piece_priority_entry)" where
  "window_step (Replace s items) (w, m) =
     (let (w', cs) = replace w s items in (w', apply_changes cs m))"
| "window_step (Release s) (w, m) = (let (w', cs) = release w s in (w', apply_changes cs m))"
| "window_step Clear (w, m) = (clear_tracking w, Map.empty)"
| "window_step (Verified p) (w, m) = (mark_piece_verified w p, m(p := None))"

lemma window_step_track: "window_step = windows.track"
proof (intro ext)
  show "window_step a s = windows.track a s" for a s
    by (cases a; cases s) (simp_all add: Let_def case_prod_beta)
qed


definition merge_of :: "piece_priority_entry set \<Rightarrow> piece_priority_entry \<Rightarrow> bool" where
  "merge_of X e \<longleftrightarrow>
     (\<forall>x \<in> X. pp_priority x \<le> pp_priority e) \<and> (\<exists>x \<in> X. pp_priority x = pp_priority e) \<and>
     (\<forall>x \<in> X. \<forall>d. pp_deadline_ms x = Some d \<longrightarrow> (\<exists>d'. pp_deadline_ms e = Some d' \<and> d' \<le> d)) \<and>
     (\<exists>x \<in> X. pp_deadline_ms x = pp_deadline_ms e)"

lemma earliest_deadline_le:
  "a = Some d \<Longrightarrow> \<exists>d'. earliest_deadline a b = Some d' \<and> d' \<le> d"
  "b = Some d \<Longrightarrow> \<exists>d'. earliest_deadline a b = Some d' \<and> d' \<le> d"
  by (cases b; simp) (cases a; simp)

lemma earliest_deadline_cases: "earliest_deadline a b = a \<or> earliest_deadline a b = b"
  by (cases a; cases b) (simp_all add: min_def)

lemma merge_of_insert:
  assumes "merge_of X r"
  shows "merge_of (insert y X) (merge_entries p r y)"
proof -
  let ?m = "merge_entries p r y"
  have pr: "pp_priority ?m = max (pp_priority r) (pp_priority y)"
    and dl: "pp_deadline_ms ?m = earliest_deadline (pp_deadline_ms r) (pp_deadline_ms y)"
    by (simp_all add: merge_entries_def)
  have "\<forall>x \<in> insert y X. pp_priority x \<le> pp_priority ?m"
    using assms by (auto simp: pr merge_of_def intro: max.coboundedI1)
  moreover have "\<exists>x \<in> insert y X. pp_priority x = pp_priority ?m"
    using assms by (auto simp: pr merge_of_def max_def)
  moreover have "\<exists>d'. pp_deadline_ms ?m = Some d' \<and> d' \<le> d"
    if x: "x \<in> insert y X" and d: "pp_deadline_ms x = Some d" for x d
  proof (cases "x = y")
    case True
    then show ?thesis using earliest_deadline_le(2) d dl by metis
  next
    case False
    then obtain d0 where "pp_deadline_ms r = Some d0" "d0 \<le> d"
      using assms x d unfolding merge_of_def by blast
    then show ?thesis
      using earliest_deadline_le(1) [of "pp_deadline_ms r" d0 "pp_deadline_ms y"] dl
      by (metis order_trans)
  qed
  moreover have "\<exists>x \<in> insert y X. pp_deadline_ms x = pp_deadline_ms ?m"
    using assms earliest_deadline_cases [of "pp_deadline_ms r" "pp_deadline_ms y"]
    by (auto simp: dl merge_of_def)
  ultimately show ?thesis by (simp add: merge_of_def)
qed

lemma foldl_merge_of: "merge_of (set (x # ys)) (foldl (merge_entries p) x ys)"
proof (induction ys rule: rev_induct)
  case (snoc y ys)
  then have "merge_of (insert y (set (x # ys))) (merge_entries p (foldl (merge_entries p) x ys) y)"
    by (rule merge_of_insert)
  moreover have "insert y (set (x # ys)) = set (x # ys @ [y])" by auto
  ultimately show ?case by simp
qed (auto simp: merge_of_def)

lemma reduce_merge_of: "reduce (merge_entries p) xs = Some e \<Longrightarrow> merge_of (set xs) e"
  using foldl_merge_of by (cases xs) auto

lemma in_wanted_by:
  "x \<in> set (wanted_by streams p) \<longleftrightarrow> (\<exists>s win. (s, win) \<in> set streams \<and> map_of win p = Some x)"
proof (induction streams)
  case (Cons a streams)
  obtain s win where a: "a = (s, win)" by fastforce
  show ?case
  proof (cases "map_of win p")
    case None
    then show ?thesis using Cons.IH by (auto simp: a)
  next
    case (Some e)
    have "x = e \<or> x \<in> set (wanted_by streams p) \<longleftrightarrow>
        (\<exists>s' win'. (s', win') \<in> set (a # streams) \<and> map_of win' p = Some x)"
      using Cons.IH Some a by (metis list.set_intros option.inject prod.inject set_ConsD)
    then show ?thesis using Some by (simp add: a)
  qed
qed simp

definition wants :: "active_priority_windows \<Rightarrow> i32 \<Rightarrow> piece_priority_entry set" where
  "wants w p = {x. \<exists>s win. (s, win) \<in> set (aw_streams w) \<and> map_of win p = Some x}"

lemma effective_merge_of: "effective_for w p = Some e \<Longrightarrow> merge_of (wants w p) e"
  using reduce_merge_of [of p "wanted_by (aw_streams w) p"]
  by (simp add: effective_for_def wants_def in_wanted_by [symmetric])

lemma effective_none_iff: "effective_for w p = None \<longleftrightarrow> wants w p = {}"
  by (cases "wanted_by (aw_streams w) p")
    (auto simp: effective_for_def wants_def in_wanted_by [symmetric])

text \<open>
  A piece is tracked exactly while some reader wants it; its effective priority is
  the highest and its deadline the earliest any of them asked for, and neither depends on the
  order in which the readers are visited.
\<close>

theorem effective_priority_is_the_merge:
  assumes "windows_wf w"
  shows "(map_of (aw_effective w) p = None \<longleftrightarrow> wants w p = {}) \<and>
         (\<forall>e. map_of (aw_effective w) p = Some e \<longrightarrow> merge_of (wants w p) e) \<and>
         (\<forall>w'. mset (aw_streams w') = mset (aw_streams w) \<longrightarrow> effective_for w' p = effective_for w p)"
proof -
  have "effective_for w' p = effective_for w p" if m: "mset (aw_streams w') = mset (aw_streams w)" for w'
  proof -
    have "mset (wanted_by (aw_streams w') p) = mset (wanted_by (aw_streams w) p)"
      unfolding wanted_by_def List.map_filter_def
      by (simp only: mset_map mset_filter m comp_def)
    then show ?thesis unfolding effective_for_def by (rule entries.reduce_permuted)
  qed
  moreover have eff: "map_of (aw_effective w) p = effective_for w p"
    using assms by (simp add: windows_wf_def)
  ultimately show ?thesis
    unfolding eff using effective_merge_of [of w p] effective_none_iff [of w p] by blast
qed

definition example_windows :: active_priority_windows where
  "example_windows = fst (replace windows_default 7
     [\<lparr>pp_piece = 3, pp_priority = 4, pp_deadline_ms = Some 500\<rparr>])"

lemma example_windows_wf: "windows_wf example_windows"
proof -
  obtain w' cs where r: "replace windows_default 7
     [\<lparr>pp_piece = 3, pp_priority = 4, pp_deadline_ms = Some 500\<rparr>] = (w', cs)" by fastforce
  then show ?thesis using replace_exact [OF windows_default_wf r] by (simp add: example_windows_def)
qed

theorem effective_priority_is_the_merge_witness:
  "merge_of (wants example_windows 3) \<lparr>pp_piece = 3, pp_priority = 4, pp_deadline_ms = Some 500\<rparr>"
proof -
  have "map_of (aw_effective example_windows) 3 =
      Some \<lparr>pp_piece = 3, pp_priority = 4, pp_deadline_ms = Some 500\<rparr>"
    by (simp add: example_windows_def replace_def reconcile_def collect_window_def
        windows_default_def effective_for_def Let_def)
  then show ?thesis using effective_priority_is_the_merge [OF example_windows_wf, of 3] by simp
qed

text \<open>
  Property C21.  Replacing and releasing a reader's window returns exactly the difference: applied
  to the old table the changes give the new one, each piece occurs once, in order, and no change
  is redundant.
\<close>

theorem window_changes_are_exact:
  assumes "windows_wf w"
  shows "(case replace w s items of (w', cs) \<Rightarrow> windows_wf w' \<and> exact_changes w w' cs) \<and>
         (case release w s of (w', cs) \<Rightarrow> windows_wf w' \<and> exact_changes w w' cs \<and>
            s \<notin> fst ` set (aw_streams w'))"
  using replace_exact [OF assms] release_exact [OF assms]
  by (auto split: prod.splits simp: delete_notin_dom)

theorem window_changes_are_exact_witness:
  "case release example_windows 7 of (w', cs) \<Rightarrow> exact_changes example_windows w' cs"
  using window_changes_are_exact [OF example_windows_wf, of 7] by auto

end
