(* ===== verification/PlaybackState.thy ===== *)
theory PlaybackState
  imports Priorities PriorityWindows
begin

text \<open>
  The playback coordinator of one torrent (\<open>enginefs/src/backend/libtorrent/playback.rs\<close>): the
  state \<open>TorrentPlaybackState\<close>, every operation that changes it, the completion cache of the
  layout, the pause confirmation and the hot window of a new reader.

  Instants are milliseconds.  Cancellation tokens are numbers; \<open>st_cancelled\<close> is the set of the
  cancelled ones and \<open>st_next_token\<close> the next fresh one.  The permit counters are association
  lists because the code sums over them.  What libtorrent reports (status, presence of pieces,
  whether the torrent is still known) and the flag \<open>seeding_enabled\<close> are arguments.  A permit
  that is dropped sends a command which the worker handles later: \<open>pb_step\<close> keeps the live
  permits and the commands in flight apart, and interleaves every operation.

  Shown here: in every reachable state the counters are exactly the permits that are live or
  still to be released; a permit is cancelled exactly when its generation is no longer current,
  so that all uncancelled readers of a torrent read the same file; a torrent is never paused for
  idleness while a reader or a metadata request is outstanding or HLS was active in the last 15
  seconds; a pause is confirmed only after half a second of paused, peerless silence; the
  completion cache never disagrees with the pieces on disk.
\<close>

section \<open>Constants and state\<close>

definition IDLE_PAUSE_GRACE :: nat where "IDLE_PAUSE_GRACE = 15000"
definition HLS_ACTIVITY_TTL :: nat where "HLS_ACTIVITY_TTL = 15000"
definition PAUSE_QUIET_CONFIRMATION :: nat where "PAUSE_QUIET_CONFIRMATION = 500"
definition PAUSE_CONFIRM_TIMEOUT :: nat where "PAUSE_CONFIRM_TIMEOUT = 5000"
definition PAUSE_RETRY_DELAY :: nat where "PAUSE_RETRY_DELAY = 5000"
definition EMERGENCY_REANNOUNCE_COOLDOWN :: nat where "EMERGENCY_REANNOUNCE_COOLDOWN = 60000"
definition HLS_PRIORITY_STREAM_ID :: nat where "HLS_PRIORITY_STREAM_ID = u64_max"

datatype network_phase = Active | PausePending | PausedIdle

record playback_state =
  st_phase :: network_phase
  st_generation :: u64
  st_selected_file :: "nat option"
  st_selected_priority :: i32
  st_selected_first_piece :: "i32 option"
  st_direct_permits :: "(u64 \<times> nat) list"
  st_foreground_permits :: "(u64 \<times> nat) list"
  st_metadata_permits :: nat
  st_hls_last_activity :: "nat option"
  st_idle_deadline :: "nat option"
  st_cancellation :: nat
  st_cancelled :: "nat set"
  st_next_token :: nat
  st_acknowledged :: "i32 list option"
  st_metadata_announced :: bool
  st_last_reannounce :: "nat option"
  st_windows :: active_priority_windows

record selection =
  sel_generation :: u64
  sel_cancellation :: nat
  sel_changed :: bool
  sel_subordinate :: bool
  sel_native_priority :: i32

record playback_permit =
  pm_file :: nat
  pm_generation :: u64
  pm_stream :: nat
  pm_cancellation :: nat
  pm_foreground :: bool
  pm_subordinate :: bool

definition state_new :: playback_state where
  "state_new =
     \<lparr>st_phase = PausedIdle, st_generation = 0, st_selected_file = None, st_selected_priority = 0,
      st_selected_first_piece = None, st_direct_permits = [], st_foreground_permits = [],
      st_metadata_permits = 0, st_hls_last_activity = None, st_idle_deadline = None,
      st_cancellation = 0, st_cancelled = {}, st_next_token = 1, st_acknowledged = None,
      st_metadata_announced = False, st_last_reannounce = None, st_windows = windows_default\<rparr>"

definition active_playback_permits :: "playback_state \<Rightarrow> nat" where
  "active_playback_permits s = sum_list (map snd (st_direct_permits s))"

definition active_foreground_permits :: "playback_state \<Rightarrow> nat" where
  "active_foreground_permits s =
     (case map_of (st_foreground_permits s) (st_generation s) of None \<Rightarrow> 0 | Some n \<Rightarrow> n)"

definition hls_is_active :: "playback_state \<Rightarrow> nat \<Rightarrow> bool" where
  "hls_is_active s now = is_some_and (\<lambda>last. now - last < HLS_ACTIVITY_TTL) (st_hls_last_activity s)"

definition has_activity :: "playback_state \<Rightarrow> nat \<Rightarrow> bool" where
  "has_activity s now \<longleftrightarrow>
     active_playback_permits s > 0 \<or> st_metadata_permits s > 0 \<or> hls_is_active s now"

definition schedule_idle_if_needed :: "playback_state \<Rightarrow> nat \<Rightarrow> playback_state" where
  "schedule_idle_if_needed s now =
     (if has_activity s now then s\<lparr>st_idle_deadline := None\<rparr>
      else s\<lparr>st_idle_deadline := Some (max now
             (case st_hls_last_activity s of
                Some l \<Rightarrow> l + HLS_ACTIVITY_TTL
              | None \<Rightarrow> now + IDLE_PAUSE_GRACE))\<rparr>)"

text \<open>Cancelling the current token and taking a fresh one, as \<open>select\<close> and \<open>begin_pause\<close> do.\<close>

definition renew_cancellation :: "playback_state \<Rightarrow> playback_state" where
  "renew_cancellation s =
     s\<lparr>st_cancelled := insert (st_cancellation s) (st_cancelled s),
       st_cancellation := st_next_token s, st_next_token := st_next_token s + 1\<rparr>"

definition bump :: "u64 \<Rightarrow> (u64 \<times> nat) list \<Rightarrow> (u64 \<times> nat) list" where
  "bump g m = AList.update g ((case map_of m g of None \<Rightarrow> 0 | Some n \<Rightarrow> n) + 1) m"

definition unbump :: "u64 \<Rightarrow> (u64 \<times> nat) list \<Rightarrow> (u64 \<times> nat) list" where
  "unbump g m =
     (case map_of m g of
        None \<Rightarrow> m
      | Some n \<Rightarrow> if n - 1 = 0 then AList.delete g m else AList.update g (n - 1) m)"

definition switch_selection :: "playback_state \<Rightarrow> nat \<Rightarrow> i32 \<Rightarrow> playback_state" where
  "switch_selection s file_idx native_priority =
     (renew_cancellation (s\<lparr>st_generation := sat_add_u64 (st_generation s) 1\<rparr>))
       \<lparr>st_selected_file := Some file_idx, st_selected_priority := native_priority,
        st_selected_first_piece := None, st_windows := clear_tracking (st_windows s)\<rparr>"

definition selection_changed :: "playback_state \<Rightarrow> nat \<Rightarrow> i32 \<Rightarrow> bool" where
  "selection_changed s file_idx native_priority \<longleftrightarrow>
     st_selected_file s \<noteq> Some file_idx \<or> st_selected_priority s \<noteq> native_priority"

definition retarget :: "playback_state \<Rightarrow> nat \<Rightarrow> i32 \<Rightarrow> playback_state" where
  "retarget s file_idx native_priority =
     (if selection_changed s file_idx native_priority
      then switch_selection s file_idx native_priority else s)"

definition count_permit :: "playback_state \<Rightarrow> bool \<Rightarrow> playback_state" where
  "count_permit s foreground =
     s\<lparr>st_direct_permits := bump (st_generation s) (st_direct_permits s),
       st_foreground_permits := (if foreground then bump (st_generation s) (st_foreground_permits s)
                                 else st_foreground_permits s)\<rparr>"

definition touch :: "playback_state \<Rightarrow> bool \<Rightarrow> bool \<Rightarrow> nat \<Rightarrow> playback_state" where
  "touch s hls_activity network_required now =
     s\<lparr>st_hls_last_activity := (if hls_activity then Some now else st_hls_last_activity s),
       st_phase := (if network_required then Active else st_phase s),
       st_idle_deadline := None\<rparr>"

definition select ::
  "playback_state \<Rightarrow> nat \<Rightarrow> i32 \<Rightarrow> bool \<Rightarrow> bool \<Rightarrow> bool \<Rightarrow> bool \<Rightarrow> nat \<Rightarrow> playback_state \<times> selection" where
  "select s file_idx native_priority direct_permit hls_activity network_required foreground now =
     (let subordinate = (direct_permit \<and> \<not> foreground \<and> st_selected_file s = Some file_idx \<and>
                         active_foreground_permits s > 0);
          s1 = retarget s file_idx native_priority;
          s2 = (if direct_permit then count_permit s1 foreground else s1);
          s3 = touch s2 hls_activity network_required now
      in (s3, \<lparr>sel_generation = st_generation s3, sel_cancellation = st_cancellation s3,
               sel_changed = selection_changed s file_idx native_priority,
               sel_subordinate = subordinate, sel_native_priority = native_priority\<rparr>))"

definition begin_pause :: "playback_state \<Rightarrow> playback_state \<times> u64" where
  "begin_pause s =
     (let s1 = (renew_cancellation (s\<lparr>st_generation := sat_add_u64 (st_generation s) 1\<rparr>))
                 \<lparr>st_selected_file := None, st_selected_priority := 0,
                  st_selected_first_piece := None, st_windows := clear_tracking (st_windows s),
                  st_hls_last_activity := None, st_idle_deadline := None, st_phase := PausePending\<rparr>
      in (s1, st_generation s1))"

definition keep_active_for_seeding :: "playback_state \<Rightarrow> u64 \<Rightarrow> playback_state" where
  "keep_active_for_seeding s generation =
     (if st_generation s = generation \<and> st_phase s = PausePending then s\<lparr>st_phase := Active\<rparr> else s)"

section \<open>Starting, refreshing and ending playback\<close>

definition acquire_metadata :: "playback_state \<Rightarrow> bool \<Rightarrow> playback_state \<times> u64" where
  "acquire_metadata s has_metadata =
     (let s1 = s\<lparr>st_metadata_permits := sat_add_u64 (st_metadata_permits s) 1,
                 st_phase := (if has_metadata then st_phase s else Active),
                 st_idle_deadline := None\<rparr>
      in (if has_metadata then s1 else s1\<lparr>st_metadata_announced := True\<rparr>, st_generation s1))"

definition requested_native_priority :: "bool \<Rightarrow> playback_intent \<Rightarrow> i32" where
  "requested_native_priority complete i =
     (if complete then 0 else if i \<in> {DownloadFull, DownloadRange} then 7 else 1)"

definition start_playback ::
  "playback_state \<Rightarrow> nat \<Rightarrow> nat \<Rightarrow> playback_intent \<Rightarrow> nat \<Rightarrow> bool \<Rightarrow> bool \<Rightarrow> nat \<Rightarrow>
   playback_state \<times> (string, playback_permit \<times> selection) result" where
  "start_playback s file_count file_idx i stream_id complete seeding now =
     (if file_idx \<ge> file_count then (s, Inl ''File index out of range'')
      else
        let foreground = (i \<notin> {InternalProbe, Background});
            busy = (\<not> foreground \<and> active_foreground_permits s > 0)
        in if busy \<and> st_selected_file s \<noteq> Some file_idx
           then (s, Inl ''Background probe rejected because a different playback file is active'')
           else
             let native_priority = (if busy \<and> st_selected_file s = Some file_idx
                                    then st_selected_priority s
                                    else requested_native_priority complete i);
                 (s', sel) = select s file_idx native_priority True False (\<not> complete \<or> seeding)
                               foreground now
             in (s', Inr (\<lparr>pm_file = file_idx, pm_generation = sel_generation sel,
                           pm_stream = stream_id, pm_cancellation = sel_cancellation sel,
                           pm_foreground = foreground, pm_subordinate = sel_subordinate sel\<rparr>, sel)))"

definition refresh_hls ::
  "playback_state \<Rightarrow> nat \<Rightarrow> nat \<Rightarrow> bool \<Rightarrow> bool \<Rightarrow> nat \<Rightarrow> playback_state \<times> (string, selection) result" where
  "refresh_hls s file_count file_idx complete seeding now =
     (if file_idx \<ge> file_count then (s, Inl ''File index out of range'')
      else let (s', sel) = select s file_idx (if complete then 0 else 1) False True
                             (\<not> complete \<or> seeding) False now
           in (s', Inr sel))"

text \<open>
  \<open>end_hls\<close> up to its pause request: \<open>None\<close> when nothing has to be paused, else the generation
  to pause.
\<close>

definition end_hls :: "playback_state \<Rightarrow> nat \<Rightarrow> bool \<Rightarrow> playback_state \<times> u64 option" where
  "end_hls s file_idx seeding =
     (if st_selected_file s \<noteq> Some file_idx \<and> st_hls_last_activity s = None then (s, None)
      else
        let already_paused = (st_phase s = PausedIdle);
            (s1, generation) = begin_pause s
        in if seeding then (keep_active_for_seeding s1 generation, None)
           else if already_paused then (s1\<lparr>st_phase := PausedIdle\<rparr>, None)
           else (s1, Some generation))"

definition selection_is_current :: "playback_state \<Rightarrow> nat \<Rightarrow> u64 \<Rightarrow> bool" where
  "selection_is_current s file_idx generation \<longleftrightarrow>
     st_generation s = generation \<and> st_selected_file s = Some file_idx"

section \<open>Commands of the worker\<close>

definition replace_priority_window_locked ::
  "playback_state \<Rightarrow> nat \<Rightarrow> u64 \<Rightarrow> nat \<Rightarrow> piece_priority_entry list \<Rightarrow>
   playback_state \<times> (i32 \<times> piece_priority_change list) option" where
  "replace_priority_window_locked s file_idx generation stream_id items =
     (if st_generation s \<noteq> generation \<or> st_selected_file s \<noteq> Some file_idx then (s, None)
      else let (w, changes) = replace (st_windows s) stream_id items
           in (s\<lparr>st_windows := w\<rparr>, Some (st_selected_priority s, changes)))"

definition release_playback ::
  "playback_state \<Rightarrow> u64 \<Rightarrow> nat \<Rightarrow> bool \<Rightarrow> nat \<Rightarrow> playback_state \<times> i32 \<times> piece_priority_change list" where
  "release_playback s generation stream_id foreground now =
     (let s1 = s\<lparr>st_direct_permits := unbump generation (st_direct_permits s),
                 st_foreground_permits :=
                   (if foreground then unbump generation (st_foreground_permits s)
                    else st_foreground_permits s)\<rparr>;
          (w, changes) = (if st_generation s = generation then release (st_windows s) stream_id
                          else (st_windows s, []));
          s2 = s1\<lparr>st_windows := w\<rparr>
      in (schedule_idle_if_needed s2 now, st_selected_priority s, changes))"

definition release_metadata :: "playback_state \<Rightarrow> nat \<Rightarrow> playback_state" where
  "release_metadata s now =
     schedule_idle_if_needed (s\<lparr>st_metadata_permits := st_metadata_permits s - 1\<rparr>) now"

definition piece_verified_state :: "playback_state \<Rightarrow> i32 \<Rightarrow> playback_state" where
  "piece_verified_state s piece =
     s\<lparr>st_windows := mark_piece_verified (st_windows s) piece,
       st_selected_first_piece :=
         (if st_selected_first_piece s = Some piece then None else st_selected_first_piece s)\<rparr>"

text \<open>
  The second half of the handler: when seeding is off and the selected file has become complete,
  the torrent is to be paused in its current generation.
\<close>

definition completed_pause_request ::
  "playback_state \<Rightarrow> bool \<Rightarrow> (nat \<Rightarrow> bool) \<Rightarrow> playback_state \<times> u64 option" where
  "completed_pause_request s seeding file_complete =
     (case st_selected_file s of
        Some file_idx \<Rightarrow>
          if \<not> seeding \<and> st_phase s = Active \<and> file_complete file_idx
          then (s\<lparr>st_phase := PausePending\<rparr>, Some (st_generation s)) else (s, None)
      | None \<Rightarrow> (s, None))"

definition completed_pause_failed :: "playback_state \<Rightarrow> u64 \<Rightarrow> playback_state" where
  "completed_pause_failed s generation =
     (if st_generation s = generation then s\<lparr>st_phase := Active\<rparr> else s)"

section \<open>Idle pauses\<close>

definition expire_hls :: "playback_state \<Rightarrow> nat \<Rightarrow> playback_state" where
  "expire_hls s now =
     (if st_hls_last_activity s \<noteq> None \<and> \<not> hls_is_active s now
      then s\<lparr>st_hls_last_activity := None, st_idle_deadline := Some now\<rparr> else s)"

definition idle_due :: "playback_state \<Rightarrow> nat \<Rightarrow> bool" where
  "idle_due s now \<longleftrightarrow>
     \<not> has_activity s now \<and> is_some_and (\<lambda>d. d \<le> now) (st_idle_deadline s) \<and> st_phase s \<noteq> PausedIdle"

definition pause_due :: "playback_state \<Rightarrow> bool \<Rightarrow> nat \<Rightarrow> playback_state \<times> u64 option" where
  "pause_due s seeding now =
     (if seeding then (s, None)
      else
        let s1 = expire_hls s now
        in if \<not> idle_due s1 now then (s1, None)
           else if st_phase s1 = PausePending
           then (s1\<lparr>st_idle_deadline := None\<rparr>, Some (st_generation s1))
           else let (s2, g) = begin_pause s1 in (s2, Some g))"

definition idle_pause_failed :: "playback_state \<Rightarrow> u64 \<Rightarrow> nat \<Rightarrow> playback_state" where
  "idle_pause_failed s generation now =
     (if st_generation s = generation
      then s\<lparr>st_phase := PausePending, st_idle_deadline := Some (now + PAUSE_RETRY_DELAY)\<rparr> else s)"

text \<open>The last section of \<open>perform_pause\<close>, after the confirmation, with the layout's file count.\<close>

definition pause_confirmed :: "playback_state \<Rightarrow> u64 \<Rightarrow> bool \<Rightarrow> nat \<Rightarrow> playback_state" where
  "pause_confirmed s generation clear_selection file_count =
     (if st_generation s = generation
      then let zeros = replicate file_count 0;
               s1 = s\<lparr>st_phase := PausedIdle,
                      st_acknowledged := (if zeros \<noteq> [] then Some zeros else None)\<rparr>
           in if clear_selection then s1\<lparr>st_selected_file := None, st_selected_priority := 0\<rparr> else s1
      else s)"

definition resume_for_seeding :: "playback_state \<Rightarrow> bool \<Rightarrow> playback_state" where
  "resume_for_seeding s found =
     (let s1 = s\<lparr>st_idle_deadline := None\<rparr>
      in if st_phase s1 \<in> {PausePending, PausedIdle} \<and> found then s1\<lparr>st_phase := Active\<rparr> else s1)"

definition emergency_reannounce :: "playback_state \<Rightarrow> nat \<Rightarrow> playback_state \<times> bool" where
  "emergency_reannounce s now =
     (let allowed = (case st_last_reannounce s of
                       None \<Rightarrow> True | Some l \<Rightarrow> now - l \<ge> EMERGENCY_REANNOUNCE_COOLDOWN)
      in (if allowed then s\<lparr>st_last_reannounce := Some now\<rparr> else s, allowed))"

section \<open>Steps of an activation\<close>

definition acknowledge_priorities :: "playback_state \<Rightarrow> u64 \<Rightarrow> i32 list \<Rightarrow> playback_state" where
  "acknowledge_priorities s generation desired =
     (if st_generation s = generation then s\<lparr>st_acknowledged := Some desired\<rparr> else s)"

definition set_first_piece :: "playback_state \<Rightarrow> nat \<Rightarrow> u64 \<Rightarrow> i32 \<Rightarrow> playback_state" where
  "set_first_piece s file_idx generation piece =
     (if st_generation s \<noteq> generation \<or> st_selected_file s \<noteq> Some file_idx then s
      else s\<lparr>st_selected_first_piece := Some piece\<rparr>)"

definition clear_first_piece :: "playback_state \<Rightarrow> u64 \<Rightarrow> playback_state" where
  "clear_first_piece s generation =
     (if st_generation s = generation then s\<lparr>st_selected_first_piece := None\<rparr> else s)"

definition desired_priorities :: "nat \<Rightarrow> nat \<Rightarrow> i32 \<Rightarrow> (string, i32 list) result" where
  "desired_priorities file_count file_idx priority =
     (if file_idx \<ge> file_count then Inl ''File index out of range''
      else Inr ((replicate file_count 0)[file_idx := priority]))"

definition file_count_bucket :: "nat \<Rightarrow> string" where
  "file_count_bucket n =
     (if n \<le> 1 then ''1'' else if n \<le> 10 then ''2-10'' else if n \<le> 100 then ''11-100'' else ''101+'')"

section \<open>The hot window of a new reader\<close>

record file_info =
  fi_offset :: int
  fi_size :: int
  fi_first_piece :: i32
  fi_last_piece :: i32

definition start_piece :: "file_info \<Rightarrow> u64 \<Rightarrow> u64 \<Rightarrow> i32" where
  "start_piece file pl start_offset =
     u64_as_i32 ((nat (max (fi_offset file) 0) + min start_offset (nat (max (fi_size file) 0))) div pl)"

definition hot_window_context ::
  "file_info \<Rightarrow> u64 \<Rightarrow> playback_intent \<Rightarrow> u64 \<Rightarrow> u64 option \<Rightarrow> int \<Rightarrow> int \<Rightarrow> u64 \<Rightarrow> u64 \<Rightarrow> priority_context" where
  "hot_window_context file pl i start_offset bitrate download_rate num_peers cache_size native_memory =
     \<lparr>intent = i, current_piece = start_piece file pl start_offset,
      first_piece = fi_first_piece file, last_piece = fi_last_piece file,
      piece_length = pl, file_size = nat (max (fi_size file) 0), bitrate_bytes_per_sec = bitrate,
      download_rate_bytes_per_sec = nat (max download_rate 0), peers = nat (max num_peers 0),
      cache_size_bytes = cache_size,
      memory_pressure = (if cache_size > 0 \<and> native_memory \<ge> sat_mul_u64 cache_size 80 div 100
                         then High else Normal),
      consecutive_waits = 0, first_byte_sent = False\<rparr>"

definition hot_window_items ::
  "file_info \<Rightarrow> playback_intent \<Rightarrow> priority_decision \<Rightarrow> piece_priority_entry list" where
  "hot_window_items file i d =
     map (\<lambda>a. \<lparr>pp_piece = piece_idx a, pp_priority = piece_priority a,
               pp_deadline_ms = (if i \<in> {InternalProbe, Background} then None else Some (deadline a))\<rparr>)
       (filter (\<lambda>a. piece_idx a \<ge> fi_first_piece file \<and> piece_idx a \<le> fi_last_piece file) (assignments d))"

definition apply_hot_window ::
  "file_info \<Rightarrow> u64 \<Rightarrow> playback_intent \<Rightarrow> u64 \<Rightarrow> u64 option \<Rightarrow> int \<Rightarrow> int \<Rightarrow> u64 \<Rightarrow> u64 \<Rightarrow>
   (string, i32 \<times> piece_priority_entry list) result option" where
  "apply_hot_window file pl i start_offset bitrate download_rate num_peers cache_size native_memory =
     (if pl = 0 then Some (Inl ''Torrent piece length is zero'')
      else map_option (\<lambda>d. Inr (start_piece file pl start_offset, hot_window_items file i d))
             (decide (hot_window_context file pl i start_offset bitrate download_rate num_peers
                        cache_size native_memory)))"

section \<open>The completion cache\<close>

definition file_presence_complete :: "(i32 \<Rightarrow> bool) \<Rightarrow> file_info \<Rightarrow> bool" where
  "file_presence_complete present file =
     (let presence = map present [fi_first_piece file..fi_last_piece file];
          expected = nat (fi_last_piece file - fi_first_piece file + 1)
      in length presence = expected \<and> list_all id presence)"

definition file_is_complete_with_layout ::
  "file_info list \<Rightarrow> bool option list \<Rightarrow> (i32 \<Rightarrow> bool) \<Rightarrow> nat \<Rightarrow>
   bool option list \<times> (string, bool) result" where
  "file_is_complete_with_layout files completion present file_idx =
     (case (if file_idx < length completion then completion ! file_idx else None) of
        Some complete \<Rightarrow> (completion, Inr complete)
      | None \<Rightarrow>
          if file_idx \<ge> length files then (completion, Inl ''File index out of range'')
          else let complete = file_presence_complete present (files ! file_idx)
               in (completion[file_idx := Some complete], Inr complete))"

definition piece_in_file :: "i32 \<Rightarrow> file_info \<Rightarrow> bool" where
  "piece_in_file piece file \<longleftrightarrow> piece \<ge> fi_first_piece file \<and> piece \<le> fi_last_piece file"

definition completion_after_verified :: "file_info list \<Rightarrow> i32 \<Rightarrow> bool option list \<Rightarrow> bool option list" where
  "completion_after_verified files piece completion =
     map2 (\<lambda>file c. if piece_in_file piece file \<and> c \<noteq> Some True then None else c) files completion"

definition completion_after_invalidated :: "file_info list \<Rightarrow> i32 \<Rightarrow> bool option list \<Rightarrow> bool option list" where
  "completion_after_invalidated files piece completion =
     map2 (\<lambda>file c. if piece_in_file piece file then None else c) files completion"

section \<open>Confirmation of a pause\<close>

record pause_status =
  pst_is_paused :: bool
  pst_num_peers :: int
  pst_total_downloaded :: int
  pst_total_uploaded :: int

record silence_tracker =
  slt_stable_since :: "nat option"
  slt_downloaded :: int
  slt_uploaded :: int

definition silence_default :: silence_tracker where
  "silence_default = \<lparr>slt_stable_since = None, slt_downloaded = 0, slt_uploaded = 0\<rparr>"

definition observe :: "silence_tracker \<Rightarrow> pause_status \<Rightarrow> nat \<Rightarrow> silence_tracker \<times> bool" where
  "observe t status now =
     (if \<not> pst_is_paused status \<or> pst_num_peers status \<noteq> 0 then (t\<lparr>slt_stable_since := None\<rparr>, False)
      else case slt_stable_since t of
          Some since \<Rightarrow>
            if slt_downloaded t \<noteq> pst_total_downloaded status \<or> slt_uploaded t \<noteq> pst_total_uploaded status
            then (\<lparr>slt_stable_since = Some now, slt_downloaded = pst_total_downloaded status,
                   slt_uploaded = pst_total_uploaded status\<rparr>, False)
            else (t, now - since \<ge> PAUSE_QUIET_CONFIRMATION)
        | None \<Rightarrow>
            (\<lparr>slt_stable_since = Some now, slt_downloaded = pst_total_downloaded status,
              slt_uploaded = pst_total_uploaded status\<rparr>, False))"

text \<open>
  The polling loop of \<open>wait_for_pause_confirmation\<close> over the sequence of its rounds: the status
  (absent when the torrent is gone) with the instant of the observation, the instant of the
  deadline check, and what the alert channel delivered before the next round.
\<close>

datatype poll_event = NothingRelevant | FileErrorAlert | ChannelClosed

record poll_round =
  pr_status :: "pause_status option"
  pr_now :: nat
  pr_check :: nat
  pr_event :: poll_event

fun pause_poll :: "silence_tracker \<Rightarrow> nat \<Rightarrow> poll_round list \<Rightarrow> (string, unit) result option" where
  "pause_poll t limit [] = None"
| "pause_poll t limit (r # rs) =
     (case pr_status r of
        None \<Rightarrow> Some (Inl ''Torrent not found'')
      | Some status \<Rightarrow>
          let (t', silent) = observe t status (pr_now r)
          in if silent then Some (Inr ())
             else if pr_check r \<ge> limit then Some (Inl ''Torrent pause was not silent'')
             else case pr_event r of
                 FileErrorAlert \<Rightarrow> Some (Inl ''Libtorrent file error while pausing'')
               | ChannelClosed \<Rightarrow> Some (Inl ''Libtorrent alert channel closed'')
               | NothingRelevant \<Rightarrow> pause_poll t' limit rs)"

section \<open>The interleaved system\<close>

record pb_world =
  w_state :: playback_state
  w_live :: "playback_permit multiset"
  w_pending :: "playback_permit multiset"
  w_meta :: nat

definition pb_init :: "pb_world \<Rightarrow> bool" where
  "pb_init w \<longleftrightarrow> w = \<lparr>w_state = state_new, w_live = {#}, w_pending = {#}, w_meta = 0\<rparr>"

text \<open>Operations that neither hand out nor take back a permit.\<close>

inductive pb_internal :: "playback_state \<Rightarrow> playback_state \<Rightarrow> bool" where
  "refresh_hls s n f complete seeding now = (s', r) \<Longrightarrow> pb_internal s s'"
| "end_hls s f seeding = (s', r) \<Longrightarrow> pb_internal s s'"
| "replace_priority_window_locked s f g sid items = (s', r) \<Longrightarrow> pb_internal s s'"
| "pb_internal s (piece_verified_state s piece)"
| "completed_pause_request s seeding complete_file = (s', r) \<Longrightarrow> pb_internal s s'"
| "pb_internal s (completed_pause_failed s g)"
| "pause_due s seeding now = (s', r) \<Longrightarrow> pb_internal s s'"
| "pb_internal s (idle_pause_failed s g now)"
| "pb_internal s (pause_confirmed s g clear n)"
| "pb_internal s (keep_active_for_seeding s g)"
| "pb_internal s (resume_for_seeding s found)"
| "pb_internal s (schedule_idle_if_needed s now)"
| "emergency_reannounce s now = (s', r) \<Longrightarrow> pb_internal s s'"
| "pb_internal s (acknowledge_priorities s g desired)"
| "pb_internal s (set_first_piece s f g piece)"
| "pb_internal s (clear_first_piece s g)"

inductive pb_step :: "pb_world \<Rightarrow> pb_world \<Rightarrow> bool" where
  started: "start_playback (w_state w) n f i sid complete seeding now = (s', Inr (p, sel)) \<Longrightarrow>
     pb_step w (w\<lparr>w_state := s', w_live := add_mset p (w_live w)\<rparr>)"
| rejected: "start_playback (w_state w) n f i sid complete seeding now = (s', Inl e) \<Longrightarrow>
     pb_step w (w\<lparr>w_state := s'\<rparr>)"
| dropped: "p \<in># w_live w \<Longrightarrow>
     pb_step w (w\<lparr>w_live := w_live w - {#p#}, w_pending := add_mset p (w_pending w)\<rparr>)"
| released: "p \<in># w_pending w \<Longrightarrow>
     release_playback (w_state w) (pm_generation p) (pm_stream p) (pm_foreground p) now = (s', b, cs) \<Longrightarrow>
     pb_step w (w\<lparr>w_state := s', w_pending := w_pending w - {#p#}\<rparr>)"
| metadata_acquired: "w_meta w < u64_max \<Longrightarrow> acquire_metadata (w_state w) has_metadata = (s', g) \<Longrightarrow>
     pb_step w (w\<lparr>w_state := s', w_meta := w_meta w + 1\<rparr>)"
| metadata_released: "w_meta w > 0 \<Longrightarrow>
     pb_step w (w\<lparr>w_state := release_metadata (w_state w) now, w_meta := w_meta w - 1\<rparr>)"
| internal: "pb_internal (w_state w) s' \<Longrightarrow> pb_step w (w\<lparr>w_state := s'\<rparr>)"

inductive_cases pb_stepE: "pb_step w w'"
inductive_cases pb_internalE: "pb_internal s s'"

section \<open>The invariant\<close>

definition counters_of :: "u64 multiset \<Rightarrow> (u64 \<times> nat) list \<Rightarrow> bool" where
  "counters_of G m \<longleftrightarrow>
     distinct (map fst m) \<and> map_of m = (\<lambda>g. if count G g = 0 then None else Some (count G g))"

definition outstanding :: "pb_world \<Rightarrow> playback_permit multiset" where
  "outstanding w = w_live w + w_pending w"

definition counts_inv :: "playback_state \<Rightarrow> playback_permit multiset \<Rightarrow> bool" where
  "counts_inv s P \<longleftrightarrow>
     counters_of (image_mset pm_generation P) (st_direct_permits s) \<and>
     counters_of (image_mset pm_generation {#p \<in># P. pm_foreground p#}) (st_foreground_permits s)"

definition permit_ok :: "playback_state \<Rightarrow> playback_permit \<Rightarrow> bool" where
  "permit_ok s p \<longleftrightarrow>
     pm_generation p \<le> st_generation s \<and>
     (pm_generation p = st_generation s \<longrightarrow>
        pm_cancellation p = st_cancellation s \<and> st_selected_file s \<in> {None, Some (pm_file p)}) \<and>
     (pm_generation p < st_generation s \<longrightarrow> pm_cancellation p \<in> st_cancelled s)"

definition one_file :: "u64 \<Rightarrow> playback_permit multiset \<Rightarrow> bool" where
  "one_file g P \<longleftrightarrow>
     (\<forall>p \<in># P. \<forall>q \<in># P. pm_generation p = g \<longrightarrow> pm_generation q = g \<longrightarrow> pm_file p = pm_file q)"

definition supply_ok :: "playback_state \<Rightarrow> bool" where
  "supply_ok s \<longleftrightarrow>
     st_cancellation s < st_next_token s \<and> st_cancellation s \<notin> st_cancelled s \<and>
     (\<forall>t \<in> st_cancelled s. t < st_next_token s)"

definition tokens_inv :: "playback_state \<Rightarrow> playback_permit multiset \<Rightarrow> bool" where
  "tokens_inv s P \<longleftrightarrow> supply_ok s \<and>
     (st_generation s < u64_max \<longrightarrow> (\<forall>p \<in># P. permit_ok s p) \<and> one_file (st_generation s) P)"

definition pb_inv :: "pb_world \<Rightarrow> bool" where
  "pb_inv w \<longleftrightarrow>
     counts_inv (w_state w) (outstanding w) \<and> tokens_inv (w_state w) (outstanding w) \<and>
     st_metadata_permits (w_state w) = w_meta w \<and> windows_wf (st_windows (w_state w))"

text \<open>
  The part of the state the invariant reads.  An operation keeps it, or cancels the generation,
  or at most forgets the selected file.
\<close>

definition same_permits :: "playback_state \<Rightarrow> playback_state \<Rightarrow> bool" where
  "same_permits s s' \<longleftrightarrow>
     st_direct_permits s' = st_direct_permits s \<and> st_foreground_permits s' = st_foreground_permits s \<and>
     st_metadata_permits s' = st_metadata_permits s"

definition keeps_generation :: "playback_state \<Rightarrow> playback_state \<Rightarrow> bool" where
  "keeps_generation s s' \<longleftrightarrow>
     st_generation s' = st_generation s \<and> st_cancellation s' = st_cancellation s \<and>
     st_cancelled s' = st_cancelled s \<and> st_next_token s' = st_next_token s \<and>
     st_selected_file s' \<in> {st_selected_file s, None}"

definition renews_generation :: "playback_state \<Rightarrow> playback_state \<Rightarrow> bool" where
  "renews_generation s s' \<longleftrightarrow>
     st_generation s' = sat_add_u64 (st_generation s) 1 \<and>
     st_cancelled s' = insert (st_cancellation s) (st_cancelled s) \<and>
     st_cancellation s' = st_next_token s \<and> st_next_token s' = st_next_token s + 1"

lemma permit_ok_keep: "permit_ok s p \<Longrightarrow> keeps_generation s s' \<Longrightarrow> permit_ok s' p"
  unfolding permit_ok_def keeps_generation_def by auto

lemma supply_ok_keep: "supply_ok s \<Longrightarrow> keeps_generation s s' \<Longrightarrow> supply_ok s'"
  unfolding supply_ok_def keeps_generation_def by simp

lemma supply_ok_renew: "supply_ok s \<Longrightarrow> renews_generation s s' \<Longrightarrow> supply_ok s'"
  unfolding supply_ok_def renews_generation_def by auto

lemma tokens_inv_keep: "tokens_inv s P \<Longrightarrow> keeps_generation s s' \<Longrightarrow> tokens_inv s' P"
proof -
  assume inv: "tokens_inv s P" and keep: "keeps_generation s s'"
  have "st_generation s' = st_generation s" using keep by (simp add: keeps_generation_def)
  then show ?thesis
    using inv permit_ok_keep [OF _ keep] supply_ok_keep [OF _ keep] by (simp add: tokens_inv_def)
qed

lemma renews_generation_less:
  "renews_generation s s' \<Longrightarrow> st_generation s' < u64_max \<Longrightarrow>
   st_generation s < u64_max \<and> st_generation s' = st_generation s + 1"
  by (auto simp: renews_generation_def sat_add_u64_def min_def split: if_splits)

lemma permit_ok_renew:
  assumes "permit_ok s p" and "renews_generation s s'" and "st_generation s' < u64_max"
  shows "permit_ok s' p \<and> pm_generation p < st_generation s'"
  using assms(1,2) renews_generation_less [OF assms(2,3)]
  by (auto simp: permit_ok_def renews_generation_def nat_less_le)

lemma tokens_inv_renew:
  assumes "tokens_inv s P" and "renews_generation s s'"
  shows "tokens_inv s' P"
proof -
  have "permit_ok s' p \<and> pm_generation p < st_generation s'"
    if "p \<in># P" "st_generation s' < u64_max" for p
    using permit_ok_renew [OF _ assms(2) that(2)] renews_generation_less [OF assms(2) that(2)]
      assms(1) that(1) by (simp add: tokens_inv_def)
  then show ?thesis
    using assms supply_ok_renew unfolding tokens_inv_def one_file_def by (metis nat_neq_iff)
qed

lemma renew_or_keep_simps [simp]:
  "st_generation (renew_cancellation s) = st_generation s"
  "st_direct_permits (renew_cancellation s) = st_direct_permits s"
  "st_foreground_permits (renew_cancellation s) = st_foreground_permits s"
  "st_metadata_permits (renew_cancellation s) = st_metadata_permits s"
  "st_windows (renew_cancellation s) = st_windows s"
  "st_phase (renew_cancellation s) = st_phase s"
  by (simp_all add: renew_cancellation_def)

lemma begin_pause_effect:
  "begin_pause s = (s', g) \<Longrightarrow>
   same_permits s s' \<and> renews_generation s s' \<and> windows_wf (st_windows s') \<and> g = st_generation s' \<and>
   st_selected_file s' = None \<and> st_phase s' = PausePending"
  by (auto simp: begin_pause_def Let_def same_permits_def renews_generation_def
      renew_cancellation_def clear_tracking_wf)

lemma counters_of_bump: "counters_of G m \<Longrightarrow> counters_of (add_mset g G) (bump g m)"
  by (auto simp: counters_of_def bump_def distinct_update update_conv' fun_eq_iff not_in_iff)

lemma counters_of_unbump:
  "counters_of G m \<Longrightarrow> g \<in># G \<Longrightarrow> counters_of (G - {#g#}) (unbump g m)"
  by (auto simp: counters_of_def unbump_def distinct_update distinct_delete update_conv'
      AList.delete_conv' fun_eq_iff not_in_iff)

lemma counters_of_sum: "counters_of G m \<Longrightarrow> sum_list (map snd m) = size G"
proof (induction m arbitrary: G)
  case Nil
  then have "count G g = 0" for g by (metis counters_of_def map_of.simps(1) option.distinct(1))
  then show ?case by (simp add: multiset_eq_iff size_eq_0_iff_empty)
next
  case (Cons a m)
  obtain g n where a: "a = (g, n)" by fastforce
  have n: "count G g = n" "n \<noteq> 0"
    using Cons.prems by (auto simp: counters_of_def a fun_eq_iff split: if_splits)
  let ?G = "filter_mset (\<lambda>x. x \<noteq> g) G"
  have split: "G = replicate_mset n g + ?G" using n by (auto simp: multiset_eq_iff)
  have "map_of m h = (if count ?G h = 0 then None else Some (count ?G h))" for h
  proof (cases "h = g")
    case True
    then show ?thesis using Cons.prems by (auto simp: counters_of_def a map_of_eq_None_iff)
  next
    case False
    have "map_of (a # m) h = (if count G h = 0 then None else Some (count G h))"
      using Cons.prems by (simp add: counters_of_def)
    then show ?thesis using False by (simp add: a not_in_iff)
  qed
  then have "counters_of ?G m" using Cons.prems by (simp add: counters_of_def fun_eq_iff)
  then have "sum_list (map snd m) = size ?G" by (rule Cons.IH)
  then show ?case using arg_cong [OF split, of size] by (simp add: a)
qed

definition benign :: "playback_state \<Rightarrow> playback_state \<Rightarrow> bool" where
  "benign s s' \<longleftrightarrow>
     same_permits s s' \<and> (keeps_generation s s' \<or> renews_generation s s') \<and>
     (windows_wf (st_windows s) \<longrightarrow> windows_wf (st_windows s'))"

lemma benign_refl [simp]: "benign s s"
  by (simp add: benign_def same_permits_def keeps_generation_def)

lemma benign_keep:
  "same_permits s s' \<Longrightarrow> keeps_generation s s' \<Longrightarrow> st_windows s' = st_windows s \<Longrightarrow> benign s s'"
  by (simp add: benign_def)

lemmas keep_defs = same_permits_def keeps_generation_def

lemma schedule_idle_benign: "benign s (schedule_idle_if_needed s now)"
  by (rule benign_keep) (simp_all add: keep_defs schedule_idle_if_needed_def)

lemma benign_fields:
  "benign s s' \<Longrightarrow> benign s (s'\<lparr>st_phase := x\<rparr>)"
  "benign s s' \<Longrightarrow> benign s (s'\<lparr>st_hls_last_activity := h\<rparr>)"
  "benign s s' \<Longrightarrow> benign s (s'\<lparr>st_idle_deadline := d\<rparr>)"
  by (simp_all add: benign_def keep_defs renews_generation_def)

lemma switch_selection_benign: "benign s (switch_selection s f pr)"
  by (simp add: switch_selection_def benign_def same_permits_def renews_generation_def
      renew_cancellation_def clear_tracking_wf)

lemma retarget_benign: "benign s (retarget s f pr)"
  by (simp add: retarget_def switch_selection_benign)

lemma touch_benign: "benign s s' \<Longrightarrow> benign s (touch s' hls net now)"
  by (simp add: touch_def benign_def keep_defs renews_generation_def)

lemma select_effect: "select s f pr False hls net fg now = (s', sel) \<Longrightarrow> benign s s'"
  by (auto simp: select_def Let_def intro: touch_benign retarget_benign)

lemma refresh_hls_benign: "refresh_hls s n f c sd now = (s', r) \<Longrightarrow> benign s s'"
  by (auto simp: refresh_hls_def split: if_splits prod.splits dest: select_effect)

lemma begin_pause_benign: "begin_pause s = (s', g) \<Longrightarrow> benign s s'"
  using begin_pause_effect by (auto simp: benign_def)

lemma keep_active_benign: "benign s s' \<Longrightarrow> benign s (keep_active_for_seeding s' g)"
  by (simp add: keep_active_for_seeding_def benign_fields)

lemma end_hls_benign: "end_hls s f sd = (s', r) \<Longrightarrow> benign s s'"
  by (auto simp: end_hls_def Let_def split: if_splits prod.splits
      dest!: begin_pause_benign intro: keep_active_benign benign_fields)

lemma replace_window_benign: "replace_priority_window_locked s f g sid items = (s', r) \<Longrightarrow> benign s s'"
  by (auto simp: replace_priority_window_locked_def benign_def keep_defs split: if_splits prod.splits
      dest: windows.ok_rep)

lemma piece_verified_benign: "benign s (piece_verified_state s piece)"
  using mark_piece_verified_wf by (simp add: piece_verified_state_def benign_def keep_defs)

lemma pause_due_cases:
  assumes "pause_due s sd now = (s', r)"
  obtains "s' = s" "r = None"
  | "s' = expire_hls s now" "r = None"
  | "\<not> sd" "idle_due (expire_hls s now) now"
      "s' = (expire_hls s now)\<lparr>st_idle_deadline := None\<rparr>" "r = Some (st_generation s')"
  | g where "\<not> sd" "idle_due (expire_hls s now) now"
      "begin_pause (expire_hls s now) = (s', g)" "r = Some g"
proof -
  obtain b g where bp: "begin_pause (expire_hls s now) = (b, g)" by fastforce
  consider "sd" | "\<not> sd" "\<not> idle_due (expire_hls s now) now"
    | "\<not> sd" "idle_due (expire_hls s now) now" "st_phase (expire_hls s now) = PausePending"
    | "\<not> sd" "idle_due (expire_hls s now) now" "st_phase (expire_hls s now) \<noteq> PausePending"
    by blast
  then show ?thesis
  proof cases
    case 1
    then have "s' = s" "r = None" using assms by (auto simp: pause_due_def)
    then show ?thesis by (rule that(1))
  next
    case 2
    then have "s' = expire_hls s now" "r = None" using assms by (auto simp: pause_due_def Let_def)
    then show ?thesis by (rule that(2))
  next
    case 3
    then have s': "s' = (expire_hls s now)\<lparr>st_idle_deadline := None\<rparr>"
      and r: "r = Some (st_generation (expire_hls s now))"
      using assms by (auto simp: pause_due_def Let_def)
    then have "r = Some (st_generation s')" by simp
    with 3 s' show ?thesis by (intro that(3))
  next
    case 4
    then have "begin_pause (expire_hls s now) = (s', g)" "r = Some g"
      using assms bp by (auto simp: pause_due_def Let_def)
    with 4 show ?thesis by (intro that(4))
  qed
qed

lemma expire_hls_benign: "benign (expire_hls s now) x \<Longrightarrow> benign s x"
  by (simp add: expire_hls_def benign_def keep_defs renews_generation_def split: if_splits)

lemma pause_due_benign: "pause_due s sd now = (s', r) \<Longrightarrow> benign s s'"
proof (erule pause_due_cases)
  show "s' = s \<Longrightarrow> benign s s'" by simp
  show "s' = expire_hls s now \<Longrightarrow> benign s s'" by (rule expire_hls_benign [of _ now]) simp
  show "s' = (expire_hls s now)\<lparr>st_idle_deadline := None\<rparr> \<Longrightarrow> benign s s'"
    by (rule expire_hls_benign [of _ now], rule benign_keep) (simp_all add: keep_defs)
  show "begin_pause (expire_hls s now) = (s', g) \<Longrightarrow> benign s s'" for g
    by (rule expire_hls_benign [of _ now]) (rule begin_pause_benign)
qed

lemma pb_internal_benign: "pb_internal s s' \<Longrightarrow> benign s s'"
proof (induction rule: pb_internal.induct)
  case (5 s seeding complete_file s' r)
  then show ?case
    by (auto simp: completed_pause_request_def benign_fields split: option.splits if_splits)
qed (auto intro: refresh_hls_benign end_hls_benign replace_window_benign piece_verified_benign
      pause_due_benign schedule_idle_benign keep_active_benign benign_fields
    simp: completed_pause_failed_def idle_pause_failed_def pause_confirmed_def resume_for_seeding_def
      emergency_reannounce_def acknowledge_priorities_def set_first_piece_def clear_first_piece_def
      Let_def keep_defs benign_keep)

lemma benign_tokens: "benign s s' \<Longrightarrow> tokens_inv s P \<Longrightarrow> tokens_inv s' P"
  unfolding benign_def using tokens_inv_keep tokens_inv_renew by blast

lemma benign_counts: "benign s s' \<Longrightarrow> counts_inv s P \<Longrightarrow> counts_inv s' P"
  by (simp add: benign_def same_permits_def counts_inv_def)

lemma benign_inv:
  assumes "pb_inv w" and "benign (w_state w) s'"
  shows "pb_inv (w\<lparr>w_state := s'\<rparr>)"
  using assms benign_tokens [OF assms(2)] benign_counts [OF assms(2)]
  by (simp add: pb_inv_def outstanding_def benign_def same_permits_def)

lemma retarget_selects: "st_selected_file (retarget s f pr) = Some f"
  by (auto simp: retarget_def selection_changed_def switch_selection_def)

lemma tokens_inv_add:
  assumes inv: "tokens_inv s P" and sel: "st_selected_file s = Some (pm_file p)"
    and gen: "pm_generation p = st_generation s" and tok: "pm_cancellation p = st_cancellation s"
  shows "tokens_inv s (add_mset p P)"
proof -
  have p: "permit_ok s p" using sel gen tok by (simp add: permit_ok_def)
  have "pm_file q = pm_file p"
    if "q \<in># P" "pm_generation q = st_generation s" "st_generation s < u64_max" for q
  proof -
    have "permit_ok s q" using inv that unfolding tokens_inv_def by blast
    then show ?thesis using that(2) sel by (simp add: permit_ok_def)
  qed
  then have "one_file (st_generation s) (add_mset p P)" if "st_generation s < u64_max"
    using that unfolding one_file_def by (metis insert_iff set_mset_add_mset_insert)
  then show ?thesis using inv p unfolding tokens_inv_def by simp
qed

lemma start_playback_Inr:
  assumes "start_playback s n f i sid complete seeding now = (s', Inr (p, sel))"
  obtains pr where
    "s' = touch (count_permit (retarget s f pr) (pm_foreground p)) False (\<not> complete \<or> seeding) now"
    "pm_file p = f" "pm_stream p = sid" "f < n" "pm_foreground p = (i \<notin> {InternalProbe, Background})"
    "pm_generation p = st_generation (retarget s f pr)"
    "pm_cancellation p = st_cancellation (retarget s f pr)"
    "\<not> pm_foreground p \<and> active_foreground_permits s > 0 \<longrightarrow> st_selected_file s = Some f"
  using assms that
  by (fastforce simp: start_playback_def Let_def select_def count_permit_def touch_def
      split: if_splits prod.splits)

lemma start_playback_Inl: "start_playback s n f i sid complete seeding now = (s', Inl e) \<Longrightarrow> s' = s"
  by (auto simp: start_playback_def Let_def split: if_splits prod.splits)

lemma core_inv_cong:
  assumes "st_generation s' = st_generation s" and "st_cancellation s' = st_cancellation s"
    and "st_cancelled s' = st_cancelled s" and "st_next_token s' = st_next_token s"
    and "st_selected_file s' = st_selected_file s"
  shows "tokens_inv s' P = tokens_inv s P"
  using assms by (simp add: tokens_inv_def supply_ok_def permit_ok_def)

lemma started_inv:
  assumes inv: "pb_inv w"
    and run: "start_playback (w_state w) n f i sid complete seeding now = (s', Inr (p, sel))"
  shows "pb_inv (w\<lparr>w_state := s', w_live := add_mset p (w_live w)\<rparr>)"
proof -
  obtain pr where s': "s' = touch (count_permit (retarget (w_state w) f pr) (pm_foreground p)) False
      (\<not> complete \<or> seeding) now"
    and p: "pm_file p = f" "pm_generation p = st_generation (retarget (w_state w) f pr)"
      "pm_cancellation p = st_cancellation (retarget (w_state w) f pr)"
    by (rule start_playback_Inr [OF run])
  let ?s1 = "retarget (w_state w) f pr"
  have ben: "benign (w_state w) ?s1" by (rule retarget_benign)
  have t: "tokens_inv ?s1 (outstanding w)" and c: "counts_inv ?s1 (outstanding w)"
    and m: "st_metadata_permits ?s1 = w_meta w" "windows_wf (st_windows ?s1)"
    using inv ben benign_tokens [OF ben] benign_counts [OF ben]
    by (auto simp: pb_inv_def benign_def same_permits_def)
  have "tokens_inv ?s1 (add_mset p (outstanding w))"
    using tokens_inv_add [OF t, of p] p retarget_selects by simp
  then have "tokens_inv s' (add_mset p (outstanding w))"
    by (subst core_inv_cong [of _ ?s1]) (simp_all add: s' touch_def count_permit_def)
  moreover have "counts_inv s' (add_mset p (outstanding w))"
    using c p(2) by (auto simp: counts_inv_def s' touch_def count_permit_def counters_of_bump)
  ultimately show ?thesis
    using m by (simp add: pb_inv_def outstanding_def s' touch_def count_permit_def)
qed

lemma dropped_inv:
  assumes "pb_inv w" and "p \<in># w_live w"
  shows "pb_inv (w\<lparr>w_live := w_live w - {#p#}, w_pending := add_mset p (w_pending w)\<rparr>)"
proof -
  obtain L where "w_live w = add_mset p L" using assms(2) by (metis insert_DiffM)
  then show ?thesis using assms(1) by (simp add: pb_inv_def outstanding_def)
qed

lemma tokens_inv_remove: "tokens_inv s (add_mset p P) \<Longrightarrow> tokens_inv s P"
  unfolding tokens_inv_def one_file_def set_mset_add_mset_insert by blast

lemma released_inv:
  assumes inv: "pb_inv w" and mem: "p \<in># w_pending w"
    and run: "release_playback (w_state w) (pm_generation p) (pm_stream p) (pm_foreground p) now = (s', b, cs)"
  shows "pb_inv (w\<lparr>w_state := s', w_pending := w_pending w - {#p#}\<rparr>)"
proof -
  let ?s = "w_state w" and ?g = "pm_generation p"
  obtain R where R: "w_pending w = add_mset p R" using mem by (metis insert_DiffM)
  let ?P = "w_live w + R"
  have out: "outstanding w = add_mset p ?P" by (simp add: outstanding_def R)
  obtain v where wv: "windows_wf v" and s': "s' = schedule_idle_if_needed
      (?s\<lparr>st_direct_permits := unbump ?g (st_direct_permits ?s),
          st_foreground_permits := (if pm_foreground p then unbump ?g (st_foreground_permits ?s)
                                    else st_foreground_permits ?s),
          st_windows := v\<rparr>) now" (is "_ = schedule_idle_if_needed ?s2 now")
    using run inv
    by (auto simp: release_playback_def Let_def pb_inv_def split: prod.splits if_splits
        dest: windows.ok_rel)
  have "tokens_inv ?s (add_mset p ?P)" using inv by (simp add: pb_inv_def out)
  then have "tokens_inv ?s ?P" by (rule tokens_inv_remove)
  then have "tokens_inv ?s2 ?P" by (subst core_inv_cong [of _ ?s]) simp_all
  moreover have "counts_inv ?s2 ?P"
    using inv counters_of_unbump [of "image_mset pm_generation (outstanding w)" "st_direct_permits ?s" ?g]
      counters_of_unbump [of "image_mset pm_generation {#p \<in># outstanding w. pm_foreground p#}"
        "st_foreground_permits ?s" ?g]
    by (cases "pm_foreground p") (simp_all add: pb_inv_def counts_inv_def out)
  moreover have "benign ?s2 s'" unfolding s' by (rule schedule_idle_benign)
  ultimately show ?thesis
    using benign_inv [of "w\<lparr>w_state := ?s2, w_pending := R\<rparr>" s'] inv wv
    by (simp add: pb_inv_def outstanding_def R)
qed

lemma pb_inv_meta:
  assumes inv: "pb_inv w" and same: "st_metadata_permits s' = m" "st_windows s' = st_windows (w_state w)"
    "st_direct_permits s' = st_direct_permits (w_state w)"
    "st_foreground_permits s' = st_foreground_permits (w_state w)"
    "keeps_generation (w_state w) s'"
  shows "pb_inv (w\<lparr>w_state := s', w_meta := m\<rparr>)"
proof -
  have "tokens_inv s' (outstanding w)"
    using inv tokens_inv_keep [OF _ same(5)] by (simp add: pb_inv_def)
  then show ?thesis using inv same(1-4) by (simp add: pb_inv_def outstanding_def counts_inv_def)
qed

lemma acquire_metadata_effect:
  "same_permits (s\<lparr>st_metadata_permits := sat_add_u64 (st_metadata_permits s) 1\<rparr>)
     (fst (acquire_metadata s hm)) \<and>
   keeps_generation s (fst (acquire_metadata s hm)) \<and>
   st_windows (fst (acquire_metadata s hm)) = st_windows s"
  by (cases hm) (simp_all add: acquire_metadata_def Let_def keep_defs)

lemma metadata_inv:
  assumes "pb_inv w" and "w_meta w < u64_max" and "acquire_metadata (w_state w) hm = (s', g)"
  shows "pb_inv (w\<lparr>w_state := s', w_meta := w_meta w + 1\<rparr>)"
proof -
  have "s' = fst (acquire_metadata (w_state w) hm)" using assms(3) by simp
  moreover have "sat_add_u64 (st_metadata_permits (w_state w)) 1 = w_meta w + 1"
    using assms(1,2) by (simp add: pb_inv_def sat_add_u64_def)
  ultimately show ?thesis
    using acquire_metadata_effect [of "w_state w" hm]
    by (intro pb_inv_meta assms(1)) (simp_all add: same_permits_def)
qed

lemma metadata_released_inv:
  assumes "pb_inv w" and "w_meta w > 0"
  shows "pb_inv (w\<lparr>w_state := release_metadata (w_state w) now, w_meta := w_meta w - 1\<rparr>)"
  using assms
  by (intro pb_inv_meta)
    (simp_all add: release_metadata_def schedule_idle_if_needed_def keep_defs pb_inv_def)

lemma pb_inv_init: "pb_init w \<Longrightarrow> pb_inv w"
  by (auto simp: pb_init_def pb_inv_def outstanding_def counts_inv_def counters_of_def
      tokens_inv_def supply_ok_def one_file_def state_new_def windows_default_wf)

lemma pb_inv_step: "pb_inv w \<Longrightarrow> pb_step w w' \<Longrightarrow> pb_inv w'"
proof (erule pb_stepE)
  fix n f i sid complete seeding now s' e
  assume "pb_inv w" "w' = w\<lparr>w_state := s'\<rparr>"
    "start_playback (w_state w) n f i sid complete seeding now = (s', Inl e)"
  moreover from this have "s' = w_state w" by (intro start_playback_Inl)
  ultimately show "pb_inv w'" by simp
qed (auto intro: started_inv dropped_inv released_inv metadata_inv [unfolded Suc_eq_plus1 [symmetric]]
    metadata_released_inv [unfolded One_nat_def] intro!: benign_inv pb_internal_benign)

interpretation playback_system: invariant_system pb_init pb_step pb_inv
  by unfold_locales (fact pb_inv_init, fact pb_inv_step)

section \<open>Properties of the coordinator\<close>


definition example_start :: "playback_state \<times> (string, playback_permit \<times> selection) result" where
  "example_start = start_playback state_new 3 1 DirectInitial 42 False False 1000"

definition example_permit :: playback_permit where
  "example_permit = \<lparr>pm_file = 1, pm_generation = 1, pm_stream = 42, pm_cancellation = 1,
     pm_foreground = True, pm_subordinate = False\<rparr>"

definition example_pb_world :: pb_world where
  "example_pb_world = \<lparr>w_state = fst example_start, w_live = {#example_permit#}, w_pending = {#},
     w_meta = 0\<rparr>"

lemma example_start_permit: "\<exists>sel. snd example_start = Inr (example_permit, sel)"
  by (simp add: example_start_def example_permit_def start_playback_def select_def retarget_def
      selection_changed_def switch_selection_def count_permit_def touch_def state_new_def
      renew_cancellation_def requested_native_priority_def Let_def sat_add_u64_def)

lemma example_pb_world_reach: "reach pb_init pb_step example_pb_world"
proof -
  let ?w0 = "\<lparr>w_state = state_new, w_live = {#}, w_pending = {#}, w_meta = 0\<rparr> :: pb_world"
  obtain sel where "snd example_start = Inr (example_permit, sel)" using example_start_permit by blast
  then have run: "start_playback (w_state ?w0) 3 1 DirectInitial 42 False False 1000 =
      (fst example_start, Inr (example_permit, sel))"
    unfolding example_start_def by (metis pb_world.select_convs(1) prod.collapse)
  have "reach pb_init pb_step ?w0" by (rule reach_init) (simp add: pb_init_def)
  from reach_step [OF this started [OF run]] show ?thesis by (simp add: example_pb_world_def)
qed




text \<open>
  The idle timer asks for a pause only when seeding is off, no reader and no
  metadata request is outstanding, not even as a queued release, and HLS was not used for 15
  seconds; the request names the current generation.
\<close>

theorem idle_pause_only_when_unused:
  assumes "reach pb_init pb_step w" and "pause_due (w_state w) seeding now = (s', Some g)"
  shows "\<not> seeding \<and> w_live w = {#} \<and> w_pending w = {#} \<and> w_meta w = 0 \<and> g = st_generation s' \<and>
         (\<forall>t. st_hls_last_activity (w_state w) = Some t \<longrightarrow> t + 15000 \<le> now)"
proof -
  let ?s = "w_state w" and ?s1 = "expire_hls (w_state w) now"
  have inv: "pb_inv w" using playback_system.reach_inv [OF assms(1)] .
  have due: "\<not> seeding \<and> idle_due ?s1 now \<and> g = st_generation s'"
    using assms(2) by (rule pause_due_cases) (auto dest: begin_pause_effect)
  then have none: "active_playback_permits ?s = 0" "st_metadata_permits ?s = 0" "\<not> hls_is_active ?s1 now"
    by (auto simp: idle_due_def has_activity_def expire_hls_def active_playback_permits_def
        split: if_splits)
  have "counters_of (image_mset pm_generation (outstanding w)) (st_direct_permits ?s)"
    using inv by (simp add: pb_inv_def counts_inv_def)
  then have "outstanding w = {#}"
    using none(1) counters_of_sum by (fastforce simp: active_playback_permits_def)
  moreover have "t + 15000 \<le> now" if "st_hls_last_activity ?s = Some t" for t
    using none(3) that
    by (auto simp: expire_hls_def hls_is_active_def HLS_ACTIVITY_TTL_def split: if_splits)
  ultimately show ?thesis using due none(2) inv by (auto simp: outstanding_def pb_inv_def)
qed

definition example_idle_world :: pb_world where
  "example_idle_world =
     \<lparr>w_state = release_metadata (fst (acquire_metadata state_new False)) 0, w_live = {#},
      w_pending = {#}, w_meta = 0\<rparr>"

lemma example_idle_reach: "reach pb_init pb_step example_idle_world"
proof -
  let ?w0 = "\<lparr>w_state = state_new, w_live = {#}, w_pending = {#}, w_meta = 0\<rparr> :: pb_world"
  let ?w1 = "?w0\<lparr>w_state := fst (acquire_metadata state_new False), w_meta := w_meta ?w0 + 1\<rparr>"
  have "reach pb_init pb_step ?w0" by (rule reach_init) (simp add: pb_init_def)
  moreover have "pb_step ?w0 ?w1" by (rule metadata_acquired [where g = 0 and has_metadata = False])
      (simp_all add: acquire_metadata_def state_new_def Let_def)
  moreover have "pb_step ?w1 (?w1\<lparr>w_state := release_metadata (w_state ?w1) 0, w_meta := w_meta ?w1 - 1\<rparr>)"
    by (rule metadata_released) simp
  ultimately have "reach pb_init pb_step
      (?w1\<lparr>w_state := release_metadata (w_state ?w1) 0, w_meta := w_meta ?w1 - 1\<rparr>)"
    by (blast intro: reach_step)
  then show ?thesis by (simp add: example_idle_world_def)
qed

theorem idle_pause_only_when_unused_witness:
  "snd (pause_due (w_state example_idle_world) False 20000) = Some 1 \<and> w_live example_idle_world = {#}"
proof -
  have run: "snd (pause_due (w_state example_idle_world) False 20000) = Some 1"
    by (simp add: example_idle_world_def pause_due_def expire_hls_def idle_due_def has_activity_def
        release_metadata_def schedule_idle_if_needed_def acquire_metadata_def state_new_def
        active_playback_permits_def hls_is_active_def IDLE_PAUSE_GRACE_def begin_pause_def
        renew_cancellation_def sat_add_u64_def Let_def)
  then obtain s' where "pause_due (w_state example_idle_world) False 20000 = (s', Some 1)"
    by (metis prod.collapse)
  from idle_pause_only_when_unused [OF example_idle_reach this] run show ?thesis by blast
qed

section \<open>A pause is confirmed by silence\<close>

text \<open>What the tracker remembers of the rounds it has seen, oldest first.\<close>

definition quiet_round :: "int \<Rightarrow> int \<Rightarrow> poll_round \<Rightarrow> bool" where
  "quiet_round down up r \<longleftrightarrow>
     (\<exists>st. pr_status r = Some st \<and> pst_is_paused st \<and> pst_num_peers st = 0 \<and>
        pst_total_downloaded st = down \<and> pst_total_uploaded st = up)"

definition remembers :: "silence_tracker \<Rightarrow> poll_round list \<Rightarrow> bool" where
  "remembers t seen \<longleftrightarrow>
     (\<forall>since. slt_stable_since t = Some since \<longrightarrow>
        (\<exists>older r newer. seen = older @ r # newer \<and> pr_now r = since \<and>
           list_all (quiet_round (slt_downloaded t) (slt_uploaded t)) (r # newer)))"

lemma observe_remembers:
  assumes rem: "remembers t seen" and st: "pr_status r = Some st" and obs: "observe t st (pr_now r) = (t', silent)"
  shows "remembers t' (seen @ [r])"
proof (cases "pst_is_paused st \<and> pst_num_peers st = 0")
  case False
  then show ?thesis using obs by (auto simp: observe_def remembers_def)
next
  case True
  then have q: "quiet_round (pst_total_downloaded st) (pst_total_uploaded st) r"
    using st by (simp add: quiet_round_def)
  show ?thesis
  proof (cases "slt_stable_since t = None \<or> slt_downloaded t \<noteq> pst_total_downloaded st \<or>
      slt_uploaded t \<noteq> pst_total_uploaded st")
    case restart: True
    then have "t' = \<lparr>slt_stable_since = Some (pr_now r), slt_downloaded = pst_total_downloaded st,
        slt_uploaded = pst_total_uploaded st\<rparr>"
      using True obs by (auto simp: observe_def split: option.splits if_splits)
    moreover have "seen @ [r] = seen @ r # []" by simp
    ultimately show ?thesis using q unfolding remembers_def by fastforce
  next
    case keep: False
    then have "t' = t" using True obs by (auto simp: observe_def split: option.splits)
    moreover have "quiet_round (slt_downloaded t) (slt_uploaded t) r" using q keep by simp
    ultimately show ?thesis using rem unfolding remembers_def by fastforce
  qed
qed

lemma observe_silent:
  "observe t st now = (t', True) \<Longrightarrow>
   \<exists>since. slt_stable_since t = Some since \<and> t' = t \<and> since + 500 \<le> now"
  by (auto simp: observe_def PAUSE_QUIET_CONFIRMATION_def split: if_splits option.splits)

lemma pause_poll_silent:
  "remembers t seen \<Longrightarrow> pause_poll t limit rs = Some (Inr ()) \<Longrightarrow>
   \<exists>older r newer final rest down up. seen @ rs = older @ r # newer @ final # rest \<and>
     pr_now r + 500 \<le> pr_now final \<and> list_all (quiet_round down up) (r # newer @ [final])"
proof (induction rs arbitrary: t seen)
  case (Cons x rs)
  obtain st where st: "pr_status x = Some st" using Cons.prems(2) by (cases "pr_status x") auto
  obtain t' b where obs: "observe t st (pr_now x) = (t', b)" by fastforce
  have rem': "remembers t' (seen @ [x])" by (rule observe_remembers [OF Cons.prems(1) st obs])
  show ?case
  proof (cases b)
    case True
    then obtain since where s: "slt_stable_since t = Some since" "t' = t" "since + 500 \<le> pr_now x"
      using observe_silent [of t st "pr_now x" t'] obs by auto
    obtain older' r' newer' where all: "seen @ [x] = older' @ r' # newer'" "pr_now r' = since"
      "list_all (quiet_round (slt_downloaded t') (slt_uploaded t')) (r' # newer')"
      using rem' s(1,2) unfolding remembers_def by blast
    have "newer' \<noteq> []" using all s(3) by auto
    then obtain mid where "newer' = mid @ [x]" using all(1) by (metis append_butlast_last_id last.simps last_append last_snoc list.distinct(1))
    then have "seen @ x # rs = older' @ r' # mid @ x # rs" using all(1) by simp
    then show ?thesis using all \<open>newer' = mid @ [x]\<close> s(3) by blast
  next
    case False
    then have "pause_poll t' limit rs = Some (Inr ())"
      using Cons.prems(2) st obs by (auto split: if_splits poll_event.splits)
    from Cons.IH [OF rem' this] show ?thesis by simp
  qed
qed simp

text \<open>
  A pause is confirmed only after silence: some stretch of consecutive polling
  rounds, spanning at least 500 ms, saw the torrent paused, without peers and with unchanged
  transfer totals throughout.
\<close>

theorem pause_confirmed_after_silence:
  assumes "pause_poll silence_default limit rs = Some (Inr ())"
  shows "\<exists>older r newer final rest down up. rs = older @ r # newer @ final # rest \<and>
     pr_now r + 500 \<le> pr_now final \<and> list_all (quiet_round down up) (r # newer @ [final])"
  using pause_poll_silent [of silence_default "[]" limit rs] assms
  by (simp add: remembers_def silence_default_def)

theorem pause_confirmed_after_silence_witness:
  "\<exists>down up. quiet_round down up
     \<lparr>pr_status = Some \<lparr>pst_is_paused = True, pst_num_peers = 0, pst_total_downloaded = 7,
       pst_total_uploaded = 9\<rparr>, pr_now = 600, pr_check = 600, pr_event = NothingRelevant\<rparr>"
proof -
  let ?st = "\<lparr>pst_is_paused = True, pst_num_peers = 0, pst_total_downloaded = 7, pst_total_uploaded = 9\<rparr>"
  let ?r = "\<lambda>n. \<lparr>pr_status = Some ?st, pr_now = n, pr_check = n, pr_event = NothingRelevant\<rparr>"
  have "pause_poll silence_default 5000 [?r 0, ?r 600] = Some (Inr ())"
    by (simp add: observe_def silence_default_def PAUSE_QUIET_CONFIRMATION_def)
  from pause_confirmed_after_silence [OF this]
  obtain older r newer final rest down up where "[?r 0, ?r 600] = older @ r # newer @ final # rest"
    "list_all (quiet_round down up) (r # newer @ [final])" by blast
  moreover from this(1) have "final = ?r 600" by (cases older; cases newer) (auto simp: Cons_eq_append_conv)
  ultimately show ?thesis by auto
qed

section \<open>The completion cache agrees with the disk\<close>

record completion_world =
  cw_completion :: "bool option list"
  cw_present :: "i32 \<Rightarrow> bool"

text \<open>
  The layout starts with \<open>Some true\<close> for files whose every byte is reported downloaded, and no
  entry for the others.
\<close>

definition completion_init :: "file_info list \<Rightarrow> completion_world \<Rightarrow> bool" where
  "completion_init files c \<longleftrightarrow>
     (\<exists>done. cw_completion c = map (\<lambda>f. if done f then Some True else None) files \<and>
        (\<forall>f \<in> set files. done f \<longrightarrow> file_presence_complete (cw_present c) f))"

inductive completion_step :: "file_info list \<Rightarrow> completion_world \<Rightarrow> completion_world \<Rightarrow> bool"
  for files :: "file_info list" where
  lookup: "file_is_complete_with_layout files (cw_completion c) (cw_present c) i = (cs', r) \<Longrightarrow>
     completion_step files c (c\<lparr>cw_completion := cs'\<rparr>)"
| verified: "completion_step files c
     \<lparr>cw_completion = completion_after_verified files piece (cw_completion c),
      cw_present = (cw_present c)(piece := True)\<rparr>"
| invalidated: "completion_step files c
     \<lparr>cw_completion = completion_after_invalidated files piece (cw_completion c),
      cw_present = (cw_present c)(piece := False)\<rparr>"

definition completion_inv :: "file_info list \<Rightarrow> completion_world \<Rightarrow> bool" where
  "completion_inv files c \<longleftrightarrow>
     length (cw_completion c) = length files \<and>
     (\<forall>i < length files. \<forall>b. cw_completion c ! i = Some b \<longrightarrow>
        b = file_presence_complete (cw_present c) (files ! i))"

lemma file_presence_complete_iff:
  "file_presence_complete present file \<longleftrightarrow> (\<forall>p. piece_in_file p file \<longrightarrow> present p)"
  by (auto simp: file_presence_complete_def Let_def list_all_iff piece_in_file_def)

lemma completion_inv_init: "completion_init files c \<Longrightarrow> completion_inv files c"
  by (auto simp: completion_init_def completion_inv_def split: if_splits)

lemma completion_inv_lookup:
  assumes "completion_inv files c"
    and "file_is_complete_with_layout files (cw_completion c) (cw_present c) i = (cs', r)"
  shows "completion_inv files (c\<lparr>cw_completion := cs'\<rparr>) \<and>
         (i < length files \<longrightarrow> r = Inr (file_presence_complete (cw_present c) (files ! i)))"
  using assms
  by (auto simp: completion_inv_def file_is_complete_with_layout_def Let_def nth_list_update
      split: option.splits if_splits)

lemma completion_inv_verified:
  assumes "completion_inv files c"
  shows "completion_inv files \<lparr>cw_completion = completion_after_verified files p (cw_completion c),
      cw_present = (cw_present c)(p := True)\<rparr>"
proof -
  have len: "length (cw_completion c) = length files" using assms by (simp add: completion_inv_def)
  have "b = file_presence_complete ((cw_present c)(p := True)) (files ! i)"
    if i: "i < length files" and b: "completion_after_verified files p (cw_completion c) ! i = Some b"
    for i b
  proof -
    have c: "cw_completion c ! i = Some b" and touched: "piece_in_file p (files ! i) \<longrightarrow> b"
      using b i len by (auto simp: completion_after_verified_def split: if_splits)
    have "b = file_presence_complete (cw_present c) (files ! i)"
      using assms i c by (simp add: completion_inv_def)
    then show ?thesis using touched by (auto simp: file_presence_complete_iff)
  qed
  then show ?thesis by (simp add: completion_inv_def completion_after_verified_def len)
qed

lemma completion_inv_invalidated:
  assumes "completion_inv files c"
  shows "completion_inv files \<lparr>cw_completion = completion_after_invalidated files p (cw_completion c),
      cw_present = (cw_present c)(p := False)\<rparr>"
proof -
  have len: "length (cw_completion c) = length files" using assms by (simp add: completion_inv_def)
  have "b = file_presence_complete ((cw_present c)(p := False)) (files ! i)"
    if i: "i < length files" and b: "completion_after_invalidated files p (cw_completion c) ! i = Some b"
    for i b
  proof -
    have c: "cw_completion c ! i = Some b" and out: "\<not> piece_in_file p (files ! i)"
      using b i len by (auto simp: completion_after_invalidated_def split: if_splits)
    have "b = file_presence_complete (cw_present c) (files ! i)"
      using assms i c by (simp add: completion_inv_def)
    then show ?thesis using out by (auto simp: file_presence_complete_iff)
  qed
  then show ?thesis by (simp add: completion_inv_def completion_after_invalidated_def len)
qed

lemma completion_inv_step: "completion_inv files c \<Longrightarrow> completion_step files c c' \<Longrightarrow> completion_inv files c'"
  by (erule completion_step.cases)
    (auto dest: completion_inv_lookup completion_inv_verified completion_inv_invalidated)

interpretation completion_cache: invariant_system "completion_init files" "completion_step files"
    "completion_inv files" for files
  by unfold_locales (fact completion_inv_init, fact completion_inv_step)


definition example_file :: file_info where
  "example_file = \<lparr>fi_offset = 0, fi_size = 1000, fi_first_piece = 0, fi_last_piece = 3\<rparr>"


section \<open>The hot window of a reader\<close>

text \<open>
  A layout as libtorrent reports it: the piece range of a file is the range of its bytes, piece
  indices fit \<open>i32\<close>, and the cache holds fewer than \<open>2 ^ 31\<close> pieces.
\<close>

definition layout_ok :: "file_info \<Rightarrow> u64 \<Rightarrow> u64 \<Rightarrow> bool" where
  "layout_ok file pl cache \<longleftrightarrow>
     0 < pl \<and> pl \<le> u64_max \<and> 0 \<le> fi_offset file \<and> 0 < fi_size file \<and>
     fi_first_piece file = fi_offset file div int pl \<and>
     fi_last_piece file = (fi_offset file + fi_size file - 1) div int pl \<and>
     fi_last_piece file < i32_max - 1 \<and> cache div pl \<le> 2147483647"

lemma start_piece_eq:
  assumes "layout_ok file pl cache" and "int off < fi_size file"
  shows "start_piece file pl off = (fi_offset file + int off) div int pl"
    and "fi_first_piece file \<le> start_piece file pl off"
    and "start_piece file pl off \<le> fi_last_piece file"
proof -
  let ?q = "(fi_offset file + int off) div int pl"
  have le: "?q \<le> fi_last_piece file"
    using assms unfolding layout_ok_def by (simp add: zdiv_mono1)
  have ge: "fi_first_piece file \<le> ?q" using assms unfolding layout_ok_def by (simp add: zdiv_mono1)
  have "int ((nat (max (fi_offset file) 0) + min off (nat (max (fi_size file) 0))) div pl) = ?q"
    using assms by (simp add: layout_ok_def zdiv_int min_def)
  moreover have "?q \<le> 2147483647" using le assms by (simp add: layout_ok_def)
  ultimately show eq: "start_piece file pl off = ?q"
    unfolding start_piece_def u64_as_i32_def
    using wrap_i32_id [of ?q] assms by (simp add: layout_ok_def pos_imp_zdiv_nonneg_iff)
  show "fi_first_piece file \<le> start_piece file pl off" "start_piece file pl off \<le> fi_last_piece file"
    using le ge eq by simp_all
qed

lemma hot_window_context_wf:
  assumes "layout_ok file pl cache" and "int off < fi_size file"
  shows "context_wf (hot_window_context file pl i off br dr np cache nm)"
  using start_piece_eq [OF assms] assms
  by (simp add: context_wf_def hot_window_context_def layout_ok_def pos_imp_zdiv_nonneg_iff)

text \<open>
  Opening a reader at a byte of a file plans a hot window without panicking: the
  reported first piece is the piece that holds the byte, the window starts there, stays inside
  the piece range of the file, and for playback and download intents that piece gets priority 7
  and deadline 0.
\<close>

theorem hot_window_starts_at_the_requested_byte:
  assumes "layout_ok file pl cache" and "int off < fi_size file"
    and "\<forall>b. br = Some b \<longrightarrow> b * 10 div pl < 2 ^ 30"
  shows "\<exists>a items. apply_hot_window file pl i off br dr np cache nm =
      Some (Inr ((fi_offset file + int off) div int pl, a # items)) \<and>
    pp_piece a = (fi_offset file + int off) div int pl \<and>
    (\<forall>x \<in> set (a # items). fi_first_piece file \<le> pp_piece x \<and> pp_piece x \<le> fi_last_piece file) \<and>
    (i \<notin> {InternalProbe, Background} \<longrightarrow> pp_priority a = 7 \<and> pp_deadline_ms a = Some 0)"
proof -
  let ?ctx = "hot_window_context file pl i off br dr np cache nm"
  note sp = start_piece_eq [OF assms(1,2)]
  have ctx: "intent ?ctx = i" "current_piece ?ctx = start_piece file pl off"
    "last_piece ?ctx = fi_last_piece file" by (simp_all add: hot_window_context_def)
  have sane: "bitrate_sane ?ctx" using assms(3) by (simp add: bitrate_sane_def hot_window_context_def)
  obtain d im h rest where d: "decide ?ctx = Some d"
    and ass: "assignments d = planned ?ctx im h 0 # rest"
    and im: "i \<notin> {InternalProbe, Background} \<longrightarrow> 1 \<le> im"
    and range: "\<forall>a \<in> set (assignments d). start_piece file pl off \<le> piece_idx a \<and> piece_idx a \<le> fi_last_piece file"
    using plan_head [OF hot_window_context_wf [OF assms(1,2)] sane] unfolding ctx by blast
  have all: "filter (\<lambda>a. piece_idx a \<ge> fi_first_piece file \<and> piece_idx a \<le> fi_last_piece file)
      (assignments d) = assignments d"
    using range sp(2) by (intro filter_True) fastforce
  let ?entry = "\<lambda>a. \<lparr>pp_piece = piece_idx a, pp_priority = piece_priority a,
      pp_deadline_ms = (if i \<in> {InternalProbe, Background} then None else Some (deadline a))\<rparr>"
  have items: "hot_window_items file i d = ?entry (planned ?ctx im h 0) # map ?entry rest"
    unfolding hot_window_items_def all by (simp add: ass)
  have run: "apply_hot_window file pl i off br dr np cache nm =
      Some (Inr (start_piece file pl off, hot_window_items file i d))"
    using assms(1) d by (simp add: apply_hot_window_def layout_ok_def)
  have "\<forall>x \<in> set (hot_window_items file i d). fi_first_piece file \<le> pp_piece x \<and> pp_piece x \<le> fi_last_piece file"
    using range sp(2) by (fastforce simp: hot_window_items_def)
  moreover have "i \<notin> {InternalProbe, Background} \<Longrightarrow>
      piece_priority (planned ?ctx im h 0) = 7 \<and> deadline (planned ?ctx im h 0) = 0"
    using planned_head(2) [of ?ctx im h] im ctx(1) by simp
  moreover have "piece_idx (planned ?ctx im h 0) = start_piece file pl off"
    using planned_head(1) [of ?ctx im h] ctx(2) by simp
  ultimately show ?thesis using run unfolding items sp(1) by auto
qed

theorem hot_window_starts_at_the_requested_byte_witness:
  "\<exists>a items. apply_hot_window \<lparr>fi_offset = 0, fi_size = 4000000, fi_first_piece = 0, fi_last_piece = 3\<rparr>
     1048576 DirectInitial 2000000 None 0 0 0 0 = Some (Inr (1, a # items)) \<and> pp_piece a = 1"
  using hot_window_starts_at_the_requested_byte
    [of "\<lparr>fi_offset = 0, fi_size = 4000000, fi_first_piece = 0, fi_last_piece = 3\<rparr>" 1048576 0 2000000 None
      DirectInitial 0 0 0]
  by (auto simp: layout_ok_def)

end
