(* ===== verification/MediaModel.thy ===== *)
theory MediaModel
  imports RustStr
begin

text \<open>
  The vocabulary of the transcoder (\<open>server/src/transcoding/codec.rs\<close> and \<open>model.rs\<close>): codecs,
  containers and colour descriptions with their recognition from probe output, device
  identifiers, rational rates, rate-control envelopes, and the stage graph of a plan with the
  acceleration class derived from it.

  Variants that several Rust enums share carry a prefix here.  A \<open>NonZeroU32\<close> is a natural
  number; where its being nonzero matters it is a hypothesis.  The \<open>base64\<close> crate is a pair of
  functions, \<open>b64_encode\<close> and \<open>b64_decode\<close>, with \<open>base64_contract\<close> what the code relies on.

  Shown here: the Euclidean loop of \<open>gcd\<close> ends with the greatest common divisor, so two rates
  are equal exactly when their quotients are; the acceleration class says exactly what the stage
  graph is; a device identifier parses exactly when it is the canonical encoding of 20 bytes.
\<close>

section \<open>Codecs and containers\<close>

datatype input_video_codec =
  InH264 | InHevc | InAv1 | InVp9 | InMpeg2 | InVc1 | InOtherProbed

definition input_codec_from_probe :: "string option \<Rightarrow> input_video_codec" where
  "input_codec_from_probe value =
     (let v = to_ascii_lowercase (case value of None \<Rightarrow> [] | Some s \<Rightarrow> s)
      in if v \<in> {''h264'', ''avc''} then InH264
         else if v \<in> {''hevc'', ''h265''} then InHevc
         else if v = ''av1'' then InAv1
         else if v = ''vp9'' then InVp9
         else if v \<in> {''mpeg2video'', ''mpeg2''} then InMpeg2
         else if v = ''vc1'' then InVc1
         else InOtherProbed)"

datatype output_video_codec = OutH264 | OutHevc | OutAv1

datatype container_kind =
  MatroskaWebm | MovMp4 | MpegTs | Avi | Ogg | Flv | Mpeg | ContainerOtherProbed | ContainerUnknown

definition any_part :: "string list \<Rightarrow> string \<Rightarrow> bool" where
  "any_part names value \<longleftrightarrow> list_ex (\<lambda>part. part \<in> set names) (split_on CHR '','' value)"

definition container_from_probe :: "string option \<Rightarrow> container_kind" where
  "container_from_probe value =
     (let v = to_ascii_lowercase (case value of None \<Rightarrow> [] | Some s \<Rightarrow> s)
      in if v \<in> {'''', ''unknown'', ''n/a''} then ContainerUnknown
         else if any_part [''matroska'', ''webm''] v then MatroskaWebm
         else if any_part [''mov'', ''mp4'', ''m4a'', ''3gp'', ''3g2'', ''mj2''] v then MovMp4
         else if any_part [''mpegts'', ''mpegtsraw''] v then MpegTs
         else if v = ''avi'' then Avi
         else if v = ''ogg'' then Ogg
         else if v = ''flv'' then Flv
         else if any_part [''mpeg'', ''mpegvideo''] v then Mpeg
         else ContainerOtherProbed)"

datatype sample_entry =
  Avc1 | Avc3 | Hvc1 | Hev1 | Av01 | Vp09 | Mp4a | EntryOtherProbed | EntryUnknown

definition sample_entry_from_probe :: "string option \<Rightarrow> sample_entry" where
  "sample_entry_from_probe value =
     (let v = to_ascii_lowercase (case value of None \<Rightarrow> [] | Some s \<Rightarrow> s)
      in if v \<in> {'''', ''unknown'', ''[0][0][0][0]''} then EntryUnknown
         else if v = ''avc1'' then Avc1
         else if v = ''avc3'' then Avc3
         else if v = ''hvc1'' then Hvc1
         else if v = ''hev1'' then Hev1
         else if v = ''av01'' then Av01
         else if v = ''vp09'' then Vp09
         else if v = ''mp4a'' then Mp4a
         else EntryOtherProbed)"

datatype video_profile =
    H264Baseline | H264Main | H264High | H264High10 | HevcMain | HevcMain10 | Av1Main
  | Vp9Profile0 | Vp9Profile2 | Mpeg2Main | Vc1Advanced | ProfileOtherProbed | ProfileUnknown

definition profile_from_probe :: "input_video_codec \<Rightarrow> string option \<Rightarrow> video_profile" where
  "profile_from_probe codec value =
     (let v = filter (\<lambda>c. c \<notin> {CHR '' '', CHR ''_'', CHR ''-''})
                (to_ascii_lowercase (case value of None \<Rightarrow> [] | Some s \<Rightarrow> s))
      in if v = [] then ProfileUnknown
         else if codec = InH264 \<and> v \<in> {''baseline'', ''constrainedbaseline''} then H264Baseline
         else if codec = InH264 \<and> v = ''main'' then H264Main
         else if codec = InH264 \<and> v = ''high'' then H264High
         else if codec = InH264 \<and> v \<in> {''high10'', ''high10intra''} then H264High10
         else if codec = InHevc \<and> v = ''main'' then HevcMain
         else if codec = InHevc \<and> v = ''main10'' then HevcMain10
         else if codec = InAv1 \<and> v = ''main'' then Av1Main
         else if codec = InVp9 \<and> v \<in> {''profile0'', ''0''} then Vp9Profile0
         else if codec = InVp9 \<and> v \<in> {''profile2'', ''2''} then Vp9Profile2
         else if codec = InMpeg2 \<and> v = ''main'' then Mpeg2Main
         else if codec = InVc1 \<and> v = ''advanced'' then Vc1Advanced
         else ProfileOtherProbed)"

datatype chroma_subsampling = Cs420 | Cs422 | Cs444 | Monochrome | ChromaUnknown

datatype pixel_format =
    Yuv420p | Yuv420p10le | Yuv420p12le | Yuv422p | Yuv422p10le | Yuv422p12le | Yuv444p
  | Yuv444p10le | Yuv444p12le | Nv12 | P010le | Gray8 | Gray10le | PixelOtherProbed | PixelUnknown

definition pixel_format_from_probe :: "string option \<Rightarrow> pixel_format" where
  "pixel_format_from_probe value =
     (let v = to_ascii_lowercase (case value of None \<Rightarrow> [] | Some s \<Rightarrow> s)
      in if v \<in> {'''', ''unknown'', ''n/a''} then PixelUnknown
         else if v = ''yuv420p'' then Yuv420p
         else if v = ''yuv420p10le'' then Yuv420p10le
         else if v = ''yuv420p12le'' then Yuv420p12le
         else if v = ''yuv422p'' then Yuv422p
         else if v = ''yuv422p10le'' then Yuv422p10le
         else if v = ''yuv422p12le'' then Yuv422p12le
         else if v = ''yuv444p'' then Yuv444p
         else if v = ''yuv444p10le'' then Yuv444p10le
         else if v = ''yuv444p12le'' then Yuv444p12le
         else if v = ''nv12'' then Nv12
         else if v \<in> {''p010le'', ''p010''} then P010le
         else if v \<in> {''gray'', ''gray8''} then Gray8
         else if v = ''gray10le'' then Gray10le
         else PixelOtherProbed)"

fun inferred_bit_depth :: "pixel_format \<Rightarrow> nat option" where
  "inferred_bit_depth Yuv420p = Some 8"
| "inferred_bit_depth Yuv422p = Some 8"
| "inferred_bit_depth Yuv444p = Some 8"
| "inferred_bit_depth Nv12 = Some 8"
| "inferred_bit_depth Gray8 = Some 8"
| "inferred_bit_depth Yuv420p10le = Some 10"
| "inferred_bit_depth Yuv422p10le = Some 10"
| "inferred_bit_depth Yuv444p10le = Some 10"
| "inferred_bit_depth P010le = Some 10"
| "inferred_bit_depth Gray10le = Some 10"
| "inferred_bit_depth Yuv420p12le = Some 12"
| "inferred_bit_depth Yuv422p12le = Some 12"
| "inferred_bit_depth Yuv444p12le = Some 12"
| "inferred_bit_depth PixelOtherProbed = None"
| "inferred_bit_depth PixelUnknown = None"

fun chroma_of :: "pixel_format \<Rightarrow> chroma_subsampling" where
  "chroma_of Yuv420p = Cs420"
| "chroma_of Yuv420p10le = Cs420"
| "chroma_of Yuv420p12le = Cs420"
| "chroma_of Nv12 = Cs420"
| "chroma_of P010le = Cs420"
| "chroma_of Yuv422p = Cs422"
| "chroma_of Yuv422p10le = Cs422"
| "chroma_of Yuv422p12le = Cs422"
| "chroma_of Yuv444p = Cs444"
| "chroma_of Yuv444p10le = Cs444"
| "chroma_of Yuv444p12le = Cs444"
| "chroma_of Gray8 = Monochrome"
| "chroma_of Gray10le = Monochrome"
| "chroma_of PixelOtherProbed = ChromaUnknown"
| "chroma_of PixelUnknown = ChromaUnknown"

datatype field_order = Progressive | TopFirst | BottomFirst | Interlaced | OrderUnknown

definition field_order_from_probe :: "string option \<Rightarrow> field_order" where
  "field_order_from_probe value =
     (let v = to_ascii_lowercase (case value of None \<Rightarrow> [] | Some s \<Rightarrow> s)
      in if v = ''progressive'' then Progressive
         else if v \<in> {''tt'', ''tb'', ''top'', ''top_first''} then TopFirst
         else if v \<in> {''bb'', ''bt'', ''bottom'', ''bottom_first''} then BottomFirst
         else if v = ''interlaced'' then Interlaced
         else OrderUnknown)"

datatype color_primaries =
  PrimBt709 | PrimBt2020 | PrimSmpte170m | PrimSmpte432 | PrimOtherProbed | PrimUnknown

datatype color_transfer =
  TransBt709 | TransSmpte2084 | TransAribStdB67 | TransIec6196621 | TransOtherProbed | TransUnknown

datatype color_matrix =
    MatBt709 | MatBt2020Nc | MatBt2020C | MatSmpte170m | MatRgb | MatOtherProbed | MatUnknown

datatype color_range = RangeLimited | RangeFull | RangeOtherProbed | RangeUnknown

text \<open>The macro \<open>probed_color_enum\<close>: its table of names is the argument.\<close>

definition probed_color :: "(string \<times> 'a) list \<Rightarrow> 'a \<Rightarrow> 'a \<Rightarrow> string option \<Rightarrow> 'a" where
  "probed_color names other unknown value =
     (let v = to_ascii_lowercase (case value of None \<Rightarrow> [] | Some s \<Rightarrow> s)
      in if v \<in> {'''', ''unknown'', ''reserved'', ''n/a''} then unknown
         else case map_of names v of Some x \<Rightarrow> x | None \<Rightarrow> other)"

definition color_primaries_from_probe :: "string option \<Rightarrow> color_primaries" where
  "color_primaries_from_probe =
     probed_color [(''bt709'', PrimBt709), (''bt2020'', PrimBt2020), (''smpte170m'', PrimSmpte170m),
                   (''smpte432'', PrimSmpte432)] PrimOtherProbed PrimUnknown"

definition color_transfer_from_probe :: "string option \<Rightarrow> color_transfer" where
  "color_transfer_from_probe =
     probed_color [(''bt709'', TransBt709), (''smpte2084'', TransSmpte2084),
                   (''arib-std-b67'', TransAribStdB67), (''iec61966-2-1'', TransIec6196621)]
       TransOtherProbed TransUnknown"

definition color_matrix_from_probe :: "string option \<Rightarrow> color_matrix" where
  "color_matrix_from_probe =
     probed_color [(''bt709'', MatBt709), (''bt2020nc'', MatBt2020Nc), (''bt2020c'', MatBt2020C),
                   (''smpte170m'', MatSmpte170m), (''gbr'', MatRgb)] MatOtherProbed MatUnknown"

definition color_range_from_probe :: "string option \<Rightarrow> color_range" where
  "color_range_from_probe value =
     (let v = to_ascii_lowercase (case value of None \<Rightarrow> [] | Some s \<Rightarrow> s)
      in if v \<in> {''tv'', ''mpeg'', ''limited''} then RangeLimited
         else if v \<in> {''pc'', ''jpeg'', ''full''} then RangeFull
         else if v \<in> {'''', ''unknown'', ''n/a''} then RangeUnknown
         else RangeOtherProbed)"

section \<open>Device identifiers\<close>

type_synonym bytes = "8 word list"

record base64_api =
  b64_encode :: "bytes \<Rightarrow> string"
  b64_decode :: "string \<Rightarrow> bytes option"

definition DEVICE_ID_PREFIX :: string where "DEVICE_ID_PREFIX = ''gpu1_''"
definition DEVICE_ID_DIGEST_BYTES :: nat where "DEVICE_ID_DIGEST_BYTES = 20"
definition DEVICE_ID_SUFFIX_BYTES :: nat where "DEVICE_ID_SUFFIX_BYTES = 27"

type_synonym device_id = string

type_synonym model_error = string

definition from_hmac_prefix :: "base64_api \<Rightarrow> bytes \<Rightarrow> device_id" where
  "from_hmac_prefix b64 v = DEVICE_ID_PREFIX @ b64_encode b64 v"

definition parse_public :: "base64_api \<Rightarrow> string \<Rightarrow> (model_error, device_id) result" where
  "parse_public b64 v =
     (case strip_prefix DEVICE_ID_PREFIX v of
        None \<Rightarrow> Inl ''invalid device id''
      | Some suffix \<Rightarrow>
          if length suffix \<noteq> DEVICE_ID_SUFFIX_BYTES then Inl ''invalid device id''
          else case b64_decode b64 suffix of
                 None \<Rightarrow> Inl ''invalid device id''
               | Some decoded \<Rightarrow>
                   if length decoded \<noteq> DEVICE_ID_DIGEST_BYTES then Inl ''invalid device id''
                   else let canonical = from_hmac_prefix b64 decoded
                        in if canonical \<noteq> v then Inl ''invalid device id'' else Inr canonical)"

datatype device_class = Integrated | Discrete | Virtual | SoftwareDevice | UnknownDevice

datatype backend_kind = Amf | Cuda | D3d11va | Nvenc | Qsv | Vaapi | VideoToolbox | V4l2m2m

datatype acceleration_mode = AccelAuto | AccelSoftware | PreferIgpu | PreferDgpu | AccelDevice

section \<open>Stages and the acceleration class\<close>

datatype acceleration_class = ClassSoftware | ClassPartial | ClassHardwareResident

datatype stage_kind =
    StDecode | StDeinterlace | StRotate | StScale | StPixelFormat | StColor | StSubtitle
  | StDownload | StUpload | StEncode

datatype stage_mode = ModeSoftware | ModeHardware backend_kind device_id

record video_stage =
  st_kind :: stage_kind
  st_mode :: stage_mode

definition stage_software :: "stage_kind \<Rightarrow> video_stage" where
  "stage_software k = \<lparr>st_kind = k, st_mode = ModeSoftware\<rparr>"

definition stage_hardware :: "stage_kind \<Rightarrow> backend_kind \<Rightarrow> device_id \<Rightarrow> video_stage" where
  "stage_hardware k b d = \<lparr>st_kind = k, st_mode = ModeHardware b d\<rparr>"

definition is_hardware :: "video_stage \<Rightarrow> bool" where
  "is_hardware st \<longleftrightarrow> (case st_mode st of ModeHardware _ _ \<Rightarrow> True | ModeSoftware \<Rightarrow> False)"

definition requires_cpu_frames :: "video_stage \<Rightarrow> bool" where
  "requires_cpu_frames st \<longleftrightarrow> st_mode st = ModeSoftware \<or> st_kind st \<in> {StDownload, StUpload}"

definition stage_graph_error :: model_error where
  "stage_graph_error = ''video stage graph must start with one decode and end with one encode''"

definition validate_complete_stage_graph :: "video_stage list \<Rightarrow> (model_error, unit) result" where
  "validate_complete_stage_graph stages =
     (let decode_count = length (filter (\<lambda>st. st_kind st = StDecode) stages);
          encode_count = length (filter (\<lambda>st. st_kind st = StEncode) stages)
      in if length stages < 2 \<or> decode_count \<noteq> 1 \<or> encode_count \<noteq> 1 \<or>
            st_kind (hd stages) \<noteq> StDecode \<or> st_kind (last stages) \<noteq> StEncode
         then Inl stage_graph_error else Inr ())"

text \<open>The closure of \<open>derive\<close> keeps the first hardware context it meets.\<close>

fun compatible_hardware_context :: "(backend_kind \<times> device_id) option \<Rightarrow> video_stage list \<Rightarrow> bool" where
  "compatible_hardware_context ctx [] = True"
| "compatible_hardware_context ctx (st # sts) =
     (case st_mode st of
        ModeSoftware \<Rightarrow> compatible_hardware_context ctx sts
      | ModeHardware b d \<Rightarrow>
          (case ctx of
             Some (eb, ed) \<Rightarrow> eb = b \<and> ed = d \<and> compatible_hardware_context ctx sts
           | None \<Rightarrow> compatible_hardware_context (Some (b, d)) sts))"

definition derive_class :: "video_stage list \<Rightarrow> (model_error, acceleration_class) result" where
  "derive_class stages =
     rbind (validate_complete_stage_graph stages) (\<lambda>_.
       let hardware = list_ex is_hardware stages;
           software_or_transfer = list_ex requires_cpu_frames stages;
           compatible = compatible_hardware_context None stages
       in Inr (if \<not> hardware then ClassSoftware
               else if \<not> software_or_transfer \<and> compatible then ClassHardwareResident
               else ClassPartial))"

record 'r transcode_plan =
  tp_request :: 'r
  tp_stages :: "video_stage list"
  tp_class :: acceleration_class

definition transcode_plan_new :: "'r \<Rightarrow> video_stage list \<Rightarrow> (model_error, 'r transcode_plan) result" where
  "transcode_plan_new request stages =
     rbind (derive_class stages) (\<lambda>c. Inr \<lparr>tp_request = request, tp_stages = stages, tp_class = c\<rparr>)"

section \<open>Rates and rate control\<close>

type_synonym u32 = nat

abbreviation u32_max :: nat where "u32_max \<equiv> 4294967295"

text \<open>The loop of \<open>gcd\<close>; it ends because the right operand decreases.\<close>

function gcd_loop :: "u32 \<Rightarrow> u32 \<Rightarrow> u32" where
  "gcd_loop left right = (if right \<noteq> 0 then gcd_loop right (left mod right) else left)"
  by pat_completeness auto
termination
  by (relation "measure snd") auto

declare gcd_loop.simps [simp del]

record rational_rate =
  rate_numerator :: u32
  rate_denominator :: u32

definition rate_new :: "u32 \<Rightarrow> u32 \<Rightarrow> (model_error, rational_rate) result" where
  "rate_new numerator denominator =
     (if numerator = 0 then Inl ''rate numerator must be nonzero''
      else let divisor = gcd_loop numerator denominator
           in Inr \<lparr>rate_numerator = numerator div divisor, rate_denominator = denominator div divisor\<rparr>)"

datatype frame_rate_class = FrcConstant | FrcVariable | FrcUnknown

datatype rate_control_intent = RcConstant | RcConstrainedVariable

datatype preset_intent = PresetSpeed | PresetBalanced | PresetQuality

record rate_control_envelope =
  rc_intent :: rate_control_intent
  rc_target_video_bps :: u64
  rc_max_video_bps :: u64
  rc_buffer_bits :: u64
  rc_preset :: preset_intent
  rc_output_frame_rate :: "rational_rate option"
  rc_width :: u32
  rc_height :: u32
  rc_audio_bps :: u64

definition envelope_new ::
  "rate_control_intent \<Rightarrow> u64 \<Rightarrow> u64 \<Rightarrow> u64 \<Rightarrow> preset_intent \<Rightarrow> rational_rate option \<Rightarrow> u32 \<Rightarrow> u32 \<Rightarrow>
   u64 \<Rightarrow> (model_error, rate_control_envelope) result" where
  "envelope_new intent target_video_bps max_video_bps buffer_bits preset output_frame_rate width
     height audio_bps =
     (if target_video_bps = 0 then Inl ''target video bitrate must be nonzero''
      else if max_video_bps = 0 then Inl ''max video bitrate must be nonzero''
      else if max_video_bps < target_video_bps
      then Inl ''max video bitrate must be greater than or equal to target video bitrate''
      else if buffer_bits = 0 then Inl ''buffer size must be nonzero''
      else if audio_bps = 0 then Inl ''audio bitrate must be nonzero''
      else Inr \<lparr>rc_intent = intent, rc_target_video_bps = target_video_bps,
                rc_max_video_bps = max_video_bps, rc_buffer_bits = buffer_bits, rc_preset = preset,
                rc_output_frame_rate = output_frame_rate, rc_width = width, rc_height = height,
                rc_audio_bps = audio_bps\<rparr>)"

text \<open>Deserialisation goes through the same constructors; zero dimensions are refused there.\<close>

definition envelope_deserialize :: "rate_control_envelope \<Rightarrow> (model_error, rate_control_envelope) result" where
  "envelope_deserialize raw =
     (if rc_width raw = 0 then Inl ''width must be nonzero''
      else if rc_height raw = 0 then Inl ''height must be nonzero''
      else envelope_new (rc_intent raw) (rc_target_video_bps raw) (rc_max_video_bps raw)
             (rc_buffer_bits raw) (rc_preset raw) (rc_output_frame_rate raw) (rc_width raw)
             (rc_height raw) (rc_audio_bps raw))"

datatype keyframe_strategy = FixedGop u32 | TimeForced u32

section \<open>Probing ignores ASCII case\<close>

lemma probe_case_insensitive:
  "input_codec_from_probe (map_option to_ascii_lowercase v) = input_codec_from_probe v"
  "container_from_probe (map_option to_ascii_lowercase v) = container_from_probe v"
  "sample_entry_from_probe (map_option to_ascii_lowercase v) = sample_entry_from_probe v"
  "profile_from_probe c (map_option to_ascii_lowercase v) = profile_from_probe c v"
  "pixel_format_from_probe (map_option to_ascii_lowercase v) = pixel_format_from_probe v"
  "field_order_from_probe (map_option to_ascii_lowercase v) = field_order_from_probe v"
  "probed_color names other unknown (map_option to_ascii_lowercase v) = probed_color names other unknown v"
  "color_range_from_probe (map_option to_ascii_lowercase v) = color_range_from_probe v"
  by (cases v; simp only: option.map option.case to_lowercase_idem input_codec_from_probe_def
      container_from_probe_def sample_entry_from_probe_def profile_from_probe_def
      pixel_format_from_probe_def field_order_from_probe_def probed_color_def color_range_from_probe_def)+

text \<open>A pixel format has a depth exactly when it has a known subsampling.\<close>

lemma depth_iff_chroma: "inferred_bit_depth p = None \<longleftrightarrow> chroma_of p = ChromaUnknown"
  by (cases p) simp_all

section \<open>Rates\<close>

lemma gcd_loop_eq: "gcd_loop a b = gcd a b"
proof (induction a b rule: gcd_loop.induct)
  case (1 left right)
  then show ?case
    by (subst gcd_loop.simps) (auto simp: gcd_red_nat [symmetric] gcd.commute)
qed

lemma rate_new_Inr:
  assumes "0 < d"
  shows "rate_new n d = Inr r \<longleftrightarrow>
    0 < n \<and> 0 < rate_denominator r \<and> coprime (rate_numerator r) (rate_denominator r) \<and>
    rate_numerator r * d = n * rate_denominator r"
proof -
  let ?g = "gcd n d"
  have g: "0 < ?g" using assms by simp
  have nd: "n = (n div ?g) * ?g" "d = (d div ?g) * ?g" by simp_all
  have cop: "coprime (n div ?g) (d div ?g)" using assms by (intro div_gcd_coprime) simp
  have cross: "(n div ?g) * d = n * (d div ?g)"
    by (metis dvd_div_mult gcd_dvd1 gcd_dvd2 div_mult_swap mult.commute)
  have uniq: "a = n div ?g \<and> b = d div ?g"
    if "coprime a b" "a * d = n * b" "0 < b" "0 < n" for a b
  proof -
    have "a * (d div ?g) = (n div ?g) * b"
    proof -
      have "(a * (d div ?g)) * ?g = ((n div ?g) * b) * ?g"
        using that(2) nd by (metis mult.assoc mult.commute)
      then show ?thesis using assms by auto
    qed
    then show ?thesis
      using that(1) cop by (metis coprime_crossproduct_nat coprime_commute mult.commute)
  qed
  have pos: "0 < d div ?g" using assms g by (simp add: div_greater_zero_iff dvd_imp_le)
  show ?thesis
  proof
    assume "rate_new n d = Inr r"
    then have "r = \<lparr>rate_numerator = n div ?g, rate_denominator = d div ?g\<rparr>" "0 < n"
      by (auto simp: rate_new_def Let_def gcd_loop_eq split: if_splits)
    then show "0 < n \<and> 0 < rate_denominator r \<and> coprime (rate_numerator r) (rate_denominator r) \<and>
        rate_numerator r * d = n * rate_denominator r"
      using cop cross pos by simp
  next
    assume r: "0 < n \<and> 0 < rate_denominator r \<and> coprime (rate_numerator r) (rate_denominator r) \<and>
        rate_numerator r * d = n * rate_denominator r"
    then have "rate_numerator r = n div ?g \<and> rate_denominator r = d div ?g" using uniq by blast
    then show "rate_new n d = Inr r"
      using r by (cases r) (simp add: rate_new_def Let_def gcd_loop_eq)
  qed
qed



section \<open>The acceleration class\<close>

definition hardware_context :: "video_stage \<Rightarrow> (backend_kind \<times> device_id) option" where
  "hardware_context st = (case st_mode st of ModeSoftware \<Rightarrow> None | ModeHardware b d \<Rightarrow> Some (b, d))"

lemma hardware_context_simps:
  "is_hardware st \<longleftrightarrow> hardware_context st \<noteq> None"
  "st_mode st = ModeSoftware \<longleftrightarrow> hardware_context st = None"
  "st_mode st = ModeHardware b d \<longleftrightarrow> hardware_context st = Some (b, d)"
  by (auto simp: is_hardware_def hardware_context_def split: stage_mode.splits)

lemma compatible_context_iff:
  "compatible_hardware_context (Some c) sts \<longleftrightarrow>
     (\<forall>st \<in> set sts. hardware_context st \<noteq> None \<longrightarrow> hardware_context st = Some c)"
  by (induction sts) (auto simp: hardware_context_def split: stage_mode.splits)

lemma compatible_from_None:
  "compatible_hardware_context None sts \<longleftrightarrow>
     (\<exists>c. \<forall>st \<in> set sts. hardware_context st \<noteq> None \<longrightarrow> hardware_context st = Some c)"
proof (induction sts)
  case Nil
  then show ?case by simp
next
  case (Cons st sts)
  then show ?case
    by (cases "st_mode st") (auto simp: compatible_context_iff hardware_context_def)
qed

lemma stage_graph_ok:
  "validate_complete_stage_graph stages = Inr () \<longleftrightarrow>
     (\<exists>first mid final. stages = first # mid @ [final] \<and> st_kind first = StDecode \<and>
        st_kind final = StEncode \<and> (\<forall>st \<in> set mid. st_kind st \<notin> {StDecode, StEncode}))"
proof
  assume v: "validate_complete_stage_graph stages = Inr ()"
  then have l: "2 \<le> length stages" and k: "st_kind (hd stages) = StDecode" "st_kind (last stages) = StEncode"
    and c: "length (filter (\<lambda>st. st_kind st = StDecode) stages) = 1"
      "length (filter (\<lambda>st. st_kind st = StEncode) stages) = 1"
    by (auto simp: validate_complete_stage_graph_def Let_def split: if_splits)
  obtain first rest where f: "stages = first # rest" using l by (cases stages) auto
  obtain mid final where m: "rest = mid @ [final]" using l f by (cases rest rule: rev_cases) auto
  have "filter (\<lambda>st. st_kind st = StDecode) mid = []" "filter (\<lambda>st. st_kind st = StEncode) mid = []"
    using c k by (simp_all add: f m)
  then show "\<exists>first mid final. stages = first # mid @ [final] \<and> st_kind first = StDecode \<and>
        st_kind final = StEncode \<and> (\<forall>st \<in> set mid. st_kind st \<notin> {StDecode, StEncode})"
    using f m k by (auto simp: filter_empty_conv)
next
  assume "\<exists>first mid final. stages = first # mid @ [final] \<and> st_kind first = StDecode \<and>
        st_kind final = StEncode \<and> (\<forall>st \<in> set mid. st_kind st \<notin> {StDecode, StEncode})"
  then show "validate_complete_stage_graph stages = Inr ()"
    by (auto simp: validate_complete_stage_graph_def Let_def filter_empty_conv)
qed

lemma derive_class_Inr:
  "derive_class stages = Inr c \<longleftrightarrow> validate_complete_stage_graph stages = Inr () \<and>
     c = (if \<not> list_ex is_hardware stages then ClassSoftware
          else if \<not> list_ex requires_cpu_frames stages \<and> compatible_hardware_context None stages
          then ClassHardwareResident else ClassPartial)"
  by (auto simp: derive_class_def rbind_Inr_iff Let_def)

text \<open>
  A stage graph is accepted exactly when it is one decode, stages that neither
  decode nor encode, and one encode; and the derived class is exact: hardware resident means
  that every stage runs on one device through one backend and no frame is downloaded or
  uploaded, software means that no stage runs on hardware, and everything else is partial.
\<close>

theorem acceleration_class_is_exact:
  "(\<exists>c. derive_class stages = Inr c) =
     (\<exists>first mid final. stages = first # mid @ [final] \<and> st_kind first = StDecode \<and>
        st_kind final = StEncode \<and> (\<forall>st \<in> set mid. st_kind st \<notin> {StDecode, StEncode})) \<and>
   (derive_class stages = Inr c \<longrightarrow>
      (c = ClassHardwareResident \<longleftrightarrow>
         (\<exists>b d. \<forall>st \<in> set stages. st_mode st = ModeHardware b d \<and> st_kind st \<notin> {StDownload, StUpload})) \<and>
      (c = ClassSoftware \<longleftrightarrow> (\<forall>st \<in> set stages. st_mode st = ModeSoftware)))"
proof (intro conjI impI)
  show "(\<exists>c. derive_class stages = Inr c) =
     (\<exists>first mid final. stages = first # mid @ [final] \<and> st_kind first = StDecode \<and>
        st_kind final = StEncode \<and> (\<forall>st \<in> set mid. st_kind st \<notin> {StDecode, StEncode}))"
    unfolding derive_class_Inr stage_graph_ok [symmetric] by blast
  assume d: "derive_class stages = Inr c"
  then have ne: "stages \<noteq> []" by (auto simp: derive_class_Inr stage_graph_ok)
  have c: "c = (if \<not> list_ex is_hardware stages then ClassSoftware
          else if \<not> list_ex requires_cpu_frames stages \<and> compatible_hardware_context None stages
          then ClassHardwareResident else ClassPartial)"
    using d by (simp add: derive_class_Inr)
  show "c = ClassSoftware \<longleftrightarrow> (\<forall>st \<in> set stages. st_mode st = ModeSoftware)"
    unfolding c list_ex_iff hardware_context_simps by (simp del: not_None_eq)
  show "c = ClassHardwareResident \<longleftrightarrow>
         (\<exists>b d. \<forall>st \<in> set stages. st_mode st = ModeHardware b d \<and> st_kind st \<notin> {StDownload, StUpload})"
  proof -
    have "c = ClassHardwareResident \<longleftrightarrow>
        list_ex is_hardware stages \<and> \<not> list_ex requires_cpu_frames stages \<and> compatible_hardware_context None stages"
      by (simp add: c)
    also have "\<dots> \<longleftrightarrow> (\<exists>b d. \<forall>st \<in> set stages. st_mode st = ModeHardware b d \<and> st_kind st \<notin> {StDownload, StUpload})"
      using ne unfolding list_ex_iff compatible_from_None requires_cpu_frames_def hardware_context_simps
      by (cases stages) auto
    finally show ?thesis .
  qed
qed

theorem acceleration_class_is_exact_witness:
  "derive_class [stage_hardware StDecode Qsv ''gpu1_x'', stage_hardware StScale Qsv ''gpu1_x'',
     stage_hardware StEncode Qsv ''gpu1_x''] = Inr ClassHardwareResident"
proof -
  let ?s = "[stage_hardware StDecode Qsv ''gpu1_x'', stage_hardware StScale Qsv ''gpu1_x'',
     stage_hardware StEncode Qsv ''gpu1_x'']"
  have "\<exists>c. derive_class ?s = Inr c"
    by (simp add: derive_class_def validate_complete_stage_graph_def stage_hardware_def Let_def)
  then obtain c where c: "derive_class ?s = Inr c" ..
  have "c = ClassHardwareResident"
    using acceleration_class_is_exact [of ?s c] c by (simp add: stage_hardware_def)
  then show ?thesis using c by simp
qed

section \<open>Device identifiers\<close>

definition base64_contract :: "base64_api \<Rightarrow> bool" where
  "base64_contract b64 \<longleftrightarrow>
     (\<forall>b. length b = 20 \<longrightarrow>
        b64_decode b64 (b64_encode b64 b) = Some b \<and> length (b64_encode b64 b) = 27)"

text \<open>
  A device identifier is accepted exactly when it is the prefix followed by the
  canonical encoding of 20 bytes, it is then returned unchanged, and every identifier the server
  makes from a digest is accepted: no two spellings name one device.
\<close>

theorem device_id_parses_iff_canonical:
  assumes "base64_contract b64"
  shows "(parse_public b64 v = Inr d \<longleftrightarrow>
           d = v \<and> (\<exists>b. length b = 20 \<and> v = from_hmac_prefix b64 b)) \<and>
         (length b = 20 \<longrightarrow> parse_public b64 (from_hmac_prefix b64 b) = Inr (from_hmac_prefix b64 b))"
proof -
  have enc: "length b = 20 \<Longrightarrow> b64_decode b64 (b64_encode b64 b) = Some b"
    "length b = 20 \<Longrightarrow> length (b64_encode b64 b) = 27" for b
    using assms by (simp_all add: base64_contract_def)
  have made: "parse_public b64 (from_hmac_prefix b64 b) = Inr (from_hmac_prefix b64 b)" if "length b = 20" for b
    using that enc by (simp add: parse_public_def from_hmac_prefix_def strip_prefix_def starts_with_def DEVICE_ID_PREFIX_def
        DEVICE_ID_SUFFIX_BYTES_def DEVICE_ID_DIGEST_BYTES_def)
  have "d = v \<and> (\<exists>b. length b = 20 \<and> v = from_hmac_prefix b64 b)" if "parse_public b64 v = Inr d"
    using that by (auto simp: parse_public_def Let_def DEVICE_ID_DIGEST_BYTES_def
        split: option.splits if_splits)
  then show ?thesis using made by blast
qed

text \<open>An implementation of the contract: one character per byte, padded to 27.\<close>

definition padded_b64 :: base64_api where
  "padded_b64 = \<lparr>b64_encode = (\<lambda>b. map (\<lambda>w. char_of (unat w)) b @ ''_______''),
     b64_decode = (\<lambda>s. Some (map (\<lambda>c. of_nat (of_char c)) (take 20 s)))\<rparr>"

lemma padded_b64_contract: "base64_contract padded_b64"
proof -
  have "of_nat (of_char (char_of (unat w) :: char)) = w" for w :: "8 word"
  proof -
    have "unat w < 256" using unsigned_less [of w] by simp
    then show ?thesis by simp
  qed
  then show ?thesis by (simp add: base64_contract_def padded_b64_def o_def)
qed

theorem device_id_parses_iff_canonical_witness:
  "parse_public padded_b64 (from_hmac_prefix padded_b64 (replicate 20 65)) =
     Inr (from_hmac_prefix padded_b64 (replicate 20 65))"
  using device_id_parses_iff_canonical [OF padded_b64_contract, of _ _ "replicate 20 65"] by simp

end
