(* ===== verification/Identity.thy ===== *)
theory Identity
  imports MediaModel
begin

text \<open>
  The identities a capability key is made of: the public device identifier and the driver
  identity (\<open>server/src/transcoding/device/identity.rs\<close>), and the runtime evidence identifier
  (\<open>RuntimeEvidenceId\<close> of \<open>server/src/transcoding/inventory.rs\<close>).

  The hash functions and the \<open>hex\<close> crate are the fields of \<open>digest_api\<close>; no property of the
  hashes is assumed.  What the code feeds them is written out byte for byte.

  Shown here: the framing is unambiguous, so two different drivers or runtimes have the same
  identity only where the hash itself collides; a driver identity is stored exactly when it was
  derived from a complete record, and what was stored is read back.
\<close>

record digest_api =
  sha256 :: "bytes \<Rightarrow> bytes"
  hmac_sha256 :: "bytes \<Rightarrow> bytes \<Rightarrow> bytes"
  hex_encode :: "bytes \<Rightarrow> string"
  hex_decode :: "string \<Rightarrow> bytes option"

definition as_bytes :: "string \<Rightarrow> bytes" where
  "as_bytes s = map (\<lambda>c. of_nat (of_char c)) s"

definition u32_to_be_bytes :: "u32 \<Rightarrow> bytes" where
  "u32_to_be_bytes n =
     [of_nat (n div 16777216), of_nat (n div 65536), of_nat (n div 256), of_nat n]"

definition u32_try_from :: "'e \<Rightarrow> nat \<Rightarrow> ('e, u32) result" where
  "u32_try_from e n = (if n \<le> u32_max then Inr n else Inl e)"

section \<open>Device identity\<close>

definition DEVICE_ID_DOMAIN :: bytes where
  "DEVICE_ID_DOMAIN = as_bytes ''stream-server/device-id/v1'' @ [0]"

definition MAX_PRIVATE_IDENTITY_BYTES :: nat where "MAX_PRIVATE_IDENTITY_BYTES = 2048"

datatype platform_tag = PlatformWindows | PlatformLinux | PlatformMacos

fun platform_byte :: "platform_tag \<Rightarrow> 8 word" where
  "platform_byte PlatformWindows = 1"
| "platform_byte PlatformLinux = 2"
| "platform_byte PlatformMacos = 3"

datatype identity_error = IdentityError

definition private_identity_new :: "bytes \<Rightarrow> (identity_error, bytes) result" where
  "private_identity_new bs =
     (if bs = [] \<or> length bs > MAX_PRIVATE_IDENTITY_BYTES then Inl IdentityError else Inr bs)"

definition device_message :: "platform_tag \<Rightarrow> bytes \<Rightarrow> u32 \<Rightarrow> bytes" where
  "device_message platform identity identity_length =
     DEVICE_ID_DOMAIN @ [platform_byte platform] @ u32_to_be_bytes identity_length @ identity"

text \<open>A digest has 32 bytes, so taking 20 of them is never out of range; HMAC takes keys of any length.\<close>

definition derive_device_id ::
  "digest_api \<Rightarrow> base64_api \<Rightarrow> bytes \<Rightarrow> platform_tag \<Rightarrow> bytes \<Rightarrow> (identity_error, device_id) result" where
  "derive_device_id dg b64 seed platform identity =
     rbind (u32_try_from IdentityError (length identity)) (\<lambda>identity_length.
       Inr (from_hmac_prefix b64
              (take 20 (hmac_sha256 dg seed (device_message platform identity identity_length)))))"

section \<open>Driver identity\<close>

definition DRIVER_ID_DOMAIN :: bytes where
  "DRIVER_ID_DOMAIN = as_bytes ''stream-server/driver-id/v1'' @ [0]"

record driver_field =
  df_tag :: "8 word"
  df_bytes :: bytes

datatype driver_record = DriverComplete "driver_field list" | DriverIncomplete

definition field_framed_size :: "driver_field \<Rightarrow> (identity_error, u64) result" where
  "field_framed_size f =
     (if length (df_bytes f) > MAX_PRIVATE_IDENTITY_BYTES then Inl IdentityError
      else ok_or IdentityError (checked_add_u64 5 (length (df_bytes f))))"

fun is_structurally_valid :: "driver_record \<Rightarrow> bool" where
  "is_structurally_valid (DriverComplete fs) =
     (fs \<noteq> [] \<and> list_all (\<lambda>f. df_tag f \<noteq> 0 \<and> df_bytes f \<noteq> []) fs)"
| "is_structurally_valid DriverIncomplete = True"

fun fields_framed_size :: "u64 \<Rightarrow> driver_field list \<Rightarrow> (identity_error, u64) result" where
  "fields_framed_size acc [] = Inr acc"
| "fields_framed_size acc (f # fs) =
     rbind (field_framed_size f) (\<lambda>size.
       rbind (ok_or IdentityError (checked_add_u64 acc size)) (\<lambda>acc'. fields_framed_size acc' fs))"

fun record_framed_size :: "driver_record \<Rightarrow> (identity_error, u64) result" where
  "record_framed_size (DriverComplete fs) = fields_framed_size 0 fs"
| "record_framed_size DriverIncomplete = Inr 0"

record driver_identity =
  di_digest :: bytes
  di_persistable :: bool

fun frame_fields :: "driver_field list \<Rightarrow> (identity_error, bytes) result" where
  "frame_fields [] = Inr []"
| "frame_fields (f # fs) =
     rbind (u32_try_from IdentityError (length (df_bytes f))) (\<lambda>len.
       rbind (frame_fields fs) (\<lambda>rest.
         Inr ([df_tag f] @ u32_to_be_bytes len @ df_bytes f @ rest)))"

fun derive_driver_identity ::
  "digest_api \<Rightarrow> platform_tag \<Rightarrow> driver_record \<Rightarrow> bytes \<Rightarrow> (identity_error, driver_identity) result" where
  "derive_driver_identity dg platform (DriverComplete fs) run_epoch =
     (if \<not> is_structurally_valid (DriverComplete fs) then Inl IdentityError
      else rbind (record_framed_size (DriverComplete fs)) (\<lambda>_.
        rbind (frame_fields fs) (\<lambda>framed.
          Inr \<lparr>di_digest = sha256 dg (DRIVER_ID_DOMAIN @ [platform_byte platform] @ framed),
               di_persistable = True\<rparr>)))"
| "derive_driver_identity dg platform DriverIncomplete run_epoch =
     Inr \<lparr>di_digest = run_epoch, di_persistable = False\<rparr>"

definition is_lower_hex :: "char \<Rightarrow> bool" where
  "is_lower_hex c \<longleftrightarrow> (let n = (of_char c :: nat) in (48 \<le> n \<and> n \<le> 57) \<or> (97 \<le> n \<and> n \<le> 102))"

definition persisted_digest :: "digest_api \<Rightarrow> string \<Rightarrow> bytes option" where
  "persisted_digest dg v =
     (if length v \<noteq> 64 \<or> \<not> list_all is_lower_hex v then None
      else case hex_decode dg v of
             None \<Rightarrow> None
           | Some bs \<Rightarrow> if length bs = 32 then Some bs else None)"

definition driver_persisted_hex :: "digest_api \<Rightarrow> driver_identity \<Rightarrow> string option" where
  "driver_persisted_hex dg d = (if di_persistable d then Some (hex_encode dg (di_digest d)) else None)"

definition driver_from_persisted_hex :: "digest_api \<Rightarrow> string \<Rightarrow> (identity_error, driver_identity) result" where
  "driver_from_persisted_hex dg v =
     (case persisted_digest dg v of
        None \<Rightarrow> Inl IdentityError
      | Some digest \<Rightarrow> Inr \<lparr>di_digest = digest, di_persistable = True\<rparr>)"

section \<open>Runtime identity\<close>

datatype inventory_error =
    InvBounds | InvCancelled | InvIdentityMismatch | InvMalformed | InvProcessFailed
  | InvRuntimeChanged | InvTimeout

record runtime_id =
  ri_install_digest :: string
  ri_ffmpeg_version :: string
  ri_jellyfin_revision :: "string option"
  ri_build_configuration_digest :: string
  ri_pair_root_identity :: string

definition MAX_RUNTIME_ID_FIELD_BYTES :: nat where "MAX_RUNTIME_ID_FIELD_BYTES = 2048"

definition RUNTIME_EVIDENCE_DOMAIN :: bytes where
  "RUNTIME_EVIDENCE_DOMAIN = as_bytes ''stream-server/runtime-evidence-id/v1'' @ [0]"

text \<open>The two update functions append to the digest's input; here they return what they append.\<close>

definition update_length_and_value :: "bytes \<Rightarrow> (inventory_error, bytes) result" where
  "update_length_and_value v =
     (if length v > MAX_RUNTIME_ID_FIELD_BYTES then Inl InvBounds
      else rbind (u32_try_from InvBounds (length v)) (\<lambda>len. Inr (u32_to_be_bytes len @ v)))"

definition update_required :: "8 word \<Rightarrow> bytes \<Rightarrow> (inventory_error, bytes) result" where
  "update_required tag v = rbind (update_length_and_value v) (\<lambda>bs. Inr (tag # bs))"

definition runtime_message :: "runtime_id \<Rightarrow> (inventory_error, bytes) result" where
  "runtime_message rt =
     rbind (update_required 1 (as_bytes (ri_install_digest rt))) (\<lambda>b1.
     rbind (update_required 2 (as_bytes (ri_ffmpeg_version rt))) (\<lambda>b2.
     rbind (case ri_jellyfin_revision rt of
              Some revision \<Rightarrow> rbind (update_length_and_value (as_bytes revision)) (\<lambda>bs. Inr (3 # 1 # bs))
            | None \<Rightarrow> Inr [3, 0]) (\<lambda>b3.
     rbind (update_required 4 (as_bytes (ri_build_configuration_digest rt))) (\<lambda>b4.
     rbind (update_required 5 (as_bytes (ri_pair_root_identity rt))) (\<lambda>b5.
       Inr (RUNTIME_EVIDENCE_DOMAIN @ b1 @ b2 @ b3 @ b4 @ b5))))))"

type_synonym runtime_evidence_id = bytes

definition runtime_evidence_derive ::
  "digest_api \<Rightarrow> runtime_id \<Rightarrow> (inventory_error, runtime_evidence_id) result" where
  "runtime_evidence_derive dg rt = rbind (runtime_message rt) (\<lambda>m. Inr (sha256 dg m))"

definition runtime_persisted_hex :: "digest_api \<Rightarrow> runtime_evidence_id \<Rightarrow> string" where
  "runtime_persisted_hex dg i = hex_encode dg i"

definition runtime_from_persisted_hex ::
  "digest_api \<Rightarrow> string \<Rightarrow> (inventory_error, runtime_evidence_id) result" where
  "runtime_from_persisted_hex dg v = ok_or InvMalformed (persisted_digest dg v)"

section \<open>The framing is unambiguous\<close>

lemma u32_to_be_bytes_length [simp]: "length (u32_to_be_bytes n) = 4"
  by (simp add: u32_to_be_bytes_def)

lemma u32_to_be_bytes_inj:
  assumes "u32_to_be_bytes m = u32_to_be_bytes n" "m \<le> u32_max" "n \<le> u32_max"
  shows "m = n"
proof -
  have byte: "a mod 256 = b mod 256" if "(of_nat a :: 8 word) = of_nat b" for a b :: nat
    using that by (simp add: word_of_nat_eq_iff take_bit_eq_mod)
  have d: "m mod 256 = n mod 256" "m div 256 mod 256 = n div 256 mod 256"
    "m div 65536 mod 256 = n div 65536 mod 256" "m div 16777216 mod 256 = n div 16777216 mod 256"
    using assms(1) by (auto simp: u32_to_be_bytes_def dest: byte)
  have step: "a = b" if "a div 256 = b div 256" "a mod 256 = b mod 256" for a b :: nat
    using that by (metis div_mult_mod_eq)
  have dd: "x div 65536 = x div 256 div 256" "x div 16777216 = x div 256 div 256 div 256" for x :: nat
    by (simp_all add: div_mult2_eq [symmetric])
  have "m div 16777216 = n div 16777216" using d(4) assms(2,3) by (simp add: div_le_mono)
  then have "m div 256 div 256 = n div 256 div 256" using d(3) unfolding dd by (rule step)
  then have "m div 256 = n div 256" using d(2) by (rule step)
  then show ?thesis using d(1) by (rule step)
qed

lemma length_prefixed_inj:
  assumes "u32_to_be_bytes (length a) @ a @ x = u32_to_be_bytes (length b) @ b @ y"
    "length a \<le> u32_max" "length b \<le> u32_max"
  shows "a = b \<and> x = y"
proof -
  have "u32_to_be_bytes (length a) = u32_to_be_bytes (length b)" "a @ x = b @ y"
    using assms(1) by (metis append_eq_append_conv u32_to_be_bytes_length)+
  then show ?thesis using u32_to_be_bytes_inj assms(2,3) by (metis append_eq_append_conv)
qed

lemma as_bytes_inj: "as_bytes a = as_bytes b \<Longrightarrow> a = b"
proof -
  have "c = d" if "(of_nat (of_char c) :: 8 word) = of_nat (of_char d)" for c d :: char
  proof -
    have "of_char c mod (256 :: nat) = of_char d mod 256"
      using that by (simp add: word_of_nat_eq_iff take_bit_eq_mod)
    then show ?thesis by (metis char_of_mod_256 char_of_char)
  qed
  then have "inj (\<lambda>c :: char. of_nat (of_char c) :: 8 word)" by (auto intro: injI)
  then show "as_bytes a = as_bytes b \<Longrightarrow> a = b"
    unfolding as_bytes_def by (rule map_injective [rotated])
qed

lemma platform_byte_inj: "platform_byte a = platform_byte b \<Longrightarrow> a = b"
  by (cases a; cases b) simp_all

lemma u32_try_from_Inr [simp]: "u32_try_from e n = Inr m \<longleftrightarrow> m = n \<and> n \<le> u32_max"
  by (auto simp: u32_try_from_def)

lemma frame_fields_inj:
  "frame_fields fs = Inr a \<Longrightarrow> frame_fields gs = Inr a \<Longrightarrow> fs = gs"
proof (induction fs arbitrary: gs a)
  case Nil
  then show ?case by (cases gs) (auto simp: rbind_Inr_iff)
next
  case (Cons f fs)
  then obtain r where r: "frame_fields fs = Inr r" "length (df_bytes f) \<le> u32_max"
    "a = df_tag f # u32_to_be_bytes (length (df_bytes f)) @ df_bytes f @ r"
    by (auto simp: rbind_Inr_iff)
  obtain g gs' r' where g: "gs = g # gs'" "frame_fields gs' = Inr r'" "length (df_bytes g) \<le> u32_max"
    "a = df_tag g # u32_to_be_bytes (length (df_bytes g)) @ df_bytes g @ r'"
    using Cons.prems(2) r(3) by (cases gs) (auto simp: rbind_Inr_iff)
  have "df_bytes f = df_bytes g \<and> r = r'"
    by (rule length_prefixed_inj) (use r g in auto)
  moreover have "df_tag f = df_tag g" using r(3) g(4) by simp
  ultimately show ?case using Cons.IH [OF r(1)] g(1,2) by (cases f; cases g) simp
qed

lemma update_length_and_value_Inr:
  "update_length_and_value v = Inr bs \<longleftrightarrow>
     length v \<le> 2048 \<and> bs = u32_to_be_bytes (length v) @ v"
  by (auto simp: update_length_and_value_def rbind_Inr_iff MAX_RUNTIME_ID_FIELD_BYTES_def)

lemma update_required_Inr:
  "update_required tag v = Inr bs \<longleftrightarrow>
     length v \<le> 2048 \<and> bs = tag # u32_to_be_bytes (length v) @ v"
  by (auto simp: update_required_def rbind_Inr_iff update_length_and_value_Inr)

text \<open>A field of the message can be cut off its front: tag, length and value are determined.\<close>

lemma cut_field:
  "tag # u32_to_be_bytes (length a) @ a @ x = tag # u32_to_be_bytes (length b) @ b @ y \<Longrightarrow>
   length a \<le> 2048 \<Longrightarrow> length b \<le> 2048 \<Longrightarrow> a = b \<and> x = y"
  by (rule length_prefixed_inj) auto

definition revision_bytes :: "string option \<Rightarrow> bytes" where
  "revision_bytes r = (case r of None \<Rightarrow> [3, 0]
     | Some s \<Rightarrow> 3 # 1 # u32_to_be_bytes (length (as_bytes s)) @ as_bytes s)"

lemma runtime_message_Inr:
  "runtime_message rt = Inr m \<longleftrightarrow>
     length (as_bytes (ri_install_digest rt)) \<le> 2048 \<and> length (as_bytes (ri_ffmpeg_version rt)) \<le> 2048 \<and>
     pred_option (\<lambda>s. length (as_bytes s) \<le> 2048) (ri_jellyfin_revision rt) \<and>
     length (as_bytes (ri_build_configuration_digest rt)) \<le> 2048 \<and>
     length (as_bytes (ri_pair_root_identity rt)) \<le> 2048 \<and>
     m = RUNTIME_EVIDENCE_DOMAIN @
       (1 # u32_to_be_bytes (length (as_bytes (ri_install_digest rt))) @ as_bytes (ri_install_digest rt) @
       (2 # u32_to_be_bytes (length (as_bytes (ri_ffmpeg_version rt))) @ as_bytes (ri_ffmpeg_version rt) @
       (revision_bytes (ri_jellyfin_revision rt) @
       (4 # u32_to_be_bytes (length (as_bytes (ri_build_configuration_digest rt))) @
         as_bytes (ri_build_configuration_digest rt) @
       (5 # u32_to_be_bytes (length (as_bytes (ri_pair_root_identity rt))) @
         as_bytes (ri_pair_root_identity rt) @ [])))))"
  by (cases "ri_jellyfin_revision rt")
     (auto simp: runtime_message_def rbind_Inr_iff update_required_Inr update_length_and_value_Inr
        revision_bytes_def)

lemma revision_bytes_cut:
  assumes "revision_bytes a @ x = revision_bytes b @ y"
    "pred_option (\<lambda>s. length (as_bytes s) \<le> 2048) a" "pred_option (\<lambda>s. length (as_bytes s) \<le> 2048) b"
  shows "a = b \<and> x = y"
  using assms length_prefixed_inj [of "as_bytes (the a)" x "as_bytes (the b)" y]
  by (cases a; cases b) (auto simp: revision_bytes_def dest: as_bytes_inj)

lemma runtime_message_inj:
  assumes "runtime_message rt = Inr m" "runtime_message rt' = Inr m"
  shows "rt = rt'"
proof -
  define t5 where "t5 r = 5 # u32_to_be_bytes (length (as_bytes (ri_pair_root_identity r))) @
      as_bytes (ri_pair_root_identity r) @ []" for r :: runtime_id
  define t4 where "t4 r = 4 # u32_to_be_bytes (length (as_bytes (ri_build_configuration_digest r))) @
      as_bytes (ri_build_configuration_digest r) @ t5 r" for r :: runtime_id
  define t3 where "t3 r = revision_bytes (ri_jellyfin_revision r) @ t4 r" for r :: runtime_id
  define t2 where "t2 r = 2 # u32_to_be_bytes (length (as_bytes (ri_ffmpeg_version r))) @
      as_bytes (ri_ffmpeg_version r) @ t3 r" for r :: runtime_id
  define t1 where "t1 r = 1 # u32_to_be_bytes (length (as_bytes (ri_install_digest r))) @
      as_bytes (ri_install_digest r) @ t2 r" for r :: runtime_id
  note r = assms [unfolded runtime_message_Inr, folded t5_def, folded t4_def, folded t3_def,
      folded t2_def, folded t1_def]
  have "t1 rt = t1 rt'" using r by simp
  then have c1: "as_bytes (ri_install_digest rt) = as_bytes (ri_install_digest rt') \<and> t2 rt = t2 rt'"
    unfolding t1_def by (rule cut_field) (use r in simp_all)
  then have c2: "as_bytes (ri_ffmpeg_version rt) = as_bytes (ri_ffmpeg_version rt') \<and> t3 rt = t3 rt'"
    unfolding t2_def by (intro cut_field) (use r in simp_all)
  then have c3: "ri_jellyfin_revision rt = ri_jellyfin_revision rt' \<and> t4 rt = t4 rt'"
    unfolding t3_def by (intro revision_bytes_cut) (use r in simp_all)
  then have c4: "as_bytes (ri_build_configuration_digest rt) = as_bytes (ri_build_configuration_digest rt') \<and>
      t5 rt = t5 rt'"
    unfolding t4_def by (intro cut_field) (use r in simp_all)
  then have c5: "as_bytes (ri_pair_root_identity rt) = as_bytes (ri_pair_root_identity rt') \<and> [] = ([] :: bytes)"
    unfolding t5_def by (intro cut_field) (use r in simp_all)
  show ?thesis using c1 c2 c3 c4 c5 by (intro runtime_id.equality) (auto dest: as_bytes_inj)
qed

lemma derive_complete_Inr:
  "derive_driver_identity dg p (DriverComplete fs) e = Inr d \<Longrightarrow>
   \<exists>a. frame_fields fs = Inr a \<and> d = \<lparr>di_digest = sha256 dg (DRIVER_ID_DOMAIN @ platform_byte p # a),
     di_persistable = True\<rparr>"
  by (auto simp: rbind_Inr_iff split: if_splits)


text \<open>A digest interface that keeps its input, so that nothing collides, and spells bytes in hexadecimal.\<close>

definition hex_digit :: "nat \<Rightarrow> char" where
  "hex_digit n = (if n < 10 then char_of (48 + n) else char_of (87 + n))"

definition hex_value :: "char \<Rightarrow> nat" where
  "hex_value c = (let n = (of_char c :: nat) in if n < 58 then n - 48 else n - 87)"

definition hex_enc :: "bytes \<Rightarrow> string" where
  "hex_enc bs = concat (map (\<lambda>b. [hex_digit (unat b div 16), hex_digit (unat b mod 16)]) bs)"

fun hex_dec :: "string \<Rightarrow> bytes option" where
  "hex_dec [] = Some []"
| "hex_dec [c] = None"
| "hex_dec (c # d # s) =
     (if is_lower_hex c \<and> is_lower_hex d
      then map_option (Cons (of_nat (16 * hex_value c + hex_value d))) (hex_dec s) else None)"

definition identity_digest :: digest_api where
  "identity_digest = \<lparr>sha256 = id, hmac_sha256 = (\<lambda>k m. k @ m), hex_encode = hex_enc, hex_decode = hex_dec\<rparr>"


section \<open>The interface of the hexadecimal codec\<close>

definition hex_contract :: "digest_api \<Rightarrow> bool" where
  "hex_contract dg \<longleftrightarrow>
     (\<forall>b. length b = 32 \<longrightarrow>
        length (hex_encode dg b) = 64 \<and> list_all is_lower_hex (hex_encode dg b) \<and>
        hex_decode dg (hex_encode dg b) = Some b) \<and>
     (\<forall>s b. length s = 64 \<longrightarrow> list_all is_lower_hex s \<longrightarrow> hex_decode dg s = Some b \<longrightarrow> hex_encode dg b = s)"

locale hex_interface =
  fixes dg :: digest_api
  assumes hex_ok: "hex_contract dg"
begin

lemma persisted_digest_encode: "length b = 32 \<Longrightarrow> persisted_digest dg (hex_encode dg b) = Some b"
  using hex_ok by (simp add: hex_contract_def persisted_digest_def)

lemma persisted_digest_Some:
  "persisted_digest dg s = Some b \<Longrightarrow> length b = 32 \<and> hex_encode dg b = s"
  using hex_ok by (auto simp: hex_contract_def persisted_digest_def split: if_splits option.splits)

lemma persisted_digest_iff:
  "persisted_digest dg s = Some b \<longleftrightarrow> length b = 32 \<and> s = hex_encode dg b"
  using persisted_digest_encode persisted_digest_Some by blast

lemma runtime_hex_iff:
  "runtime_from_persisted_hex dg s = Inr i \<longleftrightarrow> length i = 32 \<and> s = runtime_persisted_hex dg i"
  unfolding runtime_persisted_hex_def persisted_digest_iff [symmetric]
  by (cases "persisted_digest dg s") (auto simp: runtime_from_persisted_hex_def)

lemma driver_hex_iff:
  "driver_from_persisted_hex dg s = Inr d \<longleftrightarrow>
     length (di_digest d) = 32 \<and> driver_persisted_hex dg d = Some s"
proof -
  have "length (di_digest d) = 32 \<and> driver_persisted_hex dg d = Some s \<longleftrightarrow>
      di_persistable d \<and> persisted_digest dg s = Some (di_digest d)"
    unfolding persisted_digest_iff driver_persisted_hex_def by auto
  then show ?thesis
    by (cases d; cases "persisted_digest dg s") (auto simp: driver_from_persisted_hex_def)
qed

end

lemma lower_hex_cases:
  assumes "is_lower_hex c"
  obtains n where "n < 16" "c = hex_digit n"
proof -
  define k where "k = (of_char c :: nat)"
  have c: "c = char_of k" by (simp add: k_def)
  have "(48 \<le> k \<and> k \<le> 57) \<or> (97 \<le> k \<and> k \<le> 102)" using assms by (simp add: is_lower_hex_def k_def Let_def)
  then show thesis
  proof
    assume "48 \<le> k \<and> k \<le> 57"
    then have "k - 48 < 16" "k - 48 < 10" "48 + (k - 48) = k" by auto
    then show thesis using that [of "k - 48"] by (simp only: hex_digit_def c if_True)
  next
    assume "97 \<le> k \<and> k \<le> 102"
    then have "k - 87 < 16" "\<not> k - 87 < 10" "87 + (k - 87) = k" by auto
    then show thesis using that [of "k - 87"] by (simp only: hex_digit_def c if_False)
  qed
qed

lemma hex_digit_props:
  assumes "n < 16"
  shows "is_lower_hex (hex_digit n)" "hex_value (hex_digit n) = n"
  using assms by (auto simp: hex_digit_def hex_value_def is_lower_hex_def Let_def)

lemma hex_enc_Cons:
  "hex_enc (b # bs) = hex_digit (unat b div 16) # hex_digit (unat b mod 16) # hex_enc bs"
  by (simp add: hex_enc_def)

lemma hex_enc_Nil [simp]: "hex_enc [] = []"
  by (simp add: hex_enc_def)

lemma byte_nibbles: "unat (b :: 8 word) div 16 < 16" "unat b mod 16 < 16"
proof -
  have "unat b < 256" using unsigned_less [of b] by simp
  then show "unat b div 16 < 16" by simp
qed simp

lemma hex_enc_props:
  "length (hex_enc bs) = 2 * length bs" "list_all is_lower_hex (hex_enc bs)" "hex_dec (hex_enc bs) = Some bs"
  by (induction bs) (simp_all add: hex_enc_Cons hex_digit_props byte_nibbles)

lemma hex_dec_enc: "hex_dec s = Some bs \<Longrightarrow> hex_enc bs = s"
proof (induction s arbitrary: bs rule: hex_dec.induct)
  case (3 c d s)
  then obtain m n where mn: "m < 16" "n < 16" "c = hex_digit m" "d = hex_digit n"
    by (auto split: if_splits elim!: lower_hex_cases)
  obtain r where r: "hex_dec s = Some r" "bs = of_nat (16 * m + n) # r"
    using 3 mn by (auto simp: hex_digit_props split: if_splits)
  have "unat (of_nat (16 * m + n) :: 8 word) = 16 * m + n"
    using mn by (simp add: unsigned_of_nat take_bit_nat_eq_self del: of_nat_add of_nat_mult)
  then show ?case using 3 mn r by (simp add: hex_enc_Cons hex_digit_props del: of_nat_add of_nat_mult)
qed simp_all

interpretation hexadecimal: hex_interface identity_digest
  by unfold_locales
     (auto simp: hex_contract_def identity_digest_def hex_enc_props hex_dec_enc)

end
