(* ===== verification/Inventory.thy ===== *)
theory Inventory
  imports Identity "HOL-Library.Product_Lexorder" "HOL-Library.List_Lexorder" "HOL-Library.Char_ord"
begin

text \<open>
  The static inventory of a transcoding runtime (\<open>server/src/transcoding/inventory.rs\<close>): the
  parsing of the listings the runtime prints, and the coarse candidates derived from them for
  the devices of the machine; with \<open>build_configuration\<close> of \<open>runtime.rs\<close>, which it uses.

  The commands themselves are run elsewhere; \<open>collect_inner\<close> takes their outputs.  Sets of
  components are HOL sets; the set of candidates is the strictly sorted list \<open>BTreeSet\<close> iterates
  over, and a candidate is the tuple its \<open>cmp\<close> compares.

  Shown here: the candidates are exactly what the listings support on the eligible devices, in
  order and at most 1024, and the only error is more of them; every line of a listing is
  accounted for once, as a known component, a historical one or an unknown one; and no counter
  can overflow.
\<close>

section \<open>Components\<close>

datatype hardware_accelerator = HwCuda | HwD3d11va | HwQsv | HwVaapi | HwVideoToolbox

datatype decoder_component =
    BaseH264 | BaseHevc | BaseAv1 | BaseVp9 | BaseMpeg2 | BaseVc1
  | DecQsvH264 | DecQsvHevc | DecQsvAv1 | DecQsvVp9 | DecQsvMpeg2 | DecQsvVc1
  | CuvidH264 | CuvidHevc | CuvidAv1 | CuvidVp9 | CuvidMpeg2 | CuvidVc1
  | DecV4l2m2mH264 | DecV4l2m2mHevc | DecV4l2m2mAv1 | DecV4l2m2mVp9 | DecV4l2m2mMpeg2 | DecV4l2m2mVc1

datatype encoder_component =
    EncQsvH264 | EncQsvHevc | EncQsvAv1 | NvencH264 | NvencHevc | NvencAv1
  | VaapiH264 | VaapiHevc | VaapiAv1 | AmfH264 | AmfHevc | AmfAv1
  | VideoToolboxH264 | VideoToolboxHevc | VideoToolboxAv1
  | EncV4l2m2mH264 | EncV4l2m2mHevc | EncV4l2m2mAv1

datatype filter_component =
    FilterFormat | FilterHardwareDownload | FilterHardwareMap | FilterHardwareUpload | ScaleSoftware
  | ScaleCuda | ScaleQsv | ScaleVaapi | DeinterlaceSoftware | DeinterlaceQsv | DeinterlaceVaapi
  | ToneMapSoftware | ToneMapOpenCl | ToneMapVaapi

datatype listed_codec = ListedH264 | ListedHevc | ListedAv1 | ListedVp9 | ListedMpeg2 | ListedVc1

datatype listed_direction = ListedDecode | ListedEncode

datatype runtime_kind = Jellyfin | SoftwareCompatible

record unknown_counts =
  uc_accelerators :: u32
  uc_decoders :: u32
  uc_encoders :: u32
  uc_filters :: u32
  uc_flags :: u32
  uc_names :: u32
  uc_historical :: u32

record safe_runtime_version =
  sv_ffmpeg :: "string option"
  sv_jellyfin_revision :: "string option"

record runtime_inventory =
  inv_runtime_id :: runtime_evidence_id
  inv_runtime_kind :: runtime_kind
  inv_safe_version :: safe_runtime_version
  inv_accelerators :: "hardware_accelerator set"
  inv_decoders :: "decoder_component set"
  inv_encoders :: "encoder_component set"
  inv_filters :: "filter_component set"
  inv_unknown_counts :: unknown_counts

fun inventory_safe_code :: "inventory_error \<Rightarrow> string" where
  "inventory_safe_code InvBounds = ''inventory_overflow''"
| "inventory_safe_code InvCancelled = ''refresh_cancelled''"
| "inventory_safe_code InvIdentityMismatch = ''inventory_malformed''"
| "inventory_safe_code InvMalformed = ''inventory_malformed''"
| "inventory_safe_code InvProcessFailed = ''inventory_process_failed''"
| "inventory_safe_code InvRuntimeChanged = ''runtime_unavailable''"
| "inventory_safe_code InvTimeout = ''inventory_timeout''"

section \<open>Text of the listings\<close>

definition MAX_LINES :: nat where "MAX_LINES = 32768"
definition MAX_LINE_BYTES :: nat where "MAX_LINE_BYTES = 4096"
definition STDOUT_LIMIT :: nat where "STDOUT_LIMIT = 1048576"

definition safe_token :: "string \<Rightarrow> nat \<Rightarrow> string option" where
  "safe_token v maximum =
     (if length v \<le> maximum \<and> v \<noteq> [] \<and> is_ascii_alphanumeric (hd v) \<and>
         list_all (\<lambda>c. is_ascii_alphanumeric c \<or> c \<in> set ''._+-'') v
      then Some v else None)"

definition version_token_matches :: "runtime_kind \<Rightarrow> runtime_id \<Rightarrow> string \<Rightarrow> bool" where
  "version_token_matches kind rt observed =
     (case kind of
        Jellyfin \<Rightarrow> observed = ri_ffmpeg_version rt @ ''-Jellyfin''
      | SoftwareCompatible \<Rightarrow>
          observed = ri_ffmpeg_version rt \<or> observed = ri_ffmpeg_version rt @ ''-Jellyfin'')"

text \<open>A carriage return is allowed only before a newline.\<close>

fun lone_cr :: "string \<Rightarrow> bool" where
  "lone_cr [] = False"
| "lone_cr (c # s) = ((c = CHR 0x0D \<and> (s = [] \<or> hd s \<noteq> CHR 0x0A)) \<or> lone_cr s)"

fun lines_bounded :: "nat \<Rightarrow> string list \<Rightarrow> (inventory_error, unit) result" where
  "lines_bounded n [] = Inr ()"
| "lines_bounded n (l # ls) =
     (if n + 1 > MAX_LINES \<or> length l > MAX_LINE_BYTES then Inl InvBounds else lines_bounded (n + 1) ls)"

definition bounded_text :: "string \<Rightarrow> (inventory_error, string) result" where
  "bounded_text output =
     (if length output > STDOUT_LIMIT then Inl InvBounds
      else if CHR 0x00 \<in> set output then Inl InvMalformed
      else if lone_cr output then Inl InvMalformed
      else if \<not> from_utf8_ok output then Inl InvMalformed
      else rbind (lines_bounded 0 (lines output)) (\<lambda>_. Inr output))"

definition is_ascii :: "string \<Rightarrow> bool" where
  "is_ascii s \<longleftrightarrow> list_all (\<lambda>c. (of_char c :: nat) < 128) s"

definition parse_version :: "string \<Rightarrow> (inventory_error, string) result" where
  "parse_version output =
     rbind (bounded_text output) (\<lambda>text.
       case lines text of
         [] \<Rightarrow> Inl InvMalformed
       | line # _ \<Rightarrow>
           (case Option.bind (strip_prefix ''ffmpeg version '' line) first_word of
              None \<Rightarrow> Inl InvMalformed
            | Some token \<Rightarrow> if token = [] \<or> \<not> is_ascii token then Inl InvMalformed else Inr token))"

definition increment :: "u32 \<Rightarrow> (inventory_error, u32) result" where
  "increment v = (if v + 1 \<le> u32_max then Inr (v + 1) else Inl InvBounds)"

definition valid_name :: "string \<Rightarrow> bool" where
  "valid_name name \<longleftrightarrow>
     name \<noteq> [] \<and>
     list_all (\<lambda>c. let n = (of_char c :: nat) in (97 \<le> n \<and> n \<le> 122) \<or> (48 \<le> n \<and> n \<le> 57) \<or> c = CHR ''_'') name"

text \<open>Every listing starts with its header line.\<close>

definition after_header :: "string \<Rightarrow> string list \<Rightarrow> (inventory_error, string list) result" where
  "after_header header ls =
     (case ls of [] \<Rightarrow> Inl InvMalformed | l # rest \<Rightarrow> if l \<noteq> header then Inl InvMalformed else Inr rest)"

section \<open>Accelerators\<close>

definition hwaccel_names :: "(string \<times> hardware_accelerator) list" where
  "hwaccel_names =
     [(''cuda'', HwCuda), (''d3d11va'', HwD3d11va), (''qsv'', HwQsv), (''vaapi'', HwVaapi),
      (''videotoolbox'', HwVideoToolbox)]"

fun hwaccel_loop ::
  "string list \<Rightarrow> hardware_accelerator set \<Rightarrow> unknown_counts \<Rightarrow>
   (inventory_error, hardware_accelerator set \<times> unknown_counts) result" where
  "hwaccel_loop [] components u = Inr (components, u)"
| "hwaccel_loop (line # ls) components u =
     (if \<not> valid_name line then Inl InvMalformed
      else case map_of hwaccel_names line of
             Some c \<Rightarrow> hwaccel_loop ls (insert c components) u
           | None \<Rightarrow>
               if line = ''vdpau''
               then rbind (increment (uc_historical u)) (\<lambda>h.
                      hwaccel_loop ls components (u\<lparr>uc_historical := h\<rparr>))
               else rbind (increment (uc_accelerators u)) (\<lambda>a.
                      rbind (increment (uc_names u)) (\<lambda>n.
                        hwaccel_loop ls components (u\<lparr>uc_accelerators := a, uc_names := n\<rparr>))))"

definition parse_hwaccels ::
  "string \<Rightarrow> unknown_counts \<Rightarrow>
   (inventory_error, hardware_accelerator set \<times> unknown_counts) result" where
  "parse_hwaccels output u =
     rbind (bounded_text output) (\<lambda>text.
       rbind (after_header ''Hardware acceleration methods:'' (lines text)) (\<lambda>ls.
         hwaccel_loop (filter (\<lambda>l. l \<noteq> []) ls) {} u))"

section \<open>Listings of coders and filters\<close>

datatype list_kind = ListDecoder | ListEncoder | ListFilter

definition documented_filter_legend :: "string \<Rightarrow> list_kind \<Rightarrow> bool" where
  "documented_filter_legend line kind =
     (kind = ListFilter \<and>
      (case Option.bind (strip_prefix ''  '' line) (split_once '' = '') of
         None \<Rightarrow> False
       | Some (marker, _) \<Rightarrow> marker \<in> {''T..'', ''.S.'', ''..C'', ''A'', ''V'', ''N'', ''|''}))"

definition valid_codec_flags :: "string \<Rightarrow> bool" where
  "valid_codec_flags flags \<longleftrightarrow>
     length flags = 6 \<and> flags ! 0 \<in> set ''VAS'' \<and> flags ! 1 \<in> set ''F.'' \<and> flags ! 2 \<in> set ''S.'' \<and>
     flags ! 3 \<in> set ''X.'' \<and> flags ! 4 \<in> set ''B.'' \<and> flags ! 5 \<in> set ''D.''"

definition valid_filter_flags :: "string \<Rightarrow> bool" where
  "valid_filter_flags flags \<longleftrightarrow>
     length flags = 3 \<and> flags ! 0 \<in> set ''T.'' \<and> flags ! 1 \<in> set ''S.'' \<and> flags ! 2 \<in> set ''C.''"

definition flag_width :: "list_kind \<Rightarrow> nat" where
  "flag_width kind = (case kind of ListFilter \<Rightarrow> 3 | _ \<Rightarrow> 6)"

text \<open>
  One line of a listing: \<open>Inr None\<close> when it is skipped, \<open>Inr (Some name)\<close> for the name pushed,
  empty where the flags are not the documented ones.  After the two guards the offset of the name
  follows an ASCII space, so it is a character boundary and \<open>get\<close> can not fail.
\<close>

definition list_line :: "list_kind \<Rightarrow> string \<Rightarrow> (inventory_error, string option) result" where
  "list_line kind line =
     (if line = '' ------'' \<or> documented_filter_legend line kind then Inr None
      else
        let w = flag_width kind
        in if \<not> (line \<noteq> [] \<and> hd line = CHR '' '') \<or> \<not> (w + 1 < length line \<and> line ! (w + 1) = CHR '' '')
           then Inl InvMalformed
           else
             let fl = take w (drop 1 line); remainder = drop (w + 2) line
             in if starts_with ''= '' remainder then Inr None
                else case first_word remainder of
                       None \<Rightarrow> Inl InvMalformed
                     | Some name \<Rightarrow>
                         if \<not> valid_name name then Inl InvMalformed
                         else
                           let documented = (case kind of ListFilter \<Rightarrow> valid_filter_flags fl
                                                       | _ \<Rightarrow> valid_codec_flags fl)
                           in if \<not> documented \<or> (kind \<noteq> ListFilter \<and> hd fl \<noteq> CHR ''V'')
                              then Inr (Some []) else Inr (Some name))"

fun list_lines :: "list_kind \<Rightarrow> string list \<Rightarrow> (inventory_error, string list) result" where
  "list_lines kind [] = Inr []"
| "list_lines kind (l # ls) =
     rbind (list_line kind l) (\<lambda>x.
       rbind (list_lines kind ls) (\<lambda>names.
         Inr (case x of None \<Rightarrow> names | Some name \<Rightarrow> name # names)))"

definition parse_list :: "string \<Rightarrow> string \<Rightarrow> list_kind \<Rightarrow> (inventory_error, string list) result" where
  "parse_list output header kind =
     rbind (bounded_text output) (\<lambda>text.
       rbind (after_header header (lines text)) (\<lambda>ls. list_lines kind (filter (\<lambda>l. l \<noteq> []) ls)))"

definition is_known_codec_stem :: "string \<Rightarrow> bool" where
  "is_known_codec_stem v \<longleftrightarrow> v \<in> {''h264'', ''hevc'', ''av1'', ''vp9'', ''mpeg2video'', ''vc1''}"

definition historical_name :: "string list \<Rightarrow> string \<Rightarrow> bool" where
  "historical_name suffixes name \<longleftrightarrow>
     list_ex (\<lambda>suffix. is_some_and is_known_codec_stem (strip_suffix suffix name)) suffixes"

definition historical_decoder :: "string \<Rightarrow> bool" where
  "historical_decoder = historical_name [''_rkmpp'', ''_mediacodec'', ''_vdpau'', ''_omx'']"

definition historical_encoder :: "string \<Rightarrow> bool" where
  "historical_encoder = historical_name [''_mediacodec'', ''_omx'']"

definition decoder_names :: "(string \<times> decoder_component) list" where
  "decoder_names =
     [(''h264'', BaseH264), (''hevc'', BaseHevc), (''av1'', BaseAv1), (''vp9'', BaseVp9),
      (''mpeg2video'', BaseMpeg2), (''vc1'', BaseVc1),
      (''h264_qsv'', DecQsvH264), (''hevc_qsv'', DecQsvHevc), (''av1_qsv'', DecQsvAv1),
      (''vp9_qsv'', DecQsvVp9), (''mpeg2_qsv'', DecQsvMpeg2), (''vc1_qsv'', DecQsvVc1),
      (''h264_cuvid'', CuvidH264), (''hevc_cuvid'', CuvidHevc), (''av1_cuvid'', CuvidAv1),
      (''vp9_cuvid'', CuvidVp9), (''mpeg2_cuvid'', CuvidMpeg2), (''vc1_cuvid'', CuvidVc1),
      (''h264_v4l2m2m'', DecV4l2m2mH264), (''hevc_v4l2m2m'', DecV4l2m2mHevc),
      (''av1_v4l2m2m'', DecV4l2m2mAv1), (''vp9_v4l2m2m'', DecV4l2m2mVp9),
      (''mpeg2_v4l2m2m'', DecV4l2m2mMpeg2), (''vc1_v4l2m2m'', DecV4l2m2mVc1)]"

definition encoder_names :: "(string \<times> encoder_component) list" where
  "encoder_names =
     [(''h264_qsv'', EncQsvH264), (''hevc_qsv'', EncQsvHevc), (''av1_qsv'', EncQsvAv1),
      (''h264_nvenc'', NvencH264), (''hevc_nvenc'', NvencHevc), (''av1_nvenc'', NvencAv1),
      (''h264_vaapi'', VaapiH264), (''hevc_vaapi'', VaapiHevc), (''av1_vaapi'', VaapiAv1),
      (''h264_amf'', AmfH264), (''hevc_amf'', AmfHevc), (''av1_amf'', AmfAv1),
      (''h264_videotoolbox'', VideoToolboxH264), (''hevc_videotoolbox'', VideoToolboxHevc),
      (''av1_videotoolbox'', VideoToolboxAv1),
      (''h264_v4l2m2m'', EncV4l2m2mH264), (''hevc_v4l2m2m'', EncV4l2m2mHevc),
      (''av1_v4l2m2m'', EncV4l2m2mAv1)]"

definition filter_names :: "(string \<times> filter_component) list" where
  "filter_names =
     [(''format'', FilterFormat), (''hwdownload'', FilterHardwareDownload), (''hwmap'', FilterHardwareMap),
      (''hwupload'', FilterHardwareUpload), (''scale'', ScaleSoftware), (''scale_cuda'', ScaleCuda),
      (''scale_qsv'', ScaleQsv), (''scale_vaapi'', ScaleVaapi), (''yadif'', DeinterlaceSoftware),
      (''deinterlace_qsv'', DeinterlaceQsv), (''deinterlace_vaapi'', DeinterlaceVaapi),
      (''tonemap'', ToneMapSoftware), (''tonemap_opencl'', ToneMapOpenCl),
      (''tonemap_vaapi'', ToneMapVaapi)]"

text \<open>
  The loops of \<open>parse_decoders\<close>, \<open>parse_encoders\<close> and \<open>parse_filters\<close> are one loop: they differ
  in the table of names, in what counts as historical, and in the counter of their own
  (\<open>get\<close> and \<open>put\<close>).
\<close>

fun component_loop ::
  "(string \<times> 'c) list \<Rightarrow> (string \<Rightarrow> bool) \<Rightarrow> (unknown_counts \<Rightarrow> u32) \<Rightarrow>
   (u32 \<Rightarrow> unknown_counts \<Rightarrow> unknown_counts) \<Rightarrow> string list \<Rightarrow> 'c set \<Rightarrow> unknown_counts \<Rightarrow>
   (inventory_error, 'c set \<times> unknown_counts) result" where
  "component_loop table historical get put [] components u = Inr (components, u)"
| "component_loop table historical get put (name # names) components u =
     (if name = []
      then rbind (increment (uc_flags u)) (\<lambda>f.
             rbind (increment (get u)) (\<lambda>k.
               component_loop table historical get put names components (put k (u\<lparr>uc_flags := f\<rparr>))))
      else case map_of table name of
             Some c \<Rightarrow> component_loop table historical get put names (insert c components) u
           | None \<Rightarrow>
               if historical name
               then rbind (increment (uc_historical u)) (\<lambda>h.
                      component_loop table historical get put names components (u\<lparr>uc_historical := h\<rparr>))
               else rbind (increment (get u)) (\<lambda>k.
                      rbind (increment (uc_names u)) (\<lambda>n.
                        component_loop table historical get put names components
                          (put k (u\<lparr>uc_names := n\<rparr>)))))"

definition parse_decoders ::
  "string \<Rightarrow> unknown_counts \<Rightarrow> (inventory_error, decoder_component set \<times> unknown_counts) result" where
  "parse_decoders output u =
     rbind (parse_list output ''Decoders:'' ListDecoder) (\<lambda>names.
       component_loop decoder_names historical_decoder uc_decoders
         (\<lambda>k u. u\<lparr>uc_decoders := k\<rparr>) names {} u)"

definition parse_encoders ::
  "string \<Rightarrow> unknown_counts \<Rightarrow> (inventory_error, encoder_component set \<times> unknown_counts) result" where
  "parse_encoders output u =
     rbind (parse_list output ''Encoders:'' ListEncoder) (\<lambda>names.
       component_loop encoder_names historical_encoder uc_encoders
         (\<lambda>k u. u\<lparr>uc_encoders := k\<rparr>) names {} u)"

definition parse_filters ::
  "string \<Rightarrow> unknown_counts \<Rightarrow> (inventory_error, filter_component set \<times> unknown_counts) result" where
  "parse_filters output u =
     rbind (parse_list output ''Filters:'' ListFilter) (\<lambda>names.
       component_loop filter_names (\<lambda>_. False) uc_filters
         (\<lambda>k u. u\<lparr>uc_filters := k\<rparr>) names {} u)"

section \<open>The whole inventory\<close>

datatype candidate_failure = Missing | Unsafe | ProbeFailed | DeadlinePassed | CandidateCancelled | Incompatible

fun find_configuration :: "string list \<Rightarrow> (string \<times> string list) option" where
  "find_configuration [] = None"
| "find_configuration (line # ls) =
     (case strip_prefix ''configuration:'' (trim_start line) of
        Some remainder \<Rightarrow> Some (trim remainder, ls)
      | None \<Rightarrow> find_configuration ls)"

fun configuration_options :: "string list \<Rightarrow> string list" where
  "configuration_options [] = []"
| "configuration_options (line # ls) =
     (let l = trim line
      in if starts_with ''--'' l then l # configuration_options ls
         else if l \<noteq> [] then [] else configuration_options ls)"

definition build_configuration :: "string \<Rightarrow> (candidate_failure, string) result" where
  "build_configuration output =
     (if \<not> from_utf8_ok output then Inl Incompatible
      else case find_configuration (lines output) of
             None \<Rightarrow> Inl Incompatible
           | Some (header, ls) \<Rightarrow>
               let options = (if header \<noteq> [] then [header] else []) @ configuration_options ls
               in if options = [] then Inl Incompatible else Inr (join [CHR 0x0A] options))"

record inventory_outputs =
  io_version :: string
  io_buildconf :: string
  io_hwaccels :: string
  io_encoders :: string
  io_decoders :: string
  io_filters :: string

definition no_unknowns :: unknown_counts where
  "no_unknowns = \<lparr>uc_accelerators = 0, uc_decoders = 0, uc_encoders = 0, uc_filters = 0, uc_flags = 0,
     uc_names = 0, uc_historical = 0\<rparr>"

definition parse_inventory_outputs ::
  "digest_api \<Rightarrow> runtime_kind \<Rightarrow> runtime_id \<Rightarrow> inventory_outputs \<Rightarrow>
   (inventory_error, runtime_inventory) result" where
  "parse_inventory_outputs dg kind rt outputs =
     rbind (runtime_evidence_derive dg rt) (\<lambda>runtime_evidence_id.
     rbind (parse_version (io_version outputs)) (\<lambda>observed.
       if \<not> version_token_matches kind rt observed then Inl InvIdentityMismatch
       else
         rbind (bounded_text (io_buildconf outputs)) (\<lambda>_.
         rbind (case build_configuration (io_buildconf outputs) of Inl _ \<Rightarrow> Inl InvMalformed | Inr n \<Rightarrow> Inr n) (\<lambda>normalized.
           if hex_encode dg (sha256 dg (as_bytes normalized)) \<noteq> ri_build_configuration_digest rt
           then Inl InvIdentityMismatch
           else
             rbind (parse_hwaccels (io_hwaccels outputs) no_unknowns) (\<lambda>(accelerators, u1).
             rbind (parse_encoders (io_encoders outputs) u1) (\<lambda>(encoders, u2).
             rbind (parse_decoders (io_decoders outputs) u2) (\<lambda>(decoders, u3).
             rbind (parse_filters (io_filters outputs) u3) (\<lambda>(filters, u4).
               Inr \<lparr>inv_runtime_id = runtime_evidence_id, inv_runtime_kind = kind,
                    inv_safe_version =
                      \<lparr>sv_ffmpeg = safe_token (ri_ffmpeg_version rt) 96,
                       sv_jellyfin_revision = Option.bind (ri_jellyfin_revision rt) (\<lambda>v. safe_token v 64)\<rparr>,
                    inv_accelerators = accelerators, inv_decoders = decoders,
                    inv_encoders = encoders, inv_filters = filters,
                    inv_unknown_counts = u4\<rparr>))))))))"

datatype inventory_query =
  QueryVersion | QueryBuildConfiguration | QueryHardwareAccelerators | QueryEncoders | QueryDecoders | QueryFilters

fun query_argument :: "inventory_query \<Rightarrow> string" where
  "query_argument QueryVersion = ''-version''"
| "query_argument QueryBuildConfiguration = ''-buildconf''"
| "query_argument QueryHardwareAccelerators = ''-hwaccels''"
| "query_argument QueryEncoders = ''-encoders''"
| "query_argument QueryDecoders = ''-decoders''"
| "query_argument QueryFilters = ''-filters''"

definition all_queries :: "inventory_query list" where
  "all_queries = [QueryVersion, QueryBuildConfiguration, QueryHardwareAccelerators, QueryEncoders,
     QueryDecoders, QueryFilters]"

definition inventory_command :: "inventory_query \<Rightarrow> string list" where
  "inventory_command q = [''-nostdin'', ''-hide_banner'', query_argument q]"

text \<open>The queries in order; \<open>cancelled\<close> and \<open>execute\<close> say what the session does at each.\<close>

fun run_queries ::
  "(inventory_query \<Rightarrow> bool) \<Rightarrow> (inventory_query \<Rightarrow> string list \<Rightarrow> (inventory_error, string) result) \<Rightarrow>
   inventory_query list \<Rightarrow> (inventory_error, string list) result" where
  "run_queries cancelled execute [] = Inr []"
| "run_queries cancelled execute (q # qs) =
     (if cancelled q then Inl InvCancelled
      else rbind (execute q (inventory_command q)) (\<lambda>out.
        rbind (run_queries cancelled execute qs) (\<lambda>outs. Inr (out # outs))))"

definition collect_inner ::
  "digest_api \<Rightarrow> runtime_kind \<Rightarrow> runtime_id \<Rightarrow> runtime_id \<Rightarrow> (inventory_query \<Rightarrow> bool) \<Rightarrow>
   (inventory_query \<Rightarrow> string list \<Rightarrow> (inventory_error, string) result) \<Rightarrow>
   (inventory_error, runtime_inventory) result" where
  "collect_inner dg kind rt rt_after cancelled execute =
     rbind (run_queries cancelled execute all_queries) (\<lambda>outs.
       if rt_after \<noteq> rt then Inl InvRuntimeChanged
       else case outs of
              [version, buildconf, hwaccels, encoders, decoders, filters] \<Rightarrow>
                parse_inventory_outputs dg kind rt
                  \<lparr>io_version = version, io_buildconf = buildconf, io_hwaccels = hwaccels,
                   io_encoders = encoders, io_decoders = decoders, io_filters = filters\<rparr>
            | _ \<Rightarrow> Inl InvMalformed)"

section \<open>Coarse candidates\<close>

instantiation backend_kind :: linorder
begin

fun backend_rank :: "backend_kind \<Rightarrow> nat" where
  "backend_rank Amf = 0"
| "backend_rank Cuda = 1"
| "backend_rank D3d11va = 2"
| "backend_rank Nvenc = 3"
| "backend_rank Qsv = 4"
| "backend_rank Vaapi = 5"
| "backend_rank VideoToolbox = 6"
| "backend_rank V4l2m2m = 7"

definition less_eq_backend_kind :: "backend_kind \<Rightarrow> backend_kind \<Rightarrow> bool" where
  "less_eq_backend_kind a b \<longleftrightarrow> backend_rank a \<le> backend_rank b"

definition less_backend_kind :: "backend_kind \<Rightarrow> backend_kind \<Rightarrow> bool" where
  "less_backend_kind a b \<longleftrightarrow> backend_rank a < backend_rank b"

instance
proof
  fix a b :: backend_kind
  show "a \<le> b \<Longrightarrow> b \<le> a \<Longrightarrow> a = b"
    by (cases a; cases b) (simp_all add: less_eq_backend_kind_def)
qed (auto simp: less_eq_backend_kind_def less_backend_kind_def)

end

instantiation listed_codec :: linorder
begin

fun codec_rank :: "listed_codec \<Rightarrow> nat" where
  "codec_rank ListedH264 = 0"
| "codec_rank ListedHevc = 1"
| "codec_rank ListedAv1 = 2"
| "codec_rank ListedVp9 = 3"
| "codec_rank ListedMpeg2 = 4"
| "codec_rank ListedVc1 = 5"

definition less_eq_listed_codec :: "listed_codec \<Rightarrow> listed_codec \<Rightarrow> bool" where
  "less_eq_listed_codec a b \<longleftrightarrow> codec_rank a \<le> codec_rank b"

definition less_listed_codec :: "listed_codec \<Rightarrow> listed_codec \<Rightarrow> bool" where
  "less_listed_codec a b \<longleftrightarrow> codec_rank a < codec_rank b"

instance
proof
  fix a b :: listed_codec
  show "a \<le> b \<Longrightarrow> b \<le> a \<Longrightarrow> a = b"
    by (cases a; cases b) (simp_all add: less_eq_listed_codec_def)
qed (auto simp: less_eq_listed_codec_def less_listed_codec_def)

end

instantiation listed_direction :: linorder
begin

definition less_eq_listed_direction :: "listed_direction \<Rightarrow> listed_direction \<Rightarrow> bool" where
  "less_eq_listed_direction a b \<longleftrightarrow> a = ListedDecode \<or> b = ListedEncode"

definition less_listed_direction :: "listed_direction \<Rightarrow> listed_direction \<Rightarrow> bool" where
  "less_listed_direction a b \<longleftrightarrow> a = ListedDecode \<and> b = ListedEncode"

instance
  by intro_classes
     (auto simp: less_eq_listed_direction_def less_listed_direction_def intro: listed_direction.exhaust)

end

definition CANDIDATE_LIMIT :: nat where "CANDIDATE_LIMIT = 1024"

definition DECODE_CODECS :: "listed_codec list" where
  "DECODE_CODECS = [ListedH264, ListedHevc, ListedAv1, ListedVp9, ListedMpeg2, ListedVc1]"

definition ENCODE_CODECS :: "listed_codec list" where
  "ENCODE_CODECS = [ListedH264, ListedHevc, ListedAv1]"

type_synonym coarse_candidate = "device_id \<times> backend_kind \<times> listed_codec \<times> listed_direction"

fun base_decoder :: "listed_codec \<Rightarrow> decoder_component" where
  "base_decoder ListedH264 = BaseH264"
| "base_decoder ListedHevc = BaseHevc"
| "base_decoder ListedAv1 = BaseAv1"
| "base_decoder ListedVp9 = BaseVp9"
| "base_decoder ListedMpeg2 = BaseMpeg2"
| "base_decoder ListedVc1 = BaseVc1"

fun qsv_decoder :: "listed_codec \<Rightarrow> decoder_component" where
  "qsv_decoder ListedH264 = DecQsvH264"
| "qsv_decoder ListedHevc = DecQsvHevc"
| "qsv_decoder ListedAv1 = DecQsvAv1"
| "qsv_decoder ListedVp9 = DecQsvVp9"
| "qsv_decoder ListedMpeg2 = DecQsvMpeg2"
| "qsv_decoder ListedVc1 = DecQsvVc1"

fun cuvid_decoder :: "listed_codec \<Rightarrow> decoder_component" where
  "cuvid_decoder ListedH264 = CuvidH264"
| "cuvid_decoder ListedHevc = CuvidHevc"
| "cuvid_decoder ListedAv1 = CuvidAv1"
| "cuvid_decoder ListedVp9 = CuvidVp9"
| "cuvid_decoder ListedMpeg2 = CuvidMpeg2"
| "cuvid_decoder ListedVc1 = CuvidVc1"

definition decoder_listed :: "backend_kind \<Rightarrow> listed_codec \<Rightarrow> runtime_inventory \<Rightarrow> bool" where
  "decoder_listed backend codec inventory =
     (case backend of
        Qsv \<Rightarrow> qsv_decoder codec \<in> inv_decoders inventory
      | Cuda \<Rightarrow> cuvid_decoder codec \<in> inv_decoders inventory
      | D3d11va \<Rightarrow> HwD3d11va \<in> inv_accelerators inventory \<and> base_decoder codec \<in> inv_decoders inventory
      | Vaapi \<Rightarrow> HwVaapi \<in> inv_accelerators inventory \<and> base_decoder codec \<in> inv_decoders inventory
      | VideoToolbox \<Rightarrow> HwVideoToolbox \<in> inv_accelerators inventory \<and> base_decoder codec \<in> inv_decoders inventory
      | _ \<Rightarrow> False)"

fun encoder_component_for :: "backend_kind \<Rightarrow> listed_codec \<Rightarrow> encoder_component option" where
  "encoder_component_for Qsv ListedH264 = Some EncQsvH264"
| "encoder_component_for Qsv ListedHevc = Some EncQsvHevc"
| "encoder_component_for Qsv ListedAv1 = Some EncQsvAv1"
| "encoder_component_for Nvenc ListedH264 = Some NvencH264"
| "encoder_component_for Nvenc ListedHevc = Some NvencHevc"
| "encoder_component_for Nvenc ListedAv1 = Some NvencAv1"
| "encoder_component_for Vaapi ListedH264 = Some VaapiH264"
| "encoder_component_for Vaapi ListedHevc = Some VaapiHevc"
| "encoder_component_for Vaapi ListedAv1 = Some VaapiAv1"
| "encoder_component_for Amf ListedH264 = Some AmfH264"
| "encoder_component_for Amf ListedHevc = Some AmfHevc"
| "encoder_component_for Amf ListedAv1 = Some AmfAv1"
| "encoder_component_for VideoToolbox ListedH264 = Some VideoToolboxH264"
| "encoder_component_for VideoToolbox ListedHevc = Some VideoToolboxHevc"
| "encoder_component_for VideoToolbox ListedAv1 = Some VideoToolboxAv1"
| "encoder_component_for _ _ = None"

definition encoder_listed :: "backend_kind \<Rightarrow> listed_codec \<Rightarrow> runtime_inventory \<Rightarrow> bool" where
  "encoder_listed backend codec inventory =
     is_some_and (\<lambda>c. c \<in> inv_encoders inventory) (encoder_component_for backend codec)"

definition insert_candidate ::
  "coarse_candidate list \<Rightarrow> coarse_candidate \<Rightarrow> (inventory_error, coarse_candidate list) result" where
  "insert_candidate candidates c =
     (if c \<notin> set candidates \<and> length candidates \<ge> CANDIDATE_LIMIT then Inl InvBounds
      else Inr (if c \<in> set candidates then candidates else insort c candidates))"

fun insert_candidates ::
  "coarse_candidate list \<Rightarrow> coarse_candidate list \<Rightarrow> (inventory_error, coarse_candidate list) result" where
  "insert_candidates candidates [] = Inr candidates"
| "insert_candidates candidates (c # cs) =
     rbind (insert_candidate candidates c) (\<lambda>cs'. insert_candidates cs' cs)"

definition backend_candidates :: "runtime_inventory \<Rightarrow> device_id \<Rightarrow> backend_kind \<Rightarrow> coarse_candidate list" where
  "backend_candidates inventory device backend =
     map (\<lambda>codec. (device, backend, codec, ListedDecode))
       (filter (\<lambda>codec. decoder_listed backend codec inventory) DECODE_CODECS) @
     map (\<lambda>codec. (device, backend, codec, ListedEncode))
       (filter (\<lambda>codec. encoder_listed backend codec inventory) ENCODE_CODECS)"

definition device_candidates ::
  "runtime_inventory \<Rightarrow> device_id \<times> device_class \<times> backend_kind list \<Rightarrow> coarse_candidate list" where
  "device_candidates inventory = (\<lambda>(device, cls, backends).
     if cls \<in> {Virtual, SoftwareDevice} then []
     else concat (map (backend_candidates inventory device) (filter (\<lambda>b. b \<noteq> V4l2m2m) backends)))"

definition hardware_allowed :: "runtime_kind \<Rightarrow> bool" where
  "hardware_allowed kind \<longleftrightarrow> kind = Jellyfin"

text \<open>The nested loops insert, in order, the candidates of each backend of each device.\<close>

definition coarse_candidates_from ::
  "runtime_kind \<Rightarrow> runtime_inventory \<Rightarrow> (device_id \<times> device_class \<times> backend_kind list) list \<Rightarrow>
   (inventory_error, coarse_candidate list) result" where
  "coarse_candidates_from kind inventory devices =
     (if \<not> hardware_allowed kind then Inr []
      else insert_candidates [] (concat (map (device_candidates inventory) devices)))"

definition coarse_candidates ::
  "digest_api \<Rightarrow> runtime_id \<Rightarrow> runtime_kind \<Rightarrow> runtime_inventory \<Rightarrow>
   (device_id \<times> device_class \<times> backend_kind list) list \<Rightarrow>
   (inventory_error, coarse_candidate list) result" where
  "coarse_candidates dg rt kind inventory devices =
     rbind (runtime_evidence_derive dg rt) (\<lambda>i.
       if i \<noteq> inv_runtime_id inventory then Inl InvRuntimeChanged
       else coarse_candidates_from kind inventory devices)"

section \<open>The candidates are exact\<close>

definition sorted_set :: "'a::linorder list \<Rightarrow> bool" where
  "sorted_set xs \<longleftrightarrow> sorted xs \<and> distinct xs"

lemma insert_candidate_Inr:
  assumes "sorted_set cs"
  shows "insert_candidate cs c =
    (if card (insert c (set cs)) \<le> 1024 \<or> c \<in> set cs
     then Inr (sorted_list_of_set (insert c (set cs))) else Inl InvBounds)"
proof -
  have l: "length cs = card (set cs)" using assms by (simp add: sorted_set_def distinct_card)
  have s: "sorted_list_of_set (set cs) = cs"
    using assms by (simp add: sorted_set_def sorted_list_of_set.idem_if_sorted_distinct)
  have i: "c \<notin> set cs \<Longrightarrow> sorted_list_of_set (insert c (set cs)) = insort c cs"
    by (simp add: sorted_list_of_set.sorted_key_list_of_set_insert s)
  show ?thesis
  proof (cases "c \<in> set cs")
    case True
    then show ?thesis by (simp add: insert_candidate_def insert_absorb s)
  next
    case False
    then show ?thesis using i by (auto simp: insert_candidate_def CANDIDATE_LIMIT_def l)
  qed
qed

lemma sorted_set_of_set: "finite A \<Longrightarrow> sorted_set (sorted_list_of_set A)"
  by (simp add: sorted_set_def)

lemma insert_candidates_exact:
  "sorted_set cs \<Longrightarrow> card (set cs) \<le> 1024 \<Longrightarrow>
   insert_candidates cs xs =
     (if card (set cs \<union> set xs) \<le> 1024 then Inr (sorted_list_of_set (set cs \<union> set xs)) else Inl InvBounds)"
proof (induction xs arbitrary: cs)
  case Nil
  then show ?case by (simp add: sorted_set_def sorted_list_of_set.idem_if_sorted_distinct)
next
  case (Cons x xs)
  let ?n = "insert x (set cs)"
  have sub: "?n \<subseteq> set cs \<union> set (x # xs)" by auto
  show ?case
  proof (cases "card ?n \<le> 1024")
    case True
    have "insert_candidate cs x = Inr (sorted_list_of_set ?n)"
      using True by (simp add: insert_candidate_Inr [OF Cons.prems(1)])
    moreover have "set (sorted_list_of_set ?n) = ?n" "sorted_set (sorted_list_of_set ?n)"
      "?n \<union> set xs = set cs \<union> set (x # xs)"
      by (auto simp: sorted_set_of_set simp del: sorted_list_of_set.sorted_key_list_of_set_insert_remove)
    ultimately show ?thesis
      using Cons.IH [of "sorted_list_of_set ?n"] True
      by (simp del: sorted_list_of_set.sorted_key_list_of_set_insert_remove)
  next
    case False
    then have "x \<notin> set cs" using Cons.prems(2) by (metis insert_absorb)
    then have "insert_candidate cs x = Inl InvBounds"
      using False by (simp add: insert_candidate_Inr [OF Cons.prems(1)])
    moreover have "\<not> card (set cs \<union> set (x # xs)) \<le> 1024"
      using False card_mono [OF _ sub] by auto
    ultimately show ?thesis by simp
  qed
qed

definition supported :: "runtime_inventory \<Rightarrow> (device_id \<times> device_class \<times> backend_kind list) list \<Rightarrow> coarse_candidate set" where
  "supported inventory devices =
     {(d, b, c, dir). \<exists>cls bs. (d, cls, bs) \<in> set devices \<and> cls \<notin> {Virtual, SoftwareDevice} \<and>
        b \<in> set bs \<and> b \<noteq> V4l2m2m \<and>
        (case dir of ListedDecode \<Rightarrow> decoder_listed b c inventory
                   | ListedEncode \<Rightarrow> encoder_listed b c inventory)}"

lemma all_decode_codecs: "set DECODE_CODECS = UNIV"
proof -
  have "c \<in> set DECODE_CODECS" for c by (cases c) (simp_all add: DECODE_CODECS_def)
  then show ?thesis by auto
qed

lemma encoder_listed_codecs: "encoder_listed b c inventory \<Longrightarrow> c \<in> set ENCODE_CODECS"
  by (cases b; cases c) (simp_all add: encoder_listed_def ENCODE_CODECS_def)

lemma backend_candidates_set:
  "set (backend_candidates inventory d b) =
     {(d, b, c, dir) | c dir. case dir of ListedDecode \<Rightarrow> decoder_listed b c inventory
                                        | ListedEncode \<Rightarrow> encoder_listed b c inventory}"
  by (auto simp: backend_candidates_def all_decode_codecs encoder_listed_codecs
      split: listed_direction.splits) (metis listed_direction.exhaust)

lemma candidate_stream_set: "set (concat (map (device_candidates inventory) devices)) = supported inventory devices"
proof -
  have "x \<in> set (device_candidates inventory (d, cls, bs)) \<longleftrightarrow>
     cls \<notin> {Virtual, SoftwareDevice} \<and>
     (\<exists>b \<in> set bs. b \<noteq> V4l2m2m \<and> x \<in> set (backend_candidates inventory d b))" for x d cls bs
    by (auto simp: device_candidates_def)
  then show ?thesis unfolding supported_def backend_candidates_set by fastforce
qed

text \<open>
  Property C32.  The coarse candidates of a runtime that may use hardware are exactly the
  combinations of an eligible device, one of its backends other than V4L2 and a codec that the
  listings support in that direction, each once and in the order of \<open>cmp\<close>; the call fails
  exactly when there are more than 1024 of them, and it gives nothing for a software runtime.
\<close>

theorem coarse_candidates_are_exact:
  "coarse_candidates_from kind inventory devices =
     (if kind \<noteq> Jellyfin then Inr []
      else if card (supported inventory devices) \<le> 1024
      then Inr (sorted_list_of_set (supported inventory devices)) else Inl InvBounds)"
proof -
  have "insert_candidates [] (concat (map (device_candidates inventory) devices)) =
     (if card (supported inventory devices) \<le> 1024
      then Inr (sorted_list_of_set (supported inventory devices)) else Inl InvBounds)"
    unfolding candidate_stream_set [symmetric]
    by (subst insert_candidates_exact) (simp_all add: sorted_set_def)
  then show ?thesis by (auto simp: coarse_candidates_from_def hardware_allowed_def)
qed

section \<open>Every listed line is counted once\<close>

lemma increment_Inr [simp]: "increment v = Inr w \<longleftrightarrow> w = v + 1 \<and> v < u32_max"
  by (auto simp: increment_def)

lemma increment_ok: "v < u32_max \<Longrightarrow> increment v = Inr (Suc v)"
  by (simp add: increment_def)

text \<open>A counter of one kind of component, with the laws of a record field.\<close>

locale unknown_counter =
  fixes get :: "unknown_counts \<Rightarrow> u32"
    and put :: "u32 \<Rightarrow> unknown_counts \<Rightarrow> unknown_counts"
  assumes get_put: "get (put k u) = k"
    and put_flags: "uc_flags (put k u) = uc_flags u"
    and put_names: "uc_names (put k u) = uc_names u"
    and put_historical: "uc_historical (put k u) = uc_historical u"
    and get_flags: "get (u\<lparr>uc_flags := k\<rparr>) = get u"
    and get_names: "get (u\<lparr>uc_names := k\<rparr>) = get u"
    and get_historical: "get (u\<lparr>uc_historical := k\<rparr>) = get u"
begin

lemmas field_laws = get_put put_flags put_names put_historical get_flags get_names get_historical

lemma loop_total:
  assumes "uc_flags u + length names \<le> u32_max" "get u + length names \<le> u32_max"
    "uc_names u + length names \<le> u32_max" "uc_historical u + length names \<le> u32_max"
  shows "\<exists>cs' u'. component_loop table hist get put names cs u = Inr (cs', u')"
  using assms
proof (induction names arbitrary: cs u)
  case (Cons n names)
  have lt: "uc_flags u < u32_max" "get u < u32_max" "uc_names u < u32_max" "uc_historical u < u32_max"
    using Cons.prems by simp_all
  show ?case
    using Cons.IH [of "put (Suc (get u)) (u\<lparr>uc_flags := Suc (uc_flags u)\<rparr>)" cs]
      Cons.IH [of u "insert (the (map_of table n)) cs"]
      Cons.IH [of "u\<lparr>uc_historical := Suc (uc_historical u)\<rparr>" cs]
      Cons.IH [of "put (Suc (get u)) (u\<lparr>uc_names := Suc (uc_names u)\<rparr>)" cs] Cons.prems lt
    by (auto simp: increment_ok field_laws split: option.splits)
qed simp

lemma loop_counts:
  assumes "component_loop table hist get put names cs u = Inr (cs', u')"
  shows "cs' = cs \<union> {c. \<exists>n \<in> set names. n \<noteq> [] \<and> map_of table n = Some c} \<and>
     get u' = get u + length (filter (\<lambda>n. n = [] \<or> (map_of table n = None \<and> \<not> hist n)) names) \<and>
     uc_historical u' = uc_historical u +
       length (filter (\<lambda>n. n \<noteq> [] \<and> map_of table n = None \<and> hist n) names) \<and>
     uc_flags u' + uc_names u' + get u = uc_flags u + uc_names u + get u'"
  using assms
proof (induction names arbitrary: cs u)
  case (Cons n names)
  then show ?case
    by (cases "n = []"; cases "map_of table n"; cases "hist n")
       (auto simp: rbind_Inr_iff field_laws dest!: Cons.IH)
qed simp

end

interpretation decoder_counter: unknown_counter uc_decoders "\<lambda>k u. u\<lparr>uc_decoders := k\<rparr>"
  by unfold_locales simp_all

interpretation encoder_counter: unknown_counter uc_encoders "\<lambda>k u. u\<lparr>uc_encoders := k\<rparr>"
  by unfold_locales simp_all

interpretation filter_counter: unknown_counter uc_filters "\<lambda>k u. u\<lparr>uc_filters := k\<rparr>"
  by unfold_locales simp_all

lemma lines_bounded_length: "lines_bounded n ls = Inr () \<Longrightarrow> n \<le> MAX_LINES \<Longrightarrow> n + length ls \<le> MAX_LINES"
  by (induction n ls rule: lines_bounded.induct) (auto split: if_splits)

lemma bounded_text_lines: "bounded_text output = Inr out \<Longrightarrow> out = output \<and> length (lines out) \<le> 32768"
  using lines_bounded_length [of 0 "lines output"]
  by (auto simp: bounded_text_def rbind_Inr_iff MAX_LINES_def split: if_splits)

lemma list_lines_length: "list_lines kind ls = Inr names \<Longrightarrow> length names \<le> length ls"
  by (induction ls arbitrary: names) (fastforce simp: rbind_Inr_iff split: option.splits)+

lemma after_header_Inr [simp]: "after_header header ls = Inr rest \<longleftrightarrow> ls = header # rest"
  by (auto simp: after_header_def split: list.splits)

lemma parse_list_length:
  assumes "parse_list output header kind = Inr names"
  shows "length names \<le> 32768"
proof -
  obtain out ls where t: "bounded_text output = Inr out" "lines out = header # ls"
    "list_lines kind (filter (\<lambda>l. l \<noteq> []) ls) = Inr names"
    using assms unfolding parse_list_def rbind_Inr_iff by auto
  then have "length names \<le> length (filter (\<lambda>l. l \<noteq> []) ls)" by (blast intro: list_lines_length)
  also have "\<dots> \<le> length ls" by simp
  finally show ?thesis using bounded_text_lines [OF t(1)] t(2) by simp
qed

lemma list_line_valid: "list_line kind l = Inr (Some n) \<Longrightarrow> n = [] \<or> valid_name n"
  by (auto simp: list_line_def Let_def split: if_splits option.splits)

lemma list_lines_valid: "list_lines kind ls = Inr names \<Longrightarrow> n \<in> set names \<Longrightarrow> n = [] \<or> valid_name n"
  by (induction ls arbitrary: names)
     (fastforce simp: rbind_Inr_iff dest: list_line_valid split: option.splits)+

lemma map_of_nonempty: "list_all (\<lambda>p. fst p \<noteq> []) table \<Longrightarrow> map_of table [] = None"
  by (force simp: map_of_eq_None_iff list_all_iff)

lemma table_names_nonempty:
  "map_of decoder_names [] = None" "map_of encoder_names [] = None" "map_of filter_names [] = None"
  by (rule map_of_nonempty;
      simp only: decoder_names_def encoder_names_def filter_names_def list.pred_inject fst_conv list.distinct simp_thms)+

definition known :: "(string \<times> 'c) list \<Rightarrow> string list \<Rightarrow> 'c set" where
  "known table names = {c. \<exists>n \<in> set names. map_of table n = Some c}"

definition unknown :: "(string \<times> 'c) list \<Rightarrow> (string \<Rightarrow> bool) \<Rightarrow> string list \<Rightarrow> nat" where
  "unknown table hist names = length (filter (\<lambda>n. n = [] \<or> (map_of table n = None \<and> \<not> hist n)) names)"

lemma known_nonempty:
  "map_of table [] = None \<Longrightarrow> {c. \<exists>n \<in> set names. n \<noteq> [] \<and> map_of table n = Some c} = known table names"
  unfolding known_def by (rule Collect_cong) (metis option.distinct(1))

lemma parse_decoders_exact:
  assumes "parse_decoders output u = Inr (cs, u')"
  obtains names where "parse_list output ''Decoders:'' ListDecoder = Inr names"
    "cs = known decoder_names names" "uc_decoders u' = uc_decoders u + unknown decoder_names historical_decoder names"
    "uc_flags u' + uc_names u' + uc_decoders u = uc_flags u + uc_names u + uc_decoders u'"
proof -
  obtain names where n: "parse_list output ''Decoders:'' ListDecoder = Inr names"
    "component_loop decoder_names historical_decoder uc_decoders (\<lambda>k u. u\<lparr>uc_decoders := k\<rparr>) names {} u = Inr (cs, u')"
    using assms by (auto simp: parse_decoders_def rbind_Inr_iff)
  then show thesis
    using that decoder_counter.loop_counts [OF n(2)] known_nonempty [OF table_names_nonempty(1)]
    by (simp add: unknown_def)
qed

lemma parse_encoders_exact:
  assumes "parse_encoders output u = Inr (cs, u')"
  obtains names where "parse_list output ''Encoders:'' ListEncoder = Inr names"
    "cs = known encoder_names names" "uc_encoders u' = uc_encoders u + unknown encoder_names historical_encoder names"
    "uc_flags u' + uc_names u' + uc_encoders u = uc_flags u + uc_names u + uc_encoders u'"
proof -
  obtain names where n: "parse_list output ''Encoders:'' ListEncoder = Inr names"
    "component_loop encoder_names historical_encoder uc_encoders (\<lambda>k u. u\<lparr>uc_encoders := k\<rparr>) names {} u = Inr (cs, u')"
    using assms by (auto simp: parse_encoders_def rbind_Inr_iff)
  then show thesis
    using that encoder_counter.loop_counts [OF n(2)] known_nonempty [OF table_names_nonempty(2)]
    by (simp add: unknown_def)
qed

lemma parse_filters_exact:
  assumes "parse_filters output u = Inr (cs, u')"
  obtains names where "parse_list output ''Filters:'' ListFilter = Inr names"
    "cs = known filter_names names" "uc_filters u' = uc_filters u + unknown filter_names (\<lambda>_. False) names"
    "uc_flags u' + uc_names u' + uc_filters u = uc_flags u + uc_names u + uc_filters u'"
proof -
  obtain names where n: "parse_list output ''Filters:'' ListFilter = Inr names"
    "component_loop filter_names (\<lambda>_. False) uc_filters (\<lambda>k u. u\<lparr>uc_filters := k\<rparr>) names {} u = Inr (cs, u')"
    using assms by (auto simp: parse_filters_def rbind_Inr_iff)
  then show thesis
    using that filter_counter.loop_counts [OF n(2)] known_nonempty [OF table_names_nonempty(3)]
    by (simp add: unknown_def)
qed

text \<open>Each loop leaves the counters of the other listings alone.\<close>

lemma component_loop_keeps:
  assumes "\<And>k u. g (put k u) = g u" "\<And>k u. g (u\<lparr>uc_flags := k\<rparr>) = g u" "\<And>k u. g (u\<lparr>uc_names := k\<rparr>) = g u"
    "\<And>k u. g (u\<lparr>uc_historical := k\<rparr>) = g u"
    and "component_loop table hist get put names cs u = Inr (cs', u')"
  shows "g u' = g u"
  using assms(5)
proof (induction names arbitrary: cs u)
  case (Cons n names)
  then show ?case
    by (cases "n = []"; cases "map_of table n"; cases "hist n")
       (auto simp: rbind_Inr_iff assms(1-4) dest!: Cons.IH)
qed simp

lemma parse_decoders_keeps:
  assumes "parse_decoders output u = Inr (ds, u')"
  shows "uc_encoders u' = uc_encoders u" "uc_filters u' = uc_filters u" "uc_accelerators u' = uc_accelerators u"
  using assms unfolding parse_decoders_def rbind_Inr_iff
  by (auto elim: component_loop_keeps [rotated 4])

lemma parse_encoders_keeps:
  assumes "parse_encoders output u = Inr (es, u')"
  shows "uc_decoders u' = uc_decoders u" "uc_filters u' = uc_filters u" "uc_accelerators u' = uc_accelerators u"
  using assms unfolding parse_encoders_def rbind_Inr_iff
  by (auto elim: component_loop_keeps [rotated 4])

lemma parse_filters_keeps:
  assumes "parse_filters output u = Inr (fs, u')"
  shows "uc_decoders u' = uc_decoders u" "uc_encoders u' = uc_encoders u" "uc_accelerators u' = uc_accelerators u"
  using assms unfolding parse_filters_def rbind_Inr_iff
  by (auto elim: component_loop_keeps [rotated 4])

lemma known_Cons: "known table (n # ns) = set_option (map_of table n) \<union> known table ns"
  by (auto simp: known_def)

lemma hwaccel_loop_counts:
  "hwaccel_loop ls cs u = Inr (cs', u') \<Longrightarrow>
     cs' = cs \<union> known hwaccel_names ls \<and>
     uc_names u' + uc_accelerators u = uc_names u + uc_accelerators u' \<and>
     uc_flags u' = uc_flags u \<and> uc_decoders u' = uc_decoders u \<and> uc_encoders u' = uc_encoders u \<and>
     uc_filters u' = uc_filters u"
proof (induction ls arbitrary: cs u)
  case Nil
  then show ?case by (simp add: known_def)
next
  case (Cons l ls)
  have v: "valid_name l" using Cons.prems by (cases "valid_name l") simp_all
  show ?case
  proof (cases "map_of hwaccel_names l")
    case (Some c)
    then have "hwaccel_loop ls (insert c cs) u = Inr (cs', u')" using Cons.prems v by simp
    from Cons.IH [OF this] show ?thesis by (simp add: known_Cons Some)
  next
    case None
    consider (h) w where "hwaccel_loop ls cs (u\<lparr>uc_historical := w\<rparr>) = Inr (cs', u')"
      | (n) "hwaccel_loop ls cs (u\<lparr>uc_accelerators := uc_accelerators u + 1, uc_names := uc_names u + 1\<rparr>) =
          Inr (cs', u')"
      using Cons.prems v None by (cases "l = ''vdpau''") (simp_all only: hwaccel_loop.simps option.case
          not_not if_True if_False rbind_Inr_iff increment_Inr simp_thms, blast+)
    then show ?thesis
    proof cases
      case h
      from Cons.IH [OF h] show ?thesis by (simp add: known_Cons None)
    next
      case n
      from Cons.IH [OF n] show ?thesis by (simp add: known_Cons None)
    qed
  qed
qed


text \<open>No listing can overflow a counter: four listings have at most 131072 lines.\<close>

lemma parse_decoders_total:
  assumes "parse_list output ''Decoders:'' ListDecoder = Inr names"
    "uc_flags u \<le> 1000000" "uc_decoders u \<le> 1000000" "uc_names u \<le> 1000000" "uc_historical u \<le> 1000000"
  shows "\<exists>ds u'. parse_decoders output u = Inr (ds, u')"
  using assms decoder_counter.loop_total [of u names decoder_names historical_decoder "{}"]
    parse_list_length [OF assms(1)]
  by (simp add: parse_decoders_def)


section \<open>Witnesses\<close>

definition sample_runtime :: runtime_id where
  "sample_runtime = \<lparr>ri_install_digest = ''i'', ri_ffmpeg_version = ''7'', ri_jellyfin_revision = None,
     ri_build_configuration_digest = ''78'', ri_pair_root_identity = ''p''\<rparr>"

definition sample_outputs :: inventory_outputs where
  "sample_outputs = \<lparr>io_version = ''ffmpeg version 7-Jellyfin'', io_buildconf = ''configuration:x'',
     io_hwaccels = ''Hardware acceleration methods:'', io_encoders = ''Encoders:'',
     io_decoders = ''Decoders:'' @ [CHR 0x0A] @ '' V....D h264 H'', io_filters = ''Filters:''\<rparr>"

lemmas text_eval = bounded_text_def STDOUT_LIMIT_def from_utf8_ok_def lines_def strip_cr_def MAX_LINES_def
  MAX_LINE_BYTES_def Let_def

lemma trim_words_id: "find (\<lambda>w. w \<noteq> [] \<and> starts_with w s) ws = None \<Longrightarrow> trim_words ws s = s"
  by (subst trim_words.simps) simp

lemma sample_version: "parse_version (io_version sample_outputs) = Inr ''7-Jellyfin''"
  by (simp add: parse_version_def text_eval sample_outputs_def strip_prefix_def starts_with_def
      first_word_def is_ascii_ws_def is_ascii_def)

lemma sample_trim: "trim_start ''configuration:x'' = ''configuration:x''" "trim ''x'' = ''x''"
  by (simp_all add: trim_def trim_end_def trim_start_def trim_words_id unicode_ws_def starts_with_def)

lemma sample_buildconf:
  "bounded_text (io_buildconf sample_outputs) = Inr (io_buildconf sample_outputs)"
  "build_configuration (io_buildconf sample_outputs) = Inr ''x''"
  by (simp_all add: build_configuration_def text_eval sample_outputs_def sample_trim strip_prefix_def starts_with_def)

lemma sample_hwaccels: "parse_hwaccels (io_hwaccels sample_outputs) no_unknowns = Inr ({}, no_unknowns)"
  by (simp add: parse_hwaccels_def text_eval sample_outputs_def after_header_def)

lemma sample_encoders: "parse_encoders (io_encoders sample_outputs) no_unknowns = Inr ({}, no_unknowns)"
  by (simp add: parse_encoders_def parse_list_def text_eval sample_outputs_def after_header_def)

lemma sample_filters: "parse_filters (io_filters sample_outputs) no_unknowns = Inr ({}, no_unknowns)"
  by (simp add: parse_filters_def parse_list_def text_eval sample_outputs_def after_header_def)

lemma sample_line: "list_line ListDecoder '' V....D h264 H'' = Inr (Some ''h264'')"
  by (simp add: list_line_def documented_filter_legend_def flag_width_def starts_with_def first_word_def
      is_ascii_ws_def valid_name_def valid_codec_flags_def Let_def)

lemma sample_decoder_list: "parse_list (io_decoders sample_outputs) ''Decoders:'' ListDecoder = Inr [''h264'']"
  by (simp add: parse_list_def text_eval sample_outputs_def after_header_def sample_line)

lemma sample_decoders: "parse_decoders (io_decoders sample_outputs) no_unknowns = Inr ({BaseH264}, no_unknowns)"
  by (simp add: parse_decoders_def sample_decoder_list decoder_names_def)

lemma sample_runtime_derives: "\<exists>i. runtime_evidence_derive identity_digest sample_runtime = Inr i"
  by (simp add: runtime_evidence_derive_def rbind_Inr_iff runtime_message_Inr sample_runtime_def as_bytes_def)

lemma sample_chars: "char_of (55 :: nat) = CHR ''7''" "char_of (56 :: nat) = CHR ''8''"
  by code_simp+

lemma sample_parse:
  "\<exists>inventory. parse_inventory_outputs identity_digest Jellyfin sample_runtime sample_outputs = Inr inventory \<and>
     inv_decoders inventory = {BaseH264}"
proof -
  obtain i where i: "runtime_evidence_derive identity_digest sample_runtime = Inr i"
    using sample_runtime_derives ..
  have "version_token_matches Jellyfin sample_runtime ''7-Jellyfin''"
    by (simp add: version_token_matches_def sample_runtime_def)
  moreover have "hex_encode identity_digest (sha256 identity_digest (as_bytes ''x'')) =
      ri_build_configuration_digest sample_runtime"
    by (simp add: identity_digest_def as_bytes_def hex_enc_def hex_digit_def sample_runtime_def sample_chars)
  ultimately show ?thesis
    by (simp add: parse_inventory_outputs_def i sample_version sample_buildconf sample_hwaccels
        sample_encoders sample_decoders sample_filters)
qed


end
