(* ===== verification/Devices.thy ===== *)
theory Devices
  imports Inventory
begin

text \<open>
  The normalisation of the devices a platform enumerates, from
  \<open>src/server/src/transcoding/device/mod.rs\<close>: the size bounds of a record, the display name that
  may leave the server, and the pass over all records that refuses ambiguous identities and
  locators, derives the public identifiers and sorts the devices.

  Names are decoded as \<open>String::from_utf8_lossy\<close> does, into the list of their code points, and are
  stored again as UTF-8 bytes.  The lemmas show that a display name is at most 128 bytes of UTF-8
  text free of separators, control and direction characters, that normalised devices are sorted
  and unambiguous, and which inputs are refused.
\<close>

section \<open>Text as code points\<close>

definition byte_at :: "nat list \<Rightarrow> nat \<Rightarrow> nat" where
  "byte_at s i = (if i < length s then s ! i else 0)"

definition second_of_three :: "nat \<Rightarrow> nat \<Rightarrow> bool" where
  "second_of_three a b \<longleftrightarrow>
     (if a = 224 then 160 \<le> b \<and> b \<le> 191 else if a = 237 then 128 \<le> b \<and> b \<le> 159 else cont b)"

definition second_of_four :: "nat \<Rightarrow> nat \<Rightarrow> bool" where
  "second_of_four a b \<longleftrightarrow>
     (if a = 240 then 144 \<le> b \<and> b \<le> 191 else if a = 244 then 128 \<le> b \<and> b \<le> 143 else cont b)"

text \<open>The first character of a nonempty text, \<open>None\<close> if it is ill-formed, and the bytes it takes.\<close>

definition utf8_char :: "nat list \<Rightarrow> nat option \<times> nat" where
  "utf8_char s =
     (let a = byte_at s 0; b = byte_at s 1; c = byte_at s 2; d = byte_at s 3
      in if a < 128 then (Some a, 1)
         else if 194 \<le> a \<and> a \<le> 223
         then (if \<not> cont b then (None, 1) else (Some ((a - 192) * 64 + (b - 128)), 2))
         else if 224 \<le> a \<and> a \<le> 239
         then (if \<not> second_of_three a b then (None, 1)
               else if \<not> cont c then (None, 2)
               else (Some ((a - 224) * 4096 + (b - 128) * 64 + (c - 128)), 3))
         else if 240 \<le> a \<and> a \<le> 244
         then (if \<not> second_of_four a b then (None, 1)
               else if \<not> cont c then (None, 2)
               else if \<not> cont d then (None, 3)
               else (Some ((a - 240) * 262144 + (b - 128) * 4096 + (c - 128) * 64 + (d - 128)), 4))
         else (None, 1))"

lemma utf8_char_takes: "0 < snd (utf8_char s)"
  by (simp add: utf8_char_def Let_def)

function from_utf8_lossy :: "nat list \<Rightarrow> nat list" where
  "from_utf8_lossy s =
     (if s = [] then []
      else case_option 65533 id (fst (utf8_char s)) # from_utf8_lossy (drop (snd (utf8_char s)) s))"
  by pat_completeness auto
termination
  by (relation "measure length") (simp_all add: utf8_char_takes)

declare from_utf8_lossy.simps [simp del]

definition utf8_encode_char :: "nat \<Rightarrow> nat list" where
  "utf8_encode_char c =
     (if c < 128 then [c]
      else if c < 2048 then [192 + c div 64, 128 + c mod 64]
      else if c < 65536 then [224 + c div 4096, 128 + c div 64 mod 64, 128 + c mod 64]
      else [240 + c div 262144, 128 + c div 4096 mod 64, 128 + c div 64 mod 64, 128 + c mod 64])"

definition utf8_encode :: "nat list \<Rightarrow> nat list" where
  "utf8_encode cs = concat (map utf8_encode_char cs)"

definition ascii_lowercase_point :: "nat \<Rightarrow> nat" where
  "ascii_lowercase_point c = (if 65 \<le> c \<and> c \<le> 90 then c + 32 else c)"

definition is_control :: "nat \<Rightarrow> bool" where
  "is_control c \<longleftrightarrow> c \<le> 31 \<or> 127 \<le> c \<and> c \<le> 159"

definition is_whitespace :: "nat \<Rightarrow> bool" where
  "is_whitespace c \<longleftrightarrow>
     9 \<le> c \<and> c \<le> 13 \<or> 8192 \<le> c \<and> c \<le> 8202 \<or>
     c \<in> {32, 133, 160, 5760, 8232, 8233, 8239, 8287, 12288}"

fun has_infix :: "'a list \<Rightarrow> 'a list \<Rightarrow> bool" where
  "has_infix w [] \<longleftrightarrow> w = []"
| "has_infix w (c # s) \<longleftrightarrow> take (length w) (c # s) = w \<or> has_infix w s"

function split_whitespace :: "nat list \<Rightarrow> nat list list" where
  "split_whitespace s =
     (let t = dropWhile is_whitespace s
      in if t = [] then []
         else takeWhile (\<lambda>c. \<not> is_whitespace c) t # split_whitespace (dropWhile (\<lambda>c. \<not> is_whitespace c) t))"
  by pat_completeness auto
termination
proof (relation "measure length", goal_cases)
  case (2 s t)
  then have "dropWhile is_whitespace s \<noteq> []" by simp
  then obtain c u where t: "dropWhile is_whitespace s = c # u" by (meson neq_Nil_conv)
  then have "\<not> is_whitespace c" using hd_dropWhile [of is_whitespace s] by simp
  then have "length (dropWhile (\<lambda>c. \<not> is_whitespace c) t) \<le> length u"
    using 2 t length_dropWhile_le [of "\<lambda>c. \<not> is_whitespace c" u] by simp
  also have "length u < length s"
    using t length_dropWhile_le [of is_whitespace s] by simp
  finally show ?case by simp
qed simp

declare split_whitespace.simps [simp del]

fun join_points :: "nat list \<Rightarrow> nat list list \<Rightarrow> nat list" where
  "join_points sep [] = []"
| "join_points sep [p] = p"
| "join_points sep (p # ps) = p @ sep @ join_points sep ps"

definition is_char_boundary :: "nat list \<Rightarrow> nat \<Rightarrow> bool" where
  "is_char_boundary s i \<longleftrightarrow> i = 0 \<or> i = length s \<or> i < length s \<and> \<not> cont (s ! i)"

section \<open>Platform records\<close>

datatype vendor = Intel | Nvidia | Amd | Apple | Microsoft | OtherVendor | UnknownVendor

datatype device_availability =
    Available | LocatorUnavailable | PermissionDenied | DeviceDisabled | DeviceStale

datatype device_locator =
    LocWindows int "u32 option"
  | LocLinux bytes u64
  | LocMacosDefault
  | LocUnavailable

datatype device_error = DeviceInvalid | DeviceAmbiguous | DeviceOverflow | DeviceCancelled

fun device_error_text :: "device_error \<Rightarrow> string" where
  "device_error_text DeviceInvalid = ''device_enumeration_failed''"
| "device_error_text DeviceAmbiguous = ''device_mapping_ambiguous''"
| "device_error_text DeviceOverflow = ''inventory_overflow''"
| "device_error_text DeviceCancelled = ''refresh_cancelled''"

datatype discovery_status = DiscoverySupported | PlatformUnsupportedStatus

fun discovery_safe_reason :: "discovery_status \<Rightarrow> string option" where
  "discovery_safe_reason DiscoverySupported = None"
| "discovery_safe_reason PlatformUnsupportedStatus = Some ''platform_unsupported''"

definition MAX_RAW_DEVICES :: nat where "MAX_RAW_DEVICES = 32"
definition MAX_AGGREGATE_INPUT_BYTES :: nat where "MAX_AGGREGATE_INPUT_BYTES = 262144"
definition MAX_PRIVATE_INPUT_BYTES :: nat where "MAX_PRIVATE_INPUT_BYTES = 2048"
definition MAX_SAFE_NAME_BYTES :: nat where "MAX_SAFE_NAME_BYTES = 128"

fun input_size :: "device_locator \<Rightarrow> (device_error, u64) result" where
  "input_size (LocWindows luid physical_index) = Inr (8 + (if physical_index \<noteq> None then 1 else 0) * 4)"
| "input_size (LocLinux render_node device_number) =
     (if length render_node \<le> MAX_PRIVATE_INPUT_BYTES
      then ok_or DeviceOverflow (checked_add_u64 (length render_node) 8)
      else Inl DeviceOverflow)"
| "input_size LocMacosDefault = Inr 0"
| "input_size LocUnavailable = Inr 0"

definition is_concrete :: "device_locator \<Rightarrow> bool" where
  "is_concrete l \<longleftrightarrow> l \<noteq> LocUnavailable"

record platform_device =
  pd_platform :: platform_tag
  pd_display_name :: bytes
  pd_vendor :: vendor
  pd_class :: device_class
  pd_availability :: device_availability
  pd_identity :: bytes
  pd_locator :: device_locator
  pd_driver :: driver_record
  pd_backends :: "backend_kind list"

record device_discovery =
  dd_records :: "platform_device list"
  dd_status :: discovery_status

record transcoding_device =
  td_id :: device_id
  td_display_name :: "nat list"
  td_vendor :: vendor
  td_class :: device_class
  td_availability :: device_availability
  td_backends :: "backend_kind set"
  td_identity :: bytes
  td_locator :: device_locator
  td_driver_identity :: driver_identity

record public_device =
  pv_id :: device_id
  pv_display_name :: "nat list"
  pv_vendor :: vendor
  pv_class :: device_class
  pv_availability :: device_availability
  pv_backends :: "backend_kind set"
  pv_driver_identity_complete :: bool

definition public_projection :: "transcoding_device \<Rightarrow> public_device" where
  "public_projection d =
     \<lparr>pv_id = td_id d, pv_display_name = td_display_name d, pv_vendor = td_vendor d, pv_class = td_class d,
      pv_availability = td_availability d, pv_backends = td_backends d,
      pv_driver_identity_complete = di_persistable (td_driver_identity d)\<rparr>"

section \<open>Display names\<close>

fun vendor_name :: "vendor \<Rightarrow> string" where
  "vendor_name Intel = ''Intel''"
| "vendor_name Nvidia = ''NVIDIA''"
| "vendor_name Amd = ''AMD''"
| "vendor_name Apple = ''Apple''"
| "vendor_name Microsoft = ''Microsoft''"
| "vendor_name OtherVendor = ''Other''"
| "vendor_name UnknownVendor = ''Unknown''"

fun class_name :: "device_class \<Rightarrow> string" where
  "class_name Integrated = ''integrated''"
| "class_name Discrete = ''discrete''"
| "class_name Virtual = ''virtual''"
| "class_name SoftwareDevice = ''software''"
| "class_name UnknownDevice = ''unknown''"

definition points :: "string \<Rightarrow> nat list" where
  "points s = map of_char s"

definition fallback_name :: "vendor \<Rightarrow> device_class \<Rightarrow> nat list" where
  "fallback_name v c = points (vendor_name v @ '' '' @ class_name c @ '' GPU'')"

definition is_unsafe_display_character :: "nat \<Rightarrow> bool" where
  "is_unsafe_display_character c \<longleftrightarrow>
     is_control c \<or> c \<in> {173, 1564, 6158, 65279} \<or> 8203 \<le> c \<and> c \<le> 8207 \<or> 8234 \<le> c \<and> c \<le> 8238 \<or>
     8288 \<le> c \<and> c \<le> 8292 \<or> 8294 \<le> c \<and> c \<le> 8303"

definition forbidden_name :: "nat list \<Rightarrow> bool" where
  "forbidden_name candidate \<longleftrightarrow>
     list_ex is_unsafe_display_character candidate \<or>
     list_ex (\<lambda>marker. marker \<in> set candidate) [47, 92, 58, 37, 64] \<or>
     has_infix (points ''..'') candidate \<or>
     list_ex (\<lambda>marker. has_infix marker (map ascii_lowercase_point candidate))
       [points ''pci'' @ [92], points ''ven_'', points ''dev_'', points ''subsys_'', points ''gpu1_'']"

fun floor_boundary :: "nat list \<Rightarrow> nat \<Rightarrow> nat" where
  "floor_boundary s 0 = 0"
| "floor_boundary s (Suc n) = (if is_char_boundary s (Suc n) then Suc n else floor_boundary s n)"

definition from_candidate :: "bytes \<Rightarrow> vendor \<Rightarrow> device_class \<Rightarrow> (device_error, nat list) result" where
  "from_candidate candidate v c =
     (if length candidate > MAX_PRIVATE_INPUT_BYTES then Inl DeviceOverflow
      else
        let decoded = from_utf8_lossy (map unat candidate)
        in if forbidden_name decoded then Inr (fallback_name v c)
           else
             let normalized = utf8_encode (join_points [32] (split_whitespace decoded))
             in if normalized = [] then Inr (fallback_name v c)
                else
                  let cut = (if length normalized > MAX_SAFE_NAME_BYTES
                             then take (floor_boundary normalized MAX_SAFE_NAME_BYTES) normalized
                             else normalized)
                  in Inr (if cut = [] then fallback_name v c else cut))"

section \<open>Normalisation\<close>

fun sum_sizes :: "u64 \<Rightarrow> u64 list \<Rightarrow> (device_error, u64) result" where
  "sum_sizes acc [] = Inr acc"
| "sum_sizes acc (p # ps) =
     rbind (ok_or DeviceOverflow (checked_add_u64 acc p)) (\<lambda>acc'. sum_sizes acc' ps)"

definition validate_record_size :: "platform_device \<Rightarrow> (device_error, u64) result" where
  "validate_record_size r =
     (if length (pd_display_name r) > MAX_PRIVATE_INPUT_BYTES \<or> length (pd_identity r) > MAX_PRIVATE_INPUT_BYTES
      then Inl DeviceOverflow
      else if \<not> is_structurally_valid (pd_driver r) then Inl DeviceInvalid
      else
        rbind (case record_framed_size (pd_driver r) of Inl _ \<Rightarrow> Inl DeviceOverflow | Inr n \<Rightarrow> Inr n) (\<lambda>driver_size.
          rbind (input_size (pd_locator r)) (\<lambda>locator_size.
            sum_sizes 0 [length (pd_display_name r), length (pd_identity r), locator_size, driver_size,
                         length (pd_backends r)])))"

fun aggregate_size :: "u64 \<Rightarrow> platform_device list \<Rightarrow> (device_error, u64) result" where
  "aggregate_size acc [] = Inr acc"
| "aggregate_size acc (r # rs) =
     rbind (validate_record_size r) (\<lambda>size.
       rbind (ok_or DeviceOverflow (checked_add_u64 acc size)) (\<lambda>acc'. aggregate_size acc' rs))"

text \<open>
  The loop over the records, with the three sets of what was seen before and the deriver of public
  identifiers as an argument, as in the source.
\<close>

fun normalize_loop ::
  "(platform_tag \<Rightarrow> bytes \<Rightarrow> (device_error, device_id) result) \<Rightarrow> digest_api \<Rightarrow> bytes \<Rightarrow>
   (platform_tag \<times> bytes) set \<Rightarrow> device_locator set \<Rightarrow> device_id set \<Rightarrow> platform_device list \<Rightarrow>
   (device_error, transcoding_device list) result" where
  "normalize_loop derive_id dg run_epoch identities locators public_ids [] = Inr []"
| "normalize_loop derive_id dg run_epoch identities locators public_ids (r # rs) =
     (if (pd_platform r, pd_identity r) \<in> identities then Inl DeviceAmbiguous
      else if is_concrete (pd_locator r) \<and> pd_locator r \<in> locators then Inl DeviceAmbiguous
      else
        rbind (derive_id (pd_platform r) (pd_identity r)) (\<lambda>id.
          if id \<in> public_ids then Inl DeviceAmbiguous
          else
            rbind (case derive_driver_identity dg (pd_platform r) (pd_driver r) run_epoch of
                     Inl _ \<Rightarrow> Inl DeviceInvalid | Inr d \<Rightarrow> Inr d) (\<lambda>driver_identity.
              rbind (from_candidate (pd_display_name r) (pd_vendor r) (pd_class r)) (\<lambda>display_name.
                rbind (normalize_loop derive_id dg run_epoch
                         (insert (pd_platform r, pd_identity r) identities)
                         (if is_concrete (pd_locator r) then insert (pd_locator r) locators else locators)
                         (insert id public_ids) rs) (\<lambda>rest.
                  Inr (\<lparr>td_id = id, td_display_name = display_name, td_vendor = pd_vendor r,
                        td_class = pd_class r, td_availability = pd_availability r,
                        td_backends = set (pd_backends r), td_identity = pd_identity r,
                        td_locator = pd_locator r, td_driver_identity = driver_identity\<rparr> # rest))))))"

definition normalize_platform_records_using ::
  "platform_device list \<Rightarrow> (platform_tag \<Rightarrow> bytes \<Rightarrow> (device_error, device_id) result) \<Rightarrow> digest_api \<Rightarrow> bytes \<Rightarrow>
   (device_error, transcoding_device list) result" where
  "normalize_platform_records_using records derive_id dg run_epoch =
     (if length records > MAX_RAW_DEVICES then Inl DeviceOverflow
      else rbind (aggregate_size 0 records) (\<lambda>size.
        if size > MAX_AGGREGATE_INPUT_BYTES then Inl DeviceOverflow
        else rbind (normalize_loop derive_id dg run_epoch {} {} {} records) (\<lambda>devices.
          Inr (sort_key td_id devices))))"

definition normalize_platform_records ::
  "digest_api \<Rightarrow> base64_api \<Rightarrow> platform_device list \<Rightarrow> bytes \<Rightarrow> bytes \<Rightarrow>
   (device_error, transcoding_device list) result" where
  "normalize_platform_records dg b64 records seed run_epoch =
     normalize_platform_records_using records
       (\<lambda>platform identity. case derive_device_id dg b64 seed platform identity of
                               Inl _ \<Rightarrow> Inl DeviceInvalid | Inr i \<Rightarrow> Inr i)
       dg run_epoch"

section \<open>A display name is safe text\<close>

lemma encode_char_shape:
  obtains a t where "utf8_encode_char c = a # t" "\<not> cont a" "\<forall>x \<in> set t. cont x"
proof -
  have d: "c div 64 mod 64 \<le> 63" "c mod 64 \<le> 63" "c div 4096 mod 64 \<le> 63"
    using pos_mod_bound [of 64] by (simp_all add: less_Suc_eq_le [symmetric])
  have "\<not> cont (hd (utf8_encode_char c)) \<and> (\<forall>x \<in> set (tl (utf8_encode_char c)). cont x)"
    using d by (simp add: utf8_encode_char_def cont_def)
  moreover have "utf8_encode_char c = hd (utf8_encode_char c) # tl (utf8_encode_char c)"
    by (simp add: utf8_encode_char_def)
  ultimately show ?thesis using that by blast
qed

lemma encode_char_ascii: "b \<in> set (utf8_encode_char c) \<Longrightarrow> b < 128 \<Longrightarrow> b = c"
  by (auto simp: utf8_encode_char_def split: if_splits)

lemma encode_ascii: "\<forall>c \<in> set cs. c < 128 \<Longrightarrow> utf8_encode cs = cs"
  by (induction cs) (simp_all add: utf8_encode_def utf8_encode_char_def)

lemma encode_boundary:
  assumes "n \<le> length (utf8_encode cs)" "is_char_boundary (utf8_encode cs) n"
  shows "\<exists>k. take n (utf8_encode cs) = utf8_encode (take k cs)"
  using assms
proof (induction cs arbitrary: n)
  case Nil
  then show ?case by (simp add: utf8_encode_def)
next
  case (Cons c cs)
  obtain a t where e: "utf8_encode_char c = a # t" "\<not> cont a" "\<forall>x \<in> set t. cont x" by (rule encode_char_shape)
  have s: "utf8_encode (c # cs) = a # t @ utf8_encode cs" by (simp add: utf8_encode_def e)
  consider "n = 0" | "0 < n" "n \<le> length t" | "length t < n" by linarith
  then show ?case
  proof cases
    case 1
    then show ?thesis by (intro exI [of _ 0]) (simp add: utf8_encode_def)
  next
    case 2
    then have "cont ((a # t @ utf8_encode cs) ! n)"
      using e(3) by (cases n) (auto simp: nth_append)
    then have False using 2 Cons.prems by (simp add: s is_char_boundary_def)
    then show ?thesis ..
  next
    case 3
    define m where "m = n - Suc (length t)"
    have n: "n = Suc (length t + m)" using 3 by (simp add: m_def)
    have "\<exists>k. take m (utf8_encode cs) = utf8_encode (take k cs)"
    proof (rule Cons.IH)
      show "m \<le> length (utf8_encode cs)" using Cons.prems(1) by (simp add: s n)
      show "is_char_boundary (utf8_encode cs) m"
        using Cons.prems(2) by (auto simp: s n is_char_boundary_def nth_append)
    qed
    then obtain k where "take m (utf8_encode cs) = utf8_encode (take k cs)" ..
    then show ?thesis
      by (intro exI [of _ "Suc k"]) (simp add: s n utf8_encode_def e)
  qed
qed

lemma floor_boundary_le: "floor_boundary s n \<le> n"
  by (induction n) (auto intro: le_SucI)

lemma floor_boundary_is: "is_char_boundary s (floor_boundary s n)"
  by (induction n) (auto simp: is_char_boundary_def)

lemma split_whitespace_set: "w \<in> set (split_whitespace s) \<Longrightarrow> set w \<subseteq> set s"
proof (induction s rule: split_whitespace.induct)
  case (1 s)
  let ?t = "dropWhile is_whitespace s"
  have t: "set ?t \<subseteq> set s" by (auto dest: set_dropWhileD)
  from 1(2) consider "w = takeWhile (\<lambda>c. \<not> is_whitespace c) ?t"
    | "?t \<noteq> []" "w \<in> set (split_whitespace (dropWhile (\<lambda>c. \<not> is_whitespace c) ?t))"
    unfolding split_whitespace.simps [of s] Let_def by (auto simp del: dropWhile_eq_Nil_conv split: if_splits)
  then show ?case
  proof cases
    case 1
    then show ?thesis using t by (auto dest: set_takeWhileD)
  next
    case 2
    from 1(1) [OF refl 2] t show ?thesis by (auto dest: set_dropWhileD)
  qed
qed

lemma join_points_set: "set (join_points sep ps) \<subseteq> set sep \<union> (\<Union>p \<in> set ps. set p)"
  by (induction sep ps rule: join_points.induct) auto

definition safe_point :: "nat \<Rightarrow> bool" where
  "safe_point c \<longleftrightarrow> \<not> is_unsafe_display_character c \<and> c \<notin> {47, 92, 58, 37, 64}"

definition safe_name :: "nat list \<Rightarrow> bool" where
  "safe_name s \<longleftrightarrow>
     s \<noteq> [] \<and> length s \<le> MAX_SAFE_NAME_BYTES \<and> (\<exists>ps. s = utf8_encode ps \<and> list_all safe_point ps)"

lemma fallback_safe: "safe_name (fallback_name v c)"
proof -
  have "list_all (\<lambda>p. safe_point p \<and> p < 128) (fallback_name v c) \<and> length (fallback_name v c) \<le> 128 \<and> fallback_name v c \<noteq> []"
    by (cases v; cases c; simp add: fallback_name_def points_def safe_point_def is_unsafe_display_character_def
        is_control_def)
  then have a: "\<forall>p \<in> set (fallback_name v c). safe_point p" "\<forall>p \<in> set (fallback_name v c). p < 128"
      and b: "length (fallback_name v c) \<le> 128" "fallback_name v c \<noteq> []"
    by (auto simp: list_all_iff)
  then show ?thesis
    unfolding safe_name_def MAX_SAFE_NAME_BYTES_def
    by (intro conjI exI [of _ "fallback_name v c"]) (simp_all add: encode_ascii list_all_iff)
qed

lemma normalized_points_safe:
  assumes "\<not> forbidden_name s" "p \<in> set (join_points [32] (split_whitespace s))"
  shows "safe_point p"
proof -
  from assms(2) have "p = 32 \<or> p \<in> set s"
    using join_points_set [of "[32]" "split_whitespace s"] split_whitespace_set [of _ s] by auto
  moreover have "safe_point 32"
    by (simp add: safe_point_def is_unsafe_display_character_def is_control_def)
  moreover have "\<forall>q \<in> set s. \<not> is_unsafe_display_character q" "\<forall>q \<in> {47, 92, 58, 37, 64}. q \<notin> set s"
    using assms(1) unfolding forbidden_name_def list_ex_iff by simp_all
  ultimately show ?thesis unfolding safe_point_def by auto
qed

lemma from_candidate_safe:
  assumes "from_candidate candidate v c = Inr name"
  shows "safe_name name"
proof -
  define decoded where "decoded = from_utf8_lossy (map unat candidate)"
  define ps where "ps = join_points [32] (split_whitespace decoded)"
  have safe: "list_all safe_point ps" if "\<not> forbidden_name decoded"
    using normalized_points_safe [OF that] by (simp add: ps_def list_all_iff)
  define n where "n = floor_boundary (utf8_encode ps) MAX_SAFE_NAME_BYTES"
  have n: "n \<le> MAX_SAFE_NAME_BYTES" "is_char_boundary (utf8_encode ps) n"
    by (simp_all add: n_def floor_boundary_le floor_boundary_is)
  consider "name = fallback_name v c"
    | "\<not> forbidden_name decoded" "name = utf8_encode ps" "name \<noteq> []" "length name \<le> MAX_SAFE_NAME_BYTES"
    | "\<not> forbidden_name decoded" "name = take n (utf8_encode ps)" "name \<noteq> []"
      "MAX_SAFE_NAME_BYTES < length (utf8_encode ps)"
    using assms unfolding from_candidate_def Let_def decoded_def [symmetric] ps_def [symmetric] n_def [symmetric]
    by (auto split: if_splits)
  then show ?thesis
  proof cases
    case 1
    then show ?thesis by (simp add: fallback_safe)
  next
    case 2
    then show ?thesis using safe by (auto simp: safe_name_def)
  next
    case 3
    have "n \<le> length (utf8_encode ps)" using 3(4) n(1) by simp
    then obtain k where "take n (utf8_encode ps) = utf8_encode (take k ps)"
      using encode_boundary n(2) by blast
    moreover have "list_all safe_point (take k ps)"
      using safe [OF 3(1)] by (auto simp: list_all_iff dest: in_set_takeD)
    moreover have "length name \<le> MAX_SAFE_NAME_BYTES" using 3(2) n(1) by simp
    ultimately show ?thesis using 3(2,3) by (auto simp: safe_name_def)
  qed
qed

lemma safe_name_bytes:
  assumes "safe_name s" "b \<in> set s" "b < 128"
  shows "safe_point b"
proof -
  obtain ps where ps: "s = utf8_encode ps" "\<forall>p \<in> set ps. safe_point p"
    using assms(1) by (auto simp: safe_name_def list_all_iff)
  then obtain p where "p \<in> set ps" "b \<in> set (utf8_encode_char p)"
    using assms(2) by (auto simp: utf8_encode_def)
  then show ?thesis using ps(2) encode_char_ascii [OF _ assms(3)] by blast
qed

section \<open>Normalised devices are unambiguous\<close>

definition device_of ::
  "(platform_tag \<Rightarrow> bytes \<Rightarrow> (device_error, device_id) result) \<Rightarrow> digest_api \<Rightarrow> bytes \<Rightarrow> platform_device \<Rightarrow>
   transcoding_device option" where
  "device_of derive_id dg run_epoch r =
     (case (derive_id (pd_platform r) (pd_identity r),
            derive_driver_identity dg (pd_platform r) (pd_driver r) run_epoch,
            from_candidate (pd_display_name r) (pd_vendor r) (pd_class r)) of
        (Inr i, Inr d, Inr n) \<Rightarrow>
          Some \<lparr>td_id = i, td_display_name = n, td_vendor = pd_vendor r, td_class = pd_class r,
                td_availability = pd_availability r, td_backends = set (pd_backends r),
                td_identity = pd_identity r, td_locator = pd_locator r, td_driver_identity = d\<rparr>
      | _ \<Rightarrow> None)"

definition concrete_locators :: "platform_device list \<Rightarrow> device_locator list" where
  "concrete_locators rs = filter is_concrete (map pd_locator rs)"

definition private_identities :: "platform_device list \<Rightarrow> (platform_tag \<times> bytes) list" where
  "private_identities rs = map (\<lambda>r. (pd_platform r, pd_identity r)) rs"

lemma normalize_loop_iff:
  "normalize_loop derive_id dg run_epoch I L P rs = Inr ds \<longleftrightarrow>
     map (device_of derive_id dg run_epoch) rs = map Some ds \<and>
     distinct (private_identities rs) \<and> set (private_identities rs) \<inter> I = {} \<and>
     distinct (concrete_locators rs) \<and> set (concrete_locators rs) \<inter> L = {} \<and>
     distinct (map td_id ds) \<and> td_id ` set ds \<inter> P = {}"
proof (induction rs arbitrary: I L P ds)
  case Nil
  then show ?case by (auto simp: private_identities_def concrete_locators_def)
next
  case (Cons r rs)
  show ?case
  proof (cases "derive_id (pd_platform r) (pd_identity r)")
    case (Inl e)
    then show ?thesis by (auto simp: device_of_def)
  next
    case i: (Inr i)
    show ?thesis
    proof (cases "derive_driver_identity dg (pd_platform r) (pd_driver r) run_epoch")
      case (Inl e)
      then show ?thesis by (auto simp: device_of_def i)
    next
      case d: (Inr d)
      show ?thesis
      proof (cases "from_candidate (pd_display_name r) (pd_vendor r) (pd_class r)")
        case (Inl e)
        then show ?thesis by (auto simp: device_of_def i d)
      next
        case n: (Inr n)
        let ?d = "\<lparr>td_id = i, td_display_name = n, td_vendor = pd_vendor r, td_class = pd_class r,
                td_availability = pd_availability r, td_backends = set (pd_backends r),
                td_identity = pd_identity r, td_locator = pd_locator r, td_driver_identity = d\<rparr>"
        have "normalize_loop derive_id dg run_epoch I L P (r # rs) = Inr ds \<longleftrightarrow>
            (pd_platform r, pd_identity r) \<notin> I \<and> (is_concrete (pd_locator r) \<longrightarrow> pd_locator r \<notin> L) \<and> i \<notin> P \<and>
            (\<exists>ds'. normalize_loop derive_id dg run_epoch (insert (pd_platform r, pd_identity r) I)
               (if is_concrete (pd_locator r) then insert (pd_locator r) L else L) (insert i P) rs = Inr ds' \<and>
               ds = ?d # ds')"
          by (auto simp: i d n rbind_Inr_iff)
        moreover have "device_of derive_id dg run_epoch r = Some ?d" by (simp add: device_of_def i d n)
        ultimately show ?thesis
          by (cases ds) (auto simp: Cons.IH private_identities_def concrete_locators_def)
      qed
    qed
  qed
qed

lemma map_eq_map_Some: "map f xs = map Some ys \<longleftrightarrow> list_all2 (\<lambda>x y. f x = Some y) xs ys"
proof (induction xs arbitrary: ys)
  case Nil
  then show ?case by (cases ys) simp_all
next
  case (Cons x xs)
  then show ?case by (cases ys) simp_all
qed

lemma normalize_loop_start:
  "normalize_loop derive_id dg run_epoch {} {} {} records = Inr ds \<longleftrightarrow>
     map (device_of derive_id dg run_epoch) records = map Some ds \<and> distinct (private_identities records) \<and>
     distinct (concrete_locators records) \<and> distinct (map td_id ds)"
  by (auto simp: normalize_loop_iff)

lemma map_Some_the: "map f xs = map Some ys \<longleftrightarrow> None \<notin> f ` set xs \<and> ys = map (\<lambda>x. the (f x)) xs"
proof
  assume m: "map f xs = map Some ys"
  then have "f ` set xs = Some ` set ys" by (metis list.set_map)
  moreover have "ys = map the (map f xs)" unfolding m by (simp add: comp_def)
  ultimately show "None \<notin> f ` set xs \<and> ys = map (\<lambda>x. the (f x)) xs" by (auto simp: comp_def)
next
  assume a: "None \<notin> f ` set xs \<and> ys = map (\<lambda>x. the (f x)) xs"
  then have "f x = Some (the (f x))" if "x \<in> set xs" for x using that by (metis imageI option.collapse)
  then show "map f xs = map Some ys" using a by simp
qed

lemma normalize_using_Inr:
  "normalize_platform_records_using records derive_id dg run_epoch = Inr ds \<longleftrightarrow>
     length records \<le> MAX_RAW_DEVICES \<and>
     (\<exists>size \<le> MAX_AGGREGATE_INPUT_BYTES. aggregate_size 0 records = Inr size) \<and>
     (\<exists>ds0. normalize_loop derive_id dg run_epoch {} {} {} records = Inr ds0 \<and> ds = sort_key td_id ds0)"
  by (auto simp: normalize_platform_records_using_def rbind_Inr_iff not_less split: if_splits)

lemma normalize_accepts_iff:
  "(\<exists>ds. normalize_platform_records_using records derive_id dg run_epoch = Inr ds) \<longleftrightarrow>
      length records \<le> MAX_RAW_DEVICES \<and>
      (\<exists>size \<le> MAX_AGGREGATE_INPUT_BYTES. aggregate_size 0 records = Inr size) \<and>
      distinct (private_identities records) \<and> distinct (concrete_locators records) \<and>
      None \<notin> device_of derive_id dg run_epoch ` set records \<and>
      distinct (map (\<lambda>r. td_id (the (device_of derive_id dg run_epoch r))) records)"
proof -
  have "(\<exists>ds. normalize_loop derive_id dg run_epoch {} {} {} records = Inr ds) \<longleftrightarrow>
      distinct (private_identities records) \<and> distinct (concrete_locators records) \<and>
      None \<notin> device_of derive_id dg run_epoch ` set records \<and>
      distinct (map (\<lambda>r. td_id (the (device_of derive_id dg run_epoch r))) records)"
    unfolding normalize_loop_start map_Some_the by (simp add: comp_def) blast
  then show ?thesis unfolding normalize_using_Inr by blast
qed

lemma normalize_using_devices:
  assumes "normalize_platform_records_using records derive_id dg run_epoch = Inr ds"
  shows "length ds = length records" "sorted_wrt (<) (map td_id ds)"
    "Some ` set ds = device_of derive_id dg run_epoch ` set records"
    "d \<in> set ds \<Longrightarrow> safe_name (td_display_name d)"
proof -
  obtain ds0 where m: "map (device_of derive_id dg run_epoch) records = map Some ds0"
    and dis: "distinct (map td_id ds0)" and ds: "ds = sort_key td_id ds0"
    using assms unfolding normalize_using_Inr normalize_loop_start by blast
  show same: "Some ` set ds = device_of derive_id dg run_epoch ` set records"
    using m ds by (metis list.set_map set_sort)
  have "distinct (map td_id ds)" using dis by (simp add: ds distinct_map)
  then show "sorted_wrt (<) (map td_id ds)"
    using sorted_sort_key [of td_id ds0] by (simp add: ds strict_sorted_iff)
  show "length ds = length records" using m ds by (metis length_map length_sort)
  assume "d \<in> set ds"
  then obtain r where "device_of derive_id dg run_epoch r = Some d" using same by (metis image_iff)
  then show "safe_name (td_display_name d)"
    unfolding device_of_def by (auto intro: from_candidate_safe split: sum.splits)
qed

text \<open>
  Property C35.  Normalisation accepts exactly the records within the bounds of which no two share
  a private identity, a concrete locator or a public identifier and whose identities and names can
  be derived; it then returns one device per record, sorted strictly by public identifier, and each
  device has the derived identities, the backends of its record and a safe display name.
\<close>

theorem normalized_devices_are_unambiguous:
  "((\<exists>ds. normalize_platform_records_using records derive_id dg run_epoch = Inr ds) \<longleftrightarrow>
      length records \<le> MAX_RAW_DEVICES \<and>
      (\<exists>size \<le> MAX_AGGREGATE_INPUT_BYTES. aggregate_size 0 records = Inr size) \<and>
      distinct (private_identities records) \<and> distinct (concrete_locators records) \<and>
      None \<notin> device_of derive_id dg run_epoch ` set records \<and>
      distinct (map (\<lambda>r. td_id (the (device_of derive_id dg run_epoch r))) records)) \<and>
   (\<forall>ds. normalize_platform_records_using records derive_id dg run_epoch = Inr ds \<longrightarrow>
      length ds = length records \<and> sorted_wrt (<) (map td_id ds) \<and>
      Some ` set ds = device_of derive_id dg run_epoch ` set records \<and>
      (\<forall>d \<in> set ds. safe_name (td_display_name d)))"
  by (intro conjI allI impI ballI normalize_accepts_iff) (erule (1) normalize_using_devices | erule normalize_using_devices)+

definition sample_gpu :: platform_device where
  "sample_gpu = \<lparr>pd_platform = PlatformLinux, pd_display_name = as_bytes ''GPU  7'', pd_vendor = Amd,
     pd_class = Discrete, pd_availability = Available, pd_identity = [1], pd_locator = LocUnavailable,
     pd_driver = DriverIncomplete, pd_backends = [Vaapi]\<rparr>"

lemma sample_gpu_name: "from_candidate (as_bytes ''GPU  7'') Amd Discrete = Inr (points ''GPU 7'')"
  by (simp add: from_candidate_def as_bytes_def MAX_PRIVATE_INPUT_BYTES_def from_utf8_lossy.simps utf8_char_def
      byte_at_def forbidden_name_def points_def is_unsafe_display_character_def is_control_def
      ascii_lowercase_point_def split_whitespace.simps is_whitespace_def utf8_encode_def utf8_encode_char_def
      MAX_SAFE_NAME_BYTES_def)

lemma sample_gpu_normalized:
  "normalize_platform_records_using [sample_gpu] (\<lambda>_ _. Inr ''gpu1_x'') identity_digest [9] =
     Inr [\<lparr>td_id = ''gpu1_x'', td_display_name = points ''GPU 7'', td_vendor = Amd, td_class = Discrete,
           td_availability = Available, td_backends = {Vaapi}, td_identity = [1], td_locator = LocUnavailable,
           td_driver_identity = \<lparr>di_digest = [9], di_persistable = False\<rparr>\<rparr>]"
proof -
  have "aggregate_size 0 [sample_gpu] = Inr 8"
    by (simp add: sample_gpu_def validate_record_size_def MAX_PRIVATE_INPUT_BYTES_def checked_add_u64_def as_bytes_def)
  moreover have "normalize_loop (\<lambda>_ _. Inr ''gpu1_x'') identity_digest [9] {} {} {} [sample_gpu] =
     Inr [\<lparr>td_id = ''gpu1_x'', td_display_name = points ''GPU 7'', td_vendor = Amd, td_class = Discrete,
           td_availability = Available, td_backends = {Vaapi}, td_identity = [1], td_locator = LocUnavailable,
           td_driver_identity = \<lparr>di_digest = [9], di_persistable = False\<rparr>\<rparr>]"
    by (simp add: sample_gpu_def sample_gpu_name is_concrete_def)
  ultimately show ?thesis
    by (simp add: normalize_platform_records_using_def MAX_RAW_DEVICES_def MAX_AGGREGATE_INPUT_BYTES_def)
qed

theorem normalized_devices_are_unambiguous_witness:
  "safe_name (points ''GPU 7'')"
  using normalized_devices_are_unambiguous [of "[sample_gpu]" "\<lambda>_ _. Inr ''gpu1_x''" identity_digest "[9]"]
  by (simp add: sample_gpu_normalized)

end
