(* ===== verification/CapabilityKey.thy ===== *)
theory CapabilityKey
  imports Inventory
begin

text \<open>
  The key of a capability (\<open>server/src/transcoding/capability/key.rs\<close>): the finite signatures
  of input and output video, the requirements of a pipeline, the constructors with their
  validation, the prerequisites a key asks of a runtime, and its persisted form.

  Lists of requirements are kept sorted; their order is the order of the variants.  The requirement
  lists of the stored form pass a deserialiser with a bound, \<open>deserialize_requirement_items\<close>.
  A source digest is a list of 32 bytes.  \<open>listed_input_codec\<close> returns \<open>None\<close> where the code is
  \<open>unreachable!\<close>.

  Shown here: whatever the constructors return is valid and its prerequisites never reach the
  \<open>unreachable!\<close>; the buckets are monotone and tight; a key is stored exactly when it is valid,
  its driver identity is stable and it is not a copy, and then it is read back as itself; and
  whatever is read back is valid and would be stored as the same record.
\<close>

section \<open>Signatures\<close>

definition CURRENT_SCHEMA_VERSION :: nat where "CURRENT_SCHEMA_VERSION = 1"
definition CURRENT_EVIDENCE_VERSION :: nat where "CURRENT_EVIDENCE_VERSION = 1"
definition MAX_REQUIREMENT_ITEMS :: nat where "MAX_REQUIREMENT_ITEMS = 16"

datatype capability_direction =
  DirDecode | DirEncode | DirFullPipeline | DirSegmentedPipeline | DirCopyRemux

record key_versions =
  kv_schema :: nat
  kv_evidence :: nat
  kv_recipe :: nat

definition for_direction :: "capability_direction \<Rightarrow> key_versions" where
  "for_direction d =
     \<lparr>kv_schema = CURRENT_SCHEMA_VERSION, kv_evidence = CURRENT_EVIDENCE_VERSION,
      kv_recipe = (case d of DirDecode \<Rightarrow> 1 | DirEncode \<Rightarrow> 2 | DirFullPipeline \<Rightarrow> 3
                   | DirSegmentedPipeline \<Rightarrow> 4 | DirCopyRemux \<Rightarrow> 5)\<rparr>"

datatype key_error =
    InconsistentSegmentation | InvalidDirectionFields | NonFiniteSignature | TooManyRequirements
  | UnsupportedDimension | UnsupportedFrameRate

datatype bit_depth = Eight | Ten | Twelve

fun bit_depth_value :: "bit_depth \<Rightarrow> nat" where
  "bit_depth_value Eight = 8"
| "bit_depth_value Ten = 10"
| "bit_depth_value Twelve = 12"

datatype codec_level =
    L20 | L21 | L30 | L31 | L40 | L41 | L42 | L50 | L51 | L52 | L60 | L61 | L62
  | Mpeg2Low | Mpeg2MainLevel | Mpeg2High1440 | Mpeg2High | Vc1Low | Vc1Medium | Vc1High

datatype hdr_mode = Sdr | Hdr10 | Hlg | DolbyVision

datatype dimension_bucket =
    UpTo480 | UpTo576 | UpTo640 | UpTo720 | UpTo1080 | UpTo1280 | UpTo1440 | UpTo1920 | UpTo2160
  | UpTo2560 | UpTo3840 | UpTo4096 | UpTo4320 | UpTo7680 | UpTo8192

definition from_dimension :: "u32 \<Rightarrow> (key_error, dimension_bucket) result" where
  "from_dimension v =
     (if v = 0 then Inl UnsupportedDimension
      else if v \<le> 480 then Inr UpTo480
      else if v \<le> 576 then Inr UpTo576
      else if v \<le> 640 then Inr UpTo640
      else if v \<le> 720 then Inr UpTo720
      else if v \<le> 1080 then Inr UpTo1080
      else if v \<le> 1280 then Inr UpTo1280
      else if v \<le> 1440 then Inr UpTo1440
      else if v \<le> 1920 then Inr UpTo1920
      else if v \<le> 2160 then Inr UpTo2160
      else if v \<le> 2560 then Inr UpTo2560
      else if v \<le> 3840 then Inr UpTo3840
      else if v \<le> 4096 then Inr UpTo4096
      else if v \<le> 4320 then Inr UpTo4320
      else if v \<le> 7680 then Inr UpTo7680
      else if v \<le> 8192 then Inr UpTo8192
      else Inl UnsupportedDimension)"

record resolution_bucket =
  rb_width :: dimension_bucket
  rb_height :: dimension_bucket

definition from_coded_dimensions :: "u32 \<Rightarrow> u32 \<Rightarrow> (key_error, resolution_bucket) result" where
  "from_coded_dimensions w h =
     rbind (from_dimension w) (\<lambda>bw. rbind (from_dimension h) (\<lambda>bh.
       Inr \<lparr>rb_width = bw, rb_height = bh\<rparr>))"

datatype frame_rate_bucket =
  Fr24 | Fr25 | Fr30 | Fr50 | Fr60 | Fr120 | Fr144 | Fr240

definition frame_rate_limits :: "(u32 \<times> frame_rate_bucket) list" where
  "frame_rate_limits = [(24, Fr24), (25, Fr25), (30, Fr30), (50, Fr50), (60, Fr60), (120, Fr120),
     (144, Fr144), (240, Fr240)]"

fun first_bucket :: "rational_rate \<Rightarrow> (u32 \<times> frame_rate_bucket) list \<Rightarrow> (key_error, frame_rate_bucket) result" where
  "first_bucket rate [] = Inl UnsupportedFrameRate"
| "first_bucket rate ((limit, bucket) # rest) =
     (if rate_numerator rate \<le> limit * rate_denominator rate then Inr bucket else first_bucket rate rest)"

definition from_rate :: "rational_rate \<Rightarrow> (key_error, frame_rate_bucket) result" where
  "from_rate rate = first_bucket rate frame_rate_limits"

datatype required_transform =
  TfScale | TfDeinterlace | TfRotate90 | TfRotate180 | TfRotate270 | TfToneMap | TfSubtitleBurnIn | TfPixelFormat

datatype required_transfer = TrUpload | TrDownload | TrHardwareMap

datatype required_filter =
  FlFormat | FlScale | FlDeinterlace | FlToneMap | FlSubtitles | FlHardwareUpload | FlHardwareDownload | FlHardwareMap

datatype output_container = MpegTsHls | Fmp4Hls | MpegTsStream | CtMatroska | CtMovMp4

instantiation required_transform :: linorder
begin

fun transform_rank :: "required_transform \<Rightarrow> nat" where
  "transform_rank TfScale = 0"
| "transform_rank TfDeinterlace = 1"
| "transform_rank TfRotate90 = 2"
| "transform_rank TfRotate180 = 3"
| "transform_rank TfRotate270 = 4"
| "transform_rank TfToneMap = 5"
| "transform_rank TfSubtitleBurnIn = 6"
| "transform_rank TfPixelFormat = 7"

definition less_eq_required_transform :: "required_transform \<Rightarrow> required_transform \<Rightarrow> bool" where
  "less_eq_required_transform a b \<longleftrightarrow> transform_rank a \<le> transform_rank b"

definition less_required_transform :: "required_transform \<Rightarrow> required_transform \<Rightarrow> bool" where
  "less_required_transform a b \<longleftrightarrow> transform_rank a < transform_rank b"

instance
proof
  fix a b :: required_transform
  show "a \<le> b \<Longrightarrow> b \<le> a \<Longrightarrow> a = b"
    by (cases a; cases b) (simp_all add: less_eq_required_transform_def)
qed (auto simp: less_eq_required_transform_def less_required_transform_def)

end

instantiation required_transfer :: linorder
begin

fun transfer_rank :: "required_transfer \<Rightarrow> nat" where
  "transfer_rank TrUpload = 0"
| "transfer_rank TrDownload = 1"
| "transfer_rank TrHardwareMap = 2"

definition less_eq_required_transfer :: "required_transfer \<Rightarrow> required_transfer \<Rightarrow> bool" where
  "less_eq_required_transfer a b \<longleftrightarrow> transfer_rank a \<le> transfer_rank b"

definition less_required_transfer :: "required_transfer \<Rightarrow> required_transfer \<Rightarrow> bool" where
  "less_required_transfer a b \<longleftrightarrow> transfer_rank a < transfer_rank b"

instance
proof
  fix a b :: required_transfer
  show "a \<le> b \<Longrightarrow> b \<le> a \<Longrightarrow> a = b"
    by (cases a; cases b) (simp_all add: less_eq_required_transfer_def)
qed (auto simp: less_eq_required_transfer_def less_required_transfer_def)

end

instantiation required_filter :: linorder
begin

fun filter_rank :: "required_filter \<Rightarrow> nat" where
  "filter_rank FlFormat = 0"
| "filter_rank FlScale = 1"
| "filter_rank FlDeinterlace = 2"
| "filter_rank FlToneMap = 3"
| "filter_rank FlSubtitles = 4"
| "filter_rank FlHardwareUpload = 5"
| "filter_rank FlHardwareDownload = 6"
| "filter_rank FlHardwareMap = 7"

definition less_eq_required_filter :: "required_filter \<Rightarrow> required_filter \<Rightarrow> bool" where
  "less_eq_required_filter a b \<longleftrightarrow> filter_rank a \<le> filter_rank b"

definition less_required_filter :: "required_filter \<Rightarrow> required_filter \<Rightarrow> bool" where
  "less_required_filter a b \<longleftrightarrow> filter_rank a < filter_rank b"

instance
proof
  fix a b :: required_filter
  show "a \<le> b \<Longrightarrow> b \<le> a \<Longrightarrow> a = b"
    by (cases a; cases b) (simp_all add: less_eq_required_filter_def)
qed (auto simp: less_eq_required_filter_def less_required_filter_def)

end

record color_signature =
  cs_range :: color_range
  cs_primaries :: color_primaries
  cs_transfer :: color_transfer
  cs_matrix :: color_matrix
  cs_hdr :: hdr_mode

definition validate_color :: "color_signature \<Rightarrow> (key_error, unit) result" where
  "validate_color c =
     (if cs_range c = RangeOtherProbed \<or> cs_primaries c = PrimOtherProbed \<or>
         cs_transfer c = TransOtherProbed \<or> cs_matrix c = MatOtherProbed
      then Inl NonFiniteSignature else Inr ())"

definition color_signature_new ::
  "color_range \<Rightarrow> color_primaries \<Rightarrow> color_transfer \<Rightarrow> color_matrix \<Rightarrow> hdr_mode \<Rightarrow>
   (key_error, color_signature) result" where
  "color_signature_new rng primaries transfer mtrx hdr =
     (if rng = RangeOtherProbed \<or> primaries = PrimOtherProbed \<or> transfer = TransOtherProbed \<or>
         mtrx = MatOtherProbed
      then Inl NonFiniteSignature
      else Inr \<lparr>cs_range = rng, cs_primaries = primaries, cs_transfer = transfer,
                cs_matrix = mtrx, cs_hdr = hdr\<rparr>)"

record input_signature =
  is_codec :: input_video_codec
  is_profile :: video_profile
  is_level :: codec_level
  is_pixel_format :: pixel_format
  is_bit_depth :: bit_depth
  is_chroma :: chroma_subsampling
  is_color :: color_signature
  is_field_order :: field_order
  is_resolution :: resolution_bucket
  is_frame_rate :: frame_rate_bucket
  is_frame_rate_class :: frame_rate_class

record output_signature =
  os_codec :: output_video_codec
  os_profile :: video_profile
  os_level :: codec_level
  os_pixel_format :: pixel_format
  os_bit_depth :: bit_depth
  os_chroma :: chroma_subsampling
  os_color :: color_signature
  os_resolution :: resolution_bucket
  os_frame_rate :: frame_rate_bucket
  os_frame_rate_class :: frame_rate_class

definition numeric_level :: "codec_level \<Rightarrow> bool" where
  "numeric_level l \<longleftrightarrow> l \<in> {L20, L21, L30, L31, L40, L41, L42, L50, L51, L52, L60, L61, L62}"

definition input_level_matches :: "input_video_codec \<Rightarrow> codec_level \<Rightarrow> bool" where
  "input_level_matches codec level =
     (case codec of
        InMpeg2 \<Rightarrow> level \<in> {Mpeg2Low, Mpeg2MainLevel, Mpeg2High1440, Mpeg2High}
      | InVc1 \<Rightarrow> level \<in> {Vc1Low, Vc1Medium, Vc1High}
      | InOtherProbed \<Rightarrow> False
      | _ \<Rightarrow> numeric_level level)"

definition output_level_matches :: "output_video_codec \<Rightarrow> codec_level \<Rightarrow> bool" where
  "output_level_matches codec level \<longleftrightarrow> codec \<in> {OutH264, OutHevc, OutAv1} \<and> numeric_level level"

definition profile_depth_matches :: "video_profile \<Rightarrow> bit_depth \<Rightarrow> bool" where
  "profile_depth_matches p d =
     (if p \<in> {H264Baseline, H264Main, H264High, HevcMain, Vp9Profile0, Mpeg2Main, Vc1Advanced}
      then d = Eight
      else if p \<in> {H264High10, HevcMain10} then d = Ten
      else if p = Av1Main then d \<in> {Eight, Ten, Twelve}
      else if p = Vp9Profile2 then d \<in> {Ten, Twelve}
      else False)"

definition input_profile_matches :: "input_video_codec \<Rightarrow> video_profile \<Rightarrow> bool" where
  "input_profile_matches codec p \<longleftrightarrow>
     (codec = InH264 \<and> p \<in> {H264Baseline, H264Main, H264High, H264High10}) \<or>
     (codec = InHevc \<and> p \<in> {HevcMain, HevcMain10}) \<or> (codec = InAv1 \<and> p = Av1Main) \<or>
     (codec = InVp9 \<and> p \<in> {Vp9Profile0, Vp9Profile2}) \<or> (codec = InMpeg2 \<and> p = Mpeg2Main) \<or>
     (codec = InVc1 \<and> p = Vc1Advanced)"

definition output_profile_matches :: "output_video_codec \<Rightarrow> video_profile \<Rightarrow> bool" where
  "output_profile_matches codec p \<longleftrightarrow>
     (codec = OutH264 \<and> p \<in> {H264Baseline, H264Main, H264High, H264High10}) \<or>
     (codec = OutHevc \<and> p \<in> {HevcMain, HevcMain10}) \<or> (codec = OutAv1 \<and> p = Av1Main)"

definition pixel_matches :: "pixel_format \<Rightarrow> bit_depth \<Rightarrow> chroma_subsampling \<Rightarrow> bool" where
  "pixel_matches px d ch \<longleftrightarrow>
     inferred_bit_depth px = Some (bit_depth_value d) \<and> chroma_of px = ch \<and> ch \<noteq> ChromaUnknown"

definition validate_input_video ::
  "input_video_codec \<Rightarrow> video_profile \<Rightarrow> codec_level \<Rightarrow> pixel_format \<Rightarrow> bit_depth \<Rightarrow>
   chroma_subsampling \<Rightarrow> (key_error, unit) result" where
  "validate_input_video codec profile level px depth chroma =
     (if codec = InOtherProbed \<or> \<not> input_profile_matches codec profile \<or>
         \<not> input_level_matches codec level \<or> \<not> profile_depth_matches profile depth \<or>
         \<not> pixel_matches px depth chroma
      then Inl NonFiniteSignature else Inr ())"

definition validate_output_video ::
  "output_video_codec \<Rightarrow> video_profile \<Rightarrow> codec_level \<Rightarrow> pixel_format \<Rightarrow> bit_depth \<Rightarrow>
   chroma_subsampling \<Rightarrow> (key_error, unit) result" where
  "validate_output_video codec profile level px depth chroma =
     (if \<not> output_profile_matches codec profile \<or> \<not> output_level_matches codec level \<or>
         \<not> profile_depth_matches profile depth \<or> \<not> pixel_matches px depth chroma
      then Inl NonFiniteSignature else Inr ())"

definition input_signature_new :: "input_signature \<Rightarrow> (key_error, input_signature) result" where
  "input_signature_new s =
     rbind (validate_input_video (is_codec s) (is_profile s) (is_level s) (is_pixel_format s)
              (is_bit_depth s) (is_chroma s)) (\<lambda>_. Inr s)"

definition output_signature_new :: "output_signature \<Rightarrow> (key_error, output_signature) result" where
  "output_signature_new s =
     rbind (validate_output_video (os_codec s) (os_profile s) (os_level s) (os_pixel_format s)
              (os_bit_depth s) (os_chroma s)) (\<lambda>_. Inr s)"

section \<open>Requirements and contracts\<close>

record pipeline_requirements =
  pq_transforms :: "required_transform list"
  pq_transfers :: "required_transfer list"
  pq_filters :: "required_filter list"
  pq_container :: "output_container option"
  pq_output_time_base :: "rational_rate option"

text \<open>The visitor of the stored lists: items are read until the bound, then one more is an error.\<close>

fun visit_seq :: "nat \<Rightarrow> 'a option list \<Rightarrow> 'a list option" where
  "visit_seq room [] = Some []"
| "visit_seq 0 (x # xs) = None"
| "visit_seq (Suc room) (None # xs) = None"
| "visit_seq (Suc room) (Some a # xs) = map_option (Cons a) (visit_seq room xs)"

definition deserialize_requirement_items :: "nat option \<Rightarrow> 'a option list \<Rightarrow> 'a list option" where
  "deserialize_requirement_items size_hint items =
     (if is_some_and (\<lambda>hint. hint > MAX_REQUIREMENT_ITEMS) size_hint then None
      else visit_seq MAX_REQUIREMENT_ITEMS items)"

definition canonical_requirements :: "'a::linorder list \<Rightarrow> (key_error, 'a list) result" where
  "canonical_requirements xs =
     (let vs = remdups_adj (sort xs)
      in if length vs > MAX_REQUIREMENT_ITEMS then Inl TooManyRequirements else Inr vs)"

definition requirements_new ::
  "required_transform list \<Rightarrow> required_transfer list \<Rightarrow> required_filter list \<Rightarrow> output_container option \<Rightarrow>
   rational_rate option \<Rightarrow> (key_error, pipeline_requirements) result" where
  "requirements_new transforms transfers fls container output_time_base =
     rbind (canonical_requirements transforms) (\<lambda>tfs.
     rbind (canonical_requirements transfers) (\<lambda>trs.
     rbind (canonical_requirements fls) (\<lambda>fs.
       Inr \<lparr>pq_transforms = tfs, pq_transfers = trs, pq_filters = fs, pq_container = container,
            pq_output_time_base = output_time_base\<rparr>)))"

definition ascending :: "'a::linorder list \<Rightarrow> bool" where
  "ascending xs \<longleftrightarrow> \<not> list_ex (\<lambda>(a, b). a \<ge> b) (zip xs (tl xs))"

definition transform_filters :: "(required_transform \<times> required_filter) list" where
  "transform_filters =
     [(TfScale, FlScale), (TfDeinterlace, FlDeinterlace), (TfToneMap, FlToneMap),
      (TfSubtitleBurnIn, FlSubtitles), (TfPixelFormat, FlFormat)]"

definition transfer_filters :: "(required_transfer \<times> required_filter) list" where
  "transfer_filters =
     [(TrUpload, FlHardwareUpload), (TrDownload, FlHardwareDownload), (TrHardwareMap, FlHardwareMap)]"

definition validate_requirements :: "pipeline_requirements \<Rightarrow> (key_error, unit) result" where
  "validate_requirements q =
     (if length (pq_transforms q) > MAX_REQUIREMENT_ITEMS \<or> length (pq_transfers q) > MAX_REQUIREMENT_ITEMS \<or>
         length (pq_filters q) > MAX_REQUIREMENT_ITEMS \<or> \<not> ascending (pq_transforms q) \<or>
         \<not> ascending (pq_transfers q) \<or> \<not> ascending (pq_filters q)
      then Inl NonFiniteSignature
      else if list_ex (\<lambda>(t, f). t \<in> set (pq_transforms q) \<and> f \<notin> set (pq_filters q)) transform_filters
      then Inl InvalidDirectionFields
      else if list_ex (\<lambda>(t, f). t \<in> set (pq_transfers q) \<and> f \<notin> set (pq_filters q)) transfer_filters
      then Inl InvalidDirectionFields
      else Inr ())"

record segmentation_contract =
  sg_exact_frame_rate :: rational_rate
  sg_frame_rate_class :: frame_rate_class
  sg_segment_duration_ms :: u32
  sg_output_time_base :: rational_rate
  sg_keyframe_strategy :: keyframe_strategy

definition segmentation_consistent :: "keyframe_strategy \<Rightarrow> u32 \<Rightarrow> bool" where
  "segmentation_consistent k duration =
     (case k of TimeForced forced \<Rightarrow> forced = duration | FixedGop _ \<Rightarrow> True)"

definition segmentation_new ::
  "rational_rate \<Rightarrow> frame_rate_class \<Rightarrow> u32 \<Rightarrow> rational_rate \<Rightarrow> keyframe_strategy \<Rightarrow>
   (key_error, segmentation_contract) result" where
  "segmentation_new exact_frame_rate cls duration output_time_base k =
     (if \<not> segmentation_consistent k duration then Inl InconsistentSegmentation
      else Inr \<lparr>sg_exact_frame_rate = exact_frame_rate, sg_frame_rate_class = cls,
                sg_segment_duration_ms = duration, sg_output_time_base = output_time_base,
                sg_keyframe_strategy = k\<rparr>)"

datatype boundary_algorithm = BoundaryV1 | BoundaryV2

record copy_remux_signature =
  cr_source_version :: u64
  cr_selected_streams :: bytes
  cr_source_signature :: bytes
  cr_source_codec :: input_video_codec
  cr_source_color :: color_signature
  cr_sample_entry :: sample_entry
  cr_container :: output_container
  cr_boundary_algorithm :: boundary_algorithm

definition copy_remux_signature_new :: "copy_remux_signature \<Rightarrow> (key_error, copy_remux_signature) result" where
  "copy_remux_signature_new s =
     (if cr_source_version s = 0 \<or> cr_source_codec s = InOtherProbed \<or> cr_sample_entry s = EntryOtherProbed
      then Inl NonFiniteSignature else Inr s)"

section \<open>The key\<close>

datatype capability_operation =
    OpDecode input_signature pipeline_requirements
  | OpEncode output_signature pipeline_requirements
  | OpFullPipeline input_signature output_signature pipeline_requirements
  | OpSegmentedPipeline input_signature output_signature pipeline_requirements segmentation_contract
  | OpCopyRemux copy_remux_signature

fun operation_direction :: "capability_operation \<Rightarrow> capability_direction" where
  "operation_direction (OpDecode _ _) = DirDecode"
| "operation_direction (OpEncode _ _) = DirEncode"
| "operation_direction (OpFullPipeline _ _ _) = DirFullPipeline"
| "operation_direction (OpSegmentedPipeline _ _ _ _) = DirSegmentedPipeline"
| "operation_direction (OpCopyRemux _) = DirCopyRemux"

definition validate_input_signature :: "input_signature \<Rightarrow> (key_error, unit) result" where
  "validate_input_signature s =
     validate_input_video (is_codec s) (is_profile s) (is_level s) (is_pixel_format s) (is_bit_depth s) (is_chroma s)"

definition validate_output_signature :: "output_signature \<Rightarrow> (key_error, unit) result" where
  "validate_output_signature s =
     validate_output_video (os_codec s) (os_profile s) (os_level s) (os_pixel_format s) (os_bit_depth s) (os_chroma s)"

definition encode_requirements ::
  "capability_direction \<Rightarrow> pipeline_requirements \<Rightarrow> (key_error, unit) result" where
  "encode_requirements direction q =
     rbind (validate_requirements q) (\<lambda>_.
       if pq_container q = None \<or> pq_output_time_base q = None then Inl InvalidDirectionFields
       else if direction = DirCopyRemux then Inl InvalidDirectionFields
       else Inr ())"

fun validate_operation :: "capability_direction \<Rightarrow> capability_operation \<Rightarrow> (key_error, unit) result" where
  "validate_operation direction (OpDecode input q) =
     rbind (validate_input_signature input) (\<lambda>_.
     rbind (validate_color (is_color input)) (\<lambda>_.
     rbind (validate_requirements q) (\<lambda>_.
       if pq_container q \<noteq> None \<or> pq_output_time_base q \<noteq> None then Inl InvalidDirectionFields else Inr ())))"
| "validate_operation direction (OpEncode output q) =
     rbind (validate_output_signature output) (\<lambda>_.
     rbind (validate_color (os_color output)) (\<lambda>_. encode_requirements direction q))"
| "validate_operation direction (OpFullPipeline input output q) =
     rbind (validate_input_signature input) (\<lambda>_.
     rbind (validate_output_signature output) (\<lambda>_.
     rbind (validate_color (is_color input)) (\<lambda>_.
     rbind (validate_color (os_color output)) (\<lambda>_. encode_requirements direction q))))"
| "validate_operation direction (OpSegmentedPipeline input output q seg) =
     rbind (validate_input_signature input) (\<lambda>_.
     rbind (validate_output_signature output) (\<lambda>_.
     rbind (validate_color (is_color input)) (\<lambda>_.
     rbind (validate_color (os_color output)) (\<lambda>_.
     rbind (validate_requirements q) (\<lambda>_.
       if pq_output_time_base q \<noteq> None \<or> pq_container q = None then Inl InvalidDirectionFields
       else if \<not> segmentation_consistent (sg_keyframe_strategy seg) (sg_segment_duration_ms seg)
       then Inl InconsistentSegmentation
       else Inr ())))))"
| "validate_operation direction (OpCopyRemux s) =
     (if cr_source_version s = 0 \<or> cr_source_codec s = InOtherProbed \<or> cr_sample_entry s = EntryOtherProbed
      then Inl NonFiniteSignature else validate_color (cr_source_color s))"

record capability_key =
  ck_versions :: key_versions
  ck_runtime :: runtime_evidence_id
  ck_device :: device_id
  ck_driver :: driver_identity
  ck_backend :: backend_kind
  ck_operation :: capability_operation

definition key_new ::
  "runtime_evidence_id \<Rightarrow> device_id \<Rightarrow> driver_identity \<Rightarrow> backend_kind \<Rightarrow> capability_operation \<Rightarrow>
   (key_error, capability_key) result" where
  "key_new runtime device driver backend op =
     (let direction = operation_direction op
      in rbind (validate_operation direction op) (\<lambda>_.
           Inr \<lparr>ck_versions = for_direction direction, ck_runtime = runtime, ck_device = device,
                ck_driver = driver, ck_backend = backend, ck_operation = op\<rparr>))"

definition key_decode where
  "key_decode runtime device driver backend input q = key_new runtime device driver backend (OpDecode input q)"

definition key_encode where
  "key_encode runtime device driver backend output q = key_new runtime device driver backend (OpEncode output q)"

definition key_full_pipeline where
  "key_full_pipeline runtime device driver backend input output q =
     key_new runtime device driver backend (OpFullPipeline input output q)"

definition key_segmented_pipeline where
  "key_segmented_pipeline runtime device driver backend input output q seg =
     key_new runtime device driver backend (OpSegmentedPipeline input output q seg)"

definition key_copy_remux where
  "key_copy_remux runtime device driver backend s = key_new runtime device driver backend (OpCopyRemux s)"

definition key_direction :: "capability_key \<Rightarrow> capability_direction" where
  "key_direction k = operation_direction (ck_operation k)"

definition key_is_valid :: "capability_key \<Rightarrow> bool" where
  "key_is_valid k \<longleftrightarrow>
     ck_versions k = for_direction (key_direction k) \<and>
     (case validate_operation (key_direction k) (ck_operation k) of Inr _ \<Rightarrow> True | Inl _ \<Rightarrow> False)"

fun listed_input_codec :: "input_video_codec \<Rightarrow> listed_codec option" where
  "listed_input_codec InH264 = Some ListedH264"
| "listed_input_codec InHevc = Some ListedHevc"
| "listed_input_codec InAv1 = Some ListedAv1"
| "listed_input_codec InVp9 = Some ListedVp9"
| "listed_input_codec InMpeg2 = Some ListedMpeg2"
| "listed_input_codec InVc1 = Some ListedVc1"
| "listed_input_codec InOtherProbed = None"

fun listed_output_codec :: "output_video_codec \<Rightarrow> listed_codec" where
  "listed_output_codec OutH264 = ListedH264"
| "listed_output_codec OutHevc = ListedHevc"
| "listed_output_codec OutAv1 = ListedAv1"

record static_prereqs =
  sp_decode :: "listed_codec option"
  sp_encode :: "listed_codec option"
  sp_requirements :: "pipeline_requirements option"

text \<open>\<open>None\<close> is the panic of \<open>listed_input_codec\<close>.\<close>

definition static_prerequisites :: "capability_key \<Rightarrow> static_prereqs option" where
  "static_prerequisites k =
     (case ck_operation k of
        OpDecode input q \<Rightarrow>
          map_option (\<lambda>c. \<lparr>sp_decode = Some c, sp_encode = None, sp_requirements = Some q\<rparr>)
            (listed_input_codec (is_codec input))
      | OpEncode output q \<Rightarrow>
          Some \<lparr>sp_decode = None, sp_encode = Some (listed_output_codec (os_codec output)),
                sp_requirements = Some q\<rparr>
      | OpFullPipeline input output q \<Rightarrow>
          map_option (\<lambda>c. \<lparr>sp_decode = Some c, sp_encode = Some (listed_output_codec (os_codec output)),
                           sp_requirements = Some q\<rparr>) (listed_input_codec (is_codec input))
      | OpSegmentedPipeline input output q seg \<Rightarrow>
          map_option (\<lambda>c. \<lparr>sp_decode = Some c, sp_encode = Some (listed_output_codec (os_codec output)),
                           sp_requirements = Some q\<rparr>) (listed_input_codec (is_codec input))
      | OpCopyRemux s \<Rightarrow> Some \<lparr>sp_decode = None, sp_encode = None, sp_requirements = None\<rparr>)"

record safe_key_view =
  skv_device :: device_id
  skv_backend :: backend_kind
  skv_direction :: capability_direction
  skv_input :: "input_signature option"
  skv_output :: "output_signature option"
  skv_requirements :: "pipeline_requirements option"
  skv_segmentation :: "segmentation_contract option"
  skv_copy_container :: "output_container option"

definition safe_view :: "capability_key \<Rightarrow> safe_key_view" where
  "safe_view k =
     (let (input, output, q, seg, container) =
        (case ck_operation k of
           OpDecode input q \<Rightarrow> (Some input, None, Some q, None, None)
         | OpEncode output q \<Rightarrow> (None, Some output, Some q, None, None)
         | OpFullPipeline input output q \<Rightarrow> (Some input, Some output, Some q, None, None)
         | OpSegmentedPipeline input output q seg \<Rightarrow> (Some input, Some output, Some q, Some seg, None)
         | OpCopyRemux s \<Rightarrow> (None, None, None, None, Some (cr_container s)))
      in \<lparr>skv_device = ck_device k, skv_backend = ck_backend k, skv_direction = key_direction k,
          skv_input = input, skv_output = output, skv_requirements = q, skv_segmentation = seg,
          skv_copy_container = container\<rparr>)"

section \<open>The persisted key\<close>

datatype persisted_operation =
    PDecode input_signature pipeline_requirements
  | PEncode output_signature pipeline_requirements
  | PFullPipeline input_signature output_signature pipeline_requirements
  | PSegmentedPipeline input_signature output_signature pipeline_requirements segmentation_contract

record persisted_key =
  pk_schema_version :: nat
  pk_evidence_version :: nat
  pk_recipe_version :: nat
  pk_runtime_id :: string
  pk_device_id :: device_id
  pk_driver_id :: string
  pk_backend :: backend_kind
  pk_operation :: persisted_operation

fun persisted_operation_of :: "capability_operation \<Rightarrow> persisted_operation option" where
  "persisted_operation_of (OpDecode input q) = Some (PDecode input q)"
| "persisted_operation_of (OpEncode output q) = Some (PEncode output q)"
| "persisted_operation_of (OpFullPipeline input output q) = Some (PFullPipeline input output q)"
| "persisted_operation_of (OpSegmentedPipeline input output q seg) = Some (PSegmentedPipeline input output q seg)"
| "persisted_operation_of (OpCopyRemux _) = None"

definition from_key :: "digest_api \<Rightarrow> capability_key \<Rightarrow> persisted_key option" where
  "from_key dg k =
     (if \<not> key_is_valid k \<or> \<not> di_persistable (ck_driver k) then None
      else case persisted_operation_of (ck_operation k) of
             None \<Rightarrow> None
           | Some op \<Rightarrow>
               (case driver_persisted_hex dg (ck_driver k) of
                  None \<Rightarrow> None
                | Some driver_id \<Rightarrow>
                    Some \<lparr>pk_schema_version = kv_schema (ck_versions k),
                          pk_evidence_version = kv_evidence (ck_versions k),
                          pk_recipe_version = kv_recipe (ck_versions k),
                          pk_runtime_id = runtime_persisted_hex dg (ck_runtime k),
                          pk_device_id = ck_device k, pk_driver_id = driver_id,
                          pk_backend = ck_backend k, pk_operation = op\<rparr>))"

datatype persisted_key_error = PersistedKeyError

definition into_key :: "digest_api \<Rightarrow> persisted_key \<Rightarrow> (persisted_key_error, capability_key) result" where
  "into_key dg p =
     (case runtime_from_persisted_hex dg (pk_runtime_id p) of
        Inl _ \<Rightarrow> Inl PersistedKeyError
      | Inr runtime \<Rightarrow>
          (case driver_from_persisted_hex dg (pk_driver_id p) of
             Inl _ \<Rightarrow> Inl PersistedKeyError
           | Inr driver \<Rightarrow>
               (case (case pk_operation p of
                        PDecode input q \<Rightarrow> key_decode runtime (pk_device_id p) driver (pk_backend p) input q
                      | PEncode output q \<Rightarrow> key_encode runtime (pk_device_id p) driver (pk_backend p) output q
                      | PFullPipeline input output q \<Rightarrow>
                          key_full_pipeline runtime (pk_device_id p) driver (pk_backend p) input output q
                      | PSegmentedPipeline input output q seg \<Rightarrow>
                          key_segmented_pipeline runtime (pk_device_id p) driver (pk_backend p) input output q seg) of
                  Inl _ \<Rightarrow> Inl PersistedKeyError
                | Inr k \<Rightarrow>
                    if kv_schema (ck_versions k) \<noteq> pk_schema_version p \<or>
                       kv_evidence (ck_versions k) \<noteq> pk_evidence_version p \<or>
                       kv_recipe (ck_versions k) \<noteq> pk_recipe_version p
                    then Inl PersistedKeyError else Inr k)))"

section \<open>Constructed keys are valid\<close>

lemma ascending_iff: "ascending xs \<longleftrightarrow> sorted_wrt (<) xs"
proof (induction xs)
  case (Cons a xs)
  then show ?case by (cases xs) (auto simp: ascending_def not_le intro: less_trans)
qed (simp add: ascending_def)

lemma canonical_requirements_Inr:
  assumes "canonical_requirements xs = Inr vs"
  shows "ascending vs" "length vs \<le> MAX_REQUIREMENT_ITEMS" "set vs = set xs"
  using assms sort_dedup_props [of xs]
  by (auto simp: canonical_requirements_def Let_def ascending_iff strict_sorted_iff split: if_splits)

lemma canonical_requirements_idem:
  assumes "ascending vs" "length vs \<le> MAX_REQUIREMENT_ITEMS"
  shows "canonical_requirements vs = Inr vs"
proof -
  have "sorted vs" "distinct vs" using assms(1) by (simp_all add: ascending_iff strict_sorted_iff)
  then have "remdups_adj (sort vs) = vs"
    by (simp add: sorted_sort_id remdups_adj_distinct)
  then show ?thesis using assms(2) by (simp add: canonical_requirements_def)
qed

lemma visit_seq_Some: "visit_seq n xs = Some ys \<longleftrightarrow> length xs \<le> n \<and> xs = map Some ys"
  by (induction n xs arbitrary: ys rule: visit_seq.induct) auto

lemma deserialize_requirement_items_bound:
  "deserialize_requirement_items hint xs = Some ys \<Longrightarrow> length ys \<le> MAX_REQUIREMENT_ITEMS \<and> xs = map Some ys"
  by (auto simp: deserialize_requirement_items_def visit_seq_Some split: if_splits)

lemma validate_operation_codec:
  assumes "validate_operation d op = Inr ()"
  shows "case op of OpDecode i q \<Rightarrow> is_codec i \<noteq> InOtherProbed
    | OpFullPipeline i ou q \<Rightarrow> is_codec i \<noteq> InOtherProbed
    | OpSegmentedPipeline i ou q s \<Rightarrow> is_codec i \<noteq> InOtherProbed | _ \<Rightarrow> True"
  using assms
  by (cases op) (auto simp: rbind_Inr_iff validate_input_signature_def validate_input_video_def split: if_splits)

lemma listed_input_codec_ex: "(\<exists>z. listed_input_codec c = Some z) \<longleftrightarrow> c \<noteq> InOtherProbed"
  by (cases c) simp_all

lemma key_is_valid_iff:
  "key_is_valid k \<longleftrightarrow> ck_versions k = for_direction (key_direction k) \<and>
     validate_operation (key_direction k) (ck_operation k) = Inr ()"
  by (auto simp: key_is_valid_def split: sum.splits)

lemma valid_prerequisites: "key_is_valid k \<Longrightarrow> static_prerequisites k \<noteq> None"
  using validate_operation_codec [of "key_direction k" "ck_operation k"]
  by (auto simp: key_is_valid_iff static_prerequisites_def listed_input_codec_ex split: capability_operation.splits)

lemma key_new_Inr:
  "key_new rt dev drv be op = Inr k \<longleftrightarrow>
     validate_operation (operation_direction op) op = Inr () \<and>
     k = \<lparr>ck_versions = for_direction (operation_direction op), ck_runtime = rt, ck_device = dev,
          ck_driver = drv, ck_backend = be, ck_operation = op\<rparr>"
  by (auto simp: key_new_def Let_def rbind_Inr_iff)

text \<open>
  Property C33.  Whatever a constructor returns is well typed in the sense the rest of the server
  relies on: the key passes its own validity check, carries the fields it was built from, and its
  prerequisites can be read without reaching the \<open>unreachable!\<close> of the codec table; the constructor
  fails exactly when the operation does not validate; and requirement lists built by
  \<open>PipelineRequirements::new\<close> are strictly ascending, duplicate-free and bounded.
\<close>

theorem constructed_keys_are_valid:
  "(key_new rt dev drv be op = Inr k \<longrightarrow>
      key_is_valid k \<and> static_prerequisites k \<noteq> None \<and> ck_operation k = op \<and> ck_runtime k = rt \<and>
      ck_device k = dev \<and> ck_driver k = drv \<and> ck_backend k = be) \<and>
   ((\<exists>k. key_new rt dev drv be op = Inr k) \<longleftrightarrow> validate_operation (operation_direction op) op = Inr ()) \<and>
   (requirements_new tfs trs fls ct tb = Inr q \<longrightarrow>
      sorted_wrt (<) (pq_transforms q) \<and> set (pq_transforms q) = set tfs \<and> length (pq_transforms q) \<le> 16 \<and>
      sorted_wrt (<) (pq_transfers q) \<and> set (pq_transfers q) = set trs \<and> length (pq_transfers q) \<le> 16 \<and>
      sorted_wrt (<) (pq_filters q) \<and> set (pq_filters q) = set fls \<and> length (pq_filters q) \<le> 16)"
proof (intro conjI impI)
  assume k: "key_new rt dev drv be op = Inr k"
  show v: "key_is_valid k" using k by (simp add: key_new_Inr key_is_valid_iff key_direction_def)
  show "static_prerequisites k \<noteq> None" using v by (rule valid_prerequisites)
  show "ck_operation k = op" "ck_runtime k = rt" "ck_device k = dev" "ck_driver k = drv" "ck_backend k = be"
    using k by (simp_all add: key_new_Inr)
next
  show "(\<exists>k. key_new rt dev drv be op = Inr k) \<longleftrightarrow> validate_operation (operation_direction op) op = Inr ()"
    by (simp add: key_new_Inr)
next
  assume "requirements_new tfs trs fls ct tb = Inr q"
  then have c: "canonical_requirements tfs = Inr (pq_transforms q)"
    "canonical_requirements trs = Inr (pq_transfers q)" "canonical_requirements fls = Inr (pq_filters q)"
    by (auto simp: requirements_new_def rbind_Inr_iff)
  show "sorted_wrt (<) (pq_transforms q)" "set (pq_transforms q) = set tfs" "length (pq_transforms q) \<le> 16"
    using canonical_requirements_Inr [OF c(1)] by (simp_all add: ascending_iff MAX_REQUIREMENT_ITEMS_def)
  show "sorted_wrt (<) (pq_transfers q)" "set (pq_transfers q) = set trs" "length (pq_transfers q) \<le> 16"
    using canonical_requirements_Inr [OF c(2)] by (simp_all add: ascending_iff MAX_REQUIREMENT_ITEMS_def)
  show "sorted_wrt (<) (pq_filters q)" "set (pq_filters q) = set fls" "length (pq_filters q) \<le> 16"
    using canonical_requirements_Inr [OF c(3)] by (simp_all add: ascending_iff MAX_REQUIREMENT_ITEMS_def)
qed

section \<open>Stored keys\<close>

fun operation_of :: "persisted_operation \<Rightarrow> capability_operation" where
  "operation_of (PDecode input q) = OpDecode input q"
| "operation_of (PEncode output q) = OpEncode output q"
| "operation_of (PFullPipeline input output q) = OpFullPipeline input output q"
| "operation_of (PSegmentedPipeline input output q seg) = OpSegmentedPipeline input output q seg"

lemma persisted_operation_of_Some: "persisted_operation_of op = Some po \<longleftrightarrow> op = operation_of po"
  by (cases op; cases po) auto

lemma into_key_Inr:
  "into_key dg p = Inr k \<longleftrightarrow>
     (\<exists>rt drv. runtime_from_persisted_hex dg (pk_runtime_id p) = Inr rt \<and>
        driver_from_persisted_hex dg (pk_driver_id p) = Inr drv \<and>
        key_new rt (pk_device_id p) drv (pk_backend p) (operation_of (pk_operation p)) = Inr k \<and>
        kv_schema (ck_versions k) = pk_schema_version p \<and> kv_evidence (ck_versions k) = pk_evidence_version p \<and>
        kv_recipe (ck_versions k) = pk_recipe_version p)"
proof -
  have "(case pk_operation p of
           PDecode input q \<Rightarrow> key_decode rt (pk_device_id p) drv (pk_backend p) input q
         | PEncode output q \<Rightarrow> key_encode rt (pk_device_id p) drv (pk_backend p) output q
         | PFullPipeline input output q \<Rightarrow> key_full_pipeline rt (pk_device_id p) drv (pk_backend p) input output q
         | PSegmentedPipeline input output q seg \<Rightarrow>
             key_segmented_pipeline rt (pk_device_id p) drv (pk_backend p) input output q seg) =
      key_new rt (pk_device_id p) drv (pk_backend p) (operation_of (pk_operation p))" for rt drv
    by (cases "pk_operation p")
       (simp_all add: key_decode_def key_encode_def key_full_pipeline_def key_segmented_pipeline_def)
  then show ?thesis unfolding into_key_def by (auto split: sum.splits)
qed

context hex_interface
begin

lemma from_key_Some_iff:
  "(\<exists>p. from_key dg k = Some p) \<longleftrightarrow>
     key_is_valid k \<and> di_persistable (ck_driver k) \<and> key_direction k \<noteq> DirCopyRemux"
  by (cases "ck_operation k")
     (auto simp: from_key_def driver_persisted_hex_def key_direction_def)

lemma from_key_into_key:
  assumes "from_key dg k = Some p" "length (ck_runtime k) = 32" "length (di_digest (ck_driver k)) = 32"
  shows "into_key dg p = Inr k"
proof -
  have v: "key_is_valid k" "di_persistable (ck_driver k)" using assms(1) by (auto simp: from_key_def split: if_splits)
  obtain op h where op: "persisted_operation_of (ck_operation k) = Some op"
    and h: "driver_persisted_hex dg (ck_driver k) = Some h"
    and p: "p = \<lparr>pk_schema_version = kv_schema (ck_versions k), pk_evidence_version = kv_evidence (ck_versions k),
                 pk_recipe_version = kv_recipe (ck_versions k), pk_runtime_id = runtime_persisted_hex dg (ck_runtime k),
                 pk_device_id = ck_device k, pk_driver_id = h, pk_backend = ck_backend k, pk_operation = op\<rparr>"
    using assms(1) by (auto simp: from_key_def split: if_splits option.splits)
  have rt: "runtime_from_persisted_hex dg (runtime_persisted_hex dg (ck_runtime k)) = Inr (ck_runtime k)"
    using assms(2) by (simp add: runtime_hex_iff)
  have drv: "driver_from_persisted_hex dg h = Inr (ck_driver k)"
    using assms(3) h by (simp add: driver_hex_iff)
  have "key_new (ck_runtime k) (ck_device k) (ck_driver k) (ck_backend k) (ck_operation k) = Inr k"
    using v(1) by (cases k) (simp add: key_new_Inr key_is_valid_iff key_direction_def)
  then show ?thesis
    using op by (simp add: into_key_Inr p rt drv persisted_operation_of_Some)
qed

lemma into_key_from_key:
  assumes "into_key dg p = Inr k"
  shows "from_key dg k = Some p" "key_is_valid k" "length (ck_runtime k) = 32" "length (di_digest (ck_driver k)) = 32"
proof -
  obtain rt drv where rt: "runtime_from_persisted_hex dg (pk_runtime_id p) = Inr rt"
    and drv: "driver_from_persisted_hex dg (pk_driver_id p) = Inr drv"
    and k: "key_new rt (pk_device_id p) drv (pk_backend p) (operation_of (pk_operation p)) = Inr k"
    and vs: "kv_schema (ck_versions k) = pk_schema_version p" "kv_evidence (ck_versions k) = pk_evidence_version p"
      "kv_recipe (ck_versions k) = pk_recipe_version p"
    using assms by (auto simp: into_key_Inr)
  have d: "length (di_digest drv) = 32" "driver_persisted_hex dg drv = Some (pk_driver_id p)"
    using drv by (simp_all add: driver_hex_iff)
  then have pers: "di_persistable drv" by (auto simp: driver_persisted_hex_def split: if_splits)
  have r: "length rt = 32" "pk_runtime_id p = runtime_persisted_hex dg rt"
    using rt by (simp_all add: runtime_hex_iff)
  show valid: "key_is_valid k" using k by (simp add: key_new_Inr key_is_valid_iff key_direction_def)
  show "length (ck_runtime k) = 32" "length (di_digest (ck_driver k)) = 32" using k r d by (simp_all add: key_new_Inr)
  have sel: "ck_runtime k = rt" "ck_device k = pk_device_id p" "ck_driver k = drv" "ck_backend k = pk_backend p"
    "ck_operation k = operation_of (pk_operation p)" using k by (simp_all add: key_new_Inr)
  have "persisted_operation_of (operation_of (pk_operation p)) = Some (pk_operation p)"
    by (simp add: persisted_operation_of_Some)
  then show "from_key dg k = Some p"
    using valid pers d(2) r(2) vs by (simp add: from_key_def sel)
qed

end

text \<open>
  Property C34.  A key is stored exactly when it is valid, its driver identity is stable and it is
  not a copy; what is stored is read back as the same key; and whatever can be read back, however
  it came to the disk, is a valid key that would be stored as the same record.
\<close>

theorem stored_key_round_trip:
  assumes "hex_contract dg"
  shows "((\<exists>p. from_key dg k = Some p) \<longleftrightarrow>
           key_is_valid k \<and> di_persistable (ck_driver k) \<and> key_direction k \<noteq> DirCopyRemux) \<and>
         (from_key dg k = Some p \<and> length (ck_runtime k) = 32 \<and> length (di_digest (ck_driver k)) = 32 \<longrightarrow>
           into_key dg p = Inr k) \<and>
         (into_key dg p' = Inr k \<longrightarrow> key_is_valid k \<and> from_key dg k = Some p')"
proof -
  have h: "hex_interface dg" using assms by unfold_locales
  show ?thesis
    using hex_interface.from_key_Some_iff [OF h] hex_interface.from_key_into_key [OF h]
      hex_interface.into_key_from_key [OF h]
    by blast
qed

section \<open>Buckets\<close>

fun dimension_limit :: "dimension_bucket \<Rightarrow> u32" where
  "dimension_limit UpTo480 = 480" | "dimension_limit UpTo576 = 576" | "dimension_limit UpTo640 = 640"
| "dimension_limit UpTo720 = 720" | "dimension_limit UpTo1080 = 1080" | "dimension_limit UpTo1280 = 1280"
| "dimension_limit UpTo1440 = 1440" | "dimension_limit UpTo1920 = 1920" | "dimension_limit UpTo2160 = 2160"
| "dimension_limit UpTo2560 = 2560" | "dimension_limit UpTo3840 = 3840" | "dimension_limit UpTo4096 = 4096"
| "dimension_limit UpTo4320 = 4320" | "dimension_limit UpTo7680 = 7680" | "dimension_limit UpTo8192 = 8192"

fun rate_limit :: "frame_rate_bucket \<Rightarrow> u32" where
  "rate_limit Fr24 = 24" | "rate_limit Fr25 = 25" | "rate_limit Fr30 = 30" | "rate_limit Fr50 = 50"
| "rate_limit Fr60 = 60" | "rate_limit Fr120 = 120" | "rate_limit Fr144 = 144" | "rate_limit Fr240 = 240"

lemma dimension_limit_le: "dimension_limit b \<le> 8192"
  by (cases b) simp_all

lemma from_dimension_limit:
  assumes "from_dimension v = Inr b"
  shows "0 < v" "v \<le> dimension_limit b" "v \<le> dimension_limit c \<Longrightarrow> dimension_limit b \<le> dimension_limit c"
  using assms by (auto simp: from_dimension_def split: if_splits) (cases c; simp)+

lemma from_dimension_defined: "(\<exists>b. from_dimension v = Inr b) \<longleftrightarrow> 0 < v \<and> v \<le> 8192"
  by (auto simp: from_dimension_def)

lemma from_rate_eq:
  "from_rate r = (let n = rate_numerator r; d = rate_denominator r in
     if n \<le> 24 * d then Inr Fr24 else if n \<le> 25 * d then Inr Fr25 else if n \<le> 30 * d then Inr Fr30
     else if n \<le> 50 * d then Inr Fr50 else if n \<le> 60 * d then Inr Fr60 else if n \<le> 120 * d then Inr Fr120
     else if n \<le> 144 * d then Inr Fr144 else if n \<le> 240 * d then Inr Fr240 else Inl UnsupportedFrameRate)"
  by (simp add: from_rate_def frame_rate_limits_def)

lemma from_rate_limit:
  assumes "from_rate r = Inr b"
  shows "rate_numerator r \<le> rate_limit b * rate_denominator r"
    "rate_numerator r \<le> rate_limit c * rate_denominator r \<Longrightarrow> rate_limit b \<le> rate_limit c"
  using assms by (auto simp: from_rate_eq Let_def split: if_splits) (cases c; simp)+

text \<open>
  A coded dimension is bucketed exactly when it is between 1 and 8192, a frame rate
  exactly when it is at most 240; the bucket covers the value and no smaller bucket does, so equal
  buckets never hide a value above the bucket's limit.
\<close>

theorem buckets_are_tight:
  "((\<exists>b. from_dimension v = Inr b) \<longleftrightarrow> 0 < v \<and> v \<le> 8192) \<and>
   (from_dimension v = Inr b \<longrightarrow>
      v \<le> dimension_limit b \<and> (\<forall>c. v \<le> dimension_limit c \<longrightarrow> dimension_limit b \<le> dimension_limit c)) \<and>
   ((\<exists>f. from_rate r = Inr f) \<longleftrightarrow> rate_numerator r \<le> 240 * rate_denominator r) \<and>
   (from_rate r = Inr f \<longrightarrow>
      rate_numerator r \<le> rate_limit f * rate_denominator r \<and>
      (\<forall>g. rate_numerator r \<le> rate_limit g * rate_denominator r \<longrightarrow> rate_limit f \<le> rate_limit g))"
proof (intro conjI impI allI)
  show "(\<exists>b. from_dimension v = Inr b) \<longleftrightarrow> 0 < v \<and> v \<le> 8192" by (rule from_dimension_defined)
  show "(\<exists>f. from_rate r = Inr f) \<longleftrightarrow> rate_numerator r \<le> 240 * rate_denominator r"
    by (auto simp: from_rate_eq Let_def)
  show "v \<le> dimension_limit b" if "from_dimension v = Inr b"
    using that by (rule from_dimension_limit)
  show "dimension_limit b \<le> dimension_limit c" if "from_dimension v = Inr b" "v \<le> dimension_limit c" for c
    using that by (rule from_dimension_limit(3))
  show "rate_numerator r \<le> rate_limit f * rate_denominator r" if "from_rate r = Inr f"
    using that by (rule from_rate_limit)
  show "rate_limit f \<le> rate_limit g"
    if "from_rate r = Inr f" "rate_numerator r \<le> rate_limit g * rate_denominator r" for g
    using that by (rule from_rate_limit(2))
qed

theorem buckets_are_tight_witness:
  "from_dimension 1081 = Inr UpTo1280 \<and> 1081 \<le> dimension_limit UpTo1280 \<and>
   from_rate \<lparr>rate_numerator = 24000, rate_denominator = 1001\<rparr> = Inr Fr24 \<and> rate_limit Fr24 \<le> rate_limit Fr25"
proof -
  have "from_dimension 1081 = Inr UpTo1280" by (simp add: from_dimension_def)
  moreover have "from_rate \<lparr>rate_numerator = 24000, rate_denominator = 1001\<rparr> = Inr Fr24" by (simp add: from_rate_eq)
  ultimately show ?thesis
    using buckets_are_tight [of 1081 UpTo1280 "\<lparr>rate_numerator = 24000, rate_denominator = 1001\<rparr>" Fr24] by simp
qed

section \<open>Witnesses\<close>

definition sample_color :: color_signature where
  "sample_color = \<lparr>cs_range = RangeLimited, cs_primaries = PrimBt709, cs_transfer = TransBt709,
     cs_matrix = MatBt709, cs_hdr = Sdr\<rparr>"

definition sample_input :: input_signature where
  "sample_input = \<lparr>is_codec = InH264, is_profile = H264Main, is_level = L40, is_pixel_format = Nv12,
     is_bit_depth = Eight, is_chroma = Cs420, is_color = sample_color, is_field_order = Progressive,
     is_resolution = \<lparr>rb_width = UpTo1920, rb_height = UpTo1080\<rparr>, is_frame_rate = Fr24,
     is_frame_rate_class = FrcConstant\<rparr>"

definition sample_requirements :: pipeline_requirements where
  "sample_requirements = \<lparr>pq_transforms = [TfScale], pq_transfers = [TrUpload],
     pq_filters = [FlScale, FlHardwareUpload], pq_container = None, pq_output_time_base = None\<rparr>"

definition sample_driver :: driver_identity where
  "sample_driver = \<lparr>di_digest = replicate 32 7, di_persistable = True\<rparr>"

definition sample_operation :: capability_operation where
  "sample_operation = OpDecode sample_input sample_requirements"

definition sample_key :: capability_key where
  "sample_key = \<lparr>ck_versions = for_direction DirDecode, ck_runtime = replicate 32 9, ck_device = ''gpu1_x'',
     ck_driver = sample_driver, ck_backend = Qsv, ck_operation = sample_operation\<rparr>"

lemma sample_operation_valid: "validate_operation DirDecode sample_operation = Inr ()"
proof -
  have "validate_input_signature sample_input = Inr ()"
    by (simp add: validate_input_signature_def validate_input_video_def sample_input_def input_profile_matches_def
        input_level_matches_def numeric_level_def profile_depth_matches_def pixel_matches_def)
  moreover have "validate_color (is_color sample_input) = Inr ()"
    by (simp add: validate_color_def sample_input_def sample_color_def)
  moreover have "validate_requirements sample_requirements = Inr ()"
    by (simp add: validate_requirements_def sample_requirements_def ascending_def MAX_REQUIREMENT_ITEMS_def
        transform_filters_def transfer_filters_def less_eq_required_filter_def)
  ultimately show ?thesis by (simp add: sample_operation_def sample_requirements_def)
qed

lemma sample_key_new: "key_new (replicate 32 9) ''gpu1_x'' sample_driver Qsv sample_operation = Inr sample_key"
  using sample_operation_valid by (simp add: key_new_Inr sample_key_def) (simp add: sample_operation_def)

theorem constructed_keys_are_valid_witness:
  "key_is_valid sample_key \<and> static_prerequisites sample_key \<noteq> None"
  using constructed_keys_are_valid [of "replicate 32 9" "''gpu1_x''" sample_driver Qsv sample_operation sample_key]
    sample_key_new by simp

theorem stored_key_round_trip_witness:
  "\<exists>p. from_key identity_digest sample_key = Some p \<and> into_key identity_digest p = Inr sample_key"
proof -
  have v: "key_is_valid sample_key" "di_persistable (ck_driver sample_key)" "key_direction sample_key \<noteq> DirCopyRemux"
    using sample_operation_valid
    by (simp_all add: key_is_valid_iff sample_key_def key_direction_def sample_operation_def sample_driver_def)
  have l: "length (ck_runtime sample_key) = 32" "length (di_digest (ck_driver sample_key)) = 32"
    by (simp_all add: sample_key_def sample_driver_def)
  show ?thesis using stored_key_round_trip [OF hexadecimal.hex_ok, of sample_key] v l by blast
qed

end
