(* ===== verification/Evidence.thy ===== *)
theory Evidence
  imports Prelude
begin

text \<open>
  The evidence record of a transcoding capability
  (\<open>server/src/transcoding/capability/state.rs\<close>): verification results, positive, terminal and
  failure observations, the record with its operations, its projection to the state shown to
  clients, and its persisted form.

  Timestamps are milliseconds; \<open>ts_new\<close> is the checked constructor.  Every operation with an
  error is a sum; \<open>apply_result\<close> returns the record together with the result, because the code
  mutates the record before some of its error returns.  The record is polymorphic in its key, which it only
  carries; the conversion of the key to and from its persisted form is an argument of the
  persistence operations.

  Shown here: applying any result to a well-formed record gives a well-formed record and never
  the error \<open>ImpossibleState\<close>; a capability is shown as realtime qualified only on the strength
  of unexpired correctness and realtime evidence; repeated failures escalate the cooldown to at
  most an hour; reading back a persisted record restores its evidence and never extends it.
\<close>

section \<open>Timestamps and results\<close>

definition MINUTE_MS :: u64 where "MINUTE_MS = 60000"
definition MAX_EVIDENCE_TTL_MS :: u64 where "MAX_EVIDENCE_TTL_MS = 24 * 60 * MINUTE_MS"
definition MAX_FUTURE_SKEW_MS :: u64 where "MAX_FUTURE_SKEW_MS = 5 * MINUTE_MS"
definition MAX_SAFE_INTEGER :: u64 where "MAX_SAFE_INTEGER = 9007199254740991"
definition MAX_FAILURE_STREAK :: nat where "MAX_FAILURE_STREAK = 4"

lemmas evidence_constants = MINUTE_MS_def MAX_EVIDENCE_TTL_MS_def MAX_FUTURE_SKEW_MS_def
  MAX_SAFE_INTEGER_def MAX_FAILURE_STREAK_def

datatype state_error =
    Bounds | FutureObservation | ExpiredResult | ImpossibleState | InvalidResult
  | InvalidVerifierMode | MissingCorrectness

definition ts_new :: "u64 \<Rightarrow> (state_error, u64) result" where
  "ts_new ms = (if ms > MAX_SAFE_INTEGER then Inl Bounds else Inr ms)"

definition ts_checked_add :: "u64 \<Rightarrow> u64 \<Rightarrow> (state_error, u64) result" where
  "ts_checked_add t ms = rbind (ok_or Bounds (checked_add_u64 t ms)) ts_new"

record state_now =
  now_wall :: u64
  now_monotonic_ms :: u64

definition state_now_new :: "u64 \<Rightarrow> u64 \<Rightarrow> (state_error, state_now) result" where
  "state_now_new wall monotonic_ms =
     (if monotonic_ms > MAX_SAFE_INTEGER then Inl Bounds
      else Inr \<lparr>now_wall = wall, now_monotonic_ms = monotonic_ms\<rparr>)"

datatype evidence_target = Correctness | Realtime | Segmented

datatype evidence_outcome =
    CorrectnessPassed | RealtimePassed | Unsupported | NotPresent | TemporaryFailure
  | PermanentFailure | Cancelled

datatype evidence_reason =
    VerificationFailed | VerificationNotImplemented | VerificationTimeout | ReasonUnsupported
  | ReasonPermanentFailure

datatype verifier_mode = ObservationalOnly | ActiveInjected

record verification_result =
  vr_target :: evidence_target
  vr_outcome :: evidence_outcome
  vr_reason :: "evidence_reason option"
  vr_observed_at :: u64
  vr_duration_ms :: u64
  vr_expires_at :: u64

definition positive_outcome :: "evidence_outcome \<Rightarrow> bool" where
  "positive_outcome out \<longleftrightarrow> out \<in> {CorrectnessPassed, RealtimePassed}"

fun outcome_reason_ok :: "evidence_outcome \<Rightarrow> evidence_reason option \<Rightarrow> bool" where
  "outcome_reason_ok Unsupported r = (r = Some ReasonUnsupported)"
| "outcome_reason_ok PermanentFailure r = (r = Some ReasonPermanentFailure)"
| "outcome_reason_ok TemporaryFailure r = (r = Some VerificationFailed \<or> r = Some VerificationTimeout)"
| "outcome_reason_ok NotPresent r = (r \<noteq> None)"
| "outcome_reason_ok Cancelled r = (r \<noteq> None)"
| "outcome_reason_ok CorrectnessPassed r = (r = None)"
| "outcome_reason_ok RealtimePassed r = (r = None)"

fun target_outcome_ok :: "evidence_target \<Rightarrow> evidence_outcome \<Rightarrow> bool" where
  "target_outcome_ok t CorrectnessPassed = (t = Correctness \<or> t = Segmented)"
| "target_outcome_ok t RealtimePassed = (t = Realtime)"
| "target_outcome_ok t _ = True"

definition validate_shape :: "verification_result \<Rightarrow> (state_error, unit) result" where
  "validate_shape r =
     (if vr_duration_ms r > MAX_SAFE_INTEGER \<or> vr_expires_at r \<le> vr_observed_at r \<or>
         vr_expires_at r - vr_observed_at r > MAX_EVIDENCE_TTL_MS
      then Inl Bounds
      else if positive_outcome (vr_outcome r) = (vr_reason r \<noteq> None) then Inl InvalidResult
      else if \<not> outcome_reason_ok (vr_outcome r) (vr_reason r) then Inl InvalidResult
      else if target_outcome_ok (vr_target r) (vr_outcome r) then Inr ()
      else Inl InvalidResult)"

definition verification_result_new ::
  "evidence_target \<Rightarrow> evidence_outcome \<Rightarrow> evidence_reason option \<Rightarrow> u64 \<Rightarrow> u64 \<Rightarrow> u64 \<Rightarrow>
   (state_error, verification_result) result" where
  "verification_result_new target out reason observed_at duration_ms expires_at =
     (let r = \<lparr>vr_target = target, vr_outcome = out, vr_reason = reason, vr_observed_at = observed_at,
               vr_duration_ms = duration_ms, vr_expires_at = expires_at\<rparr>
      in rbind (validate_shape r) (\<lambda>_. Inr r))"

definition validate_at :: "verification_result \<Rightarrow> state_now \<Rightarrow> (state_error, unit) result" where
  "validate_at r now =
     rbind (validate_shape r) (\<lambda>_.
       if vr_observed_at r > sat_add_u64 (now_wall now) MAX_FUTURE_SKEW_MS then Inl FutureObservation
       else if vr_expires_at r \<le> now_wall now then Inl ExpiredResult
       else Inr ())"

definition monotonic_deadline :: "u64 \<Rightarrow> state_now \<Rightarrow> (state_error, u64) result" where
  "monotonic_deadline expires_at now =
     ok_or Bounds (checked_add_u64 (now_monotonic_ms now)
       (min (expires_at - now_wall now) MAX_EVIDENCE_TTL_MS))"

section \<open>Observations\<close>

record evidence_observation =
  ob_target :: evidence_target
  ob_outcome :: evidence_outcome
  ob_observed_at :: u64
  ob_duration_ms :: u64
  ob_expires_at :: u64
  ob_monotonic_expires_at_ms :: u64

definition observation_from_result ::
  "verification_result \<Rightarrow> state_now \<Rightarrow> (state_error, evidence_observation) result" where
  "observation_from_result r now =
     rbind (monotonic_deadline (vr_expires_at r) now) (\<lambda>deadline.
       Inr \<lparr>ob_target = vr_target r, ob_outcome = vr_outcome r, ob_observed_at = vr_observed_at r,
            ob_duration_ms = vr_duration_ms r, ob_expires_at = vr_expires_at r,
            ob_monotonic_expires_at_ms = deadline\<rparr>)"

definition observation_is_current :: "evidence_observation \<Rightarrow> state_now \<Rightarrow> bool" where
  "observation_is_current ob now \<longleftrightarrow>
     now_wall now < ob_expires_at ob \<and> now_monotonic_ms now < ob_monotonic_expires_at_ms ob"

definition validate_as ::
  "evidence_observation \<Rightarrow> evidence_target \<Rightarrow> evidence_outcome \<Rightarrow> state_now \<Rightarrow>
   (state_error, unit) result" where
  "validate_as ob target out now =
     (if ob_target ob \<noteq> target \<or> ob_outcome ob \<noteq> out \<or> ob_duration_ms ob > MAX_SAFE_INTEGER \<or>
         ob_expires_at ob \<le> ob_observed_at ob \<or>
         ob_expires_at ob - ob_observed_at ob > MAX_EVIDENCE_TTL_MS \<or>
         \<not> observation_is_current ob now
      then Inl ImpossibleState else Inr ())"

record terminal_observation =
  tm_target :: evidence_target
  tm_outcome :: evidence_outcome
  tm_reason :: evidence_reason
  tm_observed_at :: u64
  tm_duration_ms :: u64
  tm_expires_at :: u64
  tm_monotonic_expires_at_ms :: u64

definition terminal_from_result ::
  "verification_result \<Rightarrow> state_now \<Rightarrow> (state_error, terminal_observation) result" where
  "terminal_from_result r now =
     (if vr_outcome r \<notin> {Unsupported, PermanentFailure} then Inl InvalidResult
      else rbind (ok_or InvalidResult (vr_reason r)) (\<lambda>reason.
        rbind (monotonic_deadline (vr_expires_at r) now) (\<lambda>deadline.
          Inr \<lparr>tm_target = vr_target r, tm_outcome = vr_outcome r, tm_reason = reason,
               tm_observed_at = vr_observed_at r, tm_duration_ms = vr_duration_ms r,
               tm_expires_at = vr_expires_at r, tm_monotonic_expires_at_ms = deadline\<rparr>)))"

definition terminal_is_current :: "terminal_observation \<Rightarrow> state_now \<Rightarrow> bool" where
  "terminal_is_current tm now \<longleftrightarrow>
     now_wall now < tm_expires_at tm \<and> now_monotonic_ms now < tm_monotonic_expires_at_ms tm"

definition terminal_validate :: "terminal_observation \<Rightarrow> state_now \<Rightarrow> (state_error, unit) result" where
  "terminal_validate tm now =
     (if \<not> ((tm_outcome tm = Unsupported \<and> tm_reason tm = ReasonUnsupported) \<or>
             (tm_outcome tm = PermanentFailure \<and> tm_reason tm = ReasonPermanentFailure)) \<or>
         tm_duration_ms tm > MAX_SAFE_INTEGER \<or> tm_expires_at tm \<le> tm_observed_at tm \<or>
         tm_expires_at tm - tm_observed_at tm > MAX_EVIDENCE_TTL_MS \<or> \<not> terminal_is_current tm now
      then Inl ImpossibleState else Inr ())"

record failure_history =
  fh_streak :: nat
  fh_reason :: evidence_reason
  fh_last_failure_at :: u64
  fh_expires_at :: u64
  fh_cooldown_until :: "u64 option"
  fh_monotonic_cooldown_until_ms :: "u64 option"
  fh_monotonic_expires_at_ms :: u64

definition cooldown_for_streak :: "nat \<Rightarrow> u64" where
  "cooldown_for_streak streak =
     (if streak \<le> 1 then 10 * MINUTE_MS else if streak = 2 then 20 * MINUTE_MS
      else if streak = 3 then 40 * MINUTE_MS else 60 * MINUTE_MS)"

definition failure_next ::
  "failure_history option \<Rightarrow> evidence_reason \<Rightarrow> u64 \<Rightarrow> state_now \<Rightarrow>
   (state_error, failure_history) result" where
  "failure_next previous reason observed_at now =
     (if reason \<notin> {VerificationFailed, VerificationTimeout} then Inl InvalidResult
      else
        let previous_streak = (case option_filter (\<lambda>h. now_wall now < fh_expires_at h) previous of
                                 None \<Rightarrow> 0 | Some h \<Rightarrow> fh_streak h);
            streak = min (min (previous_streak + 1) 255) MAX_FAILURE_STREAK;
            cooldown_ms = cooldown_for_streak streak
        in rbind (ts_checked_add observed_at cooldown_ms) (\<lambda>cooldown_until.
             let remaining_ms = min (cooldown_until - now_wall now) cooldown_ms
             in rbind (ts_checked_add observed_at MAX_EVIDENCE_TTL_MS) (\<lambda>expires_at.
               rbind (ok_or Bounds (checked_add_u64 (now_monotonic_ms now) remaining_ms)) (\<lambda>mc.
                 rbind (ok_or Bounds (checked_add_u64 (now_monotonic_ms now)
                          (min (expires_at - now_wall now) MAX_EVIDENCE_TTL_MS))) (\<lambda>me.
                   Inr \<lparr>fh_streak = streak, fh_reason = reason, fh_last_failure_at = observed_at,
                        fh_expires_at = expires_at, fh_cooldown_until = Some cooldown_until,
                        fh_monotonic_cooldown_until_ms = Some mc,
                        fh_monotonic_expires_at_ms = me\<rparr>)))))"

definition failure_is_current :: "failure_history \<Rightarrow> state_now \<Rightarrow> bool" where
  "failure_is_current h now \<longleftrightarrow>
     now_wall now < fh_expires_at h \<and> now_monotonic_ms now < fh_monotonic_expires_at_ms h"

definition circuit_is_open :: "failure_history \<Rightarrow> state_now \<Rightarrow> bool" where
  "circuit_is_open h now \<longleftrightarrow>
     fh_cooldown_until h \<noteq> None \<and>
     is_some_and (\<lambda>deadline. now_monotonic_ms now < deadline) (fh_monotonic_cooldown_until_ms h)"

section \<open>The record\<close>

record projection_context =
  pc_administratively_disabled :: bool
  pc_listed :: bool

datatype capability_state =
    AdministrativelyDisabled | CircuitOpen | Failed | RealtimeQualified | CorrectnessVerified | Listed

datatype transition = NoChange | KeepRecord | RemoveRecord

definition changes_record :: "transition \<Rightarrow> bool" where
  "changes_record t \<longleftrightarrow> t \<noteq> NoChange"

record 'k evidence_record =
  er_key :: 'k
  er_correctness :: "evidence_observation option"
  er_realtime :: "evidence_observation option"
  er_segmented :: "evidence_observation option"
  er_terminal :: "terminal_observation option"
  er_failure :: "failure_history option"

definition record_new :: "'k \<Rightarrow> 'k evidence_record" where
  "record_new key = \<lparr>er_key = key, er_correctness = None, er_realtime = None, er_segmented = None,
     er_terminal = None, er_failure = None\<rparr>"

definition keep_current :: "('a \<Rightarrow> state_now \<Rightarrow> bool) \<Rightarrow> state_now \<Rightarrow> 'a option \<Rightarrow> 'a option" where
  "keep_current is_current now x = option_filter (\<lambda>a. is_current a now) x"

definition prune_expired :: "'k evidence_record \<Rightarrow> state_now \<Rightarrow> 'k evidence_record" where
  "prune_expired r now =
     (let r1 = (if is_some_and (\<lambda>ob. \<not> observation_is_current ob now) (er_correctness r)
                then r\<lparr>er_correctness := None, er_realtime := None, er_segmented := None\<rparr>
                else r\<lparr>er_realtime := keep_current observation_is_current now (er_realtime r),
                       er_segmented := keep_current observation_is_current now (er_segmented r)\<rparr>)
      in r1\<lparr>er_terminal := keep_current terminal_is_current now (er_terminal r),
            er_failure := keep_current failure_is_current now (er_failure r)\<rparr>)"

definition require_current_correctness :: "'k evidence_record \<Rightarrow> state_now \<Rightarrow> (state_error, unit) result" where
  "require_current_correctness r now =
     (if is_some_and (\<lambda>ob. observation_is_current ob now) (er_correctness r) then Inr ()
      else Inl MissingCorrectness)"

definition validate_opt :: "('a \<Rightarrow> (state_error, unit) result) \<Rightarrow> 'a option \<Rightarrow> (state_error, unit) result" where
  "validate_opt f x = (case x of None \<Rightarrow> Inr () | Some a \<Rightarrow> f a)"

definition failure_invalid :: "failure_history \<Rightarrow> state_now \<Rightarrow> bool" where
  "failure_invalid h now \<longleftrightarrow>
     fh_streak h = 0 \<or> fh_streak h > MAX_FAILURE_STREAK \<or>
     fh_reason h \<notin> {VerificationFailed, VerificationTimeout} \<or>
     fh_expires_at h \<le> fh_last_failure_at h \<or>
     fh_expires_at h - fh_last_failure_at h > MAX_EVIDENCE_TTL_MS \<or>
     (fh_cooldown_until h \<noteq> None) \<noteq> (fh_monotonic_cooldown_until_ms h \<noteq> None) \<or>
     fh_monotonic_expires_at_ms h \<le> now_monotonic_ms now \<or>
     is_some_and (\<lambda>c. c \<le> fh_last_failure_at h \<or> c - fh_last_failure_at h > 60 * MINUTE_MS)
       (fh_cooldown_until h)"

definition record_validate :: "'k evidence_record \<Rightarrow> state_now \<Rightarrow> (state_error, unit) result" where
  "record_validate r now =
     rbind (validate_opt (\<lambda>ob. validate_as ob Correctness CorrectnessPassed now) (er_correctness r)) (\<lambda>_.
     rbind (validate_opt (\<lambda>ob. validate_as ob Realtime RealtimePassed now) (er_realtime r)) (\<lambda>_.
     rbind (validate_opt (\<lambda>ob. validate_as ob Segmented CorrectnessPassed now) (er_segmented r)) (\<lambda>_.
     rbind (validate_opt (\<lambda>tm. terminal_validate tm now) (er_terminal r)) (\<lambda>_.
       if er_terminal r \<noteq> None \<and>
          (er_correctness r \<noteq> None \<or> er_realtime r \<noteq> None \<or> er_segmented r \<noteq> None)
       then Inl ImpossibleState
       else if (er_realtime r \<noteq> None \<or> er_segmented r \<noteq> None) \<and>
               require_current_correctness r now \<noteq> Inr ()
       then Inl ImpossibleState
       else if is_some_and (\<lambda>h. failure_invalid h now) (er_failure r) then Inl ImpossibleState
       else Inr ()))))"

text \<open>
  The match of \<open>apply\<close> on the outcome.  An outer \<open>Inl\<close> is a return from \<open>apply\<close>, with the
  record as it is by then; the terminal branch clears the positive evidence first.
\<close>

definition apply_terminal ::
  "'k evidence_record \<Rightarrow> verification_result \<Rightarrow> state_now \<Rightarrow>
   'k evidence_record \<times> ((state_error, transition) result, unit) result" where
  "apply_terminal r res now =
     (let r1 = r\<lparr>er_correctness := None, er_realtime := None, er_segmented := None, er_failure := None\<rparr>
      in case terminal_from_result res now of
           Inl e \<Rightarrow> (r1, Inl (Inl e))
         | Inr tm \<Rightarrow> (r1\<lparr>er_terminal := Some tm\<rparr>, Inr ()))"

definition apply_outcome ::
  "'k evidence_record \<Rightarrow> verification_result \<Rightarrow> state_now \<Rightarrow>
   'k evidence_record \<times> ((state_error, transition) result, unit) result" where
  "apply_outcome r res now =
     (case vr_outcome res of
        CorrectnessPassed \<Rightarrow>
          (if vr_target res = Correctness
           then (case observation_from_result res now of
                   Inl e \<Rightarrow> (r, Inl (Inl e))
                 | Inr ob \<Rightarrow> (r\<lparr>er_correctness := Some ob, er_terminal := None, er_failure := None\<rparr>, Inr ()))
           else if vr_target res = Segmented
           then (case rbind (require_current_correctness r now) (\<lambda>_. observation_from_result res now) of
                   Inl e \<Rightarrow> (r, Inl (Inl e))
                 | Inr ob \<Rightarrow> (r\<lparr>er_segmented := Some ob, er_failure := None\<rparr>, Inr ()))
           else (r, Inl (Inl InvalidResult)))
      | RealtimePassed \<Rightarrow>
          (if vr_target res = Realtime
           then (case rbind (require_current_correctness r now) (\<lambda>_. observation_from_result res now) of
                   Inl e \<Rightarrow> (r, Inl (Inl e))
                 | Inr ob \<Rightarrow> (r\<lparr>er_realtime := Some ob, er_failure := None\<rparr>, Inr ()))
           else (r, Inl (Inl InvalidResult)))
      | Unsupported \<Rightarrow> apply_terminal r res now
      | PermanentFailure \<Rightarrow> apply_terminal r res now
      | TemporaryFailure \<Rightarrow>
          (case rbind (ok_or InvalidResult (vr_reason res)) (\<lambda>reason.
                  failure_next (er_failure r) reason (vr_observed_at res) now) of
             Inl e \<Rightarrow> (r, Inl (Inl e))
           | Inr h \<Rightarrow> (r\<lparr>er_failure := Some h\<rparr>, Inr ()))
      | NotPresent \<Rightarrow> (r, Inl (Inr RemoveRecord))
      | Cancelled \<Rightarrow> (r, Inl (Inr NoChange)))"

definition apply_result ::
  "'k evidence_record \<Rightarrow> verification_result \<Rightarrow> verifier_mode \<Rightarrow> state_now \<Rightarrow>
   'k evidence_record \<times> (state_error, transition) result" where
  "apply_result r res mode now =
     (case validate_at res now of
        Inl e \<Rightarrow> (r, Inl e)
      | Inr _ \<Rightarrow>
          if mode = ObservationalOnly
          then (r, if vr_outcome res = NotPresent \<and> vr_reason res = Some VerificationNotImplemented
                   then Inr NoChange else Inl InvalidVerifierMode)
          else
            case apply_outcome (prune_expired r now) res now of
              (r2, Inl early) \<Rightarrow> (r2, early)
            | (r2, Inr _) \<Rightarrow> (r2, rbind (record_validate r2 now) (\<lambda>_. Inr KeepRecord)))"

definition project ::
  "'k evidence_record \<Rightarrow> state_now \<Rightarrow> projection_context \<Rightarrow>
   'k evidence_record \<times> capability_state option" where
  "project r now ctx =
     (let r1 = prune_expired r now;
          open_circuit = is_some_and (\<lambda>h. circuit_is_open h now) (er_failure r1);
          visible = (pc_listed ctx \<or> er_correctness r1 \<noteq> None \<or> er_realtime r1 \<noteq> None \<or>
                     er_segmented r1 \<noteq> None \<or> er_terminal r1 \<noteq> None \<or> open_circuit)
      in (r1,
          if \<not> visible then None
          else if pc_administratively_disabled ctx then Some AdministrativelyDisabled
          else if open_circuit then Some CircuitOpen
          else if er_terminal r1 \<noteq> None then Some Failed
          else if er_realtime r1 \<noteq> None then Some RealtimeQualified
          else if er_correctness r1 \<noteq> None \<or> er_segmented r1 \<noteq> None then Some CorrectnessVerified
          else if pc_listed ctx then Some Listed else None))"

definition clear_cooldown_after_refresh :: "'k evidence_record \<Rightarrow> state_now \<Rightarrow> 'k evidence_record" where
  "clear_cooldown_after_refresh r now =
     (let r1 = prune_expired r now
      in r1\<lparr>er_failure := map_option (\<lambda>h. h\<lparr>fh_cooldown_until := None,
                                             fh_monotonic_cooldown_until_ms := None\<rparr>) (er_failure r1)\<rparr>)"

definition last_observed_at :: "'k evidence_record \<Rightarrow> u64 option" where
  "last_observed_at r =
     (let ts = List.map_filter id
                 [map_option ob_observed_at (er_correctness r), map_option ob_observed_at (er_realtime r),
                  map_option ob_observed_at (er_segmented r), map_option tm_observed_at (er_terminal r),
                  map_option fh_last_failure_at (er_failure r)]
      in if ts = [] then None else Some (foldl max 0 ts))"

fun target_is_current :: "'k evidence_record \<Rightarrow> evidence_target \<Rightarrow> state_now \<Rightarrow> bool" where
  "target_is_current r Correctness now =
     is_some_and (\<lambda>ob. observation_is_current ob now) (er_correctness r)"
| "target_is_current r Realtime now = is_some_and (\<lambda>ob. observation_is_current ob now) (er_realtime r)"
| "target_is_current r Segmented now = is_some_and (\<lambda>ob. observation_is_current ob now) (er_segmented r)"

section \<open>The persisted form\<close>

record persisted_observation =
  po_target :: evidence_target
  po_outcome :: evidence_outcome
  po_observed_at :: u64
  po_duration_ms :: u64
  po_expires_at :: u64

record persisted_terminal =
  pt_target :: evidence_target
  pt_outcome :: evidence_outcome
  pt_reason :: evidence_reason
  pt_observed_at :: u64
  pt_duration_ms :: u64
  pt_expires_at :: u64

record persisted_failure =
  pf_streak :: nat
  pf_reason :: evidence_reason
  pf_last_failure_at :: u64
  pf_expires_at :: u64
  pf_cooldown_until :: "u64 option"

record 'pk persisted_record =
  pr_key :: 'pk
  pr_correctness :: "persisted_observation option"
  pr_realtime :: "persisted_observation option"
  pr_segmented :: "persisted_observation option"
  pr_terminal :: "persisted_terminal option"
  pr_failure :: "persisted_failure option"

definition persist_observation :: "evidence_observation \<Rightarrow> persisted_observation" where
  "persist_observation ob =
     \<lparr>po_target = ob_target ob, po_outcome = ob_outcome ob, po_observed_at = ob_observed_at ob,
      po_duration_ms = ob_duration_ms ob, po_expires_at = ob_expires_at ob\<rparr>"

definition persist_terminal :: "terminal_observation \<Rightarrow> persisted_terminal" where
  "persist_terminal tm =
     \<lparr>pt_target = tm_target tm, pt_outcome = tm_outcome tm, pt_reason = tm_reason tm,
      pt_observed_at = tm_observed_at tm, pt_duration_ms = tm_duration_ms tm,
      pt_expires_at = tm_expires_at tm\<rparr>"

definition persist_failure :: "failure_history \<Rightarrow> persisted_failure" where
  "persist_failure h =
     \<lparr>pf_streak = fh_streak h, pf_reason = fh_reason h, pf_last_failure_at = fh_last_failure_at h,
      pf_expires_at = fh_expires_at h, pf_cooldown_until = fh_cooldown_until h\<rparr>"

definition empty_persisted :: "'pk persisted_record \<Rightarrow> bool" where
  "empty_persisted p \<longleftrightarrow>
     pr_correctness p = None \<and> pr_realtime p = None \<and> pr_segmented p = None \<and>
     pr_terminal p = None \<and> pr_failure p = None"

definition from_record :: "('k \<Rightarrow> 'pk option) \<Rightarrow> 'k evidence_record \<Rightarrow> 'pk persisted_record option" where
  "from_record from_key r =
     (case from_key (er_key r) of
        None \<Rightarrow> None
      | Some key \<Rightarrow>
          let p = \<lparr>pr_key = key, pr_correctness = map_option persist_observation (er_correctness r),
                   pr_realtime = map_option persist_observation (er_realtime r),
                   pr_segmented = map_option persist_observation (er_segmented r),
                   pr_terminal = map_option persist_terminal (er_terminal r),
                   pr_failure = map_option persist_failure (er_failure r)\<rparr>
          in if empty_persisted p then None else Some p)"

definition into_observation ::
  "persisted_observation \<Rightarrow> state_now \<Rightarrow> (state_error, evidence_observation) result" where
  "into_observation p now =
     rbind (ts_new (po_observed_at p)) (\<lambda>observed_at.
     rbind (ts_new (po_expires_at p)) (\<lambda>expires_at.
     rbind (verification_result_new (po_target p) (po_outcome p) None observed_at (po_duration_ms p)
              expires_at) (\<lambda>res.
     rbind (validate_at res now) (\<lambda>_. observation_from_result res now))))"

definition into_terminal ::
  "persisted_terminal \<Rightarrow> state_now \<Rightarrow> (state_error, terminal_observation) result" where
  "into_terminal p now =
     rbind (ts_new (pt_observed_at p)) (\<lambda>observed_at.
     rbind (ts_new (pt_expires_at p)) (\<lambda>expires_at.
     rbind (verification_result_new (pt_target p) (pt_outcome p) (Some (pt_reason p)) observed_at
              (pt_duration_ms p) expires_at) (\<lambda>res.
     rbind (validate_at res now) (\<lambda>_. terminal_from_result res now))))"

definition transpose :: "('e, 'a) result option \<Rightarrow> ('e, 'a option) result" where
  "transpose x = (case x of None \<Rightarrow> Inr None | Some r \<Rightarrow> rbind r (\<lambda>a. Inr (Some a)))"

definition into_history ::
  "persisted_failure \<Rightarrow> state_now \<Rightarrow> (state_error, failure_history) result" where
  "into_history p now =
     rbind (ts_new (pf_last_failure_at p)) (\<lambda>last_failure_at.
     rbind (ts_new (pf_expires_at p)) (\<lambda>expires_at.
     rbind (transpose (map_option ts_new (pf_cooldown_until p))) (\<lambda>cooldown_until.
       if pf_streak p = 0 \<or> pf_streak p > MAX_FAILURE_STREAK \<or>
          last_failure_at > sat_add_u64 (now_wall now) MAX_FUTURE_SKEW_MS \<or>
          expires_at \<le> now_wall now \<or> expires_at \<le> last_failure_at \<or>
          expires_at - last_failure_at > MAX_EVIDENCE_TTL_MS \<or>
          is_some_and (\<lambda>c. c \<le> last_failure_at \<or> c - last_failure_at > 60 * MINUTE_MS) cooldown_until
       then Inl ImpossibleState
       else
         rbind (ok_or Bounds (checked_add_u64 (now_monotonic_ms now)
                  (min (expires_at - now_wall now) MAX_EVIDENCE_TTL_MS))) (\<lambda>me.
         rbind (transpose (map_option (\<lambda>c. ok_or Bounds (checked_add_u64 (now_monotonic_ms now)
                  (min (c - now_wall now) (60 * MINUTE_MS)))) cooldown_until)) (\<lambda>mc.
           Inr \<lparr>fh_streak = pf_streak p, fh_reason = pf_reason p, fh_last_failure_at = last_failure_at,
                fh_expires_at = expires_at, fh_cooldown_until = cooldown_until,
                fh_monotonic_cooldown_until_ms = mc, fh_monotonic_expires_at_ms = me\<rparr>)))))"

definition into_record ::
  "('pk \<Rightarrow> 'k option) \<Rightarrow> 'pk persisted_record \<Rightarrow> state_now \<Rightarrow> (state_error, 'k evidence_record) result" where
  "into_record into_key p now =
     rbind (ok_or ImpossibleState (into_key (pr_key p))) (\<lambda>key.
       if empty_persisted p then Inl ImpossibleState
       else
         rbind (transpose (map_option (\<lambda>ob. into_observation ob now) (pr_correctness p))) (\<lambda>c.
         rbind (transpose (map_option (\<lambda>ob. into_observation ob now) (pr_realtime p))) (\<lambda>rt.
         rbind (transpose (map_option (\<lambda>ob. into_observation ob now) (pr_segmented p))) (\<lambda>sg.
         rbind (transpose (map_option (\<lambda>tm. into_terminal tm now) (pr_terminal p))) (\<lambda>tm.
         rbind (transpose (map_option (\<lambda>h. into_history h now) (pr_failure p))) (\<lambda>fh.
           let r = \<lparr>er_key = key, er_correctness = c, er_realtime = rt, er_segmented = sg,
                    er_terminal = tm, er_failure = fh\<rparr>
           in rbind (record_validate r now) (\<lambda>_. Inr r)))))))"

section \<open>Well-formed evidence\<close>

text \<open>
  The part of \<open>validate\<close> that does not depend on the clock.  A stored record satisfies it for
  ever; what the clock adds is \<open>all_current\<close>, which \<open>prune_expired\<close> re-establishes.
\<close>

definition window_wf :: "u64 \<Rightarrow> u64 \<Rightarrow> bool" where
  "window_wf observed_at expires_at \<longleftrightarrow>
     observed_at < expires_at \<and> expires_at - observed_at \<le> MAX_EVIDENCE_TTL_MS"

definition observation_wf :: "evidence_target \<Rightarrow> evidence_outcome \<Rightarrow> evidence_observation \<Rightarrow> bool" where
  "observation_wf target out ob \<longleftrightarrow>
     ob_target ob = target \<and> ob_outcome ob = out \<and> ob_duration_ms ob \<le> MAX_SAFE_INTEGER \<and>
     window_wf (ob_observed_at ob) (ob_expires_at ob)"

definition terminal_wf :: "terminal_observation \<Rightarrow> bool" where
  "terminal_wf tm \<longleftrightarrow>
     ((tm_outcome tm = Unsupported \<and> tm_reason tm = ReasonUnsupported) \<or>
      (tm_outcome tm = PermanentFailure \<and> tm_reason tm = ReasonPermanentFailure)) \<and>
     tm_duration_ms tm \<le> MAX_SAFE_INTEGER \<and> window_wf (tm_observed_at tm) (tm_expires_at tm)"

definition failure_wf :: "failure_history \<Rightarrow> bool" where
  "failure_wf h \<longleftrightarrow>
     1 \<le> fh_streak h \<and> fh_streak h \<le> MAX_FAILURE_STREAK \<and>
     fh_reason h \<in> {VerificationFailed, VerificationTimeout} \<and>
     window_wf (fh_last_failure_at h) (fh_expires_at h) \<and>
     (fh_cooldown_until h \<noteq> None) = (fh_monotonic_cooldown_until_ms h \<noteq> None) \<and>
     pred_option (\<lambda>c. fh_last_failure_at h < c \<and> c - fh_last_failure_at h \<le> 60 * MINUTE_MS)
       (fh_cooldown_until h)"

definition record_wf :: "'k evidence_record \<Rightarrow> bool" where
  "record_wf r \<longleftrightarrow>
     pred_option (observation_wf Correctness CorrectnessPassed) (er_correctness r) \<and>
     pred_option (observation_wf Realtime RealtimePassed) (er_realtime r) \<and>
     pred_option (observation_wf Segmented CorrectnessPassed) (er_segmented r) \<and>
     pred_option terminal_wf (er_terminal r) \<and>
     pred_option failure_wf (er_failure r) \<and>
     (er_terminal r \<noteq> None \<longrightarrow>
        er_correctness r = None \<and> er_realtime r = None \<and> er_segmented r = None) \<and>
     (er_realtime r \<noteq> None \<or> er_segmented r \<noteq> None \<longrightarrow> er_correctness r \<noteq> None)"

definition all_current :: "'k evidence_record \<Rightarrow> state_now \<Rightarrow> bool" where
  "all_current r now \<longleftrightarrow>
     pred_option (\<lambda>ob. observation_is_current ob now) (er_correctness r) \<and>
     pred_option (\<lambda>ob. observation_is_current ob now) (er_realtime r) \<and>
     pred_option (\<lambda>ob. observation_is_current ob now) (er_segmented r) \<and>
     pred_option (\<lambda>tm. terminal_is_current tm now) (er_terminal r) \<and>
     pred_option (\<lambda>h. now_monotonic_ms now < fh_monotonic_expires_at_ms h) (er_failure r)"

section \<open>Validation is well-formedness with currency\<close>

lemma validate_opt_iff:
  "(validate_opt f x = Inr ()) = pred_option (\<lambda>a. f a = Inr ()) x"
  by (cases x) (simp_all add: validate_opt_def)

lemma validate_opt_error:
  "validate_opt f x = Inl e \<Longrightarrow> \<exists>a. x = Some a \<and> f a = Inl e"
  by (cases x) (simp_all add: validate_opt_def)

lemma validate_as_iff:
  "(validate_as ob target out now = Inr ()) =
     (observation_wf target out ob \<and> observation_is_current ob now)"
  by (auto simp: validate_as_def observation_wf_def window_wf_def)

lemma terminal_validate_iff:
  "(terminal_validate tm now = Inr ()) = (terminal_wf tm \<and> terminal_is_current tm now)"
  by (auto simp: terminal_validate_def terminal_wf_def window_wf_def)

lemma failure_invalid_iff:
  "failure_invalid h now = (\<not> (failure_wf h \<and> now_monotonic_ms now < fh_monotonic_expires_at_ms h))"
  by (cases "fh_cooldown_until h") (auto simp: failure_invalid_def failure_wf_def window_wf_def)

lemma require_current_correctness_iff:
  "(require_current_correctness r now = Inr ()) =
     (\<exists>ob. er_correctness r = Some ob \<and> observation_is_current ob now)"
  by (simp add: require_current_correctness_def is_some_and_iff)

lemma not_is_some_and_iff: "(\<not> is_some_and P x) = pred_option (\<lambda>a. \<not> P a) x"
  by (cases x) simp_all

lemma pred_option_conj: "pred_option (\<lambda>a. P a \<and> Q a) x = (pred_option P x \<and> pred_option Q x)"
  by (cases x) simp_all

lemma if_error_iff: "((if P then Inl e else x) = Inr a) = (\<not> P \<and> x = Inr a)"
  by simp

lemma record_validate_iff:
  "(record_validate r now = Inr ()) = (record_wf r \<and> all_current r now)"
proof -
  have cur: "require_current_correctness r now = Inr ()"
    if "pred_option (\<lambda>ob. observation_is_current ob now) (er_correctness r)" "er_correctness r \<noteq> None"
    using that by (auto simp: require_current_correctness_iff)
  have some: "er_correctness r \<noteq> None" if "require_current_correctness r now = Inr ()"
    using that by (auto simp: require_current_correctness_iff)
  have "(record_validate r now = Inr ()) =
     (pred_option (\<lambda>ob. validate_as ob Correctness CorrectnessPassed now = Inr ()) (er_correctness r) \<and>
      pred_option (\<lambda>ob. validate_as ob Realtime RealtimePassed now = Inr ()) (er_realtime r) \<and>
      pred_option (\<lambda>ob. validate_as ob Segmented CorrectnessPassed now = Inr ()) (er_segmented r) \<and>
      pred_option (\<lambda>tm. terminal_validate tm now = Inr ()) (er_terminal r) \<and>
      (er_terminal r \<noteq> None \<longrightarrow>
         er_correctness r = None \<and> er_realtime r = None \<and> er_segmented r = None) \<and>
      (er_realtime r \<noteq> None \<or> er_segmented r \<noteq> None \<longrightarrow> require_current_correctness r now = Inr ()) \<and>
      pred_option (\<lambda>h. \<not> failure_invalid h now) (er_failure r))"
    unfolding record_validate_def rbind_Inr_iff if_error_iff not_is_some_and_iff [symmetric]
      validate_opt_iff [symmetric] by auto
  then show ?thesis
    unfolding validate_as_iff terminal_validate_iff failure_invalid_iff pred_option_conj not_not
      record_wf_def all_current_def
    using cur some by blast
qed

lemma record_validate_error: "record_validate r now = Inl e \<Longrightarrow> e = ImpossibleState"
  by (auto simp: record_validate_def rbind_Inl_iff validate_as_def terminal_validate_def
      dest!: validate_opt_error split: if_splits)

section \<open>Pruning\<close>

lemma keep_current_simps [simp]:
  "keep_current f now None = None"
  "keep_current f now (Some a) = (if f a now then Some a else None)"
  by (simp_all add: keep_current_def)

lemma keep_current_pred: "pred_option P x \<Longrightarrow> pred_option P (keep_current f now x)"
  by (cases x) (simp_all add: keep_current_def)

lemma keep_current_current: "pred_option (\<lambda>a. f a now) (keep_current f now x)"
  by (cases x) (simp_all add: keep_current_def)

lemma keep_current_None: "keep_current f now x \<noteq> None \<Longrightarrow> x \<noteq> None"
  by (cases x) (simp_all add: keep_current_def)

lemma prune_expired_sel [simp]:
  "er_key (prune_expired r now) = er_key r"
  "er_correctness (prune_expired r now) = keep_current observation_is_current now (er_correctness r)"
  "er_terminal (prune_expired r now) = keep_current terminal_is_current now (er_terminal r)"
  "er_failure (prune_expired r now) = keep_current failure_is_current now (er_failure r)"
  by (cases "er_correctness r"; simp add: prune_expired_def Let_def keep_current_def)+

lemma prune_expired_dependents:
  "er_realtime (prune_expired r now) =
     (if is_some_and (\<lambda>ob. \<not> observation_is_current ob now) (er_correctness r) then None
      else keep_current observation_is_current now (er_realtime r))"
  "er_segmented (prune_expired r now) =
     (if is_some_and (\<lambda>ob. \<not> observation_is_current ob now) (er_correctness r) then None
      else keep_current observation_is_current now (er_segmented r))"
  by (simp_all add: prune_expired_def Let_def)

lemma prune_expired_wf: "record_wf r \<Longrightarrow> record_wf (prune_expired r now)"
  unfolding record_wf_def
  by (cases "er_correctness r"; cases "er_terminal r")
     (auto simp: prune_expired_dependents keep_current_pred dest: keep_current_None)

lemma prune_expired_current: "all_current (prune_expired r now) now"
proof -
  have "pred_option (\<lambda>h. now_monotonic_ms now < fh_monotonic_expires_at_ms h)
          (keep_current failure_is_current now (er_failure r))"
    by (cases "er_failure r") (auto simp: keep_current_def failure_is_current_def)
  then show ?thesis
    by (simp add: all_current_def prune_expired_dependents keep_current_current)
qed

lemma prune_expired_idem: "prune_expired (prune_expired r now) now = prune_expired r now"
proof -
  have kk: "keep_current f now (keep_current f now x) = keep_current f now x" for f and x :: "'b option"
    by (cases x) (simp_all add: keep_current_def)
  have "is_some_and (\<lambda>ob. \<not> observation_is_current ob now) (keep_current observation_is_current now x) = False" for x
    by (cases x) (simp_all add: keep_current_def)
  then show ?thesis
    by (intro evidence_record.equality) (simp_all add: prune_expired_dependents kk)
qed

section \<open>Applying a result\<close>

definition wf_at :: "'k evidence_record \<Rightarrow> state_now \<Rightarrow> bool" where
  "wf_at r now \<longleftrightarrow> record_wf r \<and> all_current r now"

lemma wf_at_prune: "record_wf r \<Longrightarrow> wf_at (prune_expired r now) now"
  by (simp add: wf_at_def prune_expired_wf prune_expired_current)

lemma validate_at_window:
  assumes "validate_at res now = Inr ()"
  shows "vr_duration_ms res \<le> MAX_SAFE_INTEGER" "window_wf (vr_observed_at res) (vr_expires_at res)"
    "now_wall now < vr_expires_at res"
  using assms by (auto simp: validate_at_def validate_shape_def rbind_Inr_iff window_wf_def split: if_splits)

lemma validate_at_shape:
  assumes "validate_at res now = Inr ()"
  shows "outcome_reason_ok (vr_outcome res) (vr_reason res)" "target_outcome_ok (vr_target res) (vr_outcome res)"
  using assms by (auto simp: validate_at_def validate_shape_def rbind_Inr_iff split: if_splits)

lemma deadline_fits:
  "now_monotonic_ms now \<le> MAX_SAFE_INTEGER \<Longrightarrow>
   now_monotonic_ms now + min d MAX_EVIDENCE_TTL_MS \<le> u64_max"
  by (simp add: evidence_constants)

lemma monotonic_deadline_value:
  "now_monotonic_ms now \<le> MAX_SAFE_INTEGER \<Longrightarrow>
   monotonic_deadline e now = Inr (now_monotonic_ms now + min (e - now_wall now) MAX_EVIDENCE_TTL_MS)"
  using deadline_fits by (simp add: monotonic_deadline_def checked_add_u64_def)

lemma observation_from_valid_result:
  assumes "validate_at res now = Inr ()" "now_monotonic_ms now \<le> MAX_SAFE_INTEGER"
  obtains ob where "observation_from_result res now = Inr ob" "observation_is_current ob now"
    "observation_wf (vr_target res) (vr_outcome res) ob" "ob_expires_at ob = vr_expires_at res"
  using that validate_at_window [OF assms(1)]
  by (simp add: observation_from_result_def monotonic_deadline_value [OF assms(2)]
      observation_is_current_def observation_wf_def MAX_EVIDENCE_TTL_MS_def MINUTE_MS_def)

lemma terminal_from_valid_result:
  assumes "validate_at res now = Inr ()" "now_monotonic_ms now \<le> MAX_SAFE_INTEGER"
    "vr_outcome res \<in> {Unsupported, PermanentFailure}"
  obtains tm where "terminal_from_result res now = Inr tm" "terminal_is_current tm now"
    "terminal_wf tm" "tm_expires_at tm = vr_expires_at res"
proof -
  obtain reason where "vr_reason res = Some reason"
    and "(vr_outcome res = Unsupported \<and> reason = ReasonUnsupported) \<or>
         (vr_outcome res = PermanentFailure \<and> reason = ReasonPermanentFailure)"
    using validate_at_shape(1) [OF assms(1)] assms(3) by auto
  then show thesis
    using that validate_at_window [OF assms(1)] assms(3)
    by (simp add: terminal_from_result_def monotonic_deadline_value [OF assms(2)]
        terminal_is_current_def terminal_wf_def MAX_EVIDENCE_TTL_MS_def MINUTE_MS_def)
qed

lemma cooldown_bounds: "0 < cooldown_for_streak s" "cooldown_for_streak s \<le> 60 * MINUTE_MS"
  by (simp_all add: cooldown_for_streak_def MINUTE_MS_def)

lemma ts_checked_add_Inr: "ts_checked_add t d = Inr x \<longleftrightarrow> x = t + d \<and> t + d \<le> MAX_SAFE_INTEGER"
  by (auto simp: ts_checked_add_def ts_new_def checked_add_u64_def rbind_Inr_iff MAX_SAFE_INTEGER_def)

lemma ts_checked_add_Inl: "ts_checked_add t d = Inl e \<longleftrightarrow> e = Bounds \<and> MAX_SAFE_INTEGER < t + d"
  by (auto simp: ts_checked_add_def ts_new_def checked_add_u64_def rbind_Inl_iff MAX_SAFE_INTEGER_def)

definition next_streak :: "failure_history option \<Rightarrow> state_now \<Rightarrow> nat" where
  "next_streak previous now =
     min ((case option_filter (\<lambda>h. now_wall now < fh_expires_at h) previous of
             None \<Rightarrow> 0 | Some h \<Rightarrow> fh_streak h) + 1) MAX_FAILURE_STREAK"

lemma next_streak_bounds: "1 \<le> next_streak p now" "next_streak p now \<le> 4"
  by (simp_all add: next_streak_def MAX_FAILURE_STREAK_def)

lemma failure_next_value:
  assumes "reason \<in> {VerificationFailed, VerificationTimeout}"
    "now_monotonic_ms now \<le> MAX_SAFE_INTEGER"
    "observed_at + MAX_EVIDENCE_TTL_MS \<le> MAX_SAFE_INTEGER"
  shows "failure_next previous reason observed_at now =
     (let s = next_streak previous now; c = observed_at + cooldown_for_streak s;
          e = observed_at + MAX_EVIDENCE_TTL_MS
      in Inr \<lparr>fh_streak = s, fh_reason = reason, fh_last_failure_at = observed_at, fh_expires_at = e,
              fh_cooldown_until = Some c,
              fh_monotonic_cooldown_until_ms =
                Some (now_monotonic_ms now + min (c - now_wall now) (cooldown_for_streak s)),
              fh_monotonic_expires_at_ms =
                now_monotonic_ms now + min (e - now_wall now) MAX_EVIDENCE_TTL_MS\<rparr>)"
proof -
  let ?s = "next_streak previous now"
  have str: "min (min ((case option_filter (\<lambda>h. now_wall now < fh_expires_at h) previous of
               None \<Rightarrow> 0 | Some h \<Rightarrow> fh_streak h) + 1) 255) MAX_FAILURE_STREAK = ?s"
    by (simp add: next_streak_def MAX_FAILURE_STREAK_def min_def)
  have c: "ts_checked_add observed_at (cooldown_for_streak ?s) = Inr (observed_at + cooldown_for_streak ?s)"
    using cooldown_bounds(2) [of ?s] assms(3)
    by (simp add: ts_checked_add_Inr MAX_EVIDENCE_TTL_MS_def MINUTE_MS_def)
  have e: "ts_checked_add observed_at MAX_EVIDENCE_TTL_MS = Inr (observed_at + MAX_EVIDENCE_TTL_MS)"
    using assms(3) by (simp add: ts_checked_add_Inr)
  have fit: "now_monotonic_ms now + min d (cooldown_for_streak ?s) \<le> u64_max" for d
    using assms(2) cooldown_bounds(2) [of ?s] by (simp add: MAX_SAFE_INTEGER_def MINUTE_MS_def)
  show ?thesis
    using assms(1) fit deadline_fits [OF assms(2)]
    by (simp only: failure_next_def str Let_def c e rbind.simps checked_add_u64_def if_True if_False
        simp_thms ok_or_simps)
qed

lemma failure_next_Inr:
  assumes "failure_next previous reason observed_at now = Inr h"
  shows "reason \<in> {VerificationFailed, VerificationTimeout}"
    "observed_at + MAX_EVIDENCE_TTL_MS \<le> MAX_SAFE_INTEGER"
  using assms by (auto simp: failure_next_def Let_def rbind_Inr_iff ts_checked_add_Inr split: if_splits)

lemma failure_next_error:
  "failure_next previous reason observed_at now = Inl e \<Longrightarrow>
   reason \<in> {VerificationFailed, VerificationTimeout} \<Longrightarrow> e = Bounds"
  by (auto simp: failure_next_def Let_def rbind_Inl_iff ts_checked_add_Inl ok_or_def
      split: if_splits option.splits)

lemma failure_next_wf:
  assumes "failure_next previous reason observed_at now = Inr h"
    "now_monotonic_ms now \<le> MAX_SAFE_INTEGER" "now_wall now < observed_at + MAX_EVIDENCE_TTL_MS"
  shows "failure_wf h" "failure_is_current h now"
proof -
  have eq: "failure_next previous reason observed_at now =
    (let s = next_streak previous now; c = observed_at + cooldown_for_streak s;
          e = observed_at + MAX_EVIDENCE_TTL_MS
      in Inr \<lparr>fh_streak = s, fh_reason = reason, fh_last_failure_at = observed_at, fh_expires_at = e,
              fh_cooldown_until = Some c,
              fh_monotonic_cooldown_until_ms =
                Some (now_monotonic_ms now + min (c - now_wall now) (cooldown_for_streak s)),
              fh_monotonic_expires_at_ms =
                now_monotonic_ms now + min (e - now_wall now) MAX_EVIDENCE_TTL_MS\<rparr>)"
    by (rule failure_next_value [OF failure_next_Inr(1) [OF assms(1)] assms(2)
          failure_next_Inr(2) [OF assms(1)]])
  show "failure_wf h"
    using assms(1) failure_next_Inr(1) [OF assms(1)] next_streak_bounds [of previous now]
      cooldown_bounds [of "next_streak previous now"]
    by (auto simp: eq Let_def failure_wf_def window_wf_def MAX_FAILURE_STREAK_def
        MAX_EVIDENCE_TTL_MS_def MINUTE_MS_def)
  show "failure_is_current h now"
    using assms(1,3) by (auto simp: eq Let_def failure_is_current_def MAX_EVIDENCE_TTL_MS_def MINUTE_MS_def)
qed

lemma failure_current_monotonic:
  "failure_is_current h now \<Longrightarrow> now_monotonic_ms now < fh_monotonic_expires_at_ms h"
  by (simp add: failure_is_current_def)

lemmas wf_at_defs = wf_at_def record_wf_def all_current_def

lemma wf_at_set_correctness:
  "wf_at r now \<Longrightarrow> observation_wf Correctness CorrectnessPassed ob \<Longrightarrow> observation_is_current ob now \<Longrightarrow>
   wf_at (r\<lparr>er_correctness := Some ob, er_terminal := None, er_failure := None\<rparr>) now"
  by (simp add: wf_at_defs)

lemma wf_at_set_segmented:
  "wf_at r now \<Longrightarrow> require_current_correctness r now = Inr () \<Longrightarrow>
   observation_wf Segmented CorrectnessPassed ob \<Longrightarrow> observation_is_current ob now \<Longrightarrow>
   wf_at (r\<lparr>er_segmented := Some ob, er_failure := None\<rparr>) now"
  by (auto simp: wf_at_defs require_current_correctness_iff)

lemma wf_at_set_realtime:
  "wf_at r now \<Longrightarrow> require_current_correctness r now = Inr () \<Longrightarrow>
   observation_wf Realtime RealtimePassed ob \<Longrightarrow> observation_is_current ob now \<Longrightarrow>
   wf_at (r\<lparr>er_realtime := Some ob, er_failure := None\<rparr>) now"
  by (auto simp: wf_at_defs require_current_correctness_iff)

lemma wf_at_set_terminal:
  "terminal_wf tm \<Longrightarrow> terminal_is_current tm now \<Longrightarrow>
   wf_at (r\<lparr>er_correctness := None, er_realtime := None, er_segmented := None, er_failure := None,
            er_terminal := Some tm\<rparr>) now"
  by (simp add: wf_at_defs)

lemma wf_at_set_failure:
  "wf_at r now \<Longrightarrow> failure_wf h \<Longrightarrow> failure_is_current h now \<Longrightarrow> wf_at (r\<lparr>er_failure := Some h\<rparr>) now"
  by (simp add: wf_at_defs failure_current_monotonic)

lemma require_current_error: "require_current_correctness r now = Inl e \<Longrightarrow> e = MissingCorrectness"
  by (simp add: require_current_correctness_def split: if_splits)

text \<open>Every branch of the outcome match keeps the record well-formed and current.\<close>

lemma apply_positive_wf:
  assumes "wf_at r now" "validate_at res now = Inr ()" "now_monotonic_ms now \<le> MAX_SAFE_INTEGER"
    "positive_outcome (vr_outcome res)"
  shows "wf_at (fst (apply_outcome r res now)) now \<and>
         (snd (apply_outcome r res now) = Inr () \<or>
          snd (apply_outcome r res now) = Inl (Inl MissingCorrectness))"
proof -
  obtain ob where ob: "observation_from_result res now = Inr ob" "observation_is_current ob now"
    "observation_wf (vr_target res) (vr_outcome res) ob"
    using observation_from_valid_result [OF assms(2,3)] by metis
  consider (c) "vr_outcome res = CorrectnessPassed" "vr_target res = Correctness"
    | (s) "vr_outcome res = CorrectnessPassed" "vr_target res = Segmented"
    | (rt) "vr_outcome res = RealtimePassed" "vr_target res = Realtime"
    using assms(4) validate_at_shape(2) [OF assms(2)] by (auto simp: positive_outcome_def)
  then show ?thesis
  proof cases
    case c
    then show ?thesis using ob assms(1) by (simp add: apply_outcome_def wf_at_set_correctness)
  next
    case s
    then show ?thesis using ob assms(1)
      by (cases "require_current_correctness r now")
         (auto simp: apply_outcome_def wf_at_set_segmented dest: require_current_error)
  next
    case rt
    then show ?thesis using ob assms(1)
      by (cases "require_current_correctness r now")
         (auto simp: apply_outcome_def wf_at_set_realtime dest: require_current_error)
  qed
qed

lemma apply_terminal_wf:
  assumes "validate_at res now = Inr ()" "now_monotonic_ms now \<le> MAX_SAFE_INTEGER"
    "vr_outcome res \<in> {Unsupported, PermanentFailure}"
  shows "wf_at (fst (apply_outcome r res now)) now \<and> snd (apply_outcome r res now) = Inr ()"
proof -
  obtain tm where "terminal_from_result res now = Inr tm" "terminal_is_current tm now" "terminal_wf tm"
    using terminal_from_valid_result [OF assms] by metis
  then show ?thesis using assms(3) by (auto simp: apply_outcome_def apply_terminal_def Let_def wf_at_set_terminal)
qed

lemma apply_failure_wf:
  assumes "wf_at r now" "validate_at res now = Inr ()" "now_monotonic_ms now \<le> MAX_SAFE_INTEGER"
    "vr_outcome res = TemporaryFailure"
  shows "wf_at (fst (apply_outcome r res now)) now \<and>
         (snd (apply_outcome r res now) = Inr () \<or> snd (apply_outcome r res now) = Inl (Inl Bounds))"
proof -
  obtain reason where reason: "vr_reason res = Some reason" "reason \<in> {VerificationFailed, VerificationTimeout}"
    using validate_at_shape(1) [OF assms(2)] assms(4) by auto
  show ?thesis
  proof (cases "failure_next (er_failure r) reason (vr_observed_at res) now")
    case (Inl e)
    then show ?thesis
      using reason failure_next_error [OF Inl reason(2)] assms(1,4) by (simp add: apply_outcome_def)
  next
    case (Inr h)
    have "now_wall now < vr_observed_at res + MAX_EVIDENCE_TTL_MS"
      using validate_at_window [OF assms(2)] unfolding window_wf_def by linarith
    then show ?thesis
      using Inr reason(1) assms(1,4) failure_next_wf [OF Inr assms(3)]
      by (simp add: apply_outcome_def wf_at_set_failure)
  qed
qed

lemma apply_outcome_wf:
  assumes "wf_at r now" "validate_at res now = Inr ()" "now_monotonic_ms now \<le> MAX_SAFE_INTEGER"
  shows "wf_at (fst (apply_outcome r res now)) now \<and>
         snd (apply_outcome r res now) \<in> {Inr (), Inl (Inl MissingCorrectness), Inl (Inl Bounds),
           Inl (Inr RemoveRecord), Inl (Inr NoChange)}"
proof (cases "vr_outcome res")
  case NotPresent
  then show ?thesis using assms(1) by (simp add: apply_outcome_def)
next
  case Cancelled
  then show ?thesis using assms(1) by (simp add: apply_outcome_def)
qed (use apply_positive_wf [OF assms] apply_terminal_wf [OF assms(2,3)] apply_failure_wf [OF assms]
     in \<open>auto simp: positive_outcome_def\<close>)

lemma apply_result_active:
  assumes "record_wf r" "validate_at res now = Inr ()" "now_monotonic_ms now \<le> MAX_SAFE_INTEGER"
  shows "apply_result r res ActiveInjected now =
     (let (r2, x) = apply_outcome (prune_expired r now) res now
      in (r2, case x of Inl early \<Rightarrow> early | Inr _ \<Rightarrow> Inr KeepRecord))"
proof -
  have "record_validate (fst (apply_outcome (prune_expired r now) res now)) now = Inr ()"
    using apply_outcome_wf [OF wf_at_prune [OF assms(1)] assms(2,3)]
    by (simp add: record_validate_iff wf_at_def)
  then show ?thesis
    using assms(2) by (auto simp: apply_result_def split: prod.splits sum.splits)
qed

lemma apply_result_wf:
  assumes "record_wf r" "now_monotonic_ms now \<le> MAX_SAFE_INTEGER"
  shows "record_wf (fst (apply_result r res mode now))"
proof (cases "validate_at res now = Inr () \<and> mode = ActiveInjected")
  case True
  then show ?thesis
    using apply_outcome_wf [OF wf_at_prune [OF assms(1)], of res now] assms
    by (auto simp: apply_result_active wf_at_def split: prod.splits)
next
  case False
  then show ?thesis
    using assms(1) verifier_mode.exhaust [of mode] by (auto simp: apply_result_def split: sum.splits)
qed

lemma validate_at_error:
  "validate_at res now = Inl e \<Longrightarrow> e \<in> {Bounds, InvalidResult, FutureObservation, ExpiredResult}"
  by (auto simp: validate_at_def validate_shape_def rbind_Inl_iff split: if_splits)

lemma apply_result_no_impossible_state:
  assumes "record_wf r" "now_monotonic_ms now \<le> MAX_SAFE_INTEGER"
  shows "snd (apply_result r res mode now) \<noteq> Inl ImpossibleState"
proof (cases "validate_at res now")
  case (Inl e)
  then show ?thesis using validate_at_error [OF Inl] by (auto simp: apply_result_def)
next
  case (Inr u)
  then have v: "validate_at res now = Inr ()" by simp
  show ?thesis
  proof (cases mode)
    case ObservationalOnly
    then show ?thesis using v by (simp add: apply_result_def)
  next
    case ActiveInjected
    then show ?thesis
      using apply_outcome_wf [OF wf_at_prune [OF assms(1)] v assms(2)]
      by (auto simp: apply_result_active [OF assms(1) v assms(2)] split: prod.splits)
  qed
qed

section \<open>The life of a record\<close>

definition evidence_init :: "('pk \<Rightarrow> 'k option) \<Rightarrow> 'k evidence_record \<Rightarrow> bool" where
  "evidence_init into_key r \<longleftrightarrow>
     (\<exists>k. r = record_new k) \<or> (\<exists>p now. into_record into_key p now = Inr r)"

inductive evidence_step :: "'k evidence_record \<Rightarrow> 'k evidence_record \<Rightarrow> bool" where
  step_apply: "state_now_new wall monotonic = Inr now \<Longrightarrow> evidence_step r (fst (apply_result r res mode now))"
| step_project: "state_now_new wall monotonic = Inr now \<Longrightarrow> evidence_step r (fst (project r now ctx))"
| step_clear: "state_now_new wall monotonic = Inr now \<Longrightarrow> evidence_step r (clear_cooldown_after_refresh r now)"
| step_prune: "state_now_new wall monotonic = Inr now \<Longrightarrow> evidence_step r (prune_expired r now)"

inductive_cases evidence_stepE: "evidence_step r r'"

lemma state_now_new_bound: "state_now_new wall monotonic = Inr now \<Longrightarrow> now_monotonic_ms now \<le> MAX_SAFE_INTEGER"
  by (auto simp: state_now_new_def split: if_splits)

lemma into_record_validated: "into_record into_key p now = Inr r \<Longrightarrow> record_validate r now = Inr ()"
  by (auto simp: into_record_def rbind_Inr_iff Let_def split: if_splits)

lemma record_new_wf: "record_wf (record_new k)"
  by (simp add: record_new_def record_wf_def)

lemma project_record: "fst (project r now ctx) = prune_expired r now"
  by (simp add: project_def Let_def)

lemma clear_cooldown_wf:
  assumes "record_wf r"
  shows "record_wf (clear_cooldown_after_refresh r now)"
proof -
  have "failure_wf (h\<lparr>fh_cooldown_until := None, fh_monotonic_cooldown_until_ms := None\<rparr>)"
    if "failure_wf h" for h using that by (simp add: failure_wf_def)
  then have "pred_option failure_wf (map_option (\<lambda>h. h\<lparr>fh_cooldown_until := None,
      fh_monotonic_cooldown_until_ms := None\<rparr>) x)" if "pred_option failure_wf x" for x
    using that by (cases x) simp_all
  then show ?thesis
    using prune_expired_wf [OF assms, of now]
    by (simp add: clear_cooldown_after_refresh_def Let_def record_wf_def)
qed

lemma clear_cooldown_closes_circuit:
  "er_failure (clear_cooldown_after_refresh r now) = Some h \<Longrightarrow> \<not> circuit_is_open h now'"
  by (auto simp: clear_cooldown_after_refresh_def Let_def circuit_is_open_def)

interpretation evidence_system:
  invariant_system "evidence_init into_key" evidence_step record_wf for into_key
proof unfold_locales
  fix r :: "'b evidence_record"
  assume "evidence_init into_key r"
  then show "record_wf r"
    using into_record_validated [of into_key]
    by (auto simp: evidence_init_def record_new_wf record_validate_iff)
next
  fix r r' :: "'b evidence_record"
  assume "record_wf r" "evidence_step r r'"
  from this(2,1) show "record_wf r'"
    by (cases rule: evidence_step.cases)
       (simp_all add: apply_result_wf project_record prune_expired_wf clear_cooldown_wf
         state_now_new_bound)
qed

lemma apply_keep_current:
  assumes "record_wf r" "now_monotonic_ms now \<le> MAX_SAFE_INTEGER"
    "apply_result r res mode now = (r', Inr KeepRecord)"
  shows "wf_at r' now"
proof -
  have v: "validate_at res now = Inr ()" "mode = ActiveInjected"
    using assms(3) verifier_mode.exhaust [of mode]
    by (auto simp: apply_result_def split: sum.splits if_splits)
  show ?thesis
    using assms(3) apply_outcome_wf [OF wf_at_prune [OF assms(1)] v(1) assms(2)]
    by (auto simp: v(2) apply_result_active [OF assms(1) v(1) assms(2)] split: prod.splits)
qed

text \<open>
  Property C25.  However a record came to be (new or read back from disk) and whatever results,
  projections, refreshes and prunings it has been through, at whatever clock readings, applying
  one more result never ends in the error \<open>ImpossibleState\<close>, the record after the call is
  well-formed and passes the code's own validation once pruned, and if the result was recorded
  the record passes it at once: \<open>validate\<close> at the end of \<open>apply\<close> can not fail.
\<close>

theorem evidence_is_never_impossible:
  assumes "reach (evidence_init into_key) evidence_step r"
    and "state_now_new wall monotonic = Inr now"
    and "apply_result r res mode now = (r', out)"
  shows "out \<noteq> Inl ImpossibleState \<and>
         record_validate (prune_expired r' later) later = Inr () \<and>
         (out = Inr KeepRecord \<longrightarrow> record_validate r' now = Inr ())"
proof (intro conjI impI)
  have wf: "record_wf r" using assms(1) by (rule evidence_system.reach_inv)
  have m: "now_monotonic_ms now \<le> MAX_SAFE_INTEGER" using assms(2) by (rule state_now_new_bound)
  show "out \<noteq> Inl ImpossibleState"
    using apply_result_no_impossible_state [OF wf m, of res mode] assms(3) by simp
  show "record_validate (prune_expired r' later) later = Inr ()"
    using apply_result_wf [OF wf m, of res mode] assms(3)
    by (simp add: record_validate_iff prune_expired_wf prune_expired_current)
  assume "out = Inr KeepRecord"
  then show "record_validate r' now = Inr ()"
    using apply_keep_current [OF wf m] assms(3) by (simp add: record_validate_iff wf_at_def)
qed

section \<open>What is shown\<close>

lemma keep_current_Some: "keep_current f now x = Some a \<longleftrightarrow> x = Some a \<and> f a now"
  by (cases x) auto

lemma project_realtime_iff:
  assumes "record_wf r"
  shows "snd (project r now ctx) = Some RealtimeQualified \<longleftrightarrow>
     \<not> pc_administratively_disabled ctx \<and>
     target_is_current r Correctness now \<and> target_is_current r Realtime now \<and>
     \<not> is_some_and (\<lambda>h. failure_is_current h now \<and> circuit_is_open h now) (er_failure r)"
proof -
  have open_iff: "is_some_and (\<lambda>h. circuit_is_open h now) (keep_current failure_is_current now x) =
        is_some_and (\<lambda>h. failure_is_current h now \<and> circuit_is_open h now) x" for x
    by (cases x) auto
  have rt: "er_realtime (prune_expired r now) \<noteq> None \<longleftrightarrow>
      target_is_current r Correctness now \<and> target_is_current r Realtime now"
    using assms by (cases "er_correctness r"; cases "er_realtime r")
      (auto simp: record_wf_def prune_expired_dependents)
  have tm: "er_terminal (prune_expired r now) = None" if "er_realtime (prune_expired r now) \<noteq> None"
    using prune_expired_wf [OF assms, of now] that by (auto simp: record_wf_def)
  have "snd (project r now ctx) = Some RealtimeQualified \<longleftrightarrow>
      \<not> pc_administratively_disabled ctx \<and> er_realtime (prune_expired r now) \<noteq> None \<and>
      \<not> is_some_and (\<lambda>h. circuit_is_open h now) (er_failure (prune_expired r now))"
    unfolding project_def Let_def using tm by auto
  then show ?thesis unfolding rt prune_expired_sel open_iff by blast
qed

text \<open>
  Property C26.  For any record with a history, the state shown to clients is realtime qualified
  exactly when the capability is not administratively disabled, both its correctness and its
  realtime evidence are unexpired on the wall clock and on the monotonic clock, and no failure
  holds the circuit open; the evidence is then less than 24 hours old, and no unsupported or
  permanent-failure verdict is stored.
\<close>

theorem realtime_qualified_iff_current_evidence:
  assumes "reach (evidence_init into_key) evidence_step r"
  shows "(snd (project r now ctx) = Some RealtimeQualified \<longleftrightarrow>
           \<not> pc_administratively_disabled ctx \<and>
           target_is_current r Correctness now \<and> target_is_current r Realtime now \<and>
           \<not> is_some_and (\<lambda>h. failure_is_current h now \<and> circuit_is_open h now) (er_failure r)) \<and>
         (snd (project r now ctx) = Some RealtimeQualified \<longrightarrow>
           er_terminal r = None \<and>
           (\<exists>ob. er_realtime r = Some ob \<and> ob_outcome ob = RealtimePassed \<and>
                 now_wall now < ob_observed_at ob + 24 * 60 * 60000))"
proof -
  have wf: "record_wf r" using assms by (rule evidence_system.reach_inv)
  have "er_terminal r = None \<and> (\<exists>ob. er_realtime r = Some ob \<and> ob_outcome ob = RealtimePassed \<and>
          now_wall now < ob_observed_at ob + 24 * 60 * 60000)"
    if cur: "target_is_current r Realtime now"
  proof -
    obtain ob where ob: "er_realtime r = Some ob" "observation_is_current ob now"
      using cur by (auto simp: is_some_and_iff)
    then have "observation_wf Realtime RealtimePassed ob" "er_terminal r = None"
      using wf by (auto simp: record_wf_def)
    then show ?thesis
      using ob by (auto simp: observation_wf_def window_wf_def observation_is_current_def
          MAX_EVIDENCE_TTL_MS_def MINUTE_MS_def)
  qed
  then show ?thesis using project_realtime_iff [OF wf] by blast
qed

section \<open>Failure escalation\<close>

definition current_streak :: "'k evidence_record \<Rightarrow> state_now \<Rightarrow> nat" where
  "current_streak r now =
     (case keep_current failure_is_current now (er_failure r) of None \<Rightarrow> 0 | Some h \<Rightarrow> fh_streak h)"

lemma next_streak_current:
  "next_streak (keep_current failure_is_current now (er_failure r)) now =
     min (current_streak r now + 1) MAX_FAILURE_STREAK"
  by (cases "er_failure r") (simp_all add: next_streak_def current_streak_def failure_is_current_def)

lemma apply_failure_value:
  assumes "record_wf r" "validate_at res now = Inr ()" "now_monotonic_ms now \<le> MAX_SAFE_INTEGER"
    "vr_outcome res = TemporaryFailure" "vr_observed_at res + MAX_EVIDENCE_TTL_MS \<le> MAX_SAFE_INTEGER"
  obtains h where
    "apply_result r res ActiveInjected now = ((prune_expired r now)\<lparr>er_failure := Some h\<rparr>, Inr KeepRecord)"
    "fh_streak h = min (current_streak r now + 1) 4"
    "fh_cooldown_until h = Some (vr_observed_at res + cooldown_for_streak (fh_streak h))"
    "fh_monotonic_cooldown_until_ms h = Some (now_monotonic_ms now +
       min (vr_observed_at res + cooldown_for_streak (fh_streak h) - now_wall now)
           (cooldown_for_streak (fh_streak h)))"
proof -
  obtain reason where reason: "vr_reason res = Some reason" "reason \<in> {VerificationFailed, VerificationTimeout}"
    using validate_at_shape(1) [OF assms(2)] assms(4) by auto
  show thesis
    using failure_next_value [OF reason(2) assms(3,5), of "er_failure (prune_expired r now)"] assms(4)
    by (intro that)
       (auto simp: apply_result_active [OF assms(1-3)] apply_outcome_def reason(1) Let_def
         next_streak_current MAX_FAILURE_STREAK_def)
qed

text \<open>
  Property C27.  A valid temporary failure is recorded with a streak one higher than the current
  one, at most four; it costs the positive evidence nothing but what has expired; and with an
  observation not in the future the circuit is open exactly until the remaining part of a
  cooldown of 10, 20, 40 or 60 minutes has passed on the monotonic clock, whatever the wall
  clock does in between, so never for more than an hour.
\<close>

theorem failures_escalate_to_an_hour:
  assumes "reach (evidence_init into_key) evidence_step r"
    and "state_now_new wall monotonic = Inr now"
    and "validate_at res now = Inr ()" and "vr_outcome res = TemporaryFailure"
    and "vr_observed_at res \<le> now_wall now"
    and "vr_observed_at res + MAX_EVIDENCE_TTL_MS \<le> MAX_SAFE_INTEGER"
  shows "\<exists>r' h s.
     apply_result r res ActiveInjected now = (r', Inr KeepRecord) \<and> er_failure r' = Some h \<and>
     fh_streak h = s \<and> s = min (current_streak r now + 1) 4 \<and>
     r' = (prune_expired r now)\<lparr>er_failure := Some h\<rparr> \<and>
     (\<forall>later. circuit_is_open h later \<longleftrightarrow>
        now_monotonic_ms later <
          monotonic + (vr_observed_at res + [10, 20, 40, 60] ! (s - 1) * 60000 - now_wall now)) \<and>
     (\<forall>later. circuit_is_open h later \<longrightarrow> now_monotonic_ms later < monotonic + 60 * 60000)"
proof -
  have wf: "record_wf r" using assms(1) by (rule evidence_system.reach_inv)
  have m: "now_monotonic_ms now \<le> MAX_SAFE_INTEGER" "monotonic = now_monotonic_ms now"
    using assms(2) by (auto simp: state_now_new_def split: if_splits)
  obtain h where h:
    "apply_result r res ActiveInjected now = ((prune_expired r now)\<lparr>er_failure := Some h\<rparr>, Inr KeepRecord)"
    "fh_streak h = min (current_streak r now + 1) 4"
    "fh_cooldown_until h = Some (vr_observed_at res + cooldown_for_streak (fh_streak h))"
    "fh_monotonic_cooldown_until_ms h = Some (now_monotonic_ms now +
       min (vr_observed_at res + cooldown_for_streak (fh_streak h) - now_wall now)
           (cooldown_for_streak (fh_streak h)))"
    using apply_failure_value [OF wf assms(3) m(1) assms(4,6)] by metis
  have s: "fh_streak h \<in> {1, 2, 3, 4}" using h(2) by auto
  have cd: "cooldown_for_streak (fh_streak h) = [10, 20, 40, 60] ! (fh_streak h - 1) * 60000"
    using s by (auto simp: cooldown_for_streak_def MINUTE_MS_def)
  have rem: "min (vr_observed_at res + d - now_wall now) d = vr_observed_at res + d - now_wall now" for d
    using assms(5) by simp
  have op: "circuit_is_open h later \<longleftrightarrow> now_monotonic_ms later <
      monotonic + (vr_observed_at res + [10, 20, 40, 60] ! (fh_streak h - 1) * 60000 - now_wall now)" for later
    unfolding circuit_is_open_def h(3,4) rem m(2) cd [symmetric] by simp
  have hour: "now_monotonic_ms later < monotonic + 60 * 60000" if "circuit_is_open h later" for later
  proof -
    have "now_monotonic_ms later < monotonic + (vr_observed_at res + cooldown_for_streak (fh_streak h) - now_wall now)"
      using that unfolding op cd .
    then show ?thesis
      using cooldown_bounds(2) [of "fh_streak h"] assms(5) unfolding MINUTE_MS_def by linarith
  qed
  show ?thesis
    by (rule exI [of _ "(prune_expired r now)\<lparr>er_failure := Some h\<rparr>"], rule exI [of _ h],
        rule exI [of _ "fh_streak h"])
       (use h(1,2) op hour in auto)
qed

section \<open>Reading back what was persisted\<close>

text \<open>What a stored record must satisfy on the wall clock to be readable; the monotonic
  deadlines are not stored, since that clock restarts with the process.\<close>

definition readable_window :: "state_now \<Rightarrow> u64 \<Rightarrow> u64 \<Rightarrow> bool" where
  "readable_window now observed_at expires_at \<longleftrightarrow>
     expires_at \<le> MAX_SAFE_INTEGER \<and> observed_at \<le> sat_add_u64 (now_wall now) MAX_FUTURE_SKEW_MS \<and>
     now_wall now < expires_at"

definition readable :: "'k evidence_record \<Rightarrow> state_now \<Rightarrow> bool" where
  "readable r now \<longleftrightarrow>
     pred_option (\<lambda>ob. readable_window now (ob_observed_at ob) (ob_expires_at ob)) (er_correctness r) \<and>
     pred_option (\<lambda>ob. readable_window now (ob_observed_at ob) (ob_expires_at ob)) (er_realtime r) \<and>
     pred_option (\<lambda>ob. readable_window now (ob_observed_at ob) (ob_expires_at ob)) (er_segmented r) \<and>
     pred_option (\<lambda>tm. readable_window now (tm_observed_at tm) (tm_expires_at tm)) (er_terminal r) \<and>
     pred_option (\<lambda>h. readable_window now (fh_last_failure_at h) (fh_expires_at h) \<and>
                      pred_option (\<lambda>c. c \<le> MAX_SAFE_INTEGER) (fh_cooldown_until h)) (er_failure r)"

definition restored_observation ::
  "state_now \<Rightarrow> evidence_observation \<Rightarrow> evidence_observation" where
  "restored_observation now ob = ob\<lparr>ob_monotonic_expires_at_ms :=
     now_monotonic_ms now + min (ob_expires_at ob - now_wall now) MAX_EVIDENCE_TTL_MS\<rparr>"

definition restored_terminal :: "state_now \<Rightarrow> terminal_observation \<Rightarrow> terminal_observation" where
  "restored_terminal now tm = tm\<lparr>tm_monotonic_expires_at_ms :=
     now_monotonic_ms now + min (tm_expires_at tm - now_wall now) MAX_EVIDENCE_TTL_MS\<rparr>"

definition restored_failure :: "state_now \<Rightarrow> failure_history \<Rightarrow> failure_history" where
  "restored_failure now h = h\<lparr>
     fh_monotonic_cooldown_until_ms :=
       map_option (\<lambda>c. now_monotonic_ms now + min (c - now_wall now) (60 * MINUTE_MS)) (fh_cooldown_until h),
     fh_monotonic_expires_at_ms :=
       now_monotonic_ms now + min (fh_expires_at h - now_wall now) MAX_EVIDENCE_TTL_MS\<rparr>"

definition restored :: "state_now \<Rightarrow> 'k evidence_record \<Rightarrow> 'k evidence_record" where
  "restored now r = r\<lparr>
     er_correctness := map_option (restored_observation now) (er_correctness r),
     er_realtime := map_option (restored_observation now) (er_realtime r),
     er_segmented := map_option (restored_observation now) (er_segmented r),
     er_terminal := map_option (restored_terminal now) (er_terminal r),
     er_failure := map_option (restored_failure now) (er_failure r)\<rparr>"

lemma readable_validate_at:
  assumes "readable_window now (vr_observed_at res) (vr_expires_at res)"
    "window_wf (vr_observed_at res) (vr_expires_at res)" "vr_duration_ms res \<le> MAX_SAFE_INTEGER"
    "positive_outcome (vr_outcome res) \<noteq> (vr_reason res \<noteq> None)"
    "outcome_reason_ok (vr_outcome res) (vr_reason res)" "target_outcome_ok (vr_target res) (vr_outcome res)"
  shows "validate_shape res = Inr ()" "validate_at res now = Inr ()"
  using assms by (auto simp: validate_at_def validate_shape_def readable_window_def window_wf_def)

lemma readable_ts:
  "readable_window now a b \<Longrightarrow> window_wf a b \<Longrightarrow> ts_new a = Inr a \<and> ts_new b = Inr b"
  by (auto simp: readable_window_def window_wf_def ts_new_def)

lemma transpose_Inr: "transpose (map_option (\<lambda>a. Inr (f a)) x) = Inr (map_option f x)"
  by (cases x) (simp_all add: transpose_def)

lemma into_observation_persisted:
  assumes "observation_wf target out ob" "readable_window now (ob_observed_at ob) (ob_expires_at ob)"
    "(target, out) \<in> {(Correctness, CorrectnessPassed), (Realtime, RealtimePassed), (Segmented, CorrectnessPassed)}"
    "now_monotonic_ms now \<le> MAX_SAFE_INTEGER"
  shows "into_observation (persist_observation ob) now = Inr (restored_observation now ob)"
proof -
  let ?res = "\<lparr>vr_target = ob_target ob, vr_outcome = ob_outcome ob, vr_reason = None,
    vr_observed_at = ob_observed_at ob, vr_duration_ms = ob_duration_ms ob, vr_expires_at = ob_expires_at ob\<rparr>"
  have w: "window_wf (ob_observed_at ob) (ob_expires_at ob)" "ob_duration_ms ob \<le> MAX_SAFE_INTEGER"
    "ob_target ob = target" "ob_outcome ob = out"
    using assms(1) by (auto simp: observation_wf_def)
  have v: "validate_shape ?res = Inr ()" "validate_at ?res now = Inr ()"
    by (rule readable_validate_at; use assms w in \<open>auto simp: positive_outcome_def\<close>)+
  have "observation_from_result ?res now = Inr (restored_observation now ob)"
    by (simp add: observation_from_result_def monotonic_deadline_value [OF assms(4)] restored_observation_def)
  then show ?thesis
    using readable_ts [OF assms(2) w(1)] v
    by (simp add: into_observation_def persist_observation_def verification_result_new_def)
qed

lemma into_terminal_persisted:
  assumes "terminal_wf tm" "readable_window now (tm_observed_at tm) (tm_expires_at tm)"
    "now_monotonic_ms now \<le> MAX_SAFE_INTEGER"
  shows "into_terminal (persist_terminal tm) now = Inr (restored_terminal now tm)"
proof -
  let ?res = "\<lparr>vr_target = tm_target tm, vr_outcome = tm_outcome tm, vr_reason = Some (tm_reason tm),
    vr_observed_at = tm_observed_at tm, vr_duration_ms = tm_duration_ms tm, vr_expires_at = tm_expires_at tm\<rparr>"
  have w: "window_wf (tm_observed_at tm) (tm_expires_at tm)" "tm_duration_ms tm \<le> MAX_SAFE_INTEGER"
    "tm_outcome tm \<in> {Unsupported, PermanentFailure}"
    using assms(1) by (auto simp: terminal_wf_def)
  have v: "validate_shape ?res = Inr ()" "validate_at ?res now = Inr ()"
    by (rule readable_validate_at; use assms w in \<open>auto simp: positive_outcome_def terminal_wf_def\<close>)+
  have "terminal_from_result ?res now = Inr (restored_terminal now tm)"
    using w(3) by (auto simp: terminal_from_result_def monotonic_deadline_value [OF assms(3)] restored_terminal_def)
  then show ?thesis
    using readable_ts [OF assms(2) w(1)] v
    by (simp add: into_terminal_def persist_terminal_def verification_result_new_def)
qed

lemma into_history_persisted:
  assumes "failure_wf h" "readable_window now (fh_last_failure_at h) (fh_expires_at h)"
    "pred_option (\<lambda>c. c \<le> MAX_SAFE_INTEGER) (fh_cooldown_until h)"
    "now_monotonic_ms now \<le> MAX_SAFE_INTEGER"
  shows "into_history (persist_failure h) now = Inr (restored_failure now h)"
proof -
  have w: "window_wf (fh_last_failure_at h) (fh_expires_at h)" using assms(1) by (simp add: failure_wf_def)
  have ts: "ts_new (fh_last_failure_at h) = Inr (fh_last_failure_at h)" "ts_new (fh_expires_at h) = Inr (fh_expires_at h)"
    using readable_ts [OF assms(2) w] by simp_all
  have c: "transpose (map_option ts_new (fh_cooldown_until h)) = Inr (fh_cooldown_until h)"
    using assms(3) by (cases "fh_cooldown_until h") (simp_all add: transpose_def ts_new_def)
  have fit: "checked_add_u64 (now_monotonic_ms now) (min d MAX_EVIDENCE_TTL_MS) =
      Some (now_monotonic_ms now + min d MAX_EVIDENCE_TTL_MS)"
    "checked_add_u64 (now_monotonic_ms now) (min d (60 * MINUTE_MS)) =
      Some (now_monotonic_ms now + min d (60 * MINUTE_MS))" for d
    using deadline_fits [OF assms(4)] assms(4)
    by (simp_all add: checked_add_u64_def MAX_SAFE_INTEGER_def MINUTE_MS_def)
  have ok: "\<not> (fh_streak h = 0 \<or> fh_streak h > MAX_FAILURE_STREAK \<or>
          fh_last_failure_at h > sat_add_u64 (now_wall now) MAX_FUTURE_SKEW_MS \<or>
          fh_expires_at h \<le> now_wall now \<or> fh_expires_at h \<le> fh_last_failure_at h \<or>
          fh_expires_at h - fh_last_failure_at h > MAX_EVIDENCE_TTL_MS \<or>
          is_some_and (\<lambda>c. c \<le> fh_last_failure_at h \<or> c - fh_last_failure_at h > 60 * MINUTE_MS)
            (fh_cooldown_until h))"
    using assms(1,2) w
    by (cases "fh_cooldown_until h") (auto simp: failure_wf_def readable_window_def window_wf_def)
  have sel: "pf_streak (persist_failure h) = fh_streak h" "pf_reason (persist_failure h) = fh_reason h"
    "pf_last_failure_at (persist_failure h) = fh_last_failure_at h"
    "pf_expires_at (persist_failure h) = fh_expires_at h"
    "pf_cooldown_until (persist_failure h) = fh_cooldown_until h"
    by (simp_all add: persist_failure_def)
  have "into_history (persist_failure h) now =
      Inr \<lparr>fh_streak = fh_streak h, fh_reason = fh_reason h, fh_last_failure_at = fh_last_failure_at h,
           fh_expires_at = fh_expires_at h, fh_cooldown_until = fh_cooldown_until h,
           fh_monotonic_cooldown_until_ms = map_option (\<lambda>c. now_monotonic_ms now +
             min (c - now_wall now) (60 * MINUTE_MS)) (fh_cooldown_until h),
           fh_monotonic_expires_at_ms = now_monotonic_ms now +
             min (fh_expires_at h - now_wall now) MAX_EVIDENCE_TTL_MS\<rparr>"
    unfolding into_history_def sel ts c rbind.simps if_not_P [OF ok] fit ok_or_simps transpose_Inr ..
  then show ?thesis by (simp add: restored_failure_def)
qed

lemma transpose_persisted:
  "(\<And>a. x = Some a \<Longrightarrow> f (g a) = Inr (h a)) \<Longrightarrow>
   transpose (map_option f (map_option g x)) = Inr (map_option h x)"
  by (cases x) (simp_all add: transpose_def)

lemma restored_sel [simp]:
  "er_key (restored now r) = er_key r"
  "er_correctness (restored now r) = map_option (restored_observation now) (er_correctness r)"
  "er_realtime (restored now r) = map_option (restored_observation now) (er_realtime r)"
  "er_segmented (restored now r) = map_option (restored_observation now) (er_segmented r)"
  "er_terminal (restored now r) = map_option (restored_terminal now) (er_terminal r)"
  "er_failure (restored now r) = map_option (restored_failure now) (er_failure r)"
  by (simp_all add: restored_def)

lemma persist_restored [simp]:
  "persist_observation (restored_observation now ob) = persist_observation ob"
  "persist_terminal (restored_terminal now tm) = persist_terminal tm"
  "persist_failure (restored_failure now h) = persist_failure h"
  by (simp_all add: persist_observation_def restored_observation_def persist_terminal_def
      restored_terminal_def persist_failure_def restored_failure_def)

lemma restored_wf:
  "observation_wf t c (restored_observation now ob) = observation_wf t c ob"
  "terminal_wf (restored_terminal now tm) = terminal_wf tm"
  "failure_wf h \<Longrightarrow> failure_wf (restored_failure now h)"
  by (auto simp: observation_wf_def restored_observation_def terminal_wf_def restored_terminal_def
      failure_wf_def restored_failure_def)

lemma restored_record_wf: "record_wf r \<Longrightarrow> record_wf (restored now r)"
  by (auto simp: record_wf_def option.pred_map o_def restored_wf elim: option.pred_mono_strong)

lemma restored_current:
  "readable_window now (ob_observed_at ob) (ob_expires_at ob) \<Longrightarrow>
     observation_is_current (restored_observation now ob) now"
  "readable_window now (tm_observed_at tm) (tm_expires_at tm) \<Longrightarrow>
     terminal_is_current (restored_terminal now tm) now"
  "readable_window now (fh_last_failure_at h) (fh_expires_at h) \<Longrightarrow>
     now_monotonic_ms now < fh_monotonic_expires_at_ms (restored_failure now h)"
  by (auto simp: readable_window_def observation_is_current_def restored_observation_def
      terminal_is_current_def restored_terminal_def restored_failure_def MAX_EVIDENCE_TTL_MS_def MINUTE_MS_def)

lemma restored_all_current: "readable r now \<Longrightarrow> all_current (restored now r) now"
  by (auto simp: readable_def all_current_def option.pred_map o_def restored_current
      elim: option.pred_mono_strong)

lemma from_record_restored: "from_record from_key (restored now r) = from_record from_key r"
  by (simp add: from_record_def option.map_comp o_def split: option.splits)

lemma into_record_from_record:
  assumes "record_wf r" "readable r now" "now_monotonic_ms now \<le> MAX_SAFE_INTEGER"
    and p: "from_record from_key r = Some p" and k: "into_key (pr_key p) = Some (er_key r)"
  shows "into_record into_key p now = Inr (restored now r)"
proof -
  have sel: "pr_correctness p = map_option persist_observation (er_correctness r)"
    "pr_realtime p = map_option persist_observation (er_realtime r)"
    "pr_segmented p = map_option persist_observation (er_segmented r)"
    "pr_terminal p = map_option persist_terminal (er_terminal r)"
    "pr_failure p = map_option persist_failure (er_failure r)" "\<not> empty_persisted p"
    using p by (auto simp: from_record_def Let_def split: option.splits if_splits)
  have ob: "transpose (map_option (\<lambda>ob. into_observation ob now) (map_option persist_observation x)) =
       Inr (map_option (restored_observation now) x)"
    if "pred_option (observation_wf t c) x"
      "pred_option (\<lambda>ob. readable_window now (ob_observed_at ob) (ob_expires_at ob)) x"
      "(t, c) \<in> {(Correctness, CorrectnessPassed), (Realtime, RealtimePassed), (Segmented, CorrectnessPassed)}"
    for t c x
    by (rule transpose_persisted) (use that into_observation_persisted assms(3) in auto)
  have obs: "transpose (map_option (\<lambda>ob. into_observation ob now) (pr_correctness p)) = Inr (er_correctness (restored now r))"
    "transpose (map_option (\<lambda>ob. into_observation ob now) (pr_realtime p)) = Inr (er_realtime (restored now r))"
    "transpose (map_option (\<lambda>ob. into_observation ob now) (pr_segmented p)) = Inr (er_segmented (restored now r))"
    unfolding sel restored_sel
    using assms(1,2) ob [of Correctness CorrectnessPassed] ob [of Realtime RealtimePassed]
      ob [of Segmented CorrectnessPassed]
    by (simp_all add: record_wf_def readable_def)
  have tm: "transpose (map_option (\<lambda>tm. into_terminal tm now) (pr_terminal p)) = Inr (er_terminal (restored now r))"
    unfolding sel restored_sel
    by (rule transpose_persisted)
       (use assms in \<open>auto simp: record_wf_def readable_def intro: into_terminal_persisted\<close>)
  have fh: "transpose (map_option (\<lambda>h. into_history h now) (pr_failure p)) = Inr (er_failure (restored now r))"
    unfolding sel restored_sel
    by (rule transpose_persisted)
       (use assms in \<open>auto simp: record_wf_def readable_def intro: into_history_persisted\<close>)
  have v: "record_validate (restored now r) now = Inr ()"
    by (simp add: record_validate_iff restored_record_wf restored_all_current assms)
  have r: "\<lparr>er_key = er_key r, er_correctness = er_correctness (restored now r),
      er_realtime = er_realtime (restored now r), er_segmented = er_segmented (restored now r),
      er_terminal = er_terminal (restored now r), er_failure = er_failure (restored now r)\<rparr> = restored now r"
    by (rule evidence_record.equality) (simp_all del: restored_sel(2-))
  show ?thesis
    unfolding into_record_def k ok_or_simps rbind.simps obs tm fh Let_def r v
    using sel(6) by simp
qed

text \<open>
  Property C28.  Persistence loses nothing and extends nothing: a record with a history, stored
  and read back at a time when its evidence is unexpired and not from the future, is restored
  with the same wall-clock data, passes validation, would be stored as the same bytes again,
  and no restored evidence stays current past the wall-clock time left when it was read.
\<close>

theorem persisted_evidence_round_trip:
  assumes "reach (evidence_init into_key) evidence_step r"
    and "from_record from_key r = Some p" and "into_key (pr_key p) = Some (er_key r)"
    and "readable r now" and "state_now_new wall monotonic = Inr now"
  shows "\<exists>r'. into_record into_key p now = Inr r' \<and> from_record from_key r' = Some p \<and>
     record_validate r' now = Inr () \<and>
     (\<forall>t later. target_is_current r' t later \<longrightarrow>
        (\<exists>ob. ob \<in> set_option (er_correctness r) \<union> set_option (er_realtime r) \<union> set_option (er_segmented r) \<and>
              now_wall later < ob_expires_at ob \<and>
              now_monotonic_ms later < monotonic + (ob_expires_at ob - wall)))"
proof -
  have wf: "record_wf r" using assms(1) by (rule evidence_system.reach_inv)
  have m: "now_monotonic_ms now \<le> MAX_SAFE_INTEGER" "monotonic = now_monotonic_ms now" "wall = now_wall now"
    using assms(5) by (auto simp: state_now_new_def split: if_splits)
  have read: "into_record into_key p now = Inr (restored now r)"
    by (rule into_record_from_record [of r now from_key p into_key]) (use wf assms m in simp_all)
  have "\<exists>ob. ob \<in> set_option (er_correctness r) \<union> set_option (er_realtime r) \<union> set_option (er_segmented r) \<and>
          now_wall later < ob_expires_at ob \<and> now_monotonic_ms later < monotonic + (ob_expires_at ob - wall)"
    if "target_is_current (restored now r) t later" for t later
    using that unfolding m(2,3)
    by (cases t) (auto simp: is_some_and_iff observation_is_current_def restored_observation_def)
  then show ?thesis
    using read into_record_validated [OF read] assms(2) by (auto simp: from_record_restored)
qed

section \<open>Witnesses\<close>

definition sample_now :: state_now where
  "sample_now = \<lparr>now_wall = 2000000, now_monotonic_ms = 500\<rparr>"

definition sample_passed :: verification_result where
  "sample_passed = \<lparr>vr_target = Correctness, vr_outcome = CorrectnessPassed, vr_reason = None,
     vr_observed_at = 1000000, vr_duration_ms = 30, vr_expires_at = 4600000\<rparr>"

definition sample_failed :: verification_result where
  "sample_failed = \<lparr>vr_target = Correctness, vr_outcome = TemporaryFailure,
     vr_reason = Some VerificationTimeout, vr_observed_at = 1900000, vr_duration_ms = 30,
     vr_expires_at = 4600000\<rparr>"

definition sample_observation :: "evidence_target \<Rightarrow> evidence_outcome \<Rightarrow> evidence_observation" where
  "sample_observation t c = \<lparr>ob_target = t, ob_outcome = c, ob_observed_at = 1000000,
     ob_duration_ms = 30, ob_expires_at = 4600000, ob_monotonic_expires_at_ms = 2600500\<rparr>"

definition sample_record :: "nat evidence_record" where
  "sample_record = \<lparr>er_key = 7, er_correctness = Some (sample_observation Correctness CorrectnessPassed),
     er_realtime = Some (sample_observation Realtime RealtimePassed), er_segmented = None,
     er_terminal = None, er_failure = None\<rparr>"

definition sample_persisted :: "nat persisted_record" where
  "sample_persisted = \<lparr>pr_key = 7,
     pr_correctness = Some \<lparr>po_target = Correctness, po_outcome = CorrectnessPassed,
       po_observed_at = 1000000, po_duration_ms = 30, po_expires_at = 4600000\<rparr>,
     pr_realtime = Some \<lparr>po_target = Realtime, po_outcome = RealtimePassed,
       po_observed_at = 1000000, po_duration_ms = 30, po_expires_at = 4600000\<rparr>,
     pr_segmented = None, pr_terminal = None, pr_failure = None\<rparr>"

lemmas sample_defs = sample_now_def sample_passed_def sample_failed_def sample_observation_def
  sample_record_def sample_persisted_def

lemma sample_now_new: "state_now_new 2000000 500 = Inr sample_now"
  by (simp add: state_now_new_def MAX_SAFE_INTEGER_def sample_now_def)

lemma sample_valid: "validate_at sample_passed sample_now = Inr ()" "validate_at sample_failed sample_now = Inr ()"
  by (simp_all add: validate_at_def validate_shape_def sample_defs positive_outcome_def
      evidence_constants sat_add_u64_def)

lemma sample_record_wf: "record_wf sample_record"
  by (simp add: record_wf_def sample_defs observation_wf_def window_wf_def evidence_constants)

lemma sample_readable: "readable sample_record sample_now"
  by (simp add: readable_def readable_window_def sample_defs evidence_constants sat_add_u64_def)

lemma sample_from_record: "from_record Some sample_record = Some sample_persisted"
  by (simp add: from_record_def sample_defs persist_observation_def empty_persisted_def)

lemma sample_restored: "restored sample_now sample_record = sample_record"
  by (simp add: restored_def sample_defs restored_observation_def evidence_constants)

lemma sample_into_record: "into_record Some sample_persisted sample_now = Inr sample_record"
proof -
  have "into_record Some sample_persisted sample_now = Inr (restored sample_now sample_record)"
    by (rule into_record_from_record [OF sample_record_wf sample_readable _ sample_from_record])
       (simp_all add: sample_defs evidence_constants)
  then show ?thesis by (simp add: sample_restored)
qed

lemma sample_reach: "reach (evidence_init Some) evidence_step sample_record"
  by (rule reach_init) (use sample_into_record in \<open>auto simp: evidence_init_def\<close>)

lemma sample_new_reach: "reach (evidence_init Some) evidence_step (record_new (7 :: nat))"
  by (rule reach_init) (auto simp: evidence_init_def)

lemma sample_apply:
  "apply_result (record_new k) sample_passed ActiveInjected sample_now =
     ((record_new k)\<lparr>er_correctness := Some (sample_observation Correctness CorrectnessPassed)\<rparr>, Inr KeepRecord)"
proof -
  have "prune_expired (record_new k) sample_now = record_new k"
    by (simp add: prune_expired_def record_new_def)
  moreover have "observation_from_result sample_passed sample_now =
      Inr (sample_observation Correctness CorrectnessPassed)"
    by (simp add: observation_from_result_def monotonic_deadline_def sample_defs evidence_constants
        checked_add_u64_def)
  ultimately show ?thesis
    by (subst apply_result_active [OF record_new_wf sample_valid(1)])
       (simp_all add: apply_outcome_def sample_passed_def sample_now_def MAX_SAFE_INTEGER_def record_new_def)
qed

theorem evidence_is_never_impossible_witness:
  "snd (apply_result (record_new (7 :: nat)) sample_passed ActiveInjected sample_now) = Inr KeepRecord \<and>
   record_validate (fst (apply_result (record_new (7 :: nat)) sample_passed ActiveInjected sample_now))
     sample_now = Inr ()"
  using evidence_is_never_impossible [OF sample_new_reach sample_now_new sample_apply]
  by (simp add: sample_apply)

theorem realtime_qualified_iff_current_evidence_witness:
  "snd (project sample_record sample_now
     \<lparr>pc_administratively_disabled = False, pc_listed = True\<rparr>) = Some RealtimeQualified"
  using realtime_qualified_iff_current_evidence [OF sample_reach, of sample_now
      "\<lparr>pc_administratively_disabled = False, pc_listed = True\<rparr>"]
  by (simp add: sample_defs observation_is_current_def)

theorem failures_escalate_to_an_hour_witness:
  "\<exists>r' h. apply_result (record_new (7 :: nat)) sample_failed ActiveInjected sample_now = (r', Inr KeepRecord) \<and>
     er_failure r' = Some h \<and> fh_streak h = 1 \<and>
     circuit_is_open h \<lparr>now_wall = 9, now_monotonic_ms = 500499\<rparr> \<and>
     \<not> circuit_is_open h \<lparr>now_wall = 9, now_monotonic_ms = 500500\<rparr>"
proof -
  have "current_streak (record_new (7 :: nat)) sample_now = 0"
    by (simp add: current_streak_def record_new_def)
  then show ?thesis
    using failures_escalate_to_an_hour [OF sample_new_reach sample_now_new sample_valid(2)]
    by (fastforce simp: sample_failed_def sample_now_def evidence_constants)
qed

theorem persisted_evidence_round_trip_witness:
  "\<exists>r'. into_record Some sample_persisted sample_now = Inr r' \<and> from_record Some r' = Some sample_persisted"
  using persisted_evidence_round_trip [OF sample_reach sample_from_record _ sample_readable sample_now_new]
  by (auto simp: sample_record_def sample_persisted_def)

end
