(* ===== verification/Snapshot.thy ===== *)
theory Snapshot
  imports Devices CapabilityKey Evidence "HOL-Library.AList"
begin

text \<open>
  The published capability snapshot of \<open>src/server/src/transcoding/capability/registry.rs\<close>: its
  parts, its validation, and the test whether a key is admitted, that is whether its runtime,
  device, driver and backend are those of the snapshot and its static prerequisites are listed.

  The evidence map is an association list with the keys of the \<open>BTreeMap\<close> as its distinct keys;
  nothing below depends on the order of its entries.  The candidates of a validated snapshot are
  strictly ascending, so \<open>binary_search\<close> on them is membership.
\<close>

definition MAX_DEVICES :: nat where "MAX_DEVICES = 32"
definition MAX_CANDIDATES :: nat where "MAX_CANDIDATES = 1024"
definition MAX_EVIDENCE :: nat where "MAX_EVIDENCE = 3072"
definition MAX_COMBINED_ROWS :: nat where "MAX_COMBINED_ROWS = 4096"

datatype snapshot_freshness = Uninitialized | Refreshing | Fresh | Stale

datatype snapshot_error = SnapBounds | SnapCrossReference | SnapInvalid | SnapOrdering

type_synonym capability_evidence = "capability_key evidence_record"

type_synonym evidence_map = "(capability_key \<times> capability_evidence) list"

record snapshot =
  sn_freshness :: snapshot_freshness
  sn_identity_epoch :: u64
  sn_publication_revision :: u64
  sn_runtime :: "runtime_inventory option"
  sn_devices :: "transcoding_device list"
  sn_candidates :: "coarse_candidate list"
  sn_evidence :: evidence_map

definition snapshot_uninitialized :: snapshot where
  "snapshot_uninitialized =
     \<lparr>sn_freshness = Uninitialized, sn_identity_epoch = 0, sn_publication_revision = 0, sn_runtime = None,
      sn_devices = [], sn_candidates = [], sn_evidence = []\<rparr>"

fun required_filter_components :: "required_filter \<Rightarrow> filter_component list option" where
  "required_filter_components FlFormat = Some [FilterFormat]"
| "required_filter_components FlScale = Some [ScaleSoftware, ScaleCuda, ScaleQsv, ScaleVaapi]"
| "required_filter_components FlDeinterlace = Some [DeinterlaceSoftware, DeinterlaceQsv, DeinterlaceVaapi]"
| "required_filter_components FlToneMap = Some [ToneMapSoftware, ToneMapOpenCl, ToneMapVaapi]"
| "required_filter_components FlSubtitles = None"
| "required_filter_components FlHardwareUpload = Some [FilterHardwareUpload]"
| "required_filter_components FlHardwareDownload = Some [FilterHardwareDownload]"
| "required_filter_components FlHardwareMap = Some [FilterHardwareMap]"

fun required_transfer_component :: "required_transfer \<Rightarrow> filter_component option" where
  "required_transfer_component TrUpload = Some FilterHardwareUpload"
| "required_transfer_component TrDownload = Some FilterHardwareDownload"
| "required_transfer_component TrHardwareMap = Some FilterHardwareMap"

definition key_identity_matches :: "snapshot \<Rightarrow> capability_key \<Rightarrow> bool" where
  "key_identity_matches s key \<longleftrightarrow>
     is_some_and (\<lambda>runtime. inv_runtime_id runtime = ck_runtime key) (sn_runtime s) \<and>
     list_ex (\<lambda>device. td_id device = ck_device key \<and> td_driver_identity device = ck_driver key \<and>
                        td_availability device = Available \<and> ck_backend key \<in> td_backends device)
       (sn_devices s)"

definition key_is_current :: "snapshot \<Rightarrow> capability_key \<Rightarrow> bool" where
  "key_is_current s key \<longleftrightarrow> sn_freshness s = Fresh \<and> key_identity_matches s key"

definition requirements_listed :: "filter_component set \<Rightarrow> pipeline_requirements \<Rightarrow> bool" where
  "requirements_listed fs q \<longleftrightarrow>
     list_all (\<lambda>f. pred_option (list_ex (\<lambda>component. component \<in> fs)) (required_filter_components f))
       (pq_filters q) \<and>
     list_all (\<lambda>t. pred_option (\<lambda>component. component \<in> fs) (required_transfer_component t))
       (pq_transfers q)"

text \<open>\<open>None\<close> is the panic of the codec table, which valid keys do not reach.\<close>

definition has_static_prerequisites :: "snapshot \<Rightarrow> capability_key \<Rightarrow> bool option" where
  "has_static_prerequisites s key =
     map_option (\<lambda>sp.
       let has = (\<lambda>codec direction. (ck_device key, ck_backend key, codec, direction) \<in> set (sn_candidates s))
       in pred_option (\<lambda>codec. has codec ListedDecode) (sp_decode sp) \<and>
          pred_option (\<lambda>codec. has codec ListedEncode) (sp_encode sp) \<and>
          pred_option (\<lambda>q. is_some_and (\<lambda>runtime. requirements_listed (inv_filters runtime) q) (sn_runtime s))
            (sp_requirements sp))
       (static_prerequisites key)"

definition admits :: "snapshot \<Rightarrow> capability_key \<Rightarrow> bool" where
  "admits s key \<longleftrightarrow> key_is_valid key \<and> key_is_current s key \<and> has_static_prerequisites s key = Some True"

definition evidence_entry_ok :: "snapshot \<Rightarrow> state_now \<Rightarrow> capability_key \<times> capability_evidence \<Rightarrow> bool" where
  "evidence_entry_ok s now = (\<lambda>(key, r).
     key = er_key r \<and> key_is_valid key \<and> key_identity_matches s key \<and>
     has_static_prerequisites s key = Some True \<and> record_validate r now = Inr ())"

definition candidate_ok :: "snapshot \<Rightarrow> coarse_candidate \<Rightarrow> bool" where
  "candidate_ok s = (\<lambda>(device, backend, codec, direction).
     is_some_and (\<lambda>d. backend \<in> td_backends d) (find (\<lambda>d. td_id d = device) (sn_devices s)))"

definition snapshot_validate :: "snapshot \<Rightarrow> state_now \<Rightarrow> (snapshot_error, unit) result" where
  "snapshot_validate s now =
     (if sn_identity_epoch s > MAX_SAFE_INTEGER \<or> sn_publication_revision s > MAX_SAFE_INTEGER \<or>
         length (sn_devices s) > MAX_DEVICES \<or> length (sn_candidates s) > MAX_CANDIDATES \<or>
         length (sn_evidence s) > MAX_EVIDENCE \<or>
         pred_option (\<lambda>rows. rows > MAX_COMBINED_ROWS)
           (checked_add_u64 (length (sn_candidates s)) (length (sn_evidence s)))
      then Inl SnapBounds
      else if sn_freshness s = Uninitialized \<and>
              (sn_identity_epoch s \<noteq> 0 \<or> sn_publication_revision s \<noteq> 0 \<or> sn_runtime s \<noteq> None \<or>
               sn_devices s \<noteq> [] \<or> sn_candidates s \<noteq> [] \<or> sn_evidence s \<noteq> [])
      then Inl SnapInvalid
      else if sn_freshness s \<noteq> Uninitialized \<and> (sn_identity_epoch s = 0 \<or> sn_publication_revision s = 0)
      then Inl SnapInvalid
      else if sn_runtime s = None \<and> (sn_candidates s \<noteq> [] \<or> sn_evidence s \<noteq> [])
      then Inl SnapCrossReference
      else if \<not> ascending (map td_id (sn_devices s)) \<or> \<not> ascending (sn_candidates s)
      then Inl SnapOrdering
      else if \<not> list_all (candidate_ok s) (sn_candidates s) then Inl SnapCrossReference
      else if \<not> list_all (evidence_entry_ok s now) (sn_evidence s) then Inl SnapCrossReference
      else Inr ())"

definition from_parts ::
  "snapshot_freshness \<Rightarrow> u64 \<Rightarrow> u64 \<Rightarrow> runtime_inventory option \<Rightarrow> transcoding_device list \<Rightarrow>
   coarse_candidate list \<Rightarrow> evidence_map \<Rightarrow> state_now \<Rightarrow> (snapshot_error, snapshot) result" where
  "from_parts freshness identity_epoch publication_revision runtime devices candidates evidence now =
     (let s = \<lparr>sn_freshness = freshness, sn_identity_epoch = identity_epoch,
               sn_publication_revision = publication_revision, sn_runtime = runtime, sn_devices = devices,
               sn_candidates = candidates, sn_evidence = evidence\<rparr>
      in rbind (snapshot_validate s now) (\<lambda>_. Inr s))"

section \<open>Validity is a structure and the currency of its evidence\<close>

text \<open>The part of the validation that does not depend on the time.\<close>

definition entry_wf :: "snapshot \<Rightarrow> capability_key \<times> capability_evidence \<Rightarrow> bool" where
  "entry_wf s = (\<lambda>(key, r).
     key = er_key r \<and> key_is_valid key \<and> key_identity_matches s key \<and>
     has_static_prerequisites s key = Some True \<and> record_wf r)"

definition frame_wf :: "snapshot \<Rightarrow> bool" where
  "frame_wf s \<longleftrightarrow>
     sn_identity_epoch s \<le> MAX_SAFE_INTEGER \<and> sn_publication_revision s \<le> MAX_SAFE_INTEGER \<and>
     length (sn_devices s) \<le> MAX_DEVICES \<and> length (sn_candidates s) \<le> MAX_CANDIDATES \<and>
     (sn_freshness s = Uninitialized \<longrightarrow>
        sn_identity_epoch s = 0 \<and> sn_publication_revision s = 0 \<and> sn_runtime s = None \<and>
        sn_devices s = [] \<and> sn_candidates s = [] \<and> sn_evidence s = []) \<and>
     (sn_freshness s \<noteq> Uninitialized \<longrightarrow> 0 < sn_identity_epoch s \<and> 0 < sn_publication_revision s) \<and>
     (sn_runtime s = None \<longrightarrow> sn_candidates s = [] \<and> sn_evidence s = []) \<and>
     sorted_wrt (<) (map td_id (sn_devices s)) \<and> sorted_wrt (<) (sn_candidates s) \<and>
     list_all (candidate_ok s) (sn_candidates s)"

definition snapshot_wf :: "snapshot \<Rightarrow> bool" where
  "snapshot_wf s \<longleftrightarrow>
     frame_wf s \<and> length (sn_evidence s) \<le> MAX_EVIDENCE \<and> list_all (entry_wf s) (sn_evidence s)"

definition evidence_current :: "evidence_map \<Rightarrow> state_now \<Rightarrow> bool" where
  "evidence_current ev now \<longleftrightarrow> list_all (\<lambda>(key, r). all_current r now) ev"

lemmas snapshot_limits = MAX_DEVICES_def MAX_CANDIDATES_def MAX_EVIDENCE_def MAX_COMBINED_ROWS_def

lemma evidence_entry_ok_iff:
  "evidence_entry_ok s now e \<longleftrightarrow> entry_wf s e \<and> all_current (snd e) now"
  by (cases e) (auto simp: evidence_entry_ok_def entry_wf_def record_validate_iff)

lemma snapshot_validate_iff:
  "snapshot_validate s now = Inr () \<longleftrightarrow> snapshot_wf s \<and> evidence_current (sn_evidence s) now"
proof -
  have rows: "checked_add_u64 (length (sn_candidates s)) (length (sn_evidence s)) =
      Some (length (sn_candidates s) + length (sn_evidence s)) \<and>
      length (sn_candidates s) + length (sn_evidence s) \<le> MAX_COMBINED_ROWS"
    if "length (sn_candidates s) \<le> MAX_CANDIDATES" "length (sn_evidence s) \<le> MAX_EVIDENCE"
    using that by (auto simp: checked_add_u64_def snapshot_limits)
  have ev: "list_all (evidence_entry_ok s now) (sn_evidence s) \<longleftrightarrow>
      list_all (entry_wf s) (sn_evidence s) \<and> evidence_current (sn_evidence s) now"
    by (auto simp: evidence_entry_ok_iff evidence_current_def list_all_iff case_prod_beta)
  show ?thesis
  proof (cases "length (sn_candidates s) \<le> MAX_CANDIDATES \<and> length (sn_evidence s) \<le> MAX_EVIDENCE")
    case True
    then show ?thesis
      unfolding snapshot_validate_def if_error_iff snapshot_wf_def frame_wf_def ev ascending_iff
      using rows by (simp add: not_less del: not_None_eq) argo
  next
    case False
    then show ?thesis by (auto simp: snapshot_validate_def snapshot_wf_def frame_wf_def)
  qed
qed

lemma from_parts_Inr:
  "from_parts f e p rt ds cs ev now = Inr s \<longleftrightarrow>
     s = \<lparr>sn_freshness = f, sn_identity_epoch = e, sn_publication_revision = p, sn_runtime = rt,
          sn_devices = ds, sn_candidates = cs, sn_evidence = ev\<rparr> \<and>
     snapshot_wf s \<and> evidence_current ev now"
  by (auto simp: from_parts_def Let_def rbind_Inr_iff snapshot_validate_iff)

lemma uninitialized_wf: "snapshot_wf snapshot_uninitialized"
  by (simp add: snapshot_wf_def frame_wf_def snapshot_uninitialized_def MAX_SAFE_INTEGER_def)

lemma valid_key_prerequisites_defined: "key_is_valid k \<Longrightarrow> has_static_prerequisites s k \<noteq> None"
  using valid_prerequisites [of k] by (simp add: has_static_prerequisites_def)

text \<open>
  The tests on keys depend on the runtime, the devices and the candidates only.
\<close>

lemma key_tests_cong:
  assumes "sn_runtime s = sn_runtime t" "sn_devices s = sn_devices t" "sn_candidates s = sn_candidates t"
  shows "key_identity_matches s = key_identity_matches t"
    "has_static_prerequisites s = has_static_prerequisites t" "candidate_ok s = candidate_ok t"
    "entry_wf s = entry_wf t"
  using assms
  by (simp_all add: fun_eq_iff key_identity_matches_def has_static_prerequisites_def candidate_ok_def entry_wf_def)

end
