(* ===== verification/Registry.thy ===== *)
theory Registry
  imports Snapshot "HOL-Library.Option_ord"
begin

text \<open>
  The capability registry of \<open>src/server/src/transcoding/capability/registry.rs\<close>: the admission of
  verifications, the tasks that run them, the merging of their results into the published
  snapshot, and the refresh that replaces the snapshot.

  Each operation is the code of one critical section, or of consecutive sections between which
  nothing is read: it takes the registry and what the section reads from outside (the clock, the
  player, the status of the store) and returns the registry after it.  Where the code awaits, the
  continuation is the phase of a task or of the refresh worker, so that every interleaving of the
  sections is a sequence of steps of the relation \<open>registry_step\<close>.  An \<open>Arc\<close> compared with
  \<open>ptr_eq\<close> or counted with \<open>strong_count\<close> has a number; a cancelled token is the number of its
  flight in a set.  The verifier, the device enumerator, the inventory source and the stored
  evidence are inputs of the steps.  The derived order of keys, which only breaks the ties of an
  eviction, is the argument \<open>key_before\<close>.
\<close>

section \<open>Vocabulary\<close>

definition MAX_IN_FLIGHT_KEYS :: nat where "MAX_IN_FLIGHT_KEYS = 64"
definition MAX_QUEUED_KEYS :: nat where "MAX_QUEUED_KEYS = 64"
definition MAX_ACTIVE_GLOBAL :: nat where "MAX_ACTIVE_GLOBAL = 4"
definition MANUAL_REFRESH_WINDOW_MS :: u64 where "MANUAL_REFRESH_WINDOW_MS = 60000"

datatype refresh_state = RsIdle | RsRunning | RsSucceeded | RsFailed | RsCancelled

datatype refresh_cause = Startup | Manual

datatype refresh_outcome_reason =
    OrPlatformUnsupported | OrDeviceIdentityUnavailable | OrDeviceMappingAmbiguous
  | OrDeviceEnumerationFailed | OrRuntimeUnavailable | OrInventoryTimeout | OrInventoryOverflow
  | OrInventoryMalformed | OrInventoryProcessFailed | OrRefreshCancelled | OrRefreshFailed

fun outcome_reason_safe_code :: "refresh_outcome_reason \<Rightarrow> string" where
  "outcome_reason_safe_code OrPlatformUnsupported = ''platform_unsupported''"
| "outcome_reason_safe_code OrDeviceIdentityUnavailable = ''device_identity_unavailable''"
| "outcome_reason_safe_code OrDeviceMappingAmbiguous = ''device_mapping_ambiguous''"
| "outcome_reason_safe_code OrDeviceEnumerationFailed = ''device_enumeration_failed''"
| "outcome_reason_safe_code OrRuntimeUnavailable = ''runtime_unavailable''"
| "outcome_reason_safe_code OrInventoryTimeout = ''inventory_timeout''"
| "outcome_reason_safe_code OrInventoryOverflow = ''inventory_overflow''"
| "outcome_reason_safe_code OrInventoryMalformed = ''inventory_malformed''"
| "outcome_reason_safe_code OrInventoryProcessFailed = ''inventory_process_failed''"
| "outcome_reason_safe_code OrRefreshCancelled = ''refresh_cancelled''"
| "outcome_reason_safe_code OrRefreshFailed = ''refresh_failed''"

datatype registry_reason =
    VerificationNotImplementedReason | VerificationStale | VerificationPrerequisiteMissing
  | VerificationCapacity | VerificationQueueTimeout | VerificationDeferredForPlayback
  | CapacityExhausted | ServerShutdown

fun registry_safe_code :: "registry_reason \<Rightarrow> string" where
  "registry_safe_code VerificationNotImplementedReason = ''verification_not_implemented''"
| "registry_safe_code VerificationStale = ''verification_stale''"
| "registry_safe_code VerificationPrerequisiteMissing = ''verification_prerequisite_missing''"
| "registry_safe_code VerificationCapacity = ''verification_capacity''"
| "registry_safe_code VerificationQueueTimeout = ''verification_queue_timeout''"
| "registry_safe_code VerificationDeferredForPlayback = ''verification_deferred_for_playback''"
| "registry_safe_code CapacityExhausted = ''capacity_exhausted''"
| "registry_safe_code ServerShutdown = ''server_shutdown''"

datatype refresh_admission =
    Started u64 | Existing u64 | RateLimited u64 | Rejected registry_reason

datatype refresh_failure =
    FailCancelled | FailDevice device_error | FailInventory inventory_error | FailRuntimeUnavailable
  | FailSnapshotInvalid

fun failure_outcome_reason :: "refresh_failure \<Rightarrow> refresh_outcome_reason" where
  "failure_outcome_reason FailCancelled = OrRefreshCancelled"
| "failure_outcome_reason (FailDevice DeviceCancelled) = OrRefreshCancelled"
| "failure_outcome_reason (FailDevice DeviceAmbiguous) = OrDeviceMappingAmbiguous"
| "failure_outcome_reason (FailDevice DeviceOverflow) = OrInventoryOverflow"
| "failure_outcome_reason (FailDevice DeviceInvalid) = OrDeviceEnumerationFailed"
| "failure_outcome_reason (FailInventory InvTimeout) = OrInventoryTimeout"
| "failure_outcome_reason (FailInventory InvBounds) = OrInventoryOverflow"
| "failure_outcome_reason (FailInventory InvIdentityMismatch) = OrInventoryMalformed"
| "failure_outcome_reason (FailInventory InvMalformed) = OrInventoryMalformed"
| "failure_outcome_reason (FailInventory InvProcessFailed) = OrInventoryProcessFailed"
| "failure_outcome_reason (FailInventory InvRuntimeChanged) = OrRuntimeUnavailable"
| "failure_outcome_reason FailRuntimeUnavailable = OrRuntimeUnavailable"
| "failure_outcome_reason (FailInventory InvCancelled) = OrRefreshCancelled"
| "failure_outcome_reason FailSnapshotInvalid = OrRefreshFailed"

datatype storage_status =
    StUninitialized | StWritable | StReadOnlyLocked | StUnavailable | StInvalid | StUntrusted
  | StPersistFailed

record refresh_metadata =
  rm_state :: refresh_state
  rm_id :: "u64 option"
  rm_cause :: "refresh_cause option"
  rm_started_at :: "u64 option"
  rm_completed_at :: "u64 option"
  rm_outcome_reason :: "refresh_outcome_reason option"
  rm_persistence_status :: storage_status

definition refresh_idle :: "storage_status \<Rightarrow> refresh_metadata" where
  "refresh_idle status =
     \<lparr>rm_state = RsIdle, rm_id = None, rm_cause = None, rm_started_at = None, rm_completed_at = None,
      rm_outcome_reason = None, rm_persistence_status = status\<rparr>"

record ensure_result =
  en_passing :: bool
  en_reason :: "registry_reason option"

definition non_passing :: "registry_reason \<Rightarrow> ensure_result" where
  "non_passing reason = \<lparr>en_passing = False, en_reason = Some reason\<rparr>"

definition from_outcome :: "evidence_outcome \<Rightarrow> ensure_result" where
  "from_outcome out = \<lparr>en_passing = (out \<in> {CorrectnessPassed, RealtimePassed}), en_reason = None\<rparr>"

definition evidence_non_passing :: ensure_result where
  "evidence_non_passing = \<lparr>en_passing = False, en_reason = None\<rparr>"

text \<open>The clock: the wall time is missing before 1970 and may exceed 64 bits, as may the monotonic time.\<close>

type_synonym clock = "(registry_reason, state_now) result"

definition system_clock_now :: "nat option \<Rightarrow> nat \<Rightarrow> clock" where
  "system_clock_now wall_ms monotonic_ms =
     (case wall_ms of
        None \<Rightarrow> Inl CapacityExhausted
      | Some w \<Rightarrow>
          if w > u64_max \<or> monotonic_ms > u64_max then Inl CapacityExhausted
          else case rbind (ts_new w) (\<lambda>wall. state_now_new wall monotonic_ms) of
                 Inl _ \<Rightarrow> Inl CapacityExhausted
               | Inr now \<Rightarrow> Inr now)"

section \<open>State\<close>

record flight =
  fl_id :: nat
  fl_target :: evidence_target
  fl_epoch :: u64

record flight_state =
  fs_terminal_reason :: "registry_reason option"
  fs_admission_paused :: bool
  fs_identity_epoch :: u64
  fs_queued :: nat
  fs_flights :: "(capability_key \<times> flight) list"
  fs_device_semaphores :: "(device_id \<times> nat) list"

definition flight_state_new :: "u64 \<Rightarrow> flight_state" where
  "flight_state_new identity_epoch =
     \<lparr>fs_terminal_reason = None, fs_admission_paused = False, fs_identity_epoch = identity_epoch,
      fs_queued = 0, fs_flights = [], fs_device_semaphores = []\<rparr>"

record running_refresh =
  rr_id :: u64
  rr_cause :: refresh_cause
  rr_epoch :: u64
  rr_admitted_revision :: u64

record refresh_control =
  rc_next_id :: u64
  rc_running :: "running_refresh option"
  rc_startup_id :: "u64 option"
  rc_last_manual_monotonic_ms :: "u64 option"

text \<open>Where a verification task, and the worker of a refresh, has got to between two sections.\<close>

datatype task_phase =
    TaskUnspawned
  | TaskWaiting
  | TaskDevice
  | TaskAcquired
  | TaskRefused registry_reason
  | TaskRunning
  | TaskVerifying
  | TaskDone ensure_result

record task =
  tk_key :: capability_key
  tk_flight :: flight
  tk_semaphore :: nat
  tk_phase :: task_phase

datatype worker_phase = WorkerUnspawned | WorkerWaiting | WorkerBuilding

record refresh_worker =
  wk_running :: running_refresh
  wk_previous :: snapshot
  wk_phase :: worker_phase

record registry =
  rg_snapshot :: snapshot
  rg_refresh :: refresh_metadata
  rg_flights :: flight_state
  rg_invocations :: u64
  rg_capacity_exhausted :: bool
  rg_control :: refresh_control
  rg_shutdown :: bool
  rg_tasks :: "task list"
  rg_workers :: "refresh_worker list"
  rg_results :: "(nat \<times> ensure_result) list"
  rg_cancelled :: "nat set"
  rg_fresh :: nat
  rg_persist :: "(u64 \<times> runtime_evidence_id \<times> evidence_map) list"

definition registry_new :: "storage_status \<Rightarrow> registry" where
  "registry_new status =
     \<lparr>rg_snapshot = snapshot_uninitialized, rg_refresh = refresh_idle status,
      rg_flights = flight_state_new 0, rg_invocations = 0, rg_capacity_exhausted = False,
      rg_control = \<lparr>rc_next_id = 0, rc_running = None, rc_startup_id = None,
                    rc_last_manual_monotonic_ms = None\<rparr>,
      rg_shutdown = False, rg_tasks = [], rg_workers = [], rg_results = [], rg_cancelled = {},
      rg_fresh = 0, rg_persist = []\<rparr>"

definition cancel_flights :: "registry \<Rightarrow> registry" where
  "cancel_flights r = r\<lparr>rg_cancelled := rg_cancelled r \<union> (fl_id \<circ> snd) ` set (fs_flights (rg_flights r))\<rparr>"

definition exhaust_capacity :: "registry \<Rightarrow> registry" where
  "exhaust_capacity r =
     cancel_flights (r\<lparr>rg_capacity_exhausted := True,
                       rg_flights := (rg_flights r)\<lparr>fs_terminal_reason := Some CapacityExhausted\<rparr>\<rparr>)"

section \<open>Admitting a verification\<close>

datatype ensure_step = EnsureReturn ensure_result | EnsureAdmit u64

definition ensure_check ::
  "registry \<Rightarrow> verifier_mode \<Rightarrow> bool \<Rightarrow> capability_key \<Rightarrow> evidence_target \<Rightarrow> clock \<Rightarrow> ensure_step" where
  "ensure_check r mode playback_active key target clock =
     (if rg_shutdown r then EnsureReturn (non_passing ServerShutdown)
      else if rg_capacity_exhausted r then EnsureReturn (non_passing CapacityExhausted)
      else if mode = ObservationalOnly then EnsureReturn (non_passing VerificationNotImplementedReason)
      else if playback_active then EnsureReturn (non_passing VerificationDeferredForPlayback)
      else if \<not> admits (rg_snapshot r) key then EnsureReturn (non_passing VerificationPrerequisiteMissing)
      else case clock of
          Inl reason \<Rightarrow> EnsureReturn (non_passing reason)
        | Inr now \<Rightarrow>
            (case map_of (sn_evidence (rg_snapshot r)) key of
               None \<Rightarrow> EnsureAdmit (sn_identity_epoch (rg_snapshot r))
             | Some existing \<Rightarrow>
                 let (pruned, state) = project existing now \<lparr>pc_administratively_disabled = False, pc_listed = False\<rparr>
                 in if state \<in> {Some CircuitOpen, Some Failed} then EnsureReturn evidence_non_passing
                    else if target_is_current pruned target now
                    then EnsureReturn (from_outcome (if target = Realtime then RealtimePassed else CorrectnessPassed))
                    else EnsureAdmit (sn_identity_epoch (rg_snapshot r))))"

datatype ensure_admission = AdmitReturn ensure_result | AdmitJoin nat | AdmitNew nat

definition ensure_admit ::
  "registry \<Rightarrow> capability_key \<Rightarrow> evidence_target \<Rightarrow> u64 \<Rightarrow> registry \<times> ensure_admission" where
  "ensure_admit r key target epoch =
     (let fs = rg_flights r
      in if rg_shutdown r then (r, AdmitReturn (non_passing ServerShutdown))
         else if rg_capacity_exhausted r then (r, AdmitReturn (non_passing CapacityExhausted))
         else case fs_terminal_reason fs of
           Some reason \<Rightarrow> (r, AdmitReturn (non_passing reason))
         | None \<Rightarrow>
             if fs_admission_paused fs \<or> fs_identity_epoch fs \<noteq> epoch
             then (r, AdmitReturn (non_passing VerificationStale))
             else case map_of (fs_flights fs) key of
               Some flight \<Rightarrow>
                 if fl_target flight \<noteq> target then (r, AdmitReturn (non_passing VerificationCapacity))
                 else (r, AdmitJoin (fl_id flight))
             | None \<Rightarrow>
                 if length (fs_flights fs) \<ge> MAX_IN_FLIGHT_KEYS \<or> fs_queued fs \<ge> MAX_QUEUED_KEYS
                 then (r, AdmitReturn (non_passing VerificationCapacity))
                 else case checked_add_u64 (fs_queued fs) 1 of
                   None \<Rightarrow> (r, AdmitReturn (non_passing CapacityExhausted))
                 | Some queued \<Rightarrow>
                     let flight = \<lparr>fl_id = rg_fresh r, fl_target = target, fl_epoch = epoch\<rparr>;
                         (semaphore, semaphores) =
                           (case map_of (fs_device_semaphores fs) (ck_device key) of
                              Some s \<Rightarrow> (s, fs_device_semaphores fs)
                            | None \<Rightarrow> (rg_fresh r, AList.update (ck_device key) (rg_fresh r) (fs_device_semaphores fs)))
                     in (r\<lparr>rg_flights := fs\<lparr>fs_queued := queued,
                                             fs_flights := AList.update key flight (fs_flights fs),
                                             fs_device_semaphores := semaphores\<rparr>,
                           rg_tasks := \<lparr>tk_key = key, tk_flight = flight, tk_semaphore = semaphore,
                                        tk_phase = TaskUnspawned\<rparr> # rg_tasks r,
                           rg_fresh := Suc (rg_fresh r)\<rparr>,
                         AdmitNew (fl_id flight)))"

section \<open>A verification task\<close>

definition set_phase :: "task \<Rightarrow> task_phase \<Rightarrow> registry \<Rightarrow> registry" where
  "set_phase t phase r =
     r\<lparr>rg_tasks := map (\<lambda>u. if fl_id (tk_flight u) = fl_id (tk_flight t) then u\<lparr>tk_phase := phase\<rparr> else u)
                     (rg_tasks r)\<rparr>"

definition holds_device :: "task \<Rightarrow> bool" where
  "holds_device t \<longleftrightarrow> tk_phase t \<in> {TaskDevice, TaskAcquired, TaskRunning, TaskVerifying}"

definition holds_global :: "task \<Rightarrow> bool" where
  "holds_global t \<longleftrightarrow> tk_phase t \<in> {TaskAcquired, TaskRunning, TaskVerifying}"

definition available_permits :: "registry \<Rightarrow> nat \<Rightarrow> nat" where
  "available_permits r semaphore =
     1 - length (filter (\<lambda>u. tk_semaphore u = semaphore \<and> holds_device u) (rg_tasks r))"

definition global_permits :: "registry \<Rightarrow> nat" where
  "global_permits r = MAX_ACTIVE_GLOBAL - length (filter holds_global (rg_tasks r))"

text \<open>
  The references to a device semaphore: one in the map, one in every task, and one more where a
  task waits for the permit or holds it.
\<close>

definition task_references :: "task \<Rightarrow> nat" where
  "task_references t = (if tk_phase t = TaskWaiting \<or> holds_device t then 2 else 1)"

definition strong_count :: "registry \<Rightarrow> nat \<Rightarrow> nat" where
  "strong_count r semaphore =
     length (filter (\<lambda>e. snd e = semaphore) (fs_device_semaphores (rg_flights r))) +
     sum_list (map task_references (filter (\<lambda>u. tk_semaphore u = semaphore) (rg_tasks r)))"

definition spawn_verification :: "registry \<Rightarrow> task \<Rightarrow> registry" where
  "spawn_verification r t =
     set_phase t (if rg_shutdown r then TaskRefused ServerShutdown else TaskWaiting) r"

text \<open>One poll of \<open>acquire_verification_permits\<close>, with the guards of its biased \<open>select\<close> in order.\<close>

definition poll_permits :: "registry \<Rightarrow> task \<Rightarrow> bool \<Rightarrow> registry" where
  "poll_permits r t timed_out =
     (if rg_shutdown r then set_phase t (TaskRefused ServerShutdown) r
      else if rg_capacity_exhausted r then set_phase t (TaskRefused CapacityExhausted) r
      else if fl_id (tk_flight t) \<in> rg_cancelled r then set_phase t (TaskRefused VerificationStale) r
      else if tk_phase t = TaskWaiting \<and> 0 < available_permits r (tk_semaphore t) then set_phase t TaskDevice r
      else if tk_phase t = TaskDevice \<and> 0 < global_permits r then set_phase t TaskAcquired r
      else if timed_out then set_phase t (TaskRefused VerificationQueueTimeout) r
      else r)"

definition decrement_queued :: "registry \<Rightarrow> registry" where
  "decrement_queued r =
     (if fs_queued (rg_flights r) = 0 then exhaust_capacity r
      else r\<lparr>rg_flights := (rg_flights r)\<lparr>fs_queued := fs_queued (rg_flights r) - 1\<rparr>\<rparr>)"

definition leave_queue :: "registry \<Rightarrow> task \<Rightarrow> registry" where
  "leave_queue r t =
     set_phase t (case tk_phase t of TaskRefused reason \<Rightarrow> TaskDone (non_passing reason) | _ \<Rightarrow> TaskRunning)
       (decrement_queued r)"

definition flight_is_current :: "registry \<Rightarrow> capability_key \<Rightarrow> u64 \<Rightarrow> bool" where
  "flight_is_current r key epoch \<longleftrightarrow>
     \<not> rg_capacity_exhausted r \<and> fs_terminal_reason (rg_flights r) = None \<and>
     \<not> fs_admission_paused (rg_flights r) \<and> fs_identity_epoch (rg_flights r) = epoch \<and>
     sn_identity_epoch (rg_snapshot r) = epoch \<and> admits (rg_snapshot r) key"

definition cancellation_result :: "registry \<Rightarrow> ensure_result" where
  "cancellation_result r =
     non_passing (if rg_capacity_exhausted r then CapacityExhausted
                  else case fs_terminal_reason (rg_flights r) of
                         Some reason \<Rightarrow> reason
                       | None \<Rightarrow> if rg_shutdown r then ServerShutdown else VerificationStale)"

definition increment_invocations :: "u64 \<Rightarrow> u64 option" where
  "increment_invocations counter = option_filter (\<lambda>next. next \<le> MAX_SAFE_INTEGER) (checked_add_u64 counter 1)"

definition start_verification :: "registry \<Rightarrow> task \<Rightarrow> bool \<Rightarrow> registry" where
  "start_verification r t playback_active =
     (if playback_active then set_phase t (TaskDone (non_passing VerificationDeferredForPlayback)) r
      else if \<not> flight_is_current r (tk_key t) (fl_epoch (tk_flight t))
      then set_phase t (TaskDone (cancellation_result r)) r
      else case increment_invocations (rg_invocations r) of
          None \<Rightarrow> set_phase t (TaskDone (non_passing CapacityExhausted)) (r\<lparr>rg_capacity_exhausted := True\<rparr>)
        | Some n \<Rightarrow> set_phase t TaskVerifying (r\<lparr>rg_invocations := n\<rparr>))"

section \<open>Merging a result\<close>

definition prune_map :: "state_now \<Rightarrow> evidence_map \<Rightarrow> evidence_map" where
  "prune_map now ev = map (\<lambda>(k, e). (k, prune_expired e now)) ev"

definition retain_current :: "snapshot \<Rightarrow> evidence_map \<Rightarrow> evidence_map" where
  "retain_current s ev = filter (\<lambda>(k, e). key_is_current s k \<and> last_observed_at e \<noteq> None) ev"

definition observed_before ::
  "(capability_key \<Rightarrow> capability_key \<Rightarrow> bool) \<Rightarrow> capability_key \<times> capability_evidence \<Rightarrow>
   capability_key \<times> capability_evidence \<Rightarrow> bool" where
  "observed_before key_before = (\<lambda>(k1, e1) (k2, e2).
     last_observed_at e1 < last_observed_at e2 \<or>
     last_observed_at e1 = last_observed_at e2 \<and> key_before k1 k2)"

fun oldest_key :: "(capability_key \<Rightarrow> capability_key \<Rightarrow> bool) \<Rightarrow> evidence_map \<Rightarrow> capability_key option" where
  "oldest_key key_before [] = None"
| "oldest_key key_before (e # es) =
     Some (fst (foldl (\<lambda>m x. if observed_before key_before x m then x else m) e es))"

text \<open>
  The new evidence, from the published one: \<open>Inl\<close> is a return without publication, with its
  answer.
\<close>

definition merged_evidence ::
  "(capability_key \<Rightarrow> capability_key \<Rightarrow> bool) \<Rightarrow> snapshot \<Rightarrow> capability_key \<Rightarrow> verification_result \<Rightarrow> state_now \<Rightarrow>
   (ensure_result, evidence_map) result" where
  "merged_evidence key_before s key verified now =
     (let evidence = retain_current s (prune_map now (sn_evidence s));
          existed = (map_of evidence key \<noteq> None);
          r = (case map_of evidence key of None \<Rightarrow> record_new key | Some e \<Rightarrow> e);
          rest = AList.delete key evidence;
          (r', applied) = apply_result r verified ActiveInjected now
      in case applied of
           Inl _ \<Rightarrow> Inl (non_passing VerificationPrerequisiteMissing)
         | Inr RemoveRecord \<Rightarrow>
             if \<not> existed then Inl (from_outcome (vr_outcome verified)) else Inr rest
         | Inr KeepRecord \<Rightarrow>
             if \<not> existed \<and> length rest \<ge> MAX_EVIDENCE
             then (case oldest_key key_before rest of
                     None \<Rightarrow> Inl (non_passing VerificationCapacity)
                   | Some evict \<Rightarrow> Inr (AList.update key r' (AList.delete evict rest)))
             else Inr (AList.update key r' rest)
         | Inr NoChange \<Rightarrow> Inl (from_outcome (vr_outcome verified)))"

definition merge_verification ::
  "(capability_key \<Rightarrow> capability_key \<Rightarrow> bool) \<Rightarrow> registry \<Rightarrow> capability_key \<Rightarrow> u64 \<Rightarrow> verification_result \<Rightarrow> clock \<Rightarrow>
   registry \<times> ensure_result" where
  "merge_verification key_before r key epoch verified clock =
     (if rg_capacity_exhausted r then (r, non_passing CapacityExhausted)
      else case clock of
          Inl reason \<Rightarrow> (r, non_passing reason)
        | Inr now \<Rightarrow>
            let s = rg_snapshot r
            in if sn_identity_epoch s \<noteq> epoch \<or> \<not> admits s key then (r, non_passing VerificationStale)
               else case merged_evidence key_before s key verified now of
                   Inl answer \<Rightarrow> (r, answer)
                 | Inr evidence \<Rightarrow>
                     (case option_filter (\<lambda>revision. revision \<le> MAX_SAFE_INTEGER)
                             (checked_add_u64 (sn_publication_revision s) 1) of
                        None \<Rightarrow> (r\<lparr>rg_capacity_exhausted := True\<rparr>, non_passing CapacityExhausted)
                      | Some revision \<Rightarrow>
                          (case from_parts (sn_freshness s) epoch revision (sn_runtime s) (sn_devices s)
                                  (sn_candidates s) evidence now of
                             Inl _ \<Rightarrow> (r, non_passing VerificationPrerequisiteMissing)
                           | Inr s' \<Rightarrow>
                               (r\<lparr>rg_snapshot := s',
                                  rg_persist := (case sn_runtime s' of
                                                   None \<Rightarrow> rg_persist r
                                                 | Some runtime \<Rightarrow>
                                                     rg_persist r @ [(revision, inv_runtime_id runtime, sn_evidence s')])\<rparr>,
                                from_outcome (vr_outcome verified)))))"

datatype verifier_event = VerifierReturned verification_result | VerifierPanicked

definition end_verification ::
  "(capability_key \<Rightarrow> capability_key \<Rightarrow> bool) \<Rightarrow> registry \<Rightarrow> task \<Rightarrow> verifier_event \<Rightarrow> clock \<Rightarrow> registry" where
  "end_verification key_before r t event clock =
     (if rg_shutdown r then set_phase t (TaskDone (non_passing ServerShutdown)) r
      else if rg_capacity_exhausted r then set_phase t (TaskDone (non_passing CapacityExhausted)) r
      else if fl_id (tk_flight t) \<in> rg_cancelled r then set_phase t (TaskDone (cancellation_result r)) r
      else case event of
          VerifierPanicked \<Rightarrow> set_phase t (TaskDone (non_passing ServerShutdown)) r
        | VerifierReturned verified \<Rightarrow>
            if vr_target verified = fl_target (tk_flight t)
            then let (r', answer) = merge_verification key_before r (tk_key t) (fl_epoch (tk_flight t)) verified clock
                 in set_phase t (TaskDone answer) r'
            else set_phase t (TaskDone (non_passing VerificationPrerequisiteMissing)) r)"

definition finish_flight :: "registry \<Rightarrow> task \<Rightarrow> ensure_result \<Rightarrow> registry" where
  "finish_flight r t answer =
     (let fs = rg_flights r;
          flights = (if is_some_and (\<lambda>f. fl_id f = fl_id (tk_flight t)) (map_of (fs_flights fs) (tk_key t))
                     then AList.delete (tk_key t) (fs_flights fs) else fs_flights fs);
          semaphores = (if available_permits r (tk_semaphore t) = 1 \<and> strong_count r (tk_semaphore t) = 2
                        then AList.delete (ck_device (tk_key t)) (fs_device_semaphores fs)
                        else fs_device_semaphores fs)
      in r\<lparr>rg_results := AList.update (fl_id (tk_flight t)) answer (rg_results r),
           rg_flights := fs\<lparr>fs_flights := flights, fs_device_semaphores := semaphores\<rparr>,
           rg_tasks := filter (\<lambda>u. fl_id (tk_flight u) \<noteq> fl_id (tk_flight t)) (rg_tasks r)\<rparr>)"

text \<open>The answer a caller that waits for a flight reads, once there is one.\<close>

definition wait_for_flight :: "registry \<Rightarrow> nat \<Rightarrow> ensure_result option" where
  "wait_for_flight r flight =
     (case map_of (rg_results r) flight of
        Some answer \<Rightarrow> Some answer
      | None \<Rightarrow> if rg_shutdown r then Some (non_passing ServerShutdown) else None)"

section \<open>Shutting down\<close>

definition begin_shutdown :: "registry \<Rightarrow> registry" where
  "begin_shutdown r = r\<lparr>rg_shutdown := True\<rparr>"

definition shutdown_flights :: "registry \<Rightarrow> registry" where
  "shutdown_flights r =
     cancel_flights (r\<lparr>rg_flights := (rg_flights r)\<lparr>fs_terminal_reason := Some ServerShutdown\<rparr>\<rparr>)"

section \<open>Refreshing\<close>

definition next_safe :: "u64 \<Rightarrow> u64 option" where
  "next_safe n = option_filter (\<lambda>m. m \<le> MAX_SAFE_INTEGER) (checked_add_u64 n 1)"

definition resume_after_refresh :: "registry \<Rightarrow> u64 \<Rightarrow> registry" where
  "resume_after_refresh r epoch =
     (if fs_identity_epoch (rg_flights r) = epoch \<and> \<not> rg_shutdown r
      then r\<lparr>rg_flights := (rg_flights r)\<lparr>fs_admission_paused := False\<rparr>\<rparr> else r)"

definition finish_refresh_control :: "registry \<Rightarrow> running_refresh \<Rightarrow> registry" where
  "finish_refresh_control r running =
     (if is_some_and (\<lambda>current. rr_id current = rr_id running) (rc_running (rg_control r))
      then r\<lparr>rg_control := (rg_control r)\<lparr>rc_running := None\<rparr>\<rparr> else r)"

definition owns_publication :: "registry \<Rightarrow> running_refresh \<Rightarrow> bool" where
  "owns_publication r running \<longleftrightarrow>
     sn_identity_epoch (rg_snapshot r) = rr_epoch running \<and>
     sn_publication_revision (rg_snapshot r) = rr_admitted_revision running"

definition publish_failed_refresh ::
  "registry \<Rightarrow> running_refresh \<Rightarrow> snapshot \<Rightarrow> bool \<Rightarrow> refresh_outcome_reason \<Rightarrow> clock \<Rightarrow> storage_status \<Rightarrow> registry" where
  "publish_failed_refresh r running previous cancelled reason clock status =
     (let r1 =
        (case (clock, next_safe (rr_admitted_revision running)) of
           (Inr now, Some revision) \<Rightarrow>
             (case from_parts Stale (rr_epoch running) revision (sn_runtime previous) (sn_devices previous)
                     (sn_candidates previous) (sn_evidence previous) now of
                Inl _ \<Rightarrow> r
              | Inr stale \<Rightarrow>
                  if owns_publication r running
                  then r\<lparr>rg_snapshot := stale,
                         rg_refresh := (rg_refresh r)\<lparr>rm_state := (if cancelled then RsCancelled else RsFailed),
                                                     rm_completed_at := Some (now_wall now),
                                                     rm_outcome_reason := Some reason,
                                                     rm_persistence_status := status\<rparr>\<rparr>
                  else r)
         | _ \<Rightarrow> r\<lparr>rg_capacity_exhausted := True\<rparr>)
      in finish_refresh_control (resume_after_refresh r1 (rr_epoch running)) running)"

record refresh_candidate =
  cd_runtime :: "runtime_inventory option"
  cd_devices :: "transcoding_device list"
  cd_candidates :: "coarse_candidate list"
  cd_evidence :: evidence_map
  cd_outcome_reason :: "refresh_outcome_reason option"

datatype persist_wait = PersistNotRequested | PersistDone | PersistShutdown | PersistDeadline

definition publish_fresh_refresh ::
  "registry \<Rightarrow> running_refresh \<Rightarrow> snapshot \<Rightarrow> refresh_candidate \<Rightarrow> bool \<Rightarrow> clock \<Rightarrow> persist_wait \<Rightarrow> clock \<Rightarrow> storage_status \<Rightarrow>
   registry" where
  "publish_fresh_refresh r running previous candidate past_deadline clock wait clock' status =
     (if past_deadline then publish_failed_refresh r running previous False OrInventoryTimeout clock' status
      else case clock of
          Inl _ \<Rightarrow> publish_failed_refresh r running previous False OrRefreshFailed clock' status
        | Inr now \<Rightarrow>
            (case next_safe (rr_admitted_revision running) of
               None \<Rightarrow> publish_failed_refresh (r\<lparr>rg_capacity_exhausted := True\<rparr>) running previous False OrRefreshFailed
                         clock' status
             | Some revision \<Rightarrow>
                 (case from_parts Fresh (rr_epoch running) revision (cd_runtime candidate) (cd_devices candidate)
                         (cd_candidates candidate) (cd_evidence candidate) now of
                    Inl _ \<Rightarrow> publish_failed_refresh r running previous False OrRefreshFailed clock' status
                  | Inr s \<Rightarrow>
                      let r1 = (case sn_runtime s of
                                  None \<Rightarrow> r
                                | Some runtime \<Rightarrow>
                                    r\<lparr>rg_persist := rg_persist r @ [(revision, inv_runtime_id runtime, sn_evidence s)]\<rparr>)
                      in if sn_runtime s \<noteq> None \<and> wait = PersistShutdown
                         then publish_failed_refresh r1 running previous True OrRefreshCancelled clock' status
                         else if sn_runtime s \<noteq> None \<and> wait = PersistDeadline
                         then publish_failed_refresh r1 running previous False OrInventoryTimeout clock' status
                         else if rg_shutdown r1
                         then publish_failed_refresh r1 running previous True OrRefreshCancelled clock' status
                         else if \<not> owns_publication r1 running then finish_refresh_control r1 running
                         else
                           finish_refresh_control
                             (resume_after_refresh
                                (r1\<lparr>rg_snapshot := s,
                                    rg_refresh := (rg_refresh r1)\<lparr>rm_state := RsSucceeded,
                                                                 rm_completed_at := Some (now_wall now),
                                                                 rm_outcome_reason := cd_outcome_reason candidate,
                                                                 rm_persistence_status := status\<rparr>\<rparr>)
                                (rr_epoch running))
                             running)))"

text \<open>Admission: \<open>Inl\<close> is a rejection, after which the registry may be exhausted.\<close>

definition admit_refresh_invalidation ::
  "registry \<Rightarrow> u64 \<Rightarrow> refresh_cause \<Rightarrow> clock \<Rightarrow> storage_status \<Rightarrow>
   registry \<times> (registry_reason, u64 \<times> u64 \<times> snapshot) result" where
  "admit_refresh_invalidation r refresh_id cause clock status =
     (let fs = rg_flights r; s = rg_snapshot r
      in if rg_shutdown r then (r, Inl ServerShutdown)
         else if rg_capacity_exhausted r then (r, Inl CapacityExhausted)
         else case fs_terminal_reason fs of
           Some reason \<Rightarrow> (r, Inl reason)
         | None \<Rightarrow>
             (case next_safe (fs_identity_epoch fs) of
                None \<Rightarrow> (exhaust_capacity r, Inl CapacityExhausted)
              | Some next_epoch \<Rightarrow>
                  (case next_safe (sn_publication_revision s) of
                     None \<Rightarrow> (exhaust_capacity r, Inl CapacityExhausted)
                   | Some next_revision \<Rightarrow>
                       (case clock of
                          Inl reason \<Rightarrow> (r, Inl reason)
                        | Inr now \<Rightarrow>
                            (case from_parts Refreshing next_epoch next_revision (sn_runtime s) (sn_devices s)
                                    (sn_candidates s) (sn_evidence s) now of
                               Inl _ \<Rightarrow> (r, Inl VerificationPrerequisiteMissing)
                             | Inr refreshing \<Rightarrow>
                                 (cancel_flights
                                    (r\<lparr>rg_flights := fs\<lparr>fs_admission_paused := True, fs_identity_epoch := next_epoch\<rparr>,
                                       rg_snapshot := refreshing,
                                       rg_refresh := \<lparr>rm_state = RsRunning, rm_id = Some refresh_id, rm_cause = Some cause,
                                                      rm_started_at = Some (now_wall now), rm_completed_at = None,
                                                      rm_outcome_reason = None, rm_persistence_status = status\<rparr>\<rparr>),
                                  Inr (next_epoch, next_revision, s)))))))"

definition div_ceil :: "nat \<Rightarrow> nat \<Rightarrow> nat" where
  "div_ceil a b = (if a mod b = 0 then a div b else a div b + 1)"

text \<open>The second half of \<open>start_refresh\<close>, once nothing running and no window stands in the way.\<close>

definition start_refresh_admitted ::
  "registry \<Rightarrow> refresh_cause \<Rightarrow> state_now \<Rightarrow> clock \<Rightarrow> storage_status \<Rightarrow> registry \<times> refresh_admission" where
  "start_refresh_admitted r cause now clock' status =
     (case next_safe (rc_next_id (rg_control r)) of
        None \<Rightarrow> (r\<lparr>rg_capacity_exhausted := True\<rparr>, Rejected CapacityExhausted)
      | Some i \<Rightarrow>
          (case admit_refresh_invalidation r i cause clock' status of
             (r1, Inl reason) \<Rightarrow> (r1, Rejected reason)
           | (r1, Inr (epoch, admitted_revision, previous)) \<Rightarrow>
               let running = \<lparr>rr_id = i, rr_cause = cause, rr_epoch = epoch, rr_admitted_revision = admitted_revision\<rparr>;
                   c = (rg_control r1)\<lparr>rc_next_id := i, rc_running := Some running\<rparr>
               in (r1\<lparr>rg_control := (if cause = Startup then c\<lparr>rc_startup_id := Some i\<rparr>
                                      else c\<lparr>rc_last_manual_monotonic_ms := Some (now_monotonic_ms now)\<rparr>),
                      rg_workers := \<lparr>wk_running = running, wk_previous = previous, wk_phase = WorkerUnspawned\<rparr>
                                    # rg_workers r1\<rparr>,
                   Started i)))"

definition start_refresh ::
  "registry \<Rightarrow> refresh_cause \<Rightarrow> clock \<Rightarrow> clock \<Rightarrow> storage_status \<Rightarrow> registry \<times> refresh_admission" where
  "start_refresh r cause clock clock' status =
     (let c = rg_control r
      in if rg_shutdown r then (r, Rejected ServerShutdown)
         else if rg_capacity_exhausted r then (r, Rejected CapacityExhausted)
         else case clock of
           Inl reason \<Rightarrow> (r, Rejected reason)
         | Inr now \<Rightarrow>
             (case rc_running c of
                Some running \<Rightarrow> (r, Existing (rr_id running))
              | None \<Rightarrow>
                  (case (if cause = Startup then rc_startup_id c else None) of
                     Some i \<Rightarrow> (r, Existing i)
                   | None \<Rightarrow>
                       (case (if cause = Manual then rc_last_manual_monotonic_ms c else None) of
                          Some previous \<Rightarrow>
                            let elapsed = now_monotonic_ms now - previous
                            in if elapsed < MANUAL_REFRESH_WINDOW_MS
                               then (r, RateLimited (div_ceil (MANUAL_REFRESH_WINDOW_MS - elapsed) 1000))
                               else start_refresh_admitted r cause now clock' status
                        | None \<Rightarrow> start_refresh_admitted r cause now clock' status))))"

text \<open>
  The end of \<open>start_refresh\<close>, where the worker is spawned: its answer is \<open>Rejected\<close> instead of
  \<open>Started\<close> if the server has begun to shut down meanwhile.
\<close>

definition end_worker :: "refresh_worker \<Rightarrow> registry \<Rightarrow> registry" where
  "end_worker w r = r\<lparr>rg_workers := filter (\<lambda>v. rr_id (wk_running v) \<noteq> rr_id (wk_running w)) (rg_workers r)\<rparr>"

definition set_worker_phase :: "refresh_worker \<Rightarrow> worker_phase \<Rightarrow> registry \<Rightarrow> registry" where
  "set_worker_phase w phase r =
     r\<lparr>rg_workers := map (\<lambda>v. if rr_id (wk_running v) = rr_id (wk_running w) then v\<lparr>wk_phase := phase\<rparr> else v)
                       (rg_workers r)\<rparr>"

definition spawn_refresh :: "registry \<Rightarrow> refresh_worker \<Rightarrow> clock \<Rightarrow> storage_status \<Rightarrow> registry \<times> refresh_admission" where
  "spawn_refresh r w clock status =
     (if rg_shutdown r
      then (end_worker w (publish_failed_refresh r (wk_running w) (wk_previous w) True OrRefreshCancelled clock status),
            Rejected ServerShutdown)
      else (set_worker_phase w WorkerWaiting r, Started (rr_id (wk_running w))))"

definition wait_for_all_flights :: "registry \<Rightarrow> bool" where
  "wait_for_all_flights r \<longleftrightarrow> fs_flights (rg_flights r) = []"

definition worker_proceeds :: "registry \<Rightarrow> refresh_worker \<Rightarrow> registry" where
  "worker_proceeds r w = (if wait_for_all_flights r then set_worker_phase w WorkerBuilding r else r)"

section \<open>Building a refreshed snapshot\<close>

definition evidence_record_is_current ::
  "snapshot \<Rightarrow> capability_key \<Rightarrow> capability_evidence \<Rightarrow> state_now \<Rightarrow> capability_evidence \<times> bool" where
  "evidence_record_is_current s key e now =
     (let e' = prune_expired e now
      in (e', er_key e' = key \<and> key_identity_matches s key \<and> has_static_prerequisites s key = Some True \<and>
              last_observed_at e' \<noteq> None \<and> record_validate e' now = Inr ()))"

definition retain_evidence :: "snapshot \<Rightarrow> state_now \<Rightarrow> evidence_map \<Rightarrow> evidence_map" where
  "retain_evidence s now ev =
     List.map_filter (\<lambda>(k, e). let (e', current) = evidence_record_is_current s k e now
                              in if current then Some (k, e') else None) ev"

fun load_stored :: "snapshot \<Rightarrow> state_now \<Rightarrow> evidence_map \<Rightarrow> evidence_map \<Rightarrow> evidence_map" where
  "load_stored s now ev [] = ev"
| "load_stored s now ev ((k, e) # stored) =
     (let (e', current) = evidence_record_is_current s k e now
      in load_stored s now
           (if current \<and> (map_of ev k \<noteq> None \<or> length ev < MAX_EVIDENCE) \<and> map_of ev k = None
            then ev @ [(k, e')] else ev)
           stored)"

datatype session_result = SessionReady runtime_id runtime_kind | SessionUnavailable | SessionError

record refresh_inputs =
  in_service_alive :: bool
  in_session :: session_result
  in_discovery :: "(device_error, device_discovery) result"
  in_seed :: "bytes option"
  in_run_epoch :: "bytes option"
  in_inventory :: "(inventory_error, runtime_inventory) result"
  in_stored :: "runtime_evidence_id \<Rightarrow> state_now \<Rightarrow> evidence_map"
  in_clock :: clock
  in_cancelled_at :: "nat \<Rightarrow> bool"

definition refresh_devices ::
  "digest_api \<Rightarrow> base64_api \<Rightarrow> refresh_inputs \<Rightarrow> platform_device list \<Rightarrow> refresh_outcome_reason option \<Rightarrow>
   (refresh_failure, transcoding_device list \<times> refresh_outcome_reason option) result" where
  "refresh_devices dg b64 i records outcome_reason =
     (case (in_seed i, in_run_epoch i) of
        (Some seed, Some run_epoch) \<Rightarrow>
          (case normalize_platform_records dg b64 records seed run_epoch of
             Inr devices \<Rightarrow> Inr (devices, outcome_reason)
           | Inl DeviceAmbiguous \<Rightarrow> Inr ([], Some OrDeviceMappingAmbiguous)
           | Inl error \<Rightarrow> Inl (FailDevice error))
      | _ \<Rightarrow> Inr ([], Some OrDeviceIdentityUnavailable))"

definition candidate_devices :: "transcoding_device list \<Rightarrow> (device_id \<times> device_class \<times> backend_kind list) list" where
  "candidate_devices devices = map (\<lambda>d. (td_id d, td_class d, sorted_list_of_set (td_backends d))) devices"

definition refreshed_evidence ::
  "snapshot \<Rightarrow> snapshot \<Rightarrow> runtime_inventory option \<Rightarrow> refresh_inputs \<Rightarrow> refresh_cause \<Rightarrow> state_now \<Rightarrow> evidence_map" where
  "refreshed_evidence identity_snapshot previous runtime i cause now =
     (let kept = retain_evidence identity_snapshot now (sn_evidence previous);
          evidence = (case runtime of
                        Some rt \<Rightarrow> load_stored identity_snapshot now kept (in_stored i (inv_runtime_id rt) now)
                      | None \<Rightarrow> [])
      in if cause = Manual then map (\<lambda>(k, e). (k, clear_cooldown_after_refresh e now)) evidence else evidence)"

definition build_refresh_candidate ::
  "digest_api \<Rightarrow> base64_api \<Rightarrow> refresh_inputs \<Rightarrow> running_refresh \<Rightarrow> snapshot \<Rightarrow> (refresh_failure, refresh_candidate) result" where
  "build_refresh_candidate dg b64 i running previous =
     (if in_cancelled_at i 0 then Inl FailCancelled
      else if \<not> in_service_alive i then Inl FailCancelled
      else if in_session i = SessionError then Inl FailRuntimeUnavailable
      else if in_cancelled_at i 1 then Inl FailCancelled
      else case in_discovery i of
        Inl e \<Rightarrow> Inl (FailDevice e)
      | Inr discovery \<Rightarrow>
          if in_cancelled_at i 2 then Inl FailCancelled
          else rbind (refresh_devices dg b64 i (dd_records discovery)
                        (if in_session i = SessionUnavailable then Some OrRuntimeUnavailable else None))
            (\<lambda>(devices, outcome_reason).
               let outcome_reason' = (if outcome_reason = None \<and> dd_status discovery = PlatformUnsupportedStatus
                                      then Some OrPlatformUnsupported else outcome_reason)
               in rbind (case in_session i of
                           SessionReady _ _ \<Rightarrow> (case in_inventory i of
                                                 Inl e \<Rightarrow> Inl (FailInventory e)
                                               | Inr inventory \<Rightarrow> Inr (Some inventory))
                         | _ \<Rightarrow> Inr None) (\<lambda>runtime.
                    if in_cancelled_at i 3 then Inl FailCancelled
                    else rbind (case (in_session i, runtime) of
                                  (SessionReady rid kind, Some inventory) \<Rightarrow>
                                    (case coarse_candidates dg rid kind inventory (candidate_devices devices) of
                                       Inl e \<Rightarrow> Inl (FailInventory e)
                                     | Inr cs \<Rightarrow> Inr cs)
                                | _ \<Rightarrow> Inr []) (\<lambda>candidates.
                      case in_clock i of
                        Inl _ \<Rightarrow> Inl FailSnapshotInvalid
                      | Inr now \<Rightarrow>
                          (case from_parts Fresh (rr_epoch running) (rr_admitted_revision running) runtime devices
                                  candidates [] now of
                             Inl _ \<Rightarrow> Inl FailSnapshotInvalid
                           | Inr identity_snapshot \<Rightarrow>
                               Inr \<lparr>cd_runtime = runtime, cd_devices = devices, cd_candidates = candidates,
                                    cd_evidence = refreshed_evidence identity_snapshot previous runtime i
                                                    (rr_cause running) now,
                                    cd_outcome_reason = outcome_reason'\<rparr>)))))"

datatype worker_event = WorkerBuilt refresh_candidate | WorkerFailed refresh_failure | WorkerPanicked

definition run_refresh ::
  "registry \<Rightarrow> refresh_worker \<Rightarrow> worker_event \<Rightarrow> bool \<Rightarrow> clock \<Rightarrow> persist_wait \<Rightarrow> clock \<Rightarrow> storage_status \<Rightarrow> registry" where
  "run_refresh r w event past_deadline clock wait clock' status =
     end_worker w
       (let running = wk_running w; previous = wk_previous w
        in case event of
             WorkerBuilt candidate \<Rightarrow>
               if \<not> rg_shutdown r
               then publish_fresh_refresh r running previous candidate past_deadline clock wait clock' status
               else publish_failed_refresh r running previous True OrRefreshCancelled clock' status
           | WorkerFailed failure \<Rightarrow>
               if failure \<in> {FailCancelled, FailDevice DeviceCancelled}
               then publish_failed_refresh r running previous True OrRefreshCancelled clock' status
               else publish_failed_refresh r running previous False (failure_outcome_reason failure) clock' status
           | WorkerPanicked \<Rightarrow>
               publish_failed_refresh r running previous (rg_shutdown r)
                 (if rg_shutdown r then OrRefreshCancelled else OrRefreshFailed) clock' status)"

section \<open>Steps\<close>

inductive registry_step ::
  "(capability_key \<Rightarrow> capability_key \<Rightarrow> bool) \<Rightarrow> registry \<Rightarrow> registry \<Rightarrow> bool" for key_before where
  rs_admit: "registry_step key_before r (fst (ensure_admit r key target epoch))"
| rs_spawn: "t \<in> set (rg_tasks r) \<Longrightarrow> tk_phase t = TaskUnspawned \<Longrightarrow>
    registry_step key_before r (spawn_verification r t)"
| rs_poll: "t \<in> set (rg_tasks r) \<Longrightarrow> tk_phase t \<in> {TaskWaiting, TaskDevice} \<Longrightarrow>
    registry_step key_before r (poll_permits r t timed_out)"
| rs_leave: "t \<in> set (rg_tasks r) \<Longrightarrow> tk_phase t = TaskAcquired \<or> (\<exists>reason. tk_phase t = TaskRefused reason) \<Longrightarrow>
    registry_step key_before r (leave_queue r t)"
| rs_start: "t \<in> set (rg_tasks r) \<Longrightarrow> tk_phase t = TaskRunning \<Longrightarrow>
    registry_step key_before r (start_verification r t playback_active)"
| rs_end: "t \<in> set (rg_tasks r) \<Longrightarrow> tk_phase t = TaskVerifying \<Longrightarrow>
    registry_step key_before r (end_verification key_before r t event (system_clock_now w m))"
| rs_finish: "t \<in> set (rg_tasks r) \<Longrightarrow> tk_phase t = TaskDone answer \<Longrightarrow>
    registry_step key_before r (finish_flight r t answer)"
| rs_shutdown: "registry_step key_before r (begin_shutdown r)"
| rs_shutdown_flights: "rg_shutdown r \<Longrightarrow> registry_step key_before r (shutdown_flights r)"
| rs_start_refresh:
    "registry_step key_before r (fst (start_refresh r cause (system_clock_now w m) (system_clock_now w' m') status))"
| rs_spawn_refresh: "wk \<in> set (rg_workers r) \<Longrightarrow> wk_phase wk = WorkerUnspawned \<Longrightarrow>
    registry_step key_before r (fst (spawn_refresh r wk (system_clock_now w m) status))"
| rs_worker_proceeds: "wk \<in> set (rg_workers r) \<Longrightarrow> wk_phase wk = WorkerWaiting \<Longrightarrow>
    registry_step key_before r (worker_proceeds r wk)"
| rs_run_refresh: "wk \<in> set (rg_workers r) \<Longrightarrow>
    wk_phase wk = WorkerBuilding \<or> wk_phase wk = WorkerWaiting \<and> event = WorkerPanicked \<Longrightarrow>
    (\<forall>candidate. event = WorkerBuilt candidate \<longrightarrow>
       (\<exists>dg b64 i. build_refresh_candidate dg b64 i (wk_running wk) (wk_previous wk) = Inr candidate)) \<Longrightarrow>
    registry_step key_before r
      (run_refresh r wk event past_deadline (system_clock_now w m) wait (system_clock_now w' m') status)"

definition registry_init :: "registry \<Rightarrow> bool" where
  "registry_init r \<longleftrightarrow> (\<exists>status. r = registry_new status)"

section \<open>The tasks\<close>

definition task_id :: "task \<Rightarrow> nat" where
  "task_id t = fl_id (tk_flight t)"

definition in_queue :: "task \<Rightarrow> bool" where
  "in_queue t \<longleftrightarrow>
     (case tk_phase t of
        TaskUnspawned \<Rightarrow> True | TaskWaiting \<Rightarrow> True | TaskDevice \<Rightarrow> True | TaskAcquired \<Rightarrow> True
      | TaskRefused _ \<Rightarrow> True | _ \<Rightarrow> False)"

definition flights_agree :: "flight_state \<Rightarrow> task list \<Rightarrow> nat \<Rightarrow> bool" where
  "flights_agree fs ts fresh \<longleftrightarrow>
     distinct (map task_id ts) \<and> (\<forall>t \<in> set ts. task_id t < fresh) \<and>
     distinct (map tk_key ts) \<and> distinct (map fst (fs_flights fs)) \<and>
     set (fs_flights fs) = (\<lambda>t. (tk_key t, tk_flight t)) ` set ts \<and> length ts \<le> MAX_IN_FLIGHT_KEYS"

definition semaphores_agree :: "flight_state \<Rightarrow> task list \<Rightarrow> nat \<Rightarrow> bool" where
  "semaphores_agree fs ts fresh \<longleftrightarrow>
     distinct (map fst (fs_device_semaphores fs)) \<and> distinct (map snd (fs_device_semaphores fs)) \<and>
     (\<forall>e \<in> set (fs_device_semaphores fs). snd e < fresh) \<and>
     (\<forall>t \<in> set ts. map_of (fs_device_semaphores fs) (ck_device (tk_key t)) = Some (tk_semaphore t)) \<and>
     fst ` set (fs_device_semaphores fs) \<subseteq> (ck_device \<circ> tk_key) ` set ts"

definition permits_agree :: "task list \<Rightarrow> bool" where
  "permits_agree ts \<longleftrightarrow>
     (\<forall>s. length (filter (\<lambda>u. tk_semaphore u = s \<and> holds_device u) ts) \<le> 1) \<and>
     length (filter holds_global ts) \<le> MAX_ACTIVE_GLOBAL"

definition tasks_inv :: "flight_state \<Rightarrow> task list \<Rightarrow> nat \<Rightarrow> bool" where
  "tasks_inv fs ts fresh \<longleftrightarrow>
     flights_agree fs ts fresh \<and> semaphores_agree fs ts fresh \<and> permits_agree ts \<and>
     fs_queued fs = length (filter in_queue ts)"

lemma task_phase_sel [simp]:
  "tk_key (t\<lparr>tk_phase := p\<rparr>) = tk_key t" "tk_flight (t\<lparr>tk_phase := p\<rparr>) = tk_flight t"
  "tk_semaphore (t\<lparr>tk_phase := p\<rparr>) = tk_semaphore t" "task_id (t\<lparr>tk_phase := p\<rparr>) = task_id t"
  by (simp_all add: task_id_def)

lemma split_task:
  assumes "distinct (map task_id (rg_tasks r))" "t \<in> set (rg_tasks r)"
  obtains as bs where "rg_tasks r = as @ t # bs"
    "rg_tasks (set_phase t p r) = as @ t\<lparr>tk_phase := p\<rparr> # bs"
    "filter (\<lambda>u. fl_id (tk_flight u) \<noteq> fl_id (tk_flight t)) (rg_tasks r) = as @ bs"
proof -
  obtain as bs where s: "rg_tasks r = as @ t # bs" using assms(2) by (meson split_list)
  have o: "fl_id (tk_flight u) \<noteq> fl_id (tk_flight t)" if "u \<in> set as \<or> u \<in> set bs" for u
  proof -
    have "task_id t \<notin> task_id ` (set as \<union> set bs)" using assms(1) unfolding s by auto
    then have "task_id u \<noteq> task_id t" using that by (metis UnI1 UnI2 imageI)
    then show ?thesis by (simp add: task_id_def)
  qed
  have "map (\<lambda>u. if fl_id (tk_flight u) = fl_id (tk_flight t) then u\<lparr>tk_phase := p\<rparr> else u) xs = xs"
    if "set xs \<subseteq> set as \<union> set bs" for xs
  proof (rule map_idI)
    fix u
    assume "u \<in> set xs"
    then have "fl_id (tk_flight u) \<noteq> fl_id (tk_flight t)" using o that by blast
    then show "(if fl_id (tk_flight u) = fl_id (tk_flight t) then u\<lparr>tk_phase := p\<rparr> else u) = u" by simp
  qed
  from this [of as] this [of bs] have "rg_tasks (set_phase t p r) = as @ t\<lparr>tk_phase := p\<rparr> # bs"
    by (simp add: set_phase_def s)
  moreover have "filter (\<lambda>u. fl_id (tk_flight u) \<noteq> fl_id (tk_flight t)) (rg_tasks r) = as @ bs"
    using o by (simp add: s filter_id_conv)
  ultimately show ?thesis using that s by blast
qed

lemma set_phase_sel [simp]:
  "rg_snapshot (set_phase t p r) = rg_snapshot r" "rg_refresh (set_phase t p r) = rg_refresh r"
  "rg_flights (set_phase t p r) = rg_flights r" "rg_invocations (set_phase t p r) = rg_invocations r"
  "rg_capacity_exhausted (set_phase t p r) = rg_capacity_exhausted r" "rg_control (set_phase t p r) = rg_control r"
  "rg_shutdown (set_phase t p r) = rg_shutdown r" "rg_workers (set_phase t p r) = rg_workers r"
  "rg_results (set_phase t p r) = rg_results r" "rg_cancelled (set_phase t p r) = rg_cancelled r"
  "rg_fresh (set_phase t p r) = rg_fresh r" "rg_persist (set_phase t p r) = rg_persist r"
  by (simp_all add: set_phase_def)

lemma flights_agree_phase:
  "flights_agree fs (as @ t\<lparr>tk_phase := p\<rparr> # bs) fresh \<longleftrightarrow> flights_agree fs (as @ t # bs) fresh"
  by (simp add: flights_agree_def)

lemma semaphores_agree_phase:
  "semaphores_agree fs (as @ t\<lparr>tk_phase := p\<rparr> # bs) fresh \<longleftrightarrow> semaphores_agree fs (as @ t # bs) fresh"
  by (simp add: semaphores_agree_def)

lemma permits_agree_phase:
  assumes "permits_agree (as @ t # bs)"
    and "holds_device (t\<lparr>tk_phase := p\<rparr>) \<longrightarrow> holds_device t \<or>
       filter (\<lambda>u. tk_semaphore u = tk_semaphore t \<and> holds_device u) (as @ t # bs) = []"
    and "holds_global (t\<lparr>tk_phase := p\<rparr>) \<longrightarrow> holds_global t \<or>
       length (filter holds_global (as @ t # bs)) < MAX_ACTIVE_GLOBAL"
  shows "permits_agree (as @ t\<lparr>tk_phase := p\<rparr> # bs)"
  unfolding permits_agree_def
proof (intro conjI allI)
  fix s
  have "length (filter (\<lambda>u. tk_semaphore u = s \<and> holds_device u) (as @ t # bs)) \<le> 1"
    using assms(1) by (simp add: permits_agree_def)
  then show "length (filter (\<lambda>u. tk_semaphore u = s \<and> holds_device u) (as @ t\<lparr>tk_phase := p\<rparr> # bs)) \<le> 1"
    using assms(2) by (auto split: if_splits)
next
  have "length (filter holds_global (as @ t # bs)) \<le> MAX_ACTIVE_GLOBAL"
    using assms(1) by (simp add: permits_agree_def)
  then show "length (filter holds_global (as @ t\<lparr>tk_phase := p\<rparr> # bs)) \<le> MAX_ACTIVE_GLOBAL"
    using assms(3) by (auto split: if_splits)
qed

lemma agree_queued [simp]:
  "flights_agree (fs\<lparr>fs_queued := q\<rparr>) = flights_agree fs"
  "semaphores_agree (fs\<lparr>fs_queued := q\<rparr>) = semaphores_agree fs"
  by (simp_all add: fun_eq_iff flights_agree_def semaphores_agree_def)

lemma tasks_inv_fs_cong:
  assumes "tasks_inv fs ts fresh" "fs_flights fs' = fs_flights fs"
    "fs_device_semaphores fs' = fs_device_semaphores fs" "fs_queued fs' = fs_queued fs"
  shows "tasks_inv fs' ts fresh"
  using assms by (simp add: tasks_inv_def flights_agree_def semaphores_agree_def)

text \<open>
  A change of phase keeps the invariant if the queue and the permits are accounted for.
\<close>

lemma tasks_inv_phase:
  assumes inv: "tasks_inv (rg_flights r) (rg_tasks r) (rg_fresh r)" and t: "t \<in> set (rg_tasks r)"
    and q: "in_queue (t\<lparr>tk_phase := p\<rparr>) = in_queue t"
    and d: "holds_device (t\<lparr>tk_phase := p\<rparr>) \<longrightarrow> holds_device t \<or> 0 < available_permits r (tk_semaphore t)"
    and g: "holds_global (t\<lparr>tk_phase := p\<rparr>) \<longrightarrow> holds_global t \<or> 0 < global_permits r"
  shows "tasks_inv (rg_flights r) (rg_tasks (set_phase t p r)) (rg_fresh r)"
proof -
  have "distinct (map task_id (rg_tasks r))" using inv by (simp add: tasks_inv_def flights_agree_def)
  then obtain as bs where s: "rg_tasks r = as @ t # bs" "rg_tasks (set_phase t p r) = as @ t\<lparr>tk_phase := p\<rparr> # bs"
    using split_task t by metis
  have "permits_agree (as @ t\<lparr>tk_phase := p\<rparr> # bs)"
    using inv d g unfolding tasks_inv_def s(1)
    by (intro permits_agree_phase) (auto simp: available_permits_def global_permits_def s(1))
  then show ?thesis
    using inv q by (simp add: tasks_inv_def s flights_agree_phase semaphores_agree_phase)
qed

lemma tasks_inv_distinct: "tasks_inv fs ts fresh \<Longrightarrow> distinct (map task_id ts)"
  by (simp add: tasks_inv_def flights_agree_def)

lemma exhaust_capacity_sel [simp]:
  "rg_tasks (exhaust_capacity r) = rg_tasks r" "rg_fresh (exhaust_capacity r) = rg_fresh r"
  "rg_snapshot (exhaust_capacity r) = rg_snapshot r" "rg_workers (exhaust_capacity r) = rg_workers r"
  "rg_control (exhaust_capacity r) = rg_control r" "rg_shutdown (exhaust_capacity r) = rg_shutdown r"
  "rg_refresh (exhaust_capacity r) = rg_refresh r" "rg_persist (exhaust_capacity r) = rg_persist r"
  "rg_invocations (exhaust_capacity r) = rg_invocations r"
  "rg_flights (exhaust_capacity r) = (rg_flights r)\<lparr>fs_terminal_reason := Some CapacityExhausted\<rparr>"
  by (simp_all add: exhaust_capacity_def cancel_flights_def)

lemma cancel_flights_sel [simp]:
  "rg_tasks (cancel_flights r) = rg_tasks r" "rg_fresh (cancel_flights r) = rg_fresh r"
  "rg_snapshot (cancel_flights r) = rg_snapshot r" "rg_workers (cancel_flights r) = rg_workers r"
  "rg_control (cancel_flights r) = rg_control r" "rg_shutdown (cancel_flights r) = rg_shutdown r"
  "rg_refresh (cancel_flights r) = rg_refresh r" "rg_persist (cancel_flights r) = rg_persist r"
  "rg_invocations (cancel_flights r) = rg_invocations r" "rg_flights (cancel_flights r) = rg_flights r"
  by (simp_all add: cancel_flights_def)

abbreviation reg_tasks_inv :: "registry \<Rightarrow> bool" where
  "reg_tasks_inv r \<equiv> tasks_inv (rg_flights r) (rg_tasks r) (rg_fresh r)"

lemmas phase_defs = in_queue_def holds_device_def holds_global_def

lemma spawn_verification_tasks:
  assumes "reg_tasks_inv r" "t \<in> set (rg_tasks r)" "tk_phase t = TaskUnspawned"
  shows "reg_tasks_inv (spawn_verification r t)"
  using tasks_inv_phase [OF assms(1,2)] assms(3)
  by (simp add: spawn_verification_def phase_defs)

lemma poll_permits_tasks:
  assumes "reg_tasks_inv r" "t \<in> set (rg_tasks r)" "tk_phase t \<in> {TaskWaiting, TaskDevice}"
  shows "reg_tasks_inv (poll_permits r t timed_out)"
proof -
  have refused: "reg_tasks_inv (set_phase t (TaskRefused reason) r)" for reason
    using tasks_inv_phase [OF assms(1,2), of "TaskRefused reason"] assms(3) by (auto simp: phase_defs)
  moreover have "reg_tasks_inv (set_phase t TaskDevice r)"
    if "tk_phase t = TaskWaiting" "0 < available_permits r (tk_semaphore t)"
    using tasks_inv_phase [OF assms(1,2), of TaskDevice] that by (simp add: phase_defs)
  moreover have "reg_tasks_inv (set_phase t TaskAcquired r)"
    if "tk_phase t = TaskDevice" "0 < global_permits r"
    using tasks_inv_phase [OF assms(1,2), of TaskAcquired] that by (simp add: phase_defs)
  ultimately show ?thesis using assms(1) by (simp add: poll_permits_def)
qed

lemma leave_queue_tasks:
  assumes inv: "reg_tasks_inv r" and t: "t \<in> set (rg_tasks r)"
    and p: "tk_phase t = TaskAcquired \<or> (\<exists>reason. tk_phase t = TaskRefused reason)"
  shows "reg_tasks_inv (leave_queue r t)" "fs_queued (rg_flights r) \<noteq> 0"
proof -
  let ?p = "case tk_phase t of TaskRefused reason \<Rightarrow> TaskDone (non_passing reason) | _ \<Rightarrow> TaskRunning"
  obtain as bs where s: "rg_tasks r = as @ t # bs"
    "rg_tasks (set_phase t ?p (decrement_queued r)) = as @ t\<lparr>tk_phase := ?p\<rparr> # bs"
  proof -
    have "rg_tasks (decrement_queued r) = rg_tasks r" by (simp add: decrement_queued_def)
    then show ?thesis using that split_task [of "decrement_queued r" t] t tasks_inv_distinct [OF inv] by metis
  qed
  have q: "fs_queued (rg_flights r) = Suc (length (filter in_queue (as @ bs)))"
    using inv p by (auto simp: tasks_inv_def s(1) phase_defs)
  then show nz: "fs_queued (rg_flights r) \<noteq> 0" by simp
  have q': "\<not> in_queue (t\<lparr>tk_phase := ?p\<rparr>)" using p by (auto simp: phase_defs)
  have "permits_agree (as @ t\<lparr>tk_phase := ?p\<rparr> # bs)"
    using inv p unfolding tasks_inv_def s(1) by (intro permits_agree_phase) (auto simp: phase_defs)
  then have "tasks_inv ((rg_flights r)\<lparr>fs_queued := fs_queued (rg_flights r) - 1\<rparr>) (as @ t\<lparr>tk_phase := ?p\<rparr> # bs) (rg_fresh r)"
    using inv q q' unfolding tasks_inv_def s(1) agree_queued flights_agree_phase semaphores_agree_phase by simp
  then show "reg_tasks_inv (leave_queue r t)"
    using nz s(2) by (simp add: leave_queue_def decrement_queued_def)
qed

lemma start_verification_tasks:
  assumes "reg_tasks_inv r" "t \<in> set (rg_tasks r)" "tk_phase t = TaskRunning"
  shows "reg_tasks_inv (start_verification r t playback)"
proof -
  have "reg_tasks_inv (set_phase t p r')"
    if "rg_tasks r' = rg_tasks r" "rg_flights r' = rg_flights r" "rg_fresh r' = rg_fresh r"
      "p = TaskVerifying \<or> (\<exists>a. p = TaskDone a)" for r' p
    using tasks_inv_phase [of r' t p] assms that by (auto simp: phase_defs)
  then show ?thesis by (simp add: start_verification_def split: option.splits)
qed

lemma merge_verification_sel [simp]:
  "rg_tasks (fst (merge_verification kb r k e v c)) = rg_tasks r"
  "rg_flights (fst (merge_verification kb r k e v c)) = rg_flights r"
  "rg_fresh (fst (merge_verification kb r k e v c)) = rg_fresh r"
  "rg_workers (fst (merge_verification kb r k e v c)) = rg_workers r"
  "rg_control (fst (merge_verification kb r k e v c)) = rg_control r"
  "rg_shutdown (fst (merge_verification kb r k e v c)) = rg_shutdown r"
  by (simp_all add: merge_verification_def Let_def split: sum.splits option.splits)

lemma end_verification_tasks:
  assumes "reg_tasks_inv r" "t \<in> set (rg_tasks r)" "tk_phase t = TaskVerifying"
  shows "reg_tasks_inv (end_verification kb r t event c)"
proof -
  have done_phase: "reg_tasks_inv (set_phase t (TaskDone a) r')"
    if "rg_tasks r' = rg_tasks r" "rg_flights r' = rg_flights r" "rg_fresh r' = rg_fresh r" for r' a
    using tasks_inv_phase [of r' t "TaskDone a"] assms that by (simp add: phase_defs)
  then show ?thesis
    by (simp add: end_verification_def Let_def split_beta split: verifier_event.splits)
qed

lemma update_new: "k \<notin> fst ` set al \<Longrightarrow> AList.update k v al = al @ [(k, v)]"
  by (induction al) auto

lemma delete_set: "set (AList.delete k al) = {e \<in> set al. fst e \<noteq> k}"
  by (auto simp: AList.delete_eq)

lemma flights_length: "flights_agree fs ts fresh \<Longrightarrow> length (fs_flights fs) = length ts"
proof -
  assume a: "flights_agree fs ts fresh"
  then have "distinct (fs_flights fs)" by (simp add: flights_agree_def distinct_map)
  then have "length (fs_flights fs) = card ((\<lambda>t. (tk_key t, tk_flight t)) ` set ts)"
    using a distinct_card [of "fs_flights fs"] by (simp add: flights_agree_def)
  also have "\<dots> = card (set ts)"
    using a by (intro card_image inj_onI) (auto simp: flights_agree_def distinct_map inj_on_def)
  also have "\<dots> = length ts"
    using a by (intro distinct_card) (simp add: flights_agree_def distinct_map)
  finally show ?thesis .
qed

lemma flights_agree_keys: "flights_agree fs ts fresh \<Longrightarrow> fst ` set (fs_flights fs) = tk_key ` set ts"
  by (simp add: flights_agree_def image_image)

lemma flight_of_task:
  assumes "flights_agree fs ts fresh" "t \<in> set ts"
  shows "map_of (fs_flights fs) (tk_key t) = Some (tk_flight t)"
  using assms by (intro map_of_is_SomeI) (auto simp: flights_agree_def)

lemma flights_agree_new:
  assumes "flights_agree fs ts fresh" "map_of (fs_flights fs) key = None" "length (fs_flights fs) < MAX_IN_FLIGHT_KEYS"
    "tk_key t = key" "tk_flight t = f" "fl_id f = fresh" "fs_flights fs' = AList.update key f (fs_flights fs)"
  shows "flights_agree fs' (t # ts) (Suc fresh)"
proof -
  have n: "key \<notin> fst ` set (fs_flights fs)" using assms(2) by (simp add: map_of_eq_None_iff)
  have "task_id t = fresh" using assms(5,6) by (simp add: task_id_def)
  moreover have "fresh \<notin> task_id ` set ts" using assms(1) by (auto simp: flights_agree_def)
  moreover have "key \<notin> tk_key ` set ts" using n flights_agree_keys [OF assms(1)] by simp
  moreover have "length ts < MAX_IN_FLIGHT_KEYS" using assms(3) flights_length [OF assms(1)] by simp
  ultimately show ?thesis
    using assms(1,4,5) n by (auto simp: flights_agree_def assms(7) update_new less_SucI)
qed

lemma semaphores_agree_new:
  assumes "semaphores_agree fs ts fresh"
    and "case map_of (fs_device_semaphores fs) (ck_device (tk_key t)) of
       Some s \<Rightarrow> tk_semaphore t = s \<and> fs_device_semaphores fs' = fs_device_semaphores fs
     | None \<Rightarrow> tk_semaphore t = fresh \<and>
         fs_device_semaphores fs' = AList.update (ck_device (tk_key t)) fresh (fs_device_semaphores fs)"
  shows "semaphores_agree fs' (t # ts) (Suc fresh)"
proof (cases "map_of (fs_device_semaphores fs) (ck_device (tk_key t))")
  case None
  then have n: "ck_device (tk_key t) \<notin> fst ` set (fs_device_semaphores fs)" by (simp add: map_of_eq_None_iff)
  have "fresh \<notin> snd ` set (fs_device_semaphores fs)" using assms(1) by (auto simp: semaphores_agree_def)
  moreover have "ck_device (tk_key u) \<noteq> ck_device (tk_key t)" if "u \<in> set ts" for u
    using assms(1) that None by (auto simp: semaphores_agree_def)
  ultimately show ?thesis
    using assms n by (auto simp: semaphores_agree_def None update_new map_add_Some_iff less_SucI)
next
  case (Some s)
  then show ?thesis using assms by (auto simp: semaphores_agree_def less_SucI)
qed

lemma ensure_admit_tasks:
  assumes "reg_tasks_inv r"
  shows "reg_tasks_inv (fst (ensure_admit r key target epoch))"
proof -
  let ?fs = "rg_flights r" and ?f = "\<lambda>e. \<lparr>fl_id = rg_fresh r, fl_target = target, fl_epoch = e\<rparr>"
  let ?t = "\<lambda>e s. \<lparr>tk_key = key, tk_flight = ?f e, tk_semaphore = s, tk_phase = TaskUnspawned\<rparr>"
  have new: "tasks_inv fs' (?t e s # rg_tasks r) (Suc (rg_fresh r))"
    if n: "map_of (fs_flights ?fs) key = None" "length (fs_flights ?fs) < MAX_IN_FLIGHT_KEYS"
      "fs_flights fs' = AList.update key (?f e) (fs_flights ?fs)" "fs_queued fs' = Suc (fs_queued ?fs)"
      and s: "case map_of (fs_device_semaphores ?fs) (ck_device key) of
         Some s' \<Rightarrow> s = s' \<and> fs_device_semaphores fs' = fs_device_semaphores ?fs
       | None \<Rightarrow> s = rg_fresh r \<and>
           fs_device_semaphores fs' = AList.update (ck_device key) (rg_fresh r) (fs_device_semaphores ?fs)" for fs' s e
  proof -
    have "flights_agree fs' (?t e s # rg_tasks r) (Suc (rg_fresh r))"
      using assms n by (intro flights_agree_new [of ?fs _ _ key _ "?f e"]) (simp_all add: tasks_inv_def)
    moreover have "semaphores_agree fs' (?t e s # rg_tasks r) (Suc (rg_fresh r))"
      using assms s by (intro semaphores_agree_new [of ?fs]) (simp_all add: tasks_inv_def split: option.splits)
    ultimately show ?thesis
      using assms n(4) by (simp add: tasks_inv_def permits_agree_def) (simp add: phase_defs)
  qed
  show ?thesis
  proof (cases "\<not> rg_shutdown r \<and> \<not> rg_capacity_exhausted r \<and> fs_terminal_reason ?fs = None \<and>
      \<not> fs_admission_paused ?fs \<and> fs_identity_epoch ?fs = epoch \<and> map_of (fs_flights ?fs) key = None \<and>
      length (fs_flights ?fs) < MAX_IN_FLIGHT_KEYS \<and> fs_queued ?fs < MAX_QUEUED_KEYS")
    case True
    then have "checked_add_u64 (fs_queued ?fs) 1 = Some (Suc (fs_queued ?fs))"
      by (simp add: checked_add_u64_def MAX_QUEUED_KEYS_def)
    then show ?thesis
      using True by (cases "map_of (fs_device_semaphores ?fs) (ck_device key)")
        (simp_all add: ensure_admit_def Let_def new)
  next
    case False
    then have "fst (ensure_admit r key target epoch) = r"
      by (cases "fs_terminal_reason ?fs"; cases "map_of (fs_flights ?fs) key") (auto simp: ensure_admit_def Let_def)
    then show ?thesis using assms by simp
  qed
qed

lemma semaphore_device:
  assumes "semaphores_agree fs ts fresh" "t \<in> set ts" "u \<in> set ts"
  shows "tk_semaphore u = tk_semaphore t \<longleftrightarrow> ck_device (tk_key u) = ck_device (tk_key t)"
proof -
  let ?sems = "fs_device_semaphores fs"
  have m: "(ck_device (tk_key v), tk_semaphore v) \<in> set ?sems" if "v \<in> set ts" for v
    using assms(1) that by (auto simp: semaphores_agree_def dest: map_of_SomeD)
  have "inj_on snd (set ?sems)" using assms(1) by (simp add: semaphores_agree_def distinct_map)
  then have "tk_semaphore u = tk_semaphore t \<Longrightarrow> ck_device (tk_key u) = ck_device (tk_key t)"
    using m [OF assms(2)] m [OF assms(3)] by (metis inj_onD prod.inject snd_conv)
  moreover have "ck_device (tk_key u) = ck_device (tk_key t) \<Longrightarrow> tk_semaphore u = tk_semaphore t"
    using assms unfolding semaphores_agree_def by (metis option.inject)
  ultimately show ?thesis by blast
qed

lemma filter_key_one: "distinct (map f xs) \<Longrightarrow> x \<in> set xs \<Longrightarrow> length (filter (\<lambda>e. f e = f x) xs) = 1"
proof (induction xs)
  case (Cons a xs)
  show ?case
  proof (cases "x = a")
    case True
    have "f a \<notin> f ` set xs" using Cons.prems(1) by simp
    then have "\<forall>e \<in> set xs. f e \<noteq> f a" by (metis imageI)
    then show ?thesis using True by (simp add: filter_empty_conv)
  next
    case False
    then have "x \<in> set xs" "f a \<noteq> f x" using Cons.prems by auto
    then show ?thesis using Cons by simp
  qed
qed simp

lemma one_semaphore_entry:
  assumes "semaphores_agree fs ts fresh" "t \<in> set ts"
  shows "length (filter (\<lambda>e. snd e = tk_semaphore t) (fs_device_semaphores fs)) = 1"
proof -
  let ?sems = "fs_device_semaphores fs"
  have "(ck_device (tk_key t), tk_semaphore t) \<in> set ?sems"
    using assms by (auto simp: semaphores_agree_def dest: map_of_SomeD)
  moreover have "distinct (map snd ?sems)" using assms(1) by (simp add: semaphores_agree_def)
  ultimately show ?thesis using filter_key_one [of snd ?sems "(ck_device (tk_key t), tk_semaphore t)"] by simp
qed

text \<open>
  A task that is done is the last one on its semaphore exactly when the test of \<open>finish_flight\<close>
  says so.
\<close>

lemma last_reference_iff:
  assumes inv: "reg_tasks_inv r" and r: "rg_tasks r = as @ t # bs" and p: "tk_phase t = TaskDone answer"
  shows "available_permits r (tk_semaphore t) = 1 \<and> strong_count r (tk_semaphore t) = 2 \<longleftrightarrow>
    (\<forall>u \<in> set (as @ bs). tk_semaphore u \<noteq> tk_semaphore t)"
proof -
  let ?same = "filter (\<lambda>u. tk_semaphore u = tk_semaphore t) (as @ bs)"
  have "t \<in> set (rg_tasks r)" by (simp add: r)
  then have one: "length (filter (\<lambda>e. snd e = tk_semaphore t) (fs_device_semaphores (rg_flights r))) = 1"
    using inv one_semaphore_entry by (auto simp: tasks_inv_def)
  have t: "task_references t = 1" "\<not> holds_device t" by (simp_all add: p task_references_def holds_device_def)
  have count: "strong_count r (tk_semaphore t) = 2 + sum_list (map task_references ?same)"
    using one t by (simp add: strong_count_def r)
  have pos: "0 < task_references u" for u by (simp add: task_references_def)
  have "sum_list (map task_references ?same) = 0 \<longleftrightarrow> ?same = []"
    using pos by (cases ?same) (auto simp del: filter_append)
  moreover have "available_permits r (tk_semaphore t) = 1" if "?same = []"
  proof -
    have "filter (\<lambda>u. tk_semaphore u = tk_semaphore t \<and> holds_device u) (rg_tasks r) = []"
      using that t(2) by (auto simp: r filter_empty_conv)
    then show ?thesis by (simp add: available_permits_def)
  qed
  moreover have "?same = [] \<longleftrightarrow> (\<forall>u \<in> set (as @ bs). tk_semaphore u \<noteq> tk_semaphore t)"
    unfolding filter_empty_conv ..
  ultimately show ?thesis using count by auto
qed

lemma semaphores_agree_remove:
  assumes "semaphores_agree fs (as @ t # bs) fresh"
    "fs_device_semaphores fs' =
       (if \<forall>u \<in> set (as @ bs). tk_semaphore u \<noteq> tk_semaphore t
        then AList.delete (ck_device (tk_key t)) (fs_device_semaphores fs) else fs_device_semaphores fs)"
  shows "semaphores_agree fs' (as @ bs) fresh"
proof (cases "\<forall>u \<in> set (as @ bs). tk_semaphore u \<noteq> tk_semaphore t")
  case True
  then have fs': "fs_device_semaphores fs' = AList.delete (ck_device (tk_key t)) (fs_device_semaphores fs)"
    using assms(2) by simp
  have other: "ck_device (tk_key u) \<noteq> ck_device (tk_key t)" if "u \<in> set (as @ bs)" for u
    using semaphore_device [OF assms(1), of t u] True that by auto
  have d: "distinct (map snd (AList.delete k al))" if "distinct (map snd al)" for k and al :: "(device_id \<times> nat) list"
    using that by (simp add: AList.delete_eq distinct_map_filter)
  show ?thesis
    using assms(1) other by (auto simp: semaphores_agree_def fs' delete_set d distinct_delete delete_conv' image_iff)
next
  case False
  then obtain u where u: "u \<in> set (as @ bs)" "tk_semaphore u = tk_semaphore t" by blast
  then have "ck_device (tk_key u) = ck_device (tk_key t)" using semaphore_device [OF assms(1), of t u] by auto
  then have "ck_device (tk_key t) \<in> (ck_device \<circ> tk_key) ` set (as @ bs)"
    using u(1) by (metis comp_apply imageI)
  then have "(ck_device \<circ> tk_key) ` set (as @ t # bs) = (ck_device \<circ> tk_key) ` set (as @ bs)" by auto
  moreover have "fs_device_semaphores fs' = fs_device_semaphores fs" using False assms(2) by presburger
  ultimately show ?thesis using assms(1) by (simp add: semaphores_agree_def)
qed

lemma flights_agree_remove:
  assumes "flights_agree fs (as @ t # bs) fresh" "fs_flights fs' = AList.delete (tk_key t) (fs_flights fs)"
  shows "flights_agree fs' (as @ bs) fresh"
proof -
  have "tk_key t \<notin> tk_key ` set (as @ bs)" using assms(1) by (auto simp: flights_agree_def)
  then have k: "tk_key u \<noteq> tk_key t" if "u \<in> set (as @ bs)" for u using that by (metis imageI)
  have e: "set (fs_flights fs) = insert (tk_key t, tk_flight t) ((\<lambda>u. (tk_key u, tk_flight u)) ` set (as @ bs))"
    using assms(1) by (simp add: flights_agree_def)
  have "{e \<in> set (fs_flights fs). fst e \<noteq> tk_key t} = (\<lambda>u. (tk_key u, tk_flight u)) ` set (as @ bs)"
    unfolding e using k by auto
  then show ?thesis
    using assms(1) by (simp add: flights_agree_def assms(2) delete_set distinct_delete)
qed

lemma finish_flight_tasks:
  assumes inv: "reg_tasks_inv r" and t: "t \<in> set (rg_tasks r)" and p: "tk_phase t = TaskDone answer"
  shows "reg_tasks_inv (finish_flight r t answer)"
proof -
  obtain as bs where s: "rg_tasks r = as @ t # bs"
    "filter (\<lambda>u. fl_id (tk_flight u) \<noteq> fl_id (tk_flight t)) (rg_tasks r) = as @ bs"
    using split_task [OF tasks_inv_distinct [OF inv] t] by metis
  have agree: "flights_agree (rg_flights r) (as @ t # bs) (rg_fresh r)"
    "semaphores_agree (rg_flights r) (as @ t # bs) (rg_fresh r)"
    using inv by (simp_all add: tasks_inv_def s(1))
  have f: "map_of (fs_flights (rg_flights r)) (tk_key t) = Some (tk_flight t)"
    using flight_of_task [OF agree(1), of t] by simp
  let ?fs = "rg_flights (finish_flight r t answer)"
  have "flights_agree ?fs (as @ bs) (rg_fresh r)"
    using agree(1) by (rule flights_agree_remove) (simp add: finish_flight_def Let_def f)
  moreover have "semaphores_agree ?fs (as @ bs) (rg_fresh r)"
    using agree(2) by (rule semaphores_agree_remove)
      (simp only: finish_flight_def Let_def last_reference_iff [OF inv s(1) p], simp)
  moreover have "permits_agree (as @ bs)"
    using inv by (auto simp: tasks_inv_def s(1) permits_agree_def phase_defs p)
  moreover have "fs_queued ?fs = length (filter in_queue (as @ bs))"
    using inv by (simp add: tasks_inv_def s(1) phase_defs p finish_flight_def Let_def)
  ultimately show ?thesis by (simp add: tasks_inv_def finish_flight_def Let_def s(2))
qed

section \<open>The publication\<close>

definition distinct_keys :: "snapshot \<Rightarrow> bool" where
  "distinct_keys s \<longleftrightarrow> distinct (map fst (sn_evidence s))"

definition worker_inv :: "registry \<Rightarrow> refresh_worker \<Rightarrow> bool" where
  "worker_inv r w \<longleftrightarrow>
     rc_running (rg_control r) = Some (wk_running w) \<and> owns_publication r (wk_running w) \<and>
     sn_freshness (rg_snapshot r) = Refreshing \<and> fs_admission_paused (rg_flights r) \<and>
     (wk_phase w = WorkerBuilding \<longrightarrow> fs_flights (rg_flights r) = []) \<and> distinct_keys (wk_previous w)"

definition pub_inv :: "registry \<Rightarrow> bool" where
  "pub_inv r \<longleftrightarrow>
     snapshot_wf (rg_snapshot r) \<and> distinct_keys (rg_snapshot r) \<and>
     fs_identity_epoch (rg_flights r) = sn_identity_epoch (rg_snapshot r) \<and>
     (case rg_workers r of
        [] \<Rightarrow> rc_running (rg_control r) = None
      | [w] \<Rightarrow> worker_inv r w
      | _ \<Rightarrow> False)"

definition advances :: "registry \<Rightarrow> registry \<Rightarrow> bool" where
  "advances r r' \<longleftrightarrow>
     sn_identity_epoch (rg_snapshot r) \<le> sn_identity_epoch (rg_snapshot r') \<and>
     (rg_snapshot r' = rg_snapshot r \<or>
      sn_publication_revision (rg_snapshot r) < sn_publication_revision (rg_snapshot r'))"

definition registry_inv :: "registry \<Rightarrow> bool" where
  "registry_inv r \<longleftrightarrow> reg_tasks_inv r \<and> pub_inv r"

lemma next_safe_Some: "next_safe n = Some m \<longleftrightarrow> m = Suc n \<and> Suc n \<le> MAX_SAFE_INTEGER"
  by (auto simp: next_safe_def checked_add_u64_def MAX_SAFE_INTEGER_def option_filter_Some_iff)

lemma worker_cases:
  assumes "pub_inv r" "w \<in> set (rg_workers r)"
  shows "rg_workers r = [w]" "worker_inv r w"
  using assms by (auto simp: pub_inv_def split: list.splits)

lemma pub_inv_cong:
  assumes "pub_inv r" "rg_snapshot r' = rg_snapshot r" "rg_workers r' = rg_workers r"
    "rc_running (rg_control r') = rc_running (rg_control r)"
    "fs_identity_epoch (rg_flights r') = fs_identity_epoch (rg_flights r)"
    "fs_admission_paused (rg_flights r') = fs_admission_paused (rg_flights r)"
    "fs_flights (rg_flights r) = [] \<Longrightarrow> fs_flights (rg_flights r') = []"
  shows "pub_inv r'" "advances r r'"
  using assms
  by (auto simp: pub_inv_def worker_inv_def owns_publication_def advances_def split: list.splits)

text \<open>The two ends of a refresh on a registry whose publication it owns.\<close>

definition refresh_ended :: "registry \<Rightarrow> running_refresh \<Rightarrow> registry \<Rightarrow> bool" where
  "refresh_ended r running r' \<longleftrightarrow>
     rg_tasks r' = rg_tasks r \<and> rg_fresh r' = rg_fresh r \<and> rg_workers r' = rg_workers r \<and>
     fs_flights (rg_flights r') = fs_flights (rg_flights r) \<and>
     fs_device_semaphores (rg_flights r') = fs_device_semaphores (rg_flights r) \<and>
     fs_queued (rg_flights r') = fs_queued (rg_flights r) \<and>
     fs_identity_epoch (rg_flights r') = fs_identity_epoch (rg_flights r) \<and>
     rc_running (rg_control r') = None \<and>
     (rg_snapshot r' = rg_snapshot r \<or>
      snapshot_wf (rg_snapshot r') \<and> distinct_keys (rg_snapshot r') \<and>
      sn_identity_epoch (rg_snapshot r') = rr_epoch running \<and>
      sn_publication_revision (rg_snapshot r') = Suc (rr_admitted_revision running))"

lemma finish_control_ended:
  assumes "rc_running (rg_control r) = Some running"
  shows "refresh_ended r running (finish_refresh_control r running)"
    "refresh_ended r running (finish_refresh_control (resume_after_refresh r e) running)"
  using assms by (simp_all add: refresh_ended_def finish_refresh_control_def resume_after_refresh_def)

lemma refresh_ended_publish:
  assumes "refresh_ended r1 running r'" "rg_tasks r1 = rg_tasks r" "rg_fresh r1 = rg_fresh r"
    "rg_workers r1 = rg_workers r" "rg_flights r1 = rg_flights r" "rg_snapshot r' = rg_snapshot r1"
    "rg_snapshot r1 = rg_snapshot r \<or> snapshot_wf (rg_snapshot r1) \<and> distinct_keys (rg_snapshot r1) \<and>
       sn_identity_epoch (rg_snapshot r1) = rr_epoch running \<and>
       sn_publication_revision (rg_snapshot r1) = Suc (rr_admitted_revision running)"
  shows "refresh_ended r running r'"
  using assms by (simp add: refresh_ended_def)

lemma control_snapshot [simp]:
  "rg_snapshot (finish_refresh_control r running) = rg_snapshot r"
  "rg_snapshot (resume_after_refresh r e) = rg_snapshot r"
  by (simp_all add: finish_refresh_control_def resume_after_refresh_def)

lemma publish_failed_ended:
  assumes "rc_running (rg_control r) = Some running" "distinct_keys previous"
  shows "refresh_ended r running (publish_failed_refresh r running previous cancelled reason clock status)"
proof -
  have end1: "refresh_ended r running (finish_refresh_control (resume_after_refresh r1 (rr_epoch running)) running)"
    if "rc_running (rg_control r1) = Some running" "rg_tasks r1 = rg_tasks r" "rg_fresh r1 = rg_fresh r"
      "rg_workers r1 = rg_workers r" "rg_flights r1 = rg_flights r"
      "rg_snapshot r1 = rg_snapshot r \<or> snapshot_wf (rg_snapshot r1) \<and> distinct_keys (rg_snapshot r1) \<and>
         sn_identity_epoch (rg_snapshot r1) = rr_epoch running \<and>
         sn_publication_revision (rg_snapshot r1) = Suc (rr_admitted_revision running)" for r1
    using refresh_ended_publish [OF finish_control_ended(2) [OF that(1)]] that by simp
  show ?thesis
    unfolding publish_failed_refresh_def Let_def
    using assms
    by (auto simp: next_safe_Some from_parts_Inr distinct_keys_def intro!: end1 split: sum.splits option.splits if_splits)
qed

lemma refresh_ended_if:
  "refresh_ended r running x \<Longrightarrow> refresh_ended r running y \<Longrightarrow> refresh_ended r running (if b then x else y)"
  by simp

lemma publish_fresh_ended:
  assumes "rc_running (rg_control r) = Some running" "distinct_keys previous"
    "distinct (map fst (cd_evidence candidate))"
  shows "refresh_ended r running
    (publish_fresh_refresh r running previous candidate past_deadline clock wait clock' status)"
proof -
  have failed: "refresh_ended r running (publish_failed_refresh r1 running previous cancelled reason clock' status)"
    if "rg_control r1 = rg_control r" "rg_tasks r1 = rg_tasks r" "rg_fresh r1 = rg_fresh r"
      "rg_workers r1 = rg_workers r" "rg_flights r1 = rg_flights r" "rg_snapshot r1 = rg_snapshot r"
    for r1 cancelled reason
    using publish_failed_ended [of r1 running] that assms by (simp add: refresh_ended_def)
  have ended: "refresh_ended r running r'"
    if "r' = finish_refresh_control (resume_after_refresh r1 (rr_epoch running)) running \<or>
        r' = finish_refresh_control r1 running"
      "rg_control r1 = rg_control r" "rg_tasks r1 = rg_tasks r" "rg_fresh r1 = rg_fresh r"
      "rg_workers r1 = rg_workers r" "rg_flights r1 = rg_flights r"
      "rg_snapshot r1 = rg_snapshot r \<or> snapshot_wf (rg_snapshot r1) \<and> distinct_keys (rg_snapshot r1) \<and>
         sn_identity_epoch (rg_snapshot r1) = rr_epoch running \<and>
         sn_publication_revision (rg_snapshot r1) = Suc (rr_admitted_revision running)" for r1 r'
    using refresh_ended_publish [OF finish_control_ended(1) [of r1 running]]
      refresh_ended_publish [OF finish_control_ended(2) [of r1 running]] that assms by auto
  show ?thesis
  proof (cases "past_deadline \<or> (\<exists>e. clock = Inl e) \<or> next_safe (rr_admitted_revision running) = None")
    case True
    then show ?thesis by (auto simp: publish_fresh_refresh_def failed split: sum.splits)
  next
    case False
    then obtain now where now: "clock = Inr now" "\<not> past_deadline"
        "next_safe (rr_admitted_revision running) = Some (Suc (rr_admitted_revision running))"
      by (cases clock) (auto simp: next_safe_Some)
    show ?thesis
    proof (cases "from_parts Fresh (rr_epoch running) (Suc (rr_admitted_revision running)) (cd_runtime candidate)
        (cd_devices candidate) (cd_candidates candidate) (cd_evidence candidate) now")
      case (Inl e)
      then show ?thesis by (simp add: publish_fresh_refresh_def now failed)
    next
      case (Inr s)
      let ?r1 = "case sn_runtime s of None \<Rightarrow> r | Some runtime \<Rightarrow>
         r\<lparr>rg_persist := rg_persist r @ [(Suc (rr_admitted_revision running), inv_runtime_id runtime, sn_evidence s)]\<rparr>"
      have r1: "rg_control ?r1 = rg_control r" "rg_tasks ?r1 = rg_tasks r" "rg_fresh ?r1 = rg_fresh r"
        "rg_workers ?r1 = rg_workers r" "rg_flights ?r1 = rg_flights r" "rg_snapshot ?r1 = rg_snapshot r"
        by (simp_all split: option.splits)
      have s: "snapshot_wf s" "distinct_keys s" "sn_identity_epoch s = rr_epoch running"
        "sn_publication_revision s = Suc (rr_admitted_revision running)"
        using Inr assms(3) by (auto simp: from_parts_Inr distinct_keys_def)
      have dropped: "refresh_ended r running (finish_refresh_control ?r1 running)"
        by (rule ended [of _ ?r1]) (use r1 in auto)
      have published: "refresh_ended r running (finish_refresh_control (resume_after_refresh
          (?r1\<lparr>rg_snapshot := s, rg_refresh := m\<rparr>) (rr_epoch running)) running)" for m
        by (rule ended [of _ "?r1\<lparr>rg_snapshot := s, rg_refresh := m\<rparr>"]) (use r1 s in auto)
      show ?thesis
        by (simp only: publish_fresh_refresh_def now if_False sum.case option.case Inr Let_def)
          (intro refresh_ended_if failed [OF r1] dropped published)
    qed
  qed
qed

lemma ended_inv:
  assumes inv: "registry_inv r" and w: "w \<in> set (rg_workers r)" and e: "refresh_ended r (wk_running w) r'"
  shows "registry_inv (end_worker w r')" "advances r (end_worker w r')"
proof -
  have ws: "rg_workers r = [w]" and wi: "worker_inv r w"
    using worker_cases [OF _ w] inv by (auto simp: registry_inv_def)
  have epoch: "fs_identity_epoch (rg_flights r) = rr_epoch (wk_running w)"
    "sn_identity_epoch (rg_snapshot r) = rr_epoch (wk_running w)"
    "sn_publication_revision (rg_snapshot r) = rr_admitted_revision (wk_running w)"
    using inv wi by (simp_all add: registry_inv_def pub_inv_def worker_inv_def owns_publication_def)
  have "reg_tasks_inv r'"
    using inv e by (auto simp: registry_inv_def refresh_ended_def intro: tasks_inv_fs_cong)
  moreover have "pub_inv (end_worker w r')"
    using inv e ws epoch by (auto simp: registry_inv_def pub_inv_def refresh_ended_def end_worker_def)
  ultimately show "registry_inv (end_worker w r')" by (simp add: registry_inv_def end_worker_def)
  show "advances r (end_worker w r')"
    using e epoch by (auto simp: advances_def refresh_ended_def end_worker_def)
qed

lemma running_of_worker:
  assumes "registry_inv r" "w \<in> set (rg_workers r)"
  shows "rc_running (rg_control r) = Some (wk_running w)" "distinct_keys (wk_previous w)"
  using worker_cases [of r w] assms by (simp_all add: registry_inv_def worker_inv_def)

lemma retain_evidence_distinct: "distinct (map fst ev) \<Longrightarrow> distinct (map fst (retain_evidence s now ev))"
proof -
  have "set (map fst (retain_evidence s now ev)) \<subseteq> set (map fst ev) \<and> distinct (map fst (retain_evidence s now ev))"
    if "distinct (map fst ev)"
    using that
  proof (induction ev)
    case (Cons e ev)
    then show ?case
      by (cases e) (auto simp: retain_evidence_def evidence_record_is_current_def Let_def List.map_filter_simps)
  qed (simp add: retain_evidence_def List.map_filter_simps)
  then show "distinct (map fst ev) \<Longrightarrow> distinct (map fst (retain_evidence s now ev))" by blast
qed

lemma load_stored_distinct: "distinct (map fst ev) \<Longrightarrow> distinct (map fst (load_stored s now ev stored))"
proof (induction s now ev stored rule: load_stored.induct)
  case (2 s now ev k e stored)
  then show ?case
    by (auto simp: evidence_record_is_current_def Let_def map_of_eq_None_iff)
qed simp

lemma refreshed_evidence_distinct:
  assumes "distinct_keys previous"
  shows "distinct (map fst (refreshed_evidence s previous runtime i cause now))"
proof -
  have "fst \<circ> (\<lambda>(k, e). (k, clear_cooldown_after_refresh e now)) = (fst :: capability_key \<times> capability_evidence \<Rightarrow> _)"
    by auto
  then show ?thesis
    using assms
    by (auto simp: refreshed_evidence_def Let_def distinct_keys_def retain_evidence_distinct load_stored_distinct
        split: option.splits)
qed

lemma build_refresh_candidate_distinct:
  assumes "build_refresh_candidate dg b64 i running previous = Inr candidate" "distinct_keys previous"
  shows "distinct (map fst (cd_evidence candidate))"
  using assms
  by (cases "in_session i")
    (auto simp: build_refresh_candidate_def rbind_Inr_iff Let_def refreshed_evidence_distinct
      split: if_splits sum.splits)

lemma run_refresh_inv:
  assumes "registry_inv r" "w \<in> set (rg_workers r)"
    and built: "\<forall>candidate. event = WorkerBuilt candidate \<longrightarrow>
       (\<exists>dg b64 i. build_refresh_candidate dg b64 i (wk_running w) (wk_previous w) = Inr candidate)"
  shows "registry_inv (run_refresh r w event past_deadline clock wait clock' status)"
    "advances r (run_refresh r w event past_deadline clock wait clock' status)"
proof -
  note run = running_of_worker [OF assms(1,2)]
  have dis: "distinct (map fst (cd_evidence candidate))" if "event = WorkerBuilt candidate" for candidate
    using built that build_refresh_candidate_distinct run(2) by blast
  have "\<exists>r'. run_refresh r w event past_deadline clock wait clock' status = end_worker w r' \<and>
      refresh_ended r (wk_running w) r'"
    unfolding run_refresh_def Let_def
    by (intro exI conjI, rule refl)
      (auto simp: publish_failed_ended [OF run] publish_fresh_ended [OF run dis] split: worker_event.splits)
  then show "registry_inv (run_refresh r w event past_deadline clock wait clock' status)"
    "advances r (run_refresh r w event past_deadline clock wait clock' status)"
    using ended_inv [OF assms(1,2)] by auto
qed

lemma worker_phase_inv:
  assumes "registry_inv r" "w \<in> set (rg_workers r)" "p = WorkerBuilding \<Longrightarrow> fs_flights (rg_flights r) = []"
  shows "registry_inv (set_worker_phase w p r)" "advances r (set_worker_phase w p r)"
  using assms worker_cases [of r w]
  by (auto simp: registry_inv_def pub_inv_def worker_inv_def owns_publication_def set_worker_phase_def advances_def)

lemma advances_refl [simp]: "advances r r"
  by (simp add: advances_def)

lemma spawn_refresh_inv:
  assumes "registry_inv r" "w \<in> set (rg_workers r)"
  shows "registry_inv (fst (spawn_refresh r w clock status))" "advances r (fst (spawn_refresh r w clock status))"
  using ended_inv [OF assms publish_failed_ended [OF running_of_worker [OF assms]]]
    worker_phase_inv [OF assms, of WorkerWaiting]
  by (simp_all add: spawn_refresh_def)

lemma worker_proceeds_inv:
  assumes "registry_inv r" "w \<in> set (rg_workers r)"
  shows "registry_inv (worker_proceeds r w)" "advances r (worker_proceeds r w)"
  using worker_phase_inv [OF assms, of WorkerBuilding] assms(1)
  by (auto simp: worker_proceeds_def wait_for_all_flights_def)

lemma exhaust_inv:
  assumes "registry_inv r"
  shows "registry_inv (exhaust_capacity r)" "registry_inv (r\<lparr>rg_capacity_exhausted := b\<rparr>)"
  using assms pub_inv_cong(1) [of r "exhaust_capacity r"] pub_inv_cong(1) [of r "r\<lparr>rg_capacity_exhausted := b\<rparr>"]
  by (auto simp: registry_inv_def intro: tasks_inv_fs_cong)

lemma admit_refresh_Inr:
  assumes "admit_refresh_invalidation r i cause clock status = (r', Inr (epoch, revision, previous))"
  shows "rg_tasks r' = rg_tasks r" "rg_fresh r' = rg_fresh r" "rg_workers r' = rg_workers r" "rg_control r' = rg_control r"
    "fs_flights (rg_flights r') = fs_flights (rg_flights r)"
    "fs_device_semaphores (rg_flights r') = fs_device_semaphores (rg_flights r)"
    "fs_queued (rg_flights r') = fs_queued (rg_flights r)"
    "fs_admission_paused (rg_flights r')" "fs_identity_epoch (rg_flights r') = epoch"
    "snapshot_wf (rg_snapshot r')" "sn_freshness (rg_snapshot r') = Refreshing"
    "sn_identity_epoch (rg_snapshot r') = epoch" "sn_publication_revision (rg_snapshot r') = revision"
    "epoch = Suc (fs_identity_epoch (rg_flights r))"
    "revision = Suc (sn_publication_revision (rg_snapshot r))" "previous = rg_snapshot r"
    "sn_evidence (rg_snapshot r') = sn_evidence (rg_snapshot r)"
  using assms
  by (auto simp: admit_refresh_invalidation_def Let_def next_safe_Some from_parts_Inr
      split: if_splits option.splits sum.splits)

lemma admit_refresh_Inl:
  assumes "admit_refresh_invalidation r i cause clock status = (r', Inl reason)"
  shows "r' = r \<or> r' = exhaust_capacity r"
  using assms by (auto simp: admit_refresh_invalidation_def Let_def split: if_splits option.splits sum.splits)

lemma start_refresh_admitted_inv:
  assumes inv: "registry_inv r" and idle: "rc_running (rg_control r) = None"
  shows "registry_inv (fst (start_refresh_admitted r cause now clock status))"
    "advances r (fst (start_refresh_admitted r cause now clock status))"
proof -
  let ?r' = "fst (start_refresh_admitted r cause now clock status)"
  have ws: "rg_workers r = []"
    using inv idle by (auto simp: registry_inv_def pub_inv_def worker_inv_def split: list.splits)
  have "registry_inv ?r' \<and> advances r ?r'"
  proof (cases "next_safe (rc_next_id (rg_control r))")
    case None
    then show ?thesis using exhaust_inv(2) [OF inv] by (simp add: start_refresh_admitted_def advances_def)
  next
    case (Some i)
    obtain r1 x where a: "admit_refresh_invalidation r i cause clock status = (r1, x)" by fastforce
    show ?thesis
    proof (cases x)
      case (Inl reason)
      then have "?r' = r1" "r1 = r \<or> r1 = exhaust_capacity r"
        using a admit_refresh_Inl [of r i cause clock status r1 reason] by (simp_all add: start_refresh_admitted_def Some)
      then show ?thesis using inv exhaust_inv(1) [OF inv] by (auto simp: advances_def)
    next
      case (Inr y)
      obtain epoch revision previous where y: "y = (epoch, revision, previous)" by (cases y)
      note e = admit_refresh_Inr [OF a [unfolded Inr y]]
      have "tasks_inv (rg_flights r1) (rg_tasks r1) (rg_fresh r1)"
        using inv tasks_inv_fs_cong [of "rg_flights r" "rg_tasks r" "rg_fresh r" "rg_flights r1"]
        by (simp add: registry_inv_def e)
      moreover have "sn_identity_epoch (rg_snapshot r) = fs_identity_epoch (rg_flights r)"
        "distinct_keys (rg_snapshot r)" "distinct_keys (rg_snapshot r1)"
        using inv by (simp_all add: registry_inv_def pub_inv_def distinct_keys_def e)
      ultimately show ?thesis
        using e ws
        by (simp add: start_refresh_admitted_def Some a Inr y Let_def registry_inv_def pub_inv_def worker_inv_def
            owns_publication_def advances_def)
    qed
  qed
  then show "registry_inv ?r'" "advances r ?r'" by simp_all
qed

lemma start_refresh_inv:
  assumes "registry_inv r"
  shows "registry_inv (fst (start_refresh r cause clock clock' status))"
    "advances r (fst (start_refresh r cause clock clock' status))"
  using assms start_refresh_admitted_inv [OF assms]
  by (auto simp: start_refresh_def Let_def split: sum.splits option.splits)

lemma merged_evidence_distinct:
  assumes "merged_evidence kb s key verified now = Inr ev" "distinct_keys s"
  shows "distinct (map fst ev)"
proof -
  have "map fst (prune_map now xs) = map fst xs" for xs by (simp add: prune_map_def comp_def case_prod_beta)
  then have "distinct (map fst (retain_current s (prune_map now (sn_evidence s))))"
    using assms(2) by (simp add: retain_current_def distinct_keys_def distinct_map_filter)
  then show ?thesis
    using assms(1)
    by (auto simp: merged_evidence_def Let_def distinct_delete distinct_update
        split: prod.splits sum.splits transition.splits if_splits option.splits)
qed

lemma merge_verification_pub:
  assumes "pub_inv r"
  shows "pub_inv (fst (merge_verification kb r key epoch verified clock))"
    "advances r (fst (merge_verification kb r key epoch verified clock))"
proof -
  let ?r' = "fst (merge_verification kb r key epoch verified clock)"
  have "rg_snapshot ?r' = rg_snapshot r \<or>
      admits (rg_snapshot r) key \<and> sn_identity_epoch (rg_snapshot r) = epoch \<and> snapshot_wf (rg_snapshot ?r') \<and>
      distinct_keys (rg_snapshot ?r') \<and> sn_identity_epoch (rg_snapshot ?r') = epoch \<and>
      sn_publication_revision (rg_snapshot ?r') = Suc (sn_publication_revision (rg_snapshot r))"
    using assms merged_evidence_distinct [of kb "rg_snapshot r" key verified]
    by (auto simp: merge_verification_def Let_def from_parts_Inr option_filter_Some_iff checked_add_u64_def
        pub_inv_def distinct_keys_def split: sum.splits option.splits if_splits)
  then consider "rg_snapshot ?r' = rg_snapshot r"
    | "admits (rg_snapshot r) key" "sn_identity_epoch (rg_snapshot r) = epoch" "snapshot_wf (rg_snapshot ?r')"
      "distinct_keys (rg_snapshot ?r')"
      "sn_identity_epoch (rg_snapshot ?r') = epoch"
      "sn_publication_revision (rg_snapshot ?r') = Suc (sn_publication_revision (rg_snapshot r))"
    by blast
  then have "pub_inv ?r' \<and> advances r ?r'"
  proof cases
    case 1
    then show ?thesis using pub_inv_cong [OF assms, of ?r'] by simp
  next
    case 2
    have "sn_freshness (rg_snapshot r) = Fresh" using 2(1) by (simp add: admits_def key_is_current_def)
    then have "rg_workers r = []"
      using assms by (auto simp: pub_inv_def worker_inv_def split: list.splits)
    then show ?thesis using assms 2 by (simp add: pub_inv_def advances_def)
  qed
  then show "pub_inv ?r'" "advances r ?r'" by simp_all
qed

lemma end_verification_pub:
  assumes "pub_inv r"
  shows "pub_inv (end_verification kb r t event clock)" "advances r (end_verification kb r t event clock)"
proof -
  have phase: "pub_inv (set_phase t p r') \<and> advances r (set_phase t p r')" if "pub_inv r'" "advances r r'" for r' p
    using pub_inv_cong [OF that(1), of "set_phase t p r'"] that(2) by (simp add: advances_def)
  have "pub_inv (end_verification kb r t event clock) \<and> advances r (end_verification kb r t event clock)"
    using phase [of r] phase [OF merge_verification_pub [OF assms]] assms
    by (simp add: end_verification_def Let_def split_beta split: verifier_event.splits)
  then show "pub_inv (end_verification kb r t event clock)" "advances r (end_verification kb r t event clock)" by simp_all
qed

lemma ensure_admit_pub:
  assumes "pub_inv r"
  shows "pub_inv (fst (ensure_admit r key target epoch))" "advances r (fst (ensure_admit r key target epoch))"
proof -
  let ?r' = "fst (ensure_admit r key target epoch)"
  have "?r' = r \<or> \<not> fs_admission_paused (rg_flights r) \<and> rg_snapshot ?r' = rg_snapshot r \<and>
      rg_workers ?r' = rg_workers r \<and> rg_control ?r' = rg_control r \<and>
      fs_identity_epoch (rg_flights ?r') = fs_identity_epoch (rg_flights r)"
    by (simp add: ensure_admit_def Let_def split: option.splits prod.splits)
  moreover have "rg_workers r = []" if "\<not> fs_admission_paused (rg_flights r)"
    using assms that by (auto simp: pub_inv_def worker_inv_def split: list.splits)
  ultimately have "pub_inv ?r' \<and> advances r ?r'"
  proof (cases "?r' = r")
    case True
    then show ?thesis using assms by simp
  qed (use assms in \<open>auto simp: pub_inv_def advances_def\<close>)
  then show "pub_inv ?r'" "advances r ?r'" by simp_all
qed

lemma start_verification_pub:
  assumes "pub_inv r"
  shows "pub_inv (start_verification r t playback)" "advances r (start_verification r t playback)"
  by (rule pub_inv_cong [OF assms]; simp add: start_verification_def split: option.splits)+

lemma task_pub:
  assumes "pub_inv r"
  shows "pub_inv (spawn_verification r t)" "advances r (spawn_verification r t)"
    "pub_inv (poll_permits r t timed_out)" "advances r (poll_permits r t timed_out)"
    "pub_inv (leave_queue r t)" "advances r (leave_queue r t)"
    "pub_inv (finish_flight r t answer)" "advances r (finish_flight r t answer)"
    "pub_inv (begin_shutdown r)" "advances r (begin_shutdown r)"
    "pub_inv (shutdown_flights r)" "advances r (shutdown_flights r)"
  by (rule pub_inv_cong [OF assms]; simp add: spawn_verification_def poll_permits_def leave_queue_def
      decrement_queued_def finish_flight_def Let_def begin_shutdown_def shutdown_flights_def)+

lemma shutdown_tasks:
  assumes "reg_tasks_inv r"
  shows "reg_tasks_inv (begin_shutdown r)" "reg_tasks_inv (shutdown_flights r)"
  using assms by (auto simp: begin_shutdown_def shutdown_flights_def intro: tasks_inv_fs_cong)

lemma registry_inv_step:
  assumes "registry_step kb r r'" "registry_inv r"
  shows "registry_inv r' \<and> advances r r'"
  using assms
proof (induction rule: registry_step.induct)
  case rs_start_refresh
  then show ?case using start_refresh_inv by blast
next
  case rs_spawn_refresh
  then show ?case using spawn_refresh_inv by blast
next
  case rs_worker_proceeds
  then show ?case using worker_proceeds_inv by blast
next
  case rs_run_refresh
  then show ?case using run_refresh_inv by blast
qed (auto simp: registry_inv_def ensure_admit_tasks ensure_admit_pub spawn_verification_tasks task_pub
    poll_permits_tasks leave_queue_tasks start_verification_tasks start_verification_pub end_verification_tasks
    end_verification_pub finish_flight_tasks shutdown_tasks)

interpretation registry_system: invariant_system registry_init "registry_step key_before" registry_inv for key_before
proof unfold_locales
  fix r
  assume "registry_init r"
  then show "registry_inv r"
    by (auto simp: registry_init_def registry_new_def registry_inv_def tasks_inv_def flights_agree_def
        semaphores_agree_def permits_agree_def flight_state_new_def pub_inv_def uninitialized_wf distinct_keys_def)
      (simp_all add: snapshot_uninitialized_def)
next
  fix r r'
  assume "registry_inv r" "registry_step key_before r r'"
  then show "registry_inv r'" using registry_inv_step by blast
qed

lemma reach_registry: "reach registry_init (registry_step kb) r \<Longrightarrow> registry_inv r"
  by (rule registry_system.reach_inv)

lemma filter_one_unique:
  assumes "length (filter P xs) \<le> 1" "x \<in> set xs" "y \<in> set xs" "P x" "P y"
  shows "x = y"
proof (rule ccontr)
  assume "x \<noteq> y"
  then have "2 \<le> card {x, y}" by simp
  also have "\<dots> \<le> card (set (filter P xs))" using assms by (intro card_mono) auto
  also have "\<dots> \<le> length (filter P xs)" by (rule card_length)
  finally show False using assms(1) by simp
qed



section \<open>Merging keeps the snapshot publishable\<close>

lemma prune_map_of: "map_of (prune_map now ev) k = map_option (\<lambda>e. prune_expired e now) (map_of ev k)"
  by (induction ev) (auto simp: prune_map_def)

lemma oldest_key_member: "oldest_key kb ev = Some k \<Longrightarrow> k \<in> fst ` set ev"
proof (cases ev)
  case (Cons e es)
  have "foldl (\<lambda>m x. if observed_before kb x m then x else m) e es \<in> set (e # es)"
    by (induction es arbitrary: e) auto
  then show "oldest_key kb ev = Some k \<Longrightarrow> k \<in> fst ` set ev" by (auto simp: Cons)
qed simp

lemma delete_length: "k \<in> fst ` set al \<Longrightarrow> length (AList.delete k al) < length al"
  by (induction al) (auto simp: le_imp_less_Suc length_delete_le)

lemma update_length: "length (AList.update k v al) \<le> Suc (length al)"
  by (induction al) auto

lemma apply_outcome_key: "er_key (fst (apply_outcome e res now)) = er_key e"
  by (cases "vr_outcome res")
    (simp_all add: apply_outcome_def apply_terminal_def Let_def split: sum.split option.split)

lemma apply_result_key: "er_key (fst (apply_result e res mode now)) = er_key e"
proof (cases "validate_at res now")
  case (Inr u)
  obtain e2 x where a: "apply_outcome (prune_expired e now) res now = (e2, x)" by fastforce
  then have "er_key e2 = er_key e" using apply_outcome_key [of "prune_expired e now" res now] by simp
  then show ?thesis by (cases x) (simp_all add: apply_result_def Inr a)
qed (simp add: apply_result_def)

definition retained :: "snapshot \<Rightarrow> state_now \<Rightarrow> evidence_map" where
  "retained s now = retain_current s (prune_map now (sn_evidence s))"

definition existing_record :: "snapshot \<Rightarrow> capability_key \<Rightarrow> state_now \<Rightarrow> capability_evidence" where
  "existing_record s key now = (case map_of (retained s now) key of None \<Rightarrow> record_new key | Some e \<Rightarrow> e)"

lemma retained_entries:
  assumes "snapshot_wf s" "x \<in> set (retained s now)"
  shows "entry_wf s x" "all_current (snd x) now"
proof -
  obtain k e where x: "x = (k, prune_expired e now)" "(k, e) \<in> set (sn_evidence s)"
    using assms(2) by (auto simp: retained_def retain_current_def prune_map_def)
  then have "entry_wf s (k, e)" using assms(1) by (auto simp: snapshot_wf_def list_all_iff)
  then show "entry_wf s x" by (auto simp: x(1) entry_wf_def prune_expired_wf)
  show "all_current (snd x) now" by (simp add: x(1) prune_expired_current)
qed

lemma retained_length: "snapshot_wf s \<Longrightarrow> length (retained s now) \<le> MAX_EVIDENCE"
  unfolding retained_def retain_current_def
  by (rule order_trans [OF length_filter_le]) (simp add: prune_map_def snapshot_wf_def)

lemma existing_record_wf:
  assumes "snapshot_wf s"
  shows "record_wf (existing_record s key now)" "er_key (existing_record s key now) = key"
proof -
  have "record_wf e \<and> er_key e = key" if "map_of (retained s now) key = Some e" for e
    using retained_entries [OF assms map_of_SomeD [OF that]] by (simp add: entry_wf_def)
  then show "record_wf (existing_record s key now)" "er_key (existing_record s key now) = key"
    using record_new_wf [of key] by (auto simp: existing_record_def record_new_def split: option.splits)
qed

lemma merged_snapshot_ok:
  assumes wf: "snapshot_wf s" and ad: "admits s key" and m: "now_monotonic_ms now \<le> MAX_SAFE_INTEGER"
    and ap: "apply_result (existing_record s key now) verified ActiveInjected now = (e', Inr KeepRecord)"
    and rest: "set rest \<subseteq> set (retained s now)" "length rest < MAX_EVIDENCE"
    and rev: "sn_publication_revision s < MAX_SAFE_INTEGER"
  shows "from_parts (sn_freshness s) (sn_identity_epoch s) (Suc (sn_publication_revision s)) (sn_runtime s)
      (sn_devices s) (sn_candidates s) (AList.update key e' rest) now =
    Inr (s\<lparr>sn_publication_revision := Suc (sn_publication_revision s), sn_evidence := AList.update key e' rest\<rparr>)"
proof -
  let ?s = "s\<lparr>sn_publication_revision := Suc (sn_publication_revision s), sn_evidence := AList.update key e' rest\<rparr>"
  have fr: "sn_freshness s = Fresh" and v: "key_is_valid key" and i: "key_identity_matches s key"
    and p: "has_static_prerequisites s key = Some True"
    using ad by (simp_all add: admits_def key_is_current_def)
  have "wf_at e' now" using existing_record_wf(1) [OF wf] m ap by (rule apply_keep_current)
  moreover have "er_key e' = key"
    using apply_result_key [of "existing_record s key now" verified ActiveInjected now] ap existing_record_wf(2) [OF wf]
    by simp
  ultimately have e': "entry_wf s (key, e')" "all_current e' now"
    using v i p by (simp_all add: entry_wf_def wf_at_def)
  have entry: "entry_wf s x \<and> all_current (snd x) now" if "x \<in> set (AList.update key e' rest)" for x
  proof -
    have "x = (key, e') \<or> x \<in> set rest" using that by (induction rest) (auto split: if_splits)
    then show ?thesis using e' retained_entries [OF wf, of x now] rest(1) by auto
  qed
  have "sn_runtime s \<noteq> None" using i by (auto simp: key_identity_matches_def is_some_and_iff)
  moreover have "entry_wf ?s = entry_wf s" "candidate_ok ?s = candidate_ok s"
    using key_tests_cong [of ?s s] by simp_all
  moreover have "length (AList.update key e' rest) \<le> MAX_EVIDENCE"
    using update_length [of key e' rest] rest(2) by linarith
  moreover have "list_all (entry_wf s) (AList.update key e' rest)"
    "evidence_current (AList.update key e' rest) now"
    using entry by (auto simp: list_all_iff evidence_current_def)
  ultimately have "snapshot_wf ?s" "evidence_current (sn_evidence ?s) now"
    using wf rev fr by (simp_all add: snapshot_wf_def frame_wf_def)
  then show ?thesis by (simp add: from_parts_Inr)
qed

lemma system_clock_bound:
  assumes "system_clock_now w m = Inr now"
  shows "now_monotonic_ms now \<le> MAX_SAFE_INTEGER"
  using assms by (auto simp: system_clock_now_def state_now_new_def rbind_Inr_iff rbind_Inl_iff
      split: option.splits if_splits sum.splits)

lemma merged_evidence_room:
  assumes wf: "snapshot_wf s"
    and ap: "apply_result (existing_record s key now) verified ActiveInjected now = (e', Inr KeepRecord)"
  obtains rest evicted where "merged_evidence kb s key verified now = Inr (AList.update key e' rest)"
    "length rest < MAX_EVIDENCE" "set rest \<subseteq> set (retained s now)" "card evicted \<le> 1"
    "length (retained s now) < MAX_EVIDENCE \<longrightarrow> evicted = {}"
    "\<forall>k. k \<noteq> key \<longrightarrow> map_of rest k = (if k \<in> evicted then None else map_of (retained s now) k)"
proof -
  let ?d = "AList.delete key (retained s now)"
  have le: "length (retained s now) \<le> MAX_EVIDENCE" using wf by (rule retained_length)
  have sub: "set ?d \<subseteq> set (retained s now)" by (auto simp: delete_set)
  have dle: "length ?d \<le> length (retained s now)" by (rule length_delete_le)
  have m: "merged_evidence kb s key verified now =
     (if map_of (retained s now) key = None \<and> MAX_EVIDENCE \<le> length ?d
      then (case oldest_key kb ?d of None \<Rightarrow> Inl (non_passing VerificationCapacity)
            | Some evict \<Rightarrow> Inr (AList.update key e' (AList.delete evict ?d)))
      else Inr (AList.update key e' ?d))"
    using ap by (simp add: merged_evidence_def Let_def retained_def [symmetric] existing_record_def [symmetric])
  show ?thesis
  proof (cases "map_of (retained s now) key = None \<and> MAX_EVIDENCE \<le> length ?d")
    case True
    then have "?d \<noteq> []" by (auto simp: MAX_EVIDENCE_def)
    then obtain evict where o: "oldest_key kb ?d = Some evict" by (cases ?d) simp_all
    have "length (AList.delete evict ?d) < MAX_EVIDENCE"
      using delete_length [OF oldest_key_member [OF o]] dle le by linarith
    then show ?thesis
      using that [of "AList.delete evict ?d" "{evict}"] m True o sub dle
      by (auto simp: delete_set delete_conv')
  next
    case False
    have "length ?d < MAX_EVIDENCE"
    proof (cases "map_of (retained s now) key")
      case None
      then show ?thesis using False by simp
    next
      case (Some e)
      then have "key \<in> fst ` set (retained s now)" by (metis domI dom_map_of_conv_image_fst)
      then show ?thesis using delete_length le by fastforce
    qed
    then show ?thesis using that [of ?d "{}"] m False sub by (auto simp: delete_conv')
  qed
qed

text \<open>
  Property C38.  A result that the record of a key accepts is published, whatever well-formed snapshot
  it is merged into: the revalidation of the whole snapshot can not refuse it.  Afterwards the key
  has the new record, every other entry is as it was, pruned, or gone, and none that was current
  and observed is gone unless the map was full; then at most one is.
\<close>

theorem merging_publishes_the_result:
  assumes wf: "snapshot_wf s"
    and run: "\<not> rg_capacity_exhausted r" "system_clock_now w m = Inr now"
    and s: "s = rg_snapshot r" "admits s key" "sn_publication_revision s < MAX_SAFE_INTEGER"
    and ap: "apply_result (existing_record s key now) verified ActiveInjected now = (e', Inr KeepRecord)"
    and r': "merge_verification key_before r key (sn_identity_epoch s) verified (system_clock_now w m) = (r', answer)"
  shows "answer = from_outcome (vr_outcome verified) \<and>
    sn_publication_revision (rg_snapshot r') = Suc (sn_publication_revision s) \<and>
    map_of (sn_evidence (rg_snapshot r')) key = Some e' \<and>
    length (sn_evidence (rg_snapshot r')) \<le> MAX_EVIDENCE \<and> evidence_current (sn_evidence (rg_snapshot r')) now \<and>
    (\<exists>evicted. card evicted \<le> 1 \<and> (length (retained s now) < MAX_EVIDENCE \<longrightarrow> evicted = {}) \<and>
       (\<forall>k. k \<noteq> key \<longrightarrow>
          map_of (sn_evidence (rg_snapshot r')) k = (if k \<in> evicted then None else map_of (retained s now) k)))"
proof -
  have m: "now_monotonic_ms now \<le> MAX_SAFE_INTEGER" using run(2) by (rule system_clock_bound)
  let ?d = "AList.delete key (retained s now)"
  obtain rest evicted where ev: "merged_evidence key_before s key verified now = Inr (AList.update key e' rest)"
    and rest: "length rest < MAX_EVIDENCE" "set rest \<subseteq> set (retained s now)"
    and evicted: "card evicted \<le> 1" "length (retained s now) < MAX_EVIDENCE \<longrightarrow> evicted = {}"
      "\<forall>k. k \<noteq> key \<longrightarrow> map_of rest k = (if k \<in> evicted then None else map_of (retained s now) k)"
    using merged_evidence_room [OF wf ap] by metis
  let ?s' = "s\<lparr>sn_publication_revision := Suc (sn_publication_revision s), sn_evidence := AList.update key e' rest\<rparr>"
  have parts: "from_parts (sn_freshness s) (sn_identity_epoch s) (Suc (sn_publication_revision s)) (sn_runtime s)
      (sn_devices s) (sn_candidates s) (AList.update key e' rest) now = Inr ?s'"
    using merged_snapshot_ok [OF wf s(2) m ap rest(2,1) s(3)] .
  have "option_filter (\<lambda>v. v \<le> MAX_SAFE_INTEGER) (checked_add_u64 (sn_publication_revision s) 1) =
      Some (Suc (sn_publication_revision s))"
    using s(3) by (simp add: checked_add_u64_def MAX_SAFE_INTEGER_def option_filter_def)
  then have "rg_snapshot r' = ?s'" "answer = from_outcome (vr_outcome verified)"
    using r' by (auto simp: merge_verification_def Let_def run s(1) [symmetric] s(2) ev parts)
  moreover have "snapshot_wf ?s'" "evidence_current (AList.update key e' rest) now"
    using parts by (simp_all add: from_parts_Inr)
  moreover have "map_of (AList.update key e' rest) k = (if k = key then Some e' else map_of rest k)" for k
    by (simp add: update_conv')
  ultimately show ?thesis using evicted by (auto simp: snapshot_wf_def)
qed

section \<open>Expired evidence and the rate limit\<close>

lemma from_parts_expired:
  assumes "(k, e) \<in> set ev" "\<not> all_current e now"
  obtains err where "from_parts f ep rv rt ds cs ev now = Inl err"
proof (cases "from_parts f ep rv rt ds cs ev now")
  case (Inr s)
  then have "evidence_current (sn_evidence s) now" "sn_evidence s = ev" by (simp_all add: from_parts_Inr)
  then show ?thesis using assms by (auto simp: evidence_current_def list_all_iff)
qed (rule that)

definition refresh_window_open :: "registry \<Rightarrow> refresh_cause \<Rightarrow> state_now \<Rightarrow> bool" where
  "refresh_window_open r cause now \<longleftrightarrow>
     \<not> rg_shutdown r \<and> \<not> rg_capacity_exhausted r \<and> rc_running (rg_control r) = None \<and>
     (cause = Startup \<longrightarrow> rc_startup_id (rg_control r) = None) \<and>
     (cause = Manual \<longrightarrow> pred_option (\<lambda>t. MANUAL_REFRESH_WINDOW_MS \<le> now_monotonic_ms now - t)
                          (rc_last_manual_monotonic_ms (rg_control r)))"

lemma start_refresh_open:
  assumes "refresh_window_open r cause now"
  shows "start_refresh r cause (Inr now) clock' status = start_refresh_admitted r cause now clock' status"
  using assms by (cases cause; auto simp: start_refresh_def Let_def refresh_window_open_def split: option.splits)

text \<open>
  Property C39.  Evidence is pruned when results are merged, but not when a refresh begins or fails.
  So one expired record among the published evidence makes every refresh be rejected as missing a
  prerequisite, with the registry left as it was, at that moment and at all later ones; and if
  the record expires while a refresh runs and that refresh fails, its failure is not published:
  the snapshot stays marked as refreshing and the metadata as running.
\<close>

theorem expired_evidence_blocks_refresh:
  assumes e: "(k, e) \<in> set ev" "er_correctness e = Some ob" "ob_expires_at ob \<le> now_wall now"
    and later: "now_wall now \<le> now_wall now'"
  shows "(sn_evidence (rg_snapshot r) = ev \<and> refresh_window_open r cause now' \<and>
      fs_terminal_reason (rg_flights r) = None \<and> fs_identity_epoch (rg_flights r) < MAX_SAFE_INTEGER \<and>
      sn_publication_revision (rg_snapshot r) < MAX_SAFE_INTEGER \<and> rc_next_id (rg_control r) < MAX_SAFE_INTEGER \<longrightarrow>
      start_refresh r cause (Inr now') (Inr now') status = (r, Rejected VerificationPrerequisiteMissing)) \<and>
    (sn_evidence previous = ev \<and> rr_admitted_revision running < MAX_SAFE_INTEGER \<longrightarrow>
      rg_snapshot (publish_failed_refresh r running previous cancelled reason (Inr now') status) = rg_snapshot r \<and>
      rg_refresh (publish_failed_refresh r running previous cancelled reason (Inr now') status) = rg_refresh r)"
proof -
  have old: "\<not> all_current e now'" using e(2,3) later by (simp add: all_current_def observation_is_current_def)
  have safe: "next_safe n = Some (Suc n)" if "n < MAX_SAFE_INTEGER" for n
    using that by (simp add: next_safe_Some)
  have admission: "start_refresh r cause (Inr now') (Inr now') status = (r, Rejected VerificationPrerequisiteMissing)"
    if "sn_evidence (rg_snapshot r) = ev" "refresh_window_open r cause now'"
      "fs_terminal_reason (rg_flights r) = None" "fs_identity_epoch (rg_flights r) < MAX_SAFE_INTEGER"
      "sn_publication_revision (rg_snapshot r) < MAX_SAFE_INTEGER" "rc_next_id (rg_control r) < MAX_SAFE_INTEGER"
  proof -
    have run: "\<not> rg_shutdown r" "\<not> rg_capacity_exhausted r" using that(2) by (simp_all add: refresh_window_open_def)
    obtain err where "from_parts Refreshing (Suc (fs_identity_epoch (rg_flights r)))
        (Suc (sn_publication_revision (rg_snapshot r))) (sn_runtime (rg_snapshot r)) (sn_devices (rg_snapshot r))
        (sn_candidates (rg_snapshot r)) ev now' = Inl err"
      using from_parts_expired [OF e(1) old] .
    then have "admit_refresh_invalidation r (Suc (rc_next_id (rg_control r))) cause (Inr now') status =
        (r, Inl VerificationPrerequisiteMissing)"
      using that run by (simp add: admit_refresh_invalidation_def Let_def safe)
    then show ?thesis using that by (simp add: start_refresh_open start_refresh_admitted_def safe)
  qed
  have failure: "rg_snapshot (publish_failed_refresh r running previous cancelled reason (Inr now') status) = rg_snapshot r \<and>
      rg_refresh (publish_failed_refresh r running previous cancelled reason (Inr now') status) = rg_refresh r"
    if "sn_evidence previous = ev" "rr_admitted_revision running < MAX_SAFE_INTEGER"
  proof -
    obtain err where "from_parts Stale (rr_epoch running) (Suc (rr_admitted_revision running)) (sn_runtime previous)
        (sn_devices previous) (sn_candidates previous) ev now' = Inl err"
      using from_parts_expired [OF e(1) old] .
    then show ?thesis
      using that by (simp add: publish_failed_refresh_def safe finish_refresh_control_def resume_after_refresh_def)
  qed
  show ?thesis by (intro conjI impI; elim conjE) (simp add: admission, simp_all add: failure)
qed

lemma div_ceil_least:
  assumes "0 < b"
  shows "a \<le> b * div_ceil a b" "\<And>n. a \<le> b * n \<Longrightarrow> div_ceil a b \<le> n"
proof -
  have ab: "a = b * (a div b) + a mod b" by simp
  have lt: "a mod b < b" using assms by simp
  show "a \<le> b * div_ceil a b"
  proof (cases "a mod b = 0")
    case False
    have "a \<le> b * (a div b) + b" using ab lt by linarith
    then show ?thesis using False by (simp add: div_ceil_def)
  qed (use ab in \<open>simp add: div_ceil_def\<close>)
  fix n
  assume n: "a \<le> b * n"
  show "div_ceil a b \<le> n"
  proof (cases "a mod b = 0")
    case True
    then have "b * (a div b) \<le> b * n" using n ab by linarith
    then show ?thesis using True assms by (simp add: div_ceil_def)
  next
    case False
    then have "b * (a div b) < b * n" using n ab by linarith
    then show ?thesis using False assms by (simp add: div_ceil_def Suc_leI)
  qed
qed

text \<open>
  The answer of the rate limit is exact: while a manual refresh is refused for the
  time since the last one, the seconds it names are between 1 and 60, waiting them is enough not
  to be refused for this reason again, and waiting any smaller whole number of seconds is not;
  the monotonic clock does not run backwards.
\<close>

theorem retry_after_is_exact:
  assumes "start_refresh r Manual (Inr now) clock' status = (r', RateLimited s)"
    "now_monotonic_ms later = now_monotonic_ms now + 1000 * n"
    and clock: "pred_option (\<lambda>t. t \<le> now_monotonic_ms now) (rc_last_manual_monotonic_ms (rg_control r))"
  shows "r' = r \<and> 1 \<le> s \<and> s \<le> 60 \<and>
    ((\<exists>s'. start_refresh r Manual (Inr later) clock'' status = (r, RateLimited s')) \<longleftrightarrow> n < s)"
proof -
  let ?m = "now_monotonic_ms now"
  obtain t where t: "\<not> rg_shutdown r" "\<not> rg_capacity_exhausted r" "rc_running (rg_control r) = None"
      "rc_last_manual_monotonic_ms (rg_control r) = Some t" "?m - t < MANUAL_REFRESH_WINDOW_MS"
      "s = div_ceil (MANUAL_REFRESH_WINDOW_MS - (?m - t)) 1000" "r' = r"
    using assms(1)
    by (auto simp: start_refresh_def start_refresh_admitted_def Let_def split: if_splits option.splits prod.splits sum.splits)
  have least: "MANUAL_REFRESH_WINDOW_MS - (?m - t) \<le> 1000 * i \<longleftrightarrow> s \<le> i" for i
    using div_ceil_least [of 1000 "MANUAL_REFRESH_WINDOW_MS - (?m - t)"] unfolding t(6)
    by (meson dual_order.trans mult_le_mono2 zero_less_numeral)
  have other: "start_refresh_admitted r Manual later clock'' status \<noteq> (r, RateLimited s')" for s'
    by (auto simp: start_refresh_admitted_def Let_def split: option.splits prod.splits sum.splits)
  have "(\<exists>s'. start_refresh r Manual (Inr later) clock'' status = (r, RateLimited s')) \<longleftrightarrow>
      now_monotonic_ms later - t < MANUAL_REFRESH_WINDOW_MS"
    using t other by (auto simp: start_refresh_def Let_def)
  also have "\<dots> \<longleftrightarrow> n < s"
    using least [of n] t(4,5) assms(2) clock by auto
  finally show ?thesis using t(5,7) least [of 0] least [of 60] by (simp add: MANUAL_REFRESH_WINDOW_MS_def)
qed

section \<open>Witnesses\<close>



definition sample_inventory :: runtime_inventory where
  "sample_inventory = \<lparr>inv_runtime_id = replicate 32 9, inv_runtime_kind = Jellyfin, inv_safe_version = \<lparr>sv_ffmpeg = Some ''7'', sv_jellyfin_revision = None\<rparr>,
     inv_accelerators = {}, inv_decoders = {}, inv_encoders = {},
     inv_filters = {ScaleQsv, FilterHardwareUpload}, inv_unknown_counts = no_unknowns\<rparr>"

definition sample_device :: transcoding_device where
  "sample_device = \<lparr>td_id = ''gpu1_x'', td_display_name = points ''GPU 7'', td_vendor = Amd, td_class = Discrete,
     td_availability = Available, td_backends = {Qsv}, td_identity = [1], td_locator = pd_locator sample_gpu,
     td_driver_identity = sample_driver\<rparr>"

definition sample_snapshot :: snapshot where
  "sample_snapshot = \<lparr>sn_freshness = Fresh, sn_identity_epoch = 3, sn_publication_revision = 8,
     sn_runtime = Some sample_inventory, sn_devices = [sample_device],
     sn_candidates = [(''gpu1_x'', Qsv, ListedH264, ListedDecode)], sn_evidence = []\<rparr>"

definition sample_registry :: registry where
  "sample_registry = (registry_new StWritable)\<lparr>rg_snapshot := sample_snapshot\<rparr>"

lemmas sample_snapshot_defs = sample_registry_def sample_snapshot_def sample_device_def sample_inventory_def

lemma sample_admits: "admits sample_snapshot sample_key"
proof -
  have "key_is_valid sample_key"
    using sample_operation_valid by (simp add: key_is_valid_iff sample_key_def key_direction_def sample_operation_def)
  moreover have "has_static_prerequisites sample_snapshot sample_key = Some True"
    by (simp add: has_static_prerequisites_def static_prerequisites_def sample_key_def sample_operation_def
        sample_input_def sample_requirements_def sample_snapshot_defs requirements_listed_def)
  ultimately show ?thesis
    by (simp add: admits_def key_is_current_def key_identity_matches_def sample_snapshot_defs sample_key_def)
qed

lemma sample_snapshot_wf: "snapshot_wf sample_snapshot"
  by (simp add: snapshot_wf_def frame_wf_def sample_snapshot_defs candidate_ok_def snapshot_limits MAX_SAFE_INTEGER_def)

theorem merging_publishes_the_result_witness:
  "map_of (sn_evidence (rg_snapshot (fst (merge_verification (\<lambda>_ _. False) sample_registry sample_key 3 sample_passed
      (system_clock_now (Some 2000000) 500))))) sample_key \<noteq> None"
proof -
  have now: "system_clock_now (Some 2000000) 500 = Inr sample_now"
    by (simp add: system_clock_now_def sample_now_new ts_new_def MAX_SAFE_INTEGER_def)
  have "existing_record sample_snapshot sample_key sample_now = record_new sample_key"
    by (simp add: existing_record_def retained_def retain_current_def prune_map_def sample_snapshot_def)
  then have ap: "apply_result (existing_record sample_snapshot sample_key sample_now) sample_passed ActiveInjected sample_now =
     ((record_new sample_key)\<lparr>er_correctness := Some (sample_observation Correctness CorrectnessPassed)\<rparr>, Inr KeepRecord)"
    by (simp add: sample_apply)
  have r: "sample_snapshot = rg_snapshot sample_registry" "\<not> rg_capacity_exhausted sample_registry"
    "sn_publication_revision sample_snapshot < MAX_SAFE_INTEGER" "sn_identity_epoch sample_snapshot = 3"
    by (simp_all add: sample_snapshot_defs registry_new_def MAX_SAFE_INTEGER_def)
  from merging_publishes_the_result [OF sample_snapshot_wf r(2) now r(1) sample_admits r(3) ap surjective_pairing]
  show ?thesis by (simp add: r(4))
qed

definition expired_registry :: registry where
  "expired_registry = sample_registry\<lparr>rg_snapshot := sample_snapshot\<lparr>sn_evidence :=
     [(sample_key, (record_new sample_key)\<lparr>er_correctness := Some (sample_observation Correctness CorrectnessPassed)\<rparr>)]\<rparr>\<rparr>"

theorem expired_evidence_blocks_refresh_witness:
  "start_refresh expired_registry Manual (Inr \<lparr>now_wall = 1000000 + 10 ^ 12, now_monotonic_ms = 500\<rparr>)
     (Inr \<lparr>now_wall = 1000000 + 10 ^ 12, now_monotonic_ms = 500\<rparr>) StWritable =
   (expired_registry, Rejected VerificationPrerequisiteMissing)"
proof -
  let ?now = "\<lparr>now_wall = 1000000 + 10 ^ 12, now_monotonic_ms = 500\<rparr>"
  let ?e = "(record_new sample_key)\<lparr>er_correctness := Some (sample_observation Correctness CorrectnessPassed)\<rparr>"
  have ob: "ob_expires_at (sample_observation Correctness CorrectnessPassed) \<le> now_wall ?now"
    by (simp add: sample_defs evidence_constants)
  have "refresh_window_open expired_registry Manual ?now"
    by (simp add: refresh_window_open_def expired_registry_def sample_registry_def registry_new_def)
  moreover have mem: "(sample_key, ?e) \<in> set [(sample_key, ?e)]"
    and passed: "er_correctness ?e = Some (sample_observation Correctness CorrectnessPassed)"
    by simp_all
  ultimately show ?thesis
    using expired_evidence_blocks_refresh [OF mem passed ob order_refl, of expired_registry Manual StWritable]
    by (simp add: expired_registry_def sample_registry_def sample_snapshot_def registry_new_def flight_state_new_def
        MAX_SAFE_INTEGER_def)
qed

definition limited_registry :: registry where
  "limited_registry = (registry_new StWritable)\<lparr>rg_control :=
     \<lparr>rc_next_id = 1, rc_running = None, rc_startup_id = None, rc_last_manual_monotonic_ms = Some 0\<rparr>\<rparr>"

theorem retry_after_is_exact_witness:
  "\<exists>s'. start_refresh limited_registry Manual (Inr \<lparr>now_wall = 0, now_monotonic_ms = 49500\<rparr>) (Inl CapacityExhausted)
     StWritable = (limited_registry, RateLimited s')"
  using retry_after_is_exact [of limited_registry "\<lparr>now_wall = 0, now_monotonic_ms = 500\<rparr>" "Inl CapacityExhausted"
      StWritable limited_registry 60 "\<lparr>now_wall = 0, now_monotonic_ms = 49500\<rparr>" 49 "Inl CapacityExhausted"]
  by (simp add: start_refresh_def limited_registry_def registry_new_def div_ceil_def MANUAL_REFRESH_WINDOW_MS_def)

end
