(* ===== verification/Spec2Isabelle.thy ===== *)
theory Spec2Isabelle
  imports ProxyFetch PlaybackState Registry
begin

text \<open>
  Verification library of the streaming server: a Rust program that serves torrents and remote media
  to a player.  Three of its parts carry the logic that has to be right and are modelled here; the
  rest is listed at the end.

  \<^bold>\<open>The parts and how they interact.\<close>  (1) The outbound proxy (\<open>server/src/network_security\<close>,
  \<open>server/src/routes/proxy.rs\<close>) fetches URLs on behalf of clients.  A request is admitted by the
  runtime, its suffix is parsed, every hop is validated against the destination policy before a
  connection is made, a playlist is collected, rewritten so that its references go through the proxy
  again and delivered from memory, and any other body is streamed through a one-place handoff.
  (2) The playback side of the torrent engine (\<open>enginefs/src/backend\<close>) decides which pieces to
  download first and coordinates the readers of a torrent.  (3) The capability registry
  (\<open>server/src/transcoding\<close>) finds out what the devices and the ffmpeg build of a machine can
  transcode, verifies it, and publishes the evidence.  The parts do not share state; inside each part
  a theory imports the ones whose operations it calls.

  \<^bold>\<open>Theories, in the order of imports.\<close>
  \<^item> \<open>Prelude\<close>, \<open>RustStr\<close>: fixed-width arithmetic, results, strings as bytes; the locale
    \<open>invariant_system\<close>, interpreted for each state machine below.
  \<^item> \<open>IpPolicy\<close> (\<open>ip.rs\<close>): classification of addresses, embedded IPv4, NAT64.  The classification is a
    join that wrapping an address cannot weaken; metadata endpoints are blocked in every encoding.
  \<^item> \<open>Destination\<close> (\<open>resolver.rs\<close>): the validator with its NAT64 cache.  A returned destination pins only
    admitted addresses; discovery accepts only corroborated prefixes.
  \<^item> \<open>ProxyRuntime\<close> (\<open>runtime.rs\<close>): admission pools (locale \<open>admission_pool\<close>, interpreted twice), policy
    generations, hop marker.  Counters are exact under every interleaving, no destructor panics, and a
    reconfiguration never exposes more than both policies allow.
  \<^item> \<open>ProxyRequest\<close> (\<open>proxy.rs\<close>): parsing, header rules, response headers.
  \<^item> \<open>Playlist\<close> (\<open>proxy.rs\<close>): the playlist rewriter.  It equals a piecewise reference rewriter, changes only
    references, stays below 16 MiB, and its links parse back to what they stand for.
  \<^item> \<open>ProxyBody\<close> (\<open>proxy.rs\<close>): the handoff of a body as a step relation.  Bodies arrive whole or with
    exactly one error, and no side sleeps through a change.
  \<^item> \<open>ProxyFetch\<close> (\<open>proxy.rs\<close>): the redirect loop and the handlers.  Every hop is admitted, secrets stay at
    their origin, and every path gives its permits back.
  \<^item> \<open>Priorities\<close> (\<open>priorities.rs\<close>): the piece-priority policy with its casts.  Plans are bounded and serve
    the current piece first.
  \<^item> \<open>PriorityWindows\<close>, \<open>PlaybackState\<close> (\<open>libtorrent/playback.rs\<close>): the windows of several readers, refined to
    the pointwise merge of all of them, and the coordinator as a step relation with exact permit counts.
  \<^item> \<open>MediaModel\<close>, \<open>Identity\<close>, \<open>Inventory\<close>, \<open>CapabilityKey\<close>, \<open>Devices\<close> (\<open>codec.rs\<close>, \<open>model.rs\<close>,
    \<open>device/identity.rs\<close>, \<open>inventory.rs\<close>, \<open>capability/key.rs\<close>, \<open>device/mod.rs\<close>): the vocabulary of
    capabilities, parsers and validating constructors with their round trips.
  \<^item> \<open>Evidence\<close> (\<open>capability/state.rs\<close>): the evidence record; no operation reaches an impossible state, and
    what is stored is read back.
  \<^item> \<open>Snapshot\<close>, \<open>Registry\<close> (\<open>capability/registry.rs\<close>): the published snapshot, and the registry as a step
    relation: bounded concurrency, ownership of a refresh, publication of results.

  \<^bold>\<open>State and operations.\<close>  A struct is a record with the fields of the source, an enum a datatype, a
  \<open>Result\<close> a sum with the error on the left.  A section under a mutex, or the code between two
  awaits, is one function on the state; tasks are phases in a step relation, so an interleaving is a
  sequence of steps.  Names follow the source.  Panics are \<open>None\<close>.  Code outside the repository is a
  parameter: \<open>ipnet_api\<close>, \<open>url_api\<close> and \<open>proxy_url_api\<close>, \<open>header_api\<close>, the digests and codecs of
  \<open>Identity\<close>; what a property relies on of them is a named contract (\<open>ipnet_contract\<close>,
  \<open>url_contract\<close>, \<open>header_contract\<close>, \<open>redirect_url_contract\<close>) for which a concrete instance is given.
  DNS answers, clocks, upstream replies, devices and what other tasks do are inputs.

  \<^bold>\<open>Bounds and recursion.\<close>  There is no fuel: every loop is a structural recursion or has a measure.
  The redirect loop is measured by the redirects that are left (six requests at most), the scanners by
  the text that is left, the generator of placeholders by its 46656 candidates.  Unsigned numbers are
  natural numbers with checked, saturating or wrapping operations written out, \<open>i32\<close> wraps, addresses
  are words.

  \<^bold>\<open>Not modelled.\<close>  Capability storage, process supervision, probing, media sources and the platform
  enumerators are I/O whose results are inputs of the registry; the wire format mirrors modelled types.
  In \<open>proxy.rs\<close> the slot through which the rewriting thread returns its job is reduced to how the wait
  for it ends, and an allocation that fails is left out.  The other HTTP routes, the engine and its
  native backends, caches, the updater, archives, the local add-on, user interfaces, diagnostics,
  external tools and bindings are glue over I/O or third-party libraries.
\<close>

section \<open>Properties across components\<close>



end
